(* ===== verification/Go_Prelude.thy ===== *)
theory Go_Prelude
  imports Main "HOL-Library.Word" "HOL-Library.Sublist" "HOL-Library.AList"
begin

text \<open>
  Shared ground of the development: what the Go sources use of the language and its
  standard library (byte strings, maps, errors, panics), and the generic lemmas on them.

  \<^item> A Go \<open>string\<close> and a Go \<open>[]byte\<close> are lists of bytes, here the HOL type
    \<open>string\<close> (a \<open>char\<close> is one byte).
  \<^item> A Go \<open>map[K]V\<close> is an association list, read as: the order in which a
    \<open>range\<close> loop over it happens to visit the entries.  Go leaves that order open, so a
    statement about a ranging function holds for every such list with distinct keys.  A lookup is
    \<open>map_of\<close>, an assignment \<open>map_put\<close>.
  \<^item> An \<open>error\<close> is its message; a fallible operation returns \<open>error + value\<close>.
  \<^item> Case mapping and trimming (\<open>strings.ToLower\<close>, \<open>EqualFold\<close>, \<open>TrimSpace\<close>)
    are modelled on ASCII; bytes above 127 are left alone.
\<close>

named_theorems go_str \<open>string helpers, unfolded\<close>
named_theorems go_map \<open>lookup rules of maps\<close>

type_synonym go_error = string

type_synonym 'a result = "go_error + 'a"

type_synonym ('k, 'v) go_map = "('k \<times> 'v) list"

subsection \<open>Results\<close>

definition bind_result :: "'a result \<Rightarrow> ('a \<Rightarrow> 'b result) \<Rightarrow> 'b result" where
  "bind_result r f = (case r of Inl e \<Rightarrow> Inl e | Inr x \<Rightarrow> f x)"

lemma bind_result_simps [simp]:
  "bind_result (Inl e) f = Inl e"
  "bind_result (Inr x) f = f x"
  by (simp_all add: bind_result_def)

lemma bind_result_Inr_iff:
  "bind_result r f = Inr y \<longleftrightarrow> (\<exists>x. r = Inr x \<and> f x = Inr y)"
  by (cases r) simp_all

text \<open>A loop that stops at the first error: the results of \<open>f\<close> in order.\<close>

fun traverse :: "('a \<Rightarrow> 'b result) \<Rightarrow> 'a list \<Rightarrow> 'b list result" where
  "traverse f [] = Inr []"
| "traverse f (x # xs) =
     bind_result (f x) (\<lambda>y. bind_result (traverse f xs) (\<lambda>ys. Inr (y # ys)))"

lemma traverse_Inr_iff:
  "traverse f xs = Inr ys \<longleftrightarrow> list_all2 (\<lambda>x y. f x = Inr y) xs ys"
proof (induction xs arbitrary: ys)
  case Nil
  then show ?case by auto
next
  case (Cons x xs)
  then show ?case
    by (cases "f x"; cases ys) (auto simp: bind_result_Inr_iff)
qed

lemma traverse_length: "traverse f xs = Inr ys \<Longrightarrow> length ys = length xs"
  by (simp add: traverse_Inr_iff list_all2_lengthD)

subsection \<open>Strings\<close>

definition lower_char :: "char \<Rightarrow> char" where
  "lower_char c =
     (let n = of_char c :: nat in if 65 \<le> n \<and> n \<le> 90 then char_of (n + 32) else c)"

definition upper_char :: "char \<Rightarrow> char" where
  "upper_char c =
     (let n = of_char c :: nat in if 97 \<le> n \<and> n \<le> 122 then char_of (n - 32) else c)"

definition to_lower :: "string \<Rightarrow> string" where
  "to_lower s = map lower_char s"

definition equal_fold :: "string \<Rightarrow> string \<Rightarrow> bool" where
  "equal_fold s t \<longleftrightarrow> to_lower s = to_lower t"

definition is_space :: "char \<Rightarrow> bool" where
  "is_space c \<longleftrightarrow> c \<in> {CHR 0x09, CHR 0x0A, CHR 0x0B, CHR 0x0C, CHR 0x0D, CHR '' ''}"

definition trim_space :: "string \<Rightarrow> string" where
  "trim_space s = rev (dropWhile is_space (rev (dropWhile is_space s)))"

definition has_prefix :: "string \<Rightarrow> string \<Rightarrow> bool" where
  "has_prefix s p \<longleftrightarrow> prefix p s"

definition has_suffix :: "string \<Rightarrow> string \<Rightarrow> bool" where
  "has_suffix s p \<longleftrightarrow> suffix p s"

definition trim_suffix :: "string \<Rightarrow> string \<Rightarrow> string" where
  "trim_suffix s p = (if has_suffix s p then take (length s - length p) s else s)"

definition trim_prefix :: "string \<Rightarrow> string \<Rightarrow> string" where
  "trim_prefix s p = (if has_prefix s p then drop (length p) s else s)"

fun contains_str :: "string \<Rightarrow> string \<Rightarrow> bool" where
  "contains_str [] p = (p = [])"
| "contains_str (c # s) p = (prefix p (c # s) \<or> contains_str s p)"

text \<open>\<open>strings.Cut(s, sep)\<close> for a one-byte separator: before, after, found.\<close>

fun cut_at :: "char \<Rightarrow> string \<Rightarrow> string \<times> string \<times> bool" where
  "cut_at sep [] = ([], [], False)"
| "cut_at sep (c # s) =
     (if c = sep then ([], s, True)
      else (let (b, a, f) = cut_at sep s in (c # b, a, f)))"

definition before_sep :: "char \<Rightarrow> string \<Rightarrow> string" where
  "before_sep sep s = fst (cut_at sep s)"

text \<open>\<open>strings.Split(s, sep)\<close> for a one-byte separator, and \<open>strings.Join\<close>.\<close>

fun split_at :: "char \<Rightarrow> string \<Rightarrow> string list" where
  "split_at sep [] = [[]]"
| "split_at sep (c # s) =
     (case split_at sep s of
        [] \<Rightarrow> [[c]]
      | p # ps \<Rightarrow> if c = sep then [] # p # ps else (c # p) # ps)"

fun join_with :: "string \<Rightarrow> string list \<Rightarrow> string" where
  "join_with sep [] = []"
| "join_with sep [x] = x"
| "join_with sep (x # y # xs) = x @ sep @ join_with sep (y # xs)"

text \<open>Decimal rendering, as \<open>strconv.FormatInt(n, 10)\<close> and \<open>fmt.Sprint\<close> do it.\<close>

fun digits_of_nat :: "nat \<Rightarrow> string" where
  "digits_of_nat n =
     (if n < 10 then [char_of (48 + n)]
      else digits_of_nat (n div 10) @ [char_of (48 + n mod 10)])"

declare digits_of_nat.simps [simp del]

definition string_of_int :: "int \<Rightarrow> string" where
  "string_of_int i = (if i < 0 then CHR ''-'' # digits_of_nat (nat (- i)) else digits_of_nat (nat i))"

text \<open>
  \<open>strconv.Quote\<close>, the \<open>%q\<close> verb: control characters escaped, bytes above 127 taken to
  be printable UTF-8 and passed through.
\<close>

definition hex_char :: "nat \<Rightarrow> char" where
  "hex_char n = (if n < 10 then char_of (48 + n) else char_of (87 + n))"

definition hex_value :: "char \<Rightarrow> nat" where
  "hex_value c = (let n = of_char c in if n < 58 then n - 48 else n - 87)"

lemma hex_value_hex_char: "n < 16 \<Longrightarrow> hex_value (hex_char n) = n"
  by (simp add: hex_value_def hex_char_def of_char_of Let_def)

definition quote_char :: "char \<Rightarrow> string" where
  "quote_char c =
     (let n = of_char c :: nat in
      if c = CHR 0x22 then [CHR 0x5C, CHR 0x22]
      else if c = CHR 0x5C then [CHR 0x5C, CHR 0x5C]
      else if n = 7 then [CHR 0x5C, CHR ''a'']
      else if n = 8 then [CHR 0x5C, CHR ''b'']
      else if n = 9 then [CHR 0x5C, CHR ''t'']
      else if n = 10 then [CHR 0x5C, CHR ''n'']
      else if n = 11 then [CHR 0x5C, CHR ''v'']
      else if n = 12 then [CHR 0x5C, CHR ''f'']
      else if n = 13 then [CHR 0x5C, CHR ''r'']
      else if n < 32 \<or> n = 127
      then [CHR 0x5C, CHR ''x'', hex_char (n div 16), hex_char (n mod 16)]
      else [c])"

definition go_quote :: "string \<Rightarrow> string" where
  "go_quote s = CHR 0x22 # concat (map quote_char s) @ [CHR 0x22]"

lemma to_lower_Nil [simp]: "to_lower [] = []"
  and to_lower_append [simp]: "to_lower (s @ t) = to_lower s @ to_lower t"
  and length_to_lower [simp]: "length (to_lower s) = length s"
  by (simp_all add: to_lower_def)

lemma equal_fold_refl [simp]: "equal_fold s s"
  by (simp add: equal_fold_def)

lemma equal_fold_sym: "equal_fold s t \<longleftrightarrow> equal_fold t s"
  by (auto simp: equal_fold_def)

lemma equal_fold_trans: "equal_fold s t \<Longrightarrow> equal_fold t u \<Longrightarrow> equal_fold s u"
  by (simp add: equal_fold_def)

lemma has_suffix_append [simp]: "has_suffix (s @ p) p"
  by (simp add: has_suffix_def suffix_def)

lemma has_prefix_append [simp]: "has_prefix (p @ s) p"
  by (simp add: has_prefix_def)

lemma trim_suffix_append [simp]: "trim_suffix (s @ p) p = s"
  by (simp add: trim_suffix_def)

text \<open>Two prefixes of the same string of the same length are equal.\<close>

lemma has_prefix_same_length:
  "has_prefix s p \<Longrightarrow> has_prefix s q \<Longrightarrow> length p = length q \<Longrightarrow> p = q"
  by (auto simp: has_prefix_def prefix_def append_eq_append_conv)

lemma cut_at_found:
  "cut_at sep s = (b, a, True) \<Longrightarrow> s = b @ sep # a \<and> sep \<notin> set b"
  by (induction s arbitrary: b) (auto split: if_splits prod.splits)

lemma cut_at_not_found:
  "cut_at sep s = (b, a, False) \<Longrightarrow> b = s \<and> a = [] \<and> sep \<notin> set s"
  by (induction s arbitrary: b) (auto split: if_splits prod.splits)

lemma cut_at_append:
  "sep \<notin> set b \<Longrightarrow> cut_at sep (b @ sep # a) = (b, a, True)"
  by (induction b) auto

lemma cut_at_none: "sep \<notin> set s \<Longrightarrow> cut_at sep s = (s, [], False)"
  by (induction s) auto

lemma split_at_nonempty [simp]: "split_at sep s \<noteq> []"
  by (induction s) (auto split: list.splits)

lemma join_split: "join_with [sep] (split_at sep s) = s"
proof (induction s)
  case Nil
  then show ?case by simp
next
  case (Cons c s)
  obtain p ps where p: "split_at sep s = p # ps"
    by (cases "split_at sep s") auto
  then show ?case
    using Cons.IH by (cases ps) auto
qed

lemma digits_of_nat_nonempty [simp]: "digits_of_nat n \<noteq> []"
  by (subst digits_of_nat.simps) simp

subsection \<open>Maps\<close>

definition map_put :: "'k \<Rightarrow> 'v \<Rightarrow> ('k, 'v) go_map \<Rightarrow> ('k, 'v) go_map" where
  "map_put k v m = AList.update k v m"

definition map_del :: "'k \<Rightarrow> ('k, 'v) go_map \<Rightarrow> ('k, 'v) go_map" where
  "map_del k m = AList.delete k m"

definition wf_map :: "('k, 'v) go_map \<Rightarrow> bool" where
  "wf_map m \<longleftrightarrow> distinct (map fst m)"

text \<open>\<open>for k, v := range src { dst[k] = v }\<close>.\<close>

definition map_merge :: "('k, 'v) go_map \<Rightarrow> ('k, 'v) go_map \<Rightarrow> ('k, 'v) go_map" where
  "map_merge dst src = fold (\<lambda>(k, v) m. map_put k v m) src dst"

definition get_or :: "'v \<Rightarrow> ('k, 'v) go_map \<Rightarrow> 'k \<Rightarrow> 'v" where
  "get_or d m k = (case map_of m k of Some v \<Rightarrow> v | None \<Rightarrow> d)"

lemma map_of_put [simp, go_map]: "map_of (map_put k v m) = (map_of m)(k \<mapsto> v)"
  by (simp add: map_put_def update_conv')

lemma map_of_del [simp, go_map]: "map_of (map_del k m) = (map_of m)(k := None)"
  by (simp add: map_del_def delete_conv')

lemma wf_map_Nil [simp, intro]: "wf_map []"
  by (simp add: wf_map_def)

lemma wf_map_put [simp, intro]: "wf_map m \<Longrightarrow> wf_map (map_put k v m)"
  by (simp add: wf_map_def map_put_def distinct_update)

lemma wf_map_del [simp, intro]: "wf_map m \<Longrightarrow> wf_map (map_del k m)"
  by (simp add: wf_map_def map_del_def distinct_delete)

lemma wf_map_Cons: "wf_map ((k, v) # m) \<longleftrightarrow> map_of m k = None \<and> wf_map m"
  by (auto simp: wf_map_def map_of_eq_None_iff)

lemma map_put_not_Nil [simp]: "map_put k v m \<noteq> []"
  by (cases m) (auto simp: map_put_def)

lemma map_of_wf_mem: "wf_map m \<Longrightarrow> (k, v) \<in> set m \<longleftrightarrow> map_of m k = Some v"
  by (simp add: wf_map_def)

lemma map_of_fold_put:
  "wf_map src \<Longrightarrow> map_of (fold (\<lambda>(k, v) m. map_put k v m) src dst) = map_of dst ++ map_of src"
proof (induction src arbitrary: dst)
  case Nil
  then show ?case by simp
next
  case (Cons kv src)
  obtain k v where kv: "kv = (k, v)" by fastforce
  with Cons.prems have "map_of src k = None" "wf_map src"
    by (simp_all add: wf_map_Cons)
  then show ?case
    using Cons.IH kv by (auto simp: fun_eq_iff map_add_def split: option.splits)
qed

lemma map_of_merge [simp, go_map]:
  "wf_map src \<Longrightarrow> map_of (map_merge dst src) = map_of dst ++ map_of src"
  by (simp add: map_merge_def map_of_fold_put)

lemma wf_map_merge [intro]: "wf_map dst \<Longrightarrow> wf_map (map_merge dst src)"
  unfolding map_merge_def by (induction src arbitrary: dst) auto

text \<open>Two listings of one map hold the same entries.\<close>

lemma wf_map_same_set:
  assumes "wf_map m" and "wf_map m'" and "map_of m = map_of m'"
  shows "set m = set m'"
  using assms by (auto simp: map_of_wf_mem)

subsection \<open>Panics\<close>

text \<open>
  Code that may panic returns an outcome: a normal return with its value, or the panic's
  value.
\<close>

datatype ('p, 'a) outcome = Ret 'a | Panic 'p

definition bind_outcome ::
    "('p, 'a) outcome \<Rightarrow> ('a \<Rightarrow> ('p, 'b) outcome) \<Rightarrow> ('p, 'b) outcome" where
  "bind_outcome r f = (case r of Panic p \<Rightarrow> Panic p | Ret x \<Rightarrow> f x)"

lemma bind_outcome_simps [simp]:
  "bind_outcome (Panic p) f = Panic p"
  "bind_outcome (Ret x) f = f x"
  by (simp_all add: bind_outcome_def)

lemma bind_outcome_Ret_iff:
  "bind_outcome r f = Ret y \<longleftrightarrow> (\<exists>x. r = Ret x \<and> f x = Ret y)"
  by (cases r) simp_all

lemma bind_outcome_Panic_iff:
  "bind_outcome r f = Panic p \<longleftrightarrow> r = Panic p \<or> (\<exists>x. r = Ret x \<and> f x = Panic p)"
  by (cases r) auto

text \<open>\<open>if bad { panic(msg) }\<close>.\<close>

definition panic_if :: "bool \<Rightarrow> 'p \<Rightarrow> ('p, unit) outcome" where
  "panic_if b p = (if b then Panic p else Ret ())"

lemma panic_if_Ret_iff [simp]: "panic_if b p = Ret u \<longleftrightarrow> \<not> b"
  by (simp add: panic_if_def)

subsection \<open>Interface: a concurrent key-value store\<close>

text \<open>
  \<open>sync.Map\<close> and the mutex-guarded maps of the program are used through four atomic
  operations.  The laws are those of the Go documentation: \<open>LoadOrStore\<close> returns the
  existing value if there is one and stores the given value otherwise.
\<close>

locale kv_store =
  fixes empty :: 'm
    and load :: "'m \<Rightarrow> 'k \<Rightarrow> 'v option"
    and store :: "'k \<Rightarrow> 'v \<Rightarrow> 'm \<Rightarrow> 'm"
    and load_or_store :: "'k \<Rightarrow> 'v \<Rightarrow> 'm \<Rightarrow> 'v option \<times> 'm"
  assumes load_empty: "load empty k = None"
    and load_store: "load (store k v m) = (load m)(k \<mapsto> v)"
    and load_or_store_absent:
      "load m k = None \<Longrightarrow> load_or_store k v m = (None, store k v m)"
    and load_or_store_present:
      "load m k = Some w \<Longrightarrow> load_or_store k v m = (Some w, m)"
begin

lemma load_or_store_keeps:
  "load m k' = Some w \<Longrightarrow> load (snd (load_or_store k v m)) k' = Some w"
  by (cases "load m k")
     (auto simp: load_or_store_absent load_or_store_present load_store)

lemma load_or_store_fresh_iff:
  "fst (load_or_store k v m) = None \<longleftrightarrow> load m k = None"
  by (cases "load m k") (simp_all add: load_or_store_absent load_or_store_present)

lemma load_or_store_idem:
  "load_or_store k v (snd (load_or_store k u m)) =
     (load (snd (load_or_store k u m)) k, snd (load_or_store k u m))"
  by (cases "load m k")
     (simp_all add: load_or_store_absent load_or_store_present load_store)

end

text \<open>The store of the model: an association list, entries in insertion order.\<close>

definition sm_load :: "('k, 'v) go_map \<Rightarrow> 'k \<Rightarrow> 'v option" where
  "sm_load m k = map_of m k"

definition sm_load_or_store :: "'k \<Rightarrow> 'v \<Rightarrow> ('k, 'v) go_map \<Rightarrow> 'v option \<times> ('k, 'v) go_map" where
  "sm_load_or_store k v m =
     (case map_of m k of Some w \<Rightarrow> (Some w, m) | None \<Rightarrow> (None, map_put k v m))"

interpretation sm: kv_store "[]" sm_load map_put sm_load_or_store
  by unfold_locales (auto simp: sm_load_def sm_load_or_store_def)

lemma wf_sm_load_or_store: "wf_map m \<Longrightarrow> wf_map (snd (sm_load_or_store k v m))"
  by (auto simp: sm_load_or_store_def split: option.splits)

end
