(* ===== verification/Go_Utf8.thy ===== *)
theory Go_Utf8
  imports Go_Prelude
begin

text \<open>
  UTF-8 as package \<open>unicode/utf8\<close> has it: which byte sequences are valid, the code points they
  stand for and their encoding, and base64 as \<open>encoding/base64.StdEncoding\<close> writes it.
\<close>

definition byte :: "char \<Rightarrow> nat" where
  "byte c = of_char c"

definition is_cont :: "nat \<Rightarrow> bool" where
  "is_cont b \<longleftrightarrow> 0x80 \<le> b \<and> b \<le> 0xBF"

text \<open>
  The decoder: a lead byte fixes the number of continuation bytes and the range of the first of
  them, which excludes overlong forms, surrogates and values above \<open>U+10FFFF\<close>.
\<close>

fun utf8_decode_bytes :: "nat list \<Rightarrow> nat list option" where
  "utf8_decode_bytes [] = Some []"
| "utf8_decode_bytes [a] = (if a < 0x80 then Some [a] else None)"
| "utf8_decode_bytes [a, b] =
     (if a < 0x80 then map_option (Cons a) (utf8_decode_bytes [b])
      else if 0xC2 \<le> a \<and> a \<le> 0xDF \<and> is_cont b
      then Some [(a - 0xC0) * 64 + (b - 0x80)] else None)"
| "utf8_decode_bytes [a, b, c] =
     (if a < 0x80 then map_option (Cons a) (utf8_decode_bytes [b, c])
      else if 0xC2 \<le> a \<and> a \<le> 0xDF
      then (if is_cont b then map_option (Cons ((a - 0xC0) * 64 + (b - 0x80))) (utf8_decode_bytes [c]) else None)
      else if 0xE0 \<le> a \<and> a \<le> 0xEF \<and> is_cont b \<and> is_cont c \<and>
         (a = 0xE0 \<longrightarrow> 0xA0 \<le> b) \<and> (a = 0xED \<longrightarrow> b \<le> 0x9F)
      then Some [(a - 0xE0) * 4096 + (b - 0x80) * 64 + (c - 0x80)] else None)"
| "utf8_decode_bytes (a # b # c # d # s) =
     (if a < 0x80 then map_option (Cons a) (utf8_decode_bytes (b # c # d # s))
      else if 0xC2 \<le> a \<and> a \<le> 0xDF
      then (if is_cont b then map_option (Cons ((a - 0xC0) * 64 + (b - 0x80))) (utf8_decode_bytes (c # d # s)) else None)
      else if 0xE0 \<le> a \<and> a \<le> 0xEF
      then (if is_cont b \<and> is_cont c \<and> (a = 0xE0 \<longrightarrow> 0xA0 \<le> b) \<and> (a = 0xED \<longrightarrow> b \<le> 0x9F)
            then map_option (Cons ((a - 0xE0) * 4096 + (b - 0x80) * 64 + (c - 0x80))) (utf8_decode_bytes (d # s))
            else None)
      else if 0xF0 \<le> a \<and> a \<le> 0xF4
      then (if is_cont b \<and> is_cont c \<and> is_cont d \<and> (a = 0xF0 \<longrightarrow> 0x90 \<le> b) \<and> (a = 0xF4 \<longrightarrow> b \<le> 0x8F)
            then map_option (Cons ((a - 0xF0) * 262144 + (b - 0x80) * 4096 + (c - 0x80) * 64 + (d - 0x80)))
              (utf8_decode_bytes s)
            else None)
      else None)"

definition valid_utf8 :: "string \<Rightarrow> bool" where
  "valid_utf8 s \<longleftrightarrow> utf8_decode_bytes (map byte s) \<noteq> None"

text \<open>\<open>utf8.AppendRune\<close> on a valid code point.\<close>

definition utf8_encode :: "nat \<Rightarrow> nat list" where
  "utf8_encode r =
     (if r < 0x80 then [r]
      else if r < 0x800 then [0xC0 + r div 64, 0x80 + r mod 64]
      else if r < 0x10000 then [0xE0 + r div 4096, 0x80 + r div 64 mod 64, 0x80 + r mod 64]
      else [0xF0 + r div 262144, 0x80 + r div 4096 mod 64, 0x80 + r div 64 mod 64, 0x80 + r mod 64])"

definition scalar_value :: "nat \<Rightarrow> bool" where
  "scalar_value r \<longleftrightarrow> r < 0xD800 \<or> (0xE000 \<le> r \<and> r < 0x110000)"

lemma valid_utf8_ascii: "list_all (\<lambda>c. byte c < 0x80) s \<Longrightarrow> valid_utf8 s"
proof -
  have "utf8_decode_bytes bs \<noteq> None" if "list_all (\<lambda>b. b < 0x80) bs" for bs
    using that by (induction bs rule: utf8_decode_bytes.induct) auto
  moreover assume "list_all (\<lambda>c. byte c < 0x80) s"
  ultimately show ?thesis by (simp add: valid_utf8_def list_all_iff)
qed

lemma utf8_decode_ascii_Cons [simp]:
  "a < 0x80 \<Longrightarrow> utf8_decode_bytes (a # s) = map_option (Cons a) (utf8_decode_bytes s)"
  by (cases s rule: utf8_decode_bytes.cases) auto

lemma utf8_decode_two:
  "0xC2 \<le> a \<Longrightarrow> a \<le> 0xDF \<Longrightarrow> is_cont b \<Longrightarrow>
     utf8_decode_bytes (a # b # s) = map_option (Cons ((a - 0xC0) * 64 + (b - 0x80))) (utf8_decode_bytes s)"
  by (cases s rule: utf8_decode_bytes.cases) auto

lemma utf8_decode_three:
  "0xE0 \<le> a \<Longrightarrow> a \<le> 0xEF \<Longrightarrow> is_cont b \<Longrightarrow> is_cont c \<Longrightarrow> (a = 0xE0 \<Longrightarrow> 0xA0 \<le> b) \<Longrightarrow>
   (a = 0xED \<Longrightarrow> b \<le> 0x9F) \<Longrightarrow>
     utf8_decode_bytes (a # b # c # s) =
       map_option (Cons ((a - 0xE0) * 4096 + (b - 0x80) * 64 + (c - 0x80))) (utf8_decode_bytes s)"
  by (cases s) auto

lemma utf8_decode_four:
  "0xF0 \<le> a \<Longrightarrow> a \<le> 0xF4 \<Longrightarrow> is_cont b \<Longrightarrow> is_cont c \<Longrightarrow> is_cont d \<Longrightarrow> (a = 0xF0 \<Longrightarrow> 0x90 \<le> b) \<Longrightarrow>
   (a = 0xF4 \<Longrightarrow> b \<le> 0x8F) \<Longrightarrow>
     utf8_decode_bytes (a # b # c # d # s) =
       map_option (Cons ((a - 0xF0) * 262144 + (b - 0x80) * 4096 + (c - 0x80) * 64 + (d - 0x80)))
         (utf8_decode_bytes s)"
  by simp

text \<open>Encoding and decoding are inverse on scalar values.\<close>

lemma utf8_decode_sextets3:
  "x < 16 \<Longrightarrow> y < 64 \<Longrightarrow> z < 64 \<Longrightarrow> (x = 0 \<Longrightarrow> 32 \<le> y) \<Longrightarrow> (x = 13 \<Longrightarrow> y < 32) \<Longrightarrow>
     utf8_decode_bytes ([224 + x, 128 + y, 128 + z] @ s) =
       map_option (Cons (x * 4096 + y * 64 + z)) (utf8_decode_bytes s)"
  using utf8_decode_three [of "224 + x" "128 + y" "128 + z" s] by (fastforce simp: is_cont_def)

lemma utf8_decode_sextets4:
  "w < 5 \<Longrightarrow> x < 64 \<Longrightarrow> y < 64 \<Longrightarrow> z < 64 \<Longrightarrow> (w = 0 \<Longrightarrow> 16 \<le> x) \<Longrightarrow> (w = 4 \<Longrightarrow> x < 16) \<Longrightarrow>
     utf8_decode_bytes ([240 + w, 128 + x, 128 + y, 128 + z] @ s) =
       map_option (Cons (w * 262144 + x * 4096 + y * 64 + z)) (utf8_decode_bytes s)"
  using utf8_decode_four [of "240 + w" "128 + x" "128 + y" "128 + z" s] by (fastforce simp: is_cont_def)

lemma sextets:
  fixes r :: nat
  shows "r = r div 64 * 64 + r mod 64"
    and "r = r div 4096 * 4096 + r div 64 mod 64 * 64 + r mod 64"
    and "r = r div 262144 * 262144 + r div 4096 mod 64 * 4096 + r div 64 mod 64 * 64 + r mod 64"
proof -
  have d: "r div 4096 = r div 64 div 64" "r div 262144 = r div 64 div 64 div 64"
    by (simp_all add: div_mult2_eq [symmetric])
  have m: "r = r div 64 * 64 + r mod 64" "r div 64 = r div 64 div 64 * 64 + r div 64 mod 64"
    "r div 64 div 64 = r div 64 div 64 div 64 * 64 + r div 64 div 64 mod 64"
    by simp_all
  show "r = r div 64 * 64 + r mod 64"
    and "r = r div 4096 * 4096 + r div 64 mod 64 * 64 + r mod 64"
    and "r = r div 262144 * 262144 + r div 4096 mod 64 * 4096 + r div 64 mod 64 * 64 + r mod 64"
    unfolding d using m by linarith+
qed

lemma utf8_decode_encode:
  assumes "scalar_value r"
  shows "utf8_decode_bytes (utf8_encode r @ s) = map_option (Cons r) (utf8_decode_bytes s)"
proof -
  consider "r < 0x80" | "0x80 \<le> r" "r < 0x800" | "0x800 \<le> r" "r < 0x10000" | "0x10000 \<le> r" "r < 0x110000"
    using assms by (fastforce simp: scalar_value_def)
  then show ?thesis
  proof cases
    case 1
    then show ?thesis by (simp add: utf8_encode_def)
  next
    case 2
    then have b: "2 \<le> r div 64" "r div 64 < 32" "r mod 64 < 64" by auto
    have "utf8_encode r = [192 + r div 64, 128 + r mod 64]"
      using 2 by (simp add: utf8_encode_def)
    then show ?thesis
      using b sextets(1) [of r] by (simp add: utf8_decode_two is_cont_def del: div_mult_mod_eq mult_div_mod_eq)
  next
    case 3
    then have b: "r div 4096 < 16" "r div 64 mod 64 < 64" "r mod 64 < 64" by auto
    have e: "r div 4096 = 0 \<Longrightarrow> 32 \<le> r div 64 mod 64" "r div 4096 = 13 \<Longrightarrow> r div 64 mod 64 < 32"
      using 3 assms sextets(2) [of r] b by (auto simp: scalar_value_def)
    have "utf8_encode r = [224 + r div 4096, 128 + r div 64 mod 64, 128 + r mod 64]"
      using 3 by (simp add: utf8_encode_def)
    then show ?thesis
      using utf8_decode_sextets3 [OF b e, of s] by (simp only: sextets(2) [of r, symmetric])
  next
    case 4
    then have b: "r div 262144 < 5" "r div 4096 mod 64 < 64" "r div 64 mod 64 < 64" "r mod 64 < 64" by auto
    have e: "r div 262144 = 0 \<Longrightarrow> 16 \<le> r div 4096 mod 64" "r div 262144 = 4 \<Longrightarrow> r div 4096 mod 64 < 16"
      using 4 sextets(3) [of r] b by auto
    have "utf8_encode r = [240 + r div 262144, 128 + r div 4096 mod 64, 128 + r div 64 mod 64, 128 + r mod 64]"
      using 4 by (simp add: utf8_encode_def)
    then show ?thesis
      using utf8_decode_sextets4 [OF b e, of s] by (simp only: sextets(3) [of r, symmetric])
  qed
qed

definition utf8_encode_all :: "nat list \<Rightarrow> nat list" where
  "utf8_encode_all rs = concat (map utf8_encode rs)"

lemma utf8_round_trip:
  "list_all scalar_value rs \<Longrightarrow> utf8_decode_bytes (utf8_encode_all rs) = Some rs"
  by (induction rs) (simp_all add: utf8_encode_all_def utf8_decode_encode)

subsection \<open>Base64\<close>

definition base64_char :: "nat \<Rightarrow> char" where
  "base64_char n =
     (if n < 26 then char_of (65 + n)
      else if n < 52 then char_of (71 + n)
      else if n < 62 then char_of (n - 4)
      else if n = 62 then CHR ''+'' else CHR ''/'')"

fun base64_encode :: "string \<Rightarrow> string" where
  "base64_encode [] = []"
| "base64_encode [a] =
     (let n = byte a * 16 in [base64_char (n div 64), base64_char (n mod 64), CHR ''='', CHR ''=''])"
| "base64_encode [a, b] =
     (let n = (byte a * 256 + byte b) * 4 in
      [base64_char (n div 4096), base64_char (n div 64 mod 64), base64_char (n mod 64), CHR ''=''])"
| "base64_encode (a # b # c # s) =
     (let n = byte a * 65536 + byte b * 256 + byte c in
      [base64_char (n div 262144), base64_char (n div 4096 mod 64), base64_char (n div 64 mod 64),
       base64_char (n mod 64)] @ base64_encode s)"

end
