(* ===== verification/Rpc_Proto.thy ===== *)
theory Rpc_Proto
  imports Go_Prelude
begin

text \<open>
  The protobuf messages the host and the worker exchange (\<open>worker/proto/FunctionRpc.pb.go\<close>),
  with the fields the program reads or writes, and the nil-safe getters of the \<open>TypedData\<close>
  oneof.  A pointer field is an \<open>option\<close>.  An \<open>int64\<close> is a 64-bit word; a
  \<open>float64\<close> is the 64-bit word of its IEEE-754 bits.
\<close>

type_synonym int64 = "64 word"

type_synonym float64 = "64 word"

datatype typed_data =
    TD_Unset
  | TD_String string
  | TD_Json string
  | TD_Bytes string
  | TD_Stream string
  | TD_Http rpc_http
  | TD_Int int64
  | TD_Double float64
  | TD_CollectionBytes "string list"
  | TD_CollectionString "string list"
  | TD_CollectionDouble "float64 list"
  | TD_CollectionSint64 "int64 list"
  | TD_ModelBindingData string
  | TD_CollectionModelBindingData "string list"
and rpc_http =
    RpcHttp (http_method: string) (http_url: string)
      (http_headers: "(string \<times> string) list") (http_body: "typed_data option")
      (http_params: "(string \<times> string) list") (http_status: string)
      (http_query: "(string \<times> string) list")

subsection \<open>Getters of the oneof\<close>

text \<open>On a nil message, or on another variant, a getter returns the zero value.\<close>

fun get_string :: "typed_data option \<Rightarrow> string" where
  "get_string (Some (TD_String s)) = s"
| "get_string _ = ''''"

fun get_json :: "typed_data option \<Rightarrow> string" where
  "get_json (Some (TD_Json s)) = s"
| "get_json _ = ''''"

text \<open>\<open>GetBytes\<close> is nil (\<open>None\<close>) off its variant; a set variant holds a non-nil slice,
  which is what the protobuf decoder produces.\<close>

fun get_bytes :: "typed_data option \<Rightarrow> string option" where
  "get_bytes (Some (TD_Bytes b)) = Some b"
| "get_bytes _ = None"

fun get_http :: "typed_data option \<Rightarrow> rpc_http option" where
  "get_http (Some (TD_Http h)) = Some h"
| "get_http _ = None"

fun get_int :: "typed_data option \<Rightarrow> int64" where
  "get_int (Some (TD_Int i)) = i"
| "get_int _ = 0"

fun get_double :: "typed_data option \<Rightarrow> float64" where
  "get_double (Some (TD_Double d)) = d"
| "get_double _ = 0"

text \<open>\<open>x != 0\<close> on a \<open>float64\<close>: neither of the two zeros (a NaN differs from 0).\<close>

definition double_nonzero :: "float64 \<Rightarrow> bool" where
  "double_nonzero d \<longleftrightarrow> d \<noteq> 0 \<and> d \<noteq> 0x8000000000000000"

subsection \<open>Status, exceptions and logs\<close>

datatype status_kind = Status_Failure | Status_Success | Status_Cancelled

record rpc_exception =
  ex_source :: string
  ex_stack :: string
  ex_message :: string
  ex_is_user :: bool

record status_result =
  sr_status :: status_kind
  sr_result :: string
  sr_exception :: "rpc_exception option"

definition no_exception :: rpc_exception where
  "no_exception = \<lparr>ex_source = '''', ex_stack = '''', ex_message = '''', ex_is_user = False\<rparr>"

definition status_success :: status_result where
  "status_success = \<lparr>sr_status = Status_Success, sr_result = '''', sr_exception = None\<rparr>"

definition status_success_text :: status_result where
  "status_success_text = \<lparr>sr_status = Status_Success, sr_result = ''Success'', sr_exception = None\<rparr>"

definition status_failure :: "rpc_exception \<Rightarrow> status_result" where
  "status_failure e = \<lparr>sr_status = Status_Failure, sr_result = '''', sr_exception = Some e\<rparr>"

datatype log_level =
  Log_Trace | Log_Debug | Log_Information | Log_Warning | Log_Error | Log_Critical | Log_None

fun level_num :: "log_level \<Rightarrow> nat" where
  "level_num Log_Trace = 0"
| "level_num Log_Debug = 1"
| "level_num Log_Information = 2"
| "level_num Log_Warning = 3"
| "level_num Log_Error = 4"
| "level_num Log_Critical = 5"
| "level_num Log_None = 6"

datatype log_category = LogCat_User | LogCat_System | LogCat_CustomMetric

record rpc_log =
  rl_invocation_id :: string
  rl_category :: string
  rl_level :: log_level
  rl_message :: string
  rl_event_id :: string
  rl_log_category :: log_category
  rl_properties :: "(string, typed_data) go_map"

subsection \<open>Invocation messages\<close>

record parameter_binding =
  pb_name :: string
  pb_data :: "typed_data option"

record rpc_trace_context =
  rtc_trace_parent :: string
  rtc_trace_state :: string
  rtc_attributes :: "(string, string) go_map"
  rtc_baggage :: "(string, string) go_map"

record rpc_retry_context =
  rrc_retry_count :: "32 word"
  rrc_max_retry_count :: "32 word"

record invocation_request =
  ireq_invocation_id :: string
  ireq_function_id :: string
  ireq_input_data :: "parameter_binding list"
  ireq_trigger_metadata :: "(string, typed_data option) go_map"
  ireq_trace_context :: "rpc_trace_context option"
  ireq_retry_context :: "rpc_retry_context option"

record invocation_response =
  ires_invocation_id :: string
  ires_result :: "status_result option"
  ires_return_value :: "typed_data option"
  ires_trace_attributes :: "(string, string) go_map"

subsection \<open>Indexing, load and environment messages\<close>

datatype binding_direction = Dir_in | Dir_out | Dir_inout

datatype binding_data_type = DT_undefined | DT_string | DT_binary | DT_stream

record binding_info =
  bi_type :: string
  bi_direction :: binding_direction
  bi_data_type :: binding_data_type

record rpc_retry_options =
  ro_max_retry_count :: "32 word"
  ro_strategy :: nat
  ro_delay :: "int option"
  ro_minimum :: "int option"
  ro_maximum :: "int option"

record function_metadata =
  fm_function_id :: string
  fm_name :: string
  fm_bindings :: "(string, binding_info) go_map"
  fm_raw_bindings :: "string list"
  fm_language :: string
  fm_script_file :: string
  fm_entry_point :: string
  fm_retry :: "rpc_retry_options option"

record worker_metadata =
  wm_runtime_name :: string
  wm_runtime_version :: string
  wm_worker_version :: string
  wm_worker_bitness :: string
  wm_custom :: "(string, string) go_map"

datatype host_config_status = HC_Unspecified | HC_Available | HC_Missing | HC_Error | HC_TooLarge

record host_configuration =
  hc_status :: host_config_status
  hc_content :: string

record worker_init_request =
  wir_capabilities :: "(string, string) go_map"
  wir_log_categories :: "(string, log_level) go_map option"

record worker_init_response =
  wis_result :: "status_result option"
  wis_worker_version :: string
  wis_capabilities :: "(string, string) go_map"
  wis_metadata :: "worker_metadata option"
  wis_host_config :: "host_configuration option"

record env_reload_request =
  err_env :: "(string, string) go_map"
  err_app_dir :: string

datatype cap_strategy = Caps_merge | Caps_replace

record env_reload_response =
  ers_result :: "status_result option"
  ers_capabilities :: "(string, string) go_map"
  ers_strategy :: cap_strategy
  ers_metadata :: "worker_metadata option"

subsection \<open>The stream's message\<close>

datatype content =
    C_StartStream string
  | C_WorkerInitRequest worker_init_request
  | C_WorkerInitResponse worker_init_response
  | C_WorkerHeartbeat
  | C_WorkerTerminate
  | C_WorkerStatusRequest
  | C_WorkerStatusResponse
  | C_FunctionLoadRequest string
  | C_FunctionLoadResponse string status_result
  | C_InvocationRequest invocation_request
  | C_InvocationResponse invocation_response
  | C_RpcLog rpc_log
  | C_EnvReloadRequest env_reload_request
  | C_EnvReloadResponse env_reload_response
  | C_FunctionsMetadataRequest
  | C_FunctionMetadataResponse "function_metadata list" status_result
  | C_Other string

record streaming_message =
  sm_request_id :: string
  sm_content :: "content option"

definition mk_msg :: "string \<Rightarrow> content \<Rightarrow> streaming_message" where
  "mk_msg rid c = \<lparr>sm_request_id = rid, sm_content = Some c\<rparr>"

lemma mk_msg_simps [simp]:
  "sm_request_id (mk_msg rid c) = rid"
  "sm_content (mk_msg rid c) = Some c"
  by (simp_all add: mk_msg_def)

lemma mk_msg_eq [simp]: "mk_msg r c = mk_msg r' c' \<longleftrightarrow> r = r' \<and> c = c'"
  by (simp add: mk_msg_def)

subsection \<open>Levels are ordered by their numbers\<close>

instantiation log_level :: linorder
begin

definition less_eq_log_level :: "log_level \<Rightarrow> log_level \<Rightarrow> bool" where
  "less_eq_log_level a b \<longleftrightarrow> level_num a \<le> level_num b"

definition less_log_level :: "log_level \<Rightarrow> log_level \<Rightarrow> bool" where
  "less_log_level a b \<longleftrightarrow> level_num a < level_num b"

instance
proof
  fix a b :: log_level
  show "a \<le> b \<Longrightarrow> b \<le> a \<Longrightarrow> a = b"
    by (cases a; cases b) (simp_all add: less_eq_log_level_def)
qed (auto simp: less_eq_log_level_def less_log_level_def)

end

lemma get_string_nonempty_iff:
  "get_string d \<noteq> '''' \<longleftrightarrow> (\<exists>s. d = Some (TD_String s) \<and> s \<noteq> '''')"
  by (cases d rule: get_string.cases) auto

lemma get_json_nonempty_iff:
  "get_json d \<noteq> '''' \<longleftrightarrow> (\<exists>s. d = Some (TD_Json s) \<and> s \<noteq> '''')"
  by (cases d rule: get_json.cases) auto

lemma get_bytes_Some_iff: "get_bytes d = Some b \<longleftrightarrow> d = Some (TD_Bytes b)"
  by (cases d rule: get_bytes.cases) auto

end
