(* ===== verification/Json_Value.thy ===== *)
theory Json_Value
  imports Go_Prelude "HOL-Library.Char_ord" "HOL-Library.List_Lexorder"
begin

text \<open>
  JSON values and the text \<open>encoding/json\<close>'s \<open>Marshal\<close> writes for them: object
  keys of a Go map in byte order, fields of a struct in declaration order, HTML-sensitive
  characters escaped.  Strings are taken to be valid UTF-8 without the line separators U+2028 and
  U+2029 (which the encoder would rewrite); bytes above 127 pass through.  Numbers carry
  their text.
\<close>

datatype json =
    JNull
  | JBool bool
  | JNum string
  | JStr string
  | JArr "json list"
  | JStruct "(string \<times> json) list"
  | JMap "(string \<times> json) list"

definition json_escape_char :: "char \<Rightarrow> string" where
  "json_escape_char c =
     (let n = of_char c :: nat in
      if c = CHR 0x22 then [CHR 0x5C, CHR 0x22]
      else if c = CHR 0x5C then [CHR 0x5C, CHR 0x5C]
      else if n = 8 then [CHR 0x5C, CHR ''b'']
      else if n = 12 then [CHR 0x5C, CHR ''f'']
      else if n = 10 then [CHR 0x5C, CHR ''n'']
      else if n = 13 then [CHR 0x5C, CHR ''r'']
      else if n = 9 then [CHR 0x5C, CHR ''t'']
      else if n < 32 \<or> c = CHR ''<'' \<or> c = CHR ''>'' \<or> c = CHR ''&''
      then [CHR 0x5C, CHR ''u'', CHR ''0'', CHR ''0'', hex_char (n div 16), hex_char (n mod 16)]
      else [c])"

definition json_quote :: "string \<Rightarrow> string" where
  "json_quote s = CHR 0x22 # concat (map json_escape_char s) @ [CHR 0x22]"

fun json_encode :: "json \<Rightarrow> string" where
  "json_encode JNull = ''null''"
| "json_encode (JBool b) = (if b then ''true'' else ''false'')"
| "json_encode (JNum s) = s"
| "json_encode (JStr s) = json_quote s"
| "json_encode (JArr xs) = ''['' @ join_with '','' (map json_encode xs) @ '']''"
| "json_encode (JStruct fs) =
     ''{'' @ join_with '','' (map (\<lambda>(k, v). json_quote k @ '':'' @ json_encode v) fs) @ ''}''"
| "json_encode (JMap fs) =
     ''{'' @ join_with '','' (map snd (sort_key fst (map (\<lambda>(k, v). (k, json_quote k @ '':'' @ json_encode v)) fs))) @ ''}''"

definition json_int :: "int \<Rightarrow> json" where
  "json_int i = JNum (string_of_int i)"

text \<open>
  \<open>reflect.Value.IsZero\<close> on the values the binding structs hold: the empty string,
  \<open>false\<close>, 0 and a nil slice.
\<close>

definition json_is_zero :: "json \<Rightarrow> bool" where
  "json_is_zero j \<longleftrightarrow> j \<in> {JNull, JBool False, JNum ''0'', JStr ''''}"

text \<open>The text of a map does not depend on the order its entries are listed in.\<close>

lemma sort_key_fst_perm:
  fixes xs ys :: "('k::linorder \<times> 'v) list"
  assumes "distinct (map fst xs)" and "distinct (map fst ys)" and "set xs = set ys"
  shows "sort_key fst xs = sort_key fst ys"
proof (rule map_sorted_distinct_set_unique [where f = fst])
  show "inj_on fst (set (sort_key fst xs) \<union> set (sort_key fst ys))"
    using assms by (simp add: distinct_map)
qed (use assms in \<open>auto simp: distinct_map intro: inj_on_subset\<close>)

lemma json_encode_map_perm:
  assumes "wf_map fs" and "wf_map gs" and "map_of fs = map_of gs"
  shows "json_encode (JMap fs) = json_encode (JMap gs)"
proof -
  let ?h = "\<lambda>(k, v). (k, json_quote k @ '':'' @ json_encode v)"
  have s: "set fs = set gs"
    using assms by (rule wf_map_same_set)
  have "sort_key fst (map ?h fs) = sort_key fst (map ?h gs)"
    by (rule sort_key_fst_perm)
       (use assms s in \<open>simp_all add: wf_map_def o_def case_prod_unfold\<close>)
  then show ?thesis by simp
qed

end
