(* ===== verification/Sdk_Bindings.thy ===== *)
theory Sdk_Bindings
  imports Json_Value
begin

text \<open>
  Package \<open>sdk/bindings\<close>: the binding record the host is told about, the triggers that
  produce it (\<open>ToBinding\<close>), and its JSON form (\<open>Binding.MarshalJSON\<close>,
  \<open>marshalGeneric\<close>).  A pointer to an embedded sub-binding is an \<open>option\<close>; a
  \<open>[]string\<close> is an \<open>option\<close> of a list (nil or not).
\<close>

subsection \<open>Sub-bindings\<close>

record cosmos_binding =
  cos_database :: string
  cos_container :: string
  cos_connection :: string
  cos_lease_container :: string
  cos_lease_database :: string
  cos_lease_connection :: string
  cos_create_lease :: bool
  cos_lease_throughput :: int
  cos_lease_prefix :: string
  cos_feed_poll_delay :: int
  cos_lease_renew :: int
  cos_lease_acquire :: int
  cos_lease_expiration :: int
  cos_max_items :: int
  cos_from_beginning :: bool
  cos_from_time :: string
  cos_preferred :: string

record http_binding =
  htb_auth_level :: string
  htb_methods :: "string list option"
  htb_route :: string

record blob_binding =
  blb_path :: string
  blb_connection :: string
  blb_source :: string

record timer_binding =
  tmb_schedule :: string

record eventhub_binding =
  ehb_name :: string
  ehb_connection :: string
  ehb_consumer_group :: string
  ehb_cardinality :: string
  ehb_data_type :: string

record servicebus_binding =
  sbb_queue_name :: string
  sbb_topic_name :: string
  sbb_subscription :: string
  sbb_connection :: string
  sbb_sessions :: bool
  sbb_cardinality :: string
  sbb_data_type :: string

record sql_binding =
  sqb_table :: string
  sqb_connection_setting :: string
  sqb_leases_table :: string

record queue_binding =
  qub_name :: string
  qub_connection :: string

record generic_binding =
  gen_data_type :: string
  gen_cardinality :: string
  gen_properties :: "(string, json) go_map"

record binding =
  bd_name :: string
  bd_type :: string
  bd_direction :: string
  bd_generic :: "generic_binding option"
  bd_cosmos :: "cosmos_binding option"
  bd_http :: "http_binding option"
  bd_blob :: "blob_binding option"
  bd_timer :: "timer_binding option"
  bd_eventhub :: "eventhub_binding option"
  bd_servicebus :: "servicebus_binding option"
  bd_sql :: "sql_binding option"
  bd_queue :: "queue_binding option"

definition plain_binding :: "string \<Rightarrow> string \<Rightarrow> string \<Rightarrow> binding" where
  "plain_binding n t d =
     \<lparr>bd_name = n, bd_type = t, bd_direction = d, bd_generic = None, bd_cosmos = None,
      bd_http = None, bd_blob = None, bd_timer = None, bd_eventhub = None,
      bd_servicebus = None, bd_sql = None, bd_queue = None\<rparr>"

lemma plain_binding_simps [simp]:
  "bd_name (plain_binding n t d) = n"
  "bd_type (plain_binding n t d) = t"
  "bd_direction (plain_binding n t d) = d"
  "bd_generic (plain_binding n t d) = None"
  by (simp_all add: plain_binding_def)

subsection \<open>Triggers\<close>

text \<open>
  The user-facing trigger structs, one constructor each.  \<open>T_Cosmos\<close> carries the
  struct's seventeen configuration fields as the record of the same shape.  \<open>T_Generic\<close>
  takes the pointer, which may be nil.  \<open>T_Plain\<close> is a \<open>Bind\<close> that yields the three
  base fields only.
\<close>

record generic_trigger =
  gt_type :: string
  gt_name :: string
  gt_data_type :: string
  gt_cardinality :: string
  gt_properties :: "(string, json) go_map"

datatype trigger =
    T_HTTP string string "string list option" string
  | T_Timer string string
  | T_Cosmos string cosmos_binding
  | T_SQL string string string
  | T_EventGrid string
  | T_Queue string string string
  | T_EventHub string string string string string
  | T_SBQueue string string string bool string
  | T_SBTopic string string string string bool string
  | T_Blob string string string string
  | T_Generic "generic_trigger option"
  | T_Plain string string

definition http_trigger_type :: string where "http_trigger_type = ''httpTrigger''"
definition timer_trigger_type :: string where "timer_trigger_type = ''timerTrigger''"
definition cosmos_trigger_type :: string where "cosmos_trigger_type = ''cosmosDBTrigger''"
definition sql_trigger_type :: string where "sql_trigger_type = ''sqlTrigger''"
definition eventgrid_trigger_type :: string where "eventgrid_trigger_type = ''eventGridTrigger''"
definition queue_trigger_type :: string where "queue_trigger_type = ''queueTrigger''"
definition eventhub_trigger_type :: string where "eventhub_trigger_type = ''eventHubTrigger''"
definition servicebus_trigger_type :: string where "servicebus_trigger_type = ''serviceBusTrigger''"
definition blob_trigger_type :: string where "blob_trigger_type = ''blobTrigger''"

lemmas trigger_type_defs =
  http_trigger_type_def timer_trigger_type_def cosmos_trigger_type_def sql_trigger_type_def
  eventgrid_trigger_type_def queue_trigger_type_def eventhub_trigger_type_def
  servicebus_trigger_type_def blob_trigger_type_def

text \<open>\<open>GetBindingType\<close>; on a nil \<open>*GenericTrigger\<close> it dereferences nil.\<close>

fun get_binding_type :: "trigger \<Rightarrow> (string, string) outcome" where
  "get_binding_type (T_HTTP _ _ _ _) = Ret http_trigger_type"
| "get_binding_type (T_Timer _ _) = Ret timer_trigger_type"
| "get_binding_type (T_Cosmos _ _) = Ret cosmos_trigger_type"
| "get_binding_type (T_SQL _ _ _) = Ret sql_trigger_type"
| "get_binding_type (T_EventGrid _) = Ret eventgrid_trigger_type"
| "get_binding_type (T_Queue _ _ _) = Ret queue_trigger_type"
| "get_binding_type (T_EventHub _ _ _ _ _) = Ret eventhub_trigger_type"
| "get_binding_type (T_SBQueue _ _ _ _ _) = Ret servicebus_trigger_type"
| "get_binding_type (T_SBTopic _ _ _ _ _ _) = Ret servicebus_trigger_type"
| "get_binding_type (T_Blob _ _ _ _) = Ret blob_trigger_type"
| "get_binding_type (T_Generic None) = Panic ''nil pointer dereference''"
| "get_binding_type (T_Generic (Some g)) = Ret (gt_type g)"
| "get_binding_type (T_Plain _ ty) = Ret ty"

definition http_to_binding :: "string \<Rightarrow> string \<Rightarrow> string list option \<Rightarrow> string \<Rightarrow> binding" where
  "http_to_binding name route methods auth =
     (plain_binding name http_trigger_type ''in'')\<lparr>bd_http := Some \<lparr>htb_auth_level = auth,
        htb_methods = methods, htb_route = route\<rparr>\<rparr>"

definition timer_to_binding :: "string \<Rightarrow> string \<Rightarrow> binding" where
  "timer_to_binding name schedule =
     (plain_binding name timer_trigger_type ''in'')\<lparr>bd_timer := Some \<lparr>tmb_schedule = schedule\<rparr>\<rparr>"

definition cosmos_to_binding :: "string \<Rightarrow> cosmos_binding \<Rightarrow> binding" where
  "cosmos_to_binding name c =
     (plain_binding name cosmos_trigger_type ''in'')\<lparr>bd_cosmos := Some c\<rparr>"

definition sql_to_binding :: "string \<Rightarrow> string \<Rightarrow> string \<Rightarrow> binding" where
  "sql_to_binding name table conn =
     (plain_binding name sql_trigger_type ''in'')\<lparr>bd_sql := Some \<lparr>sqb_table = table,
        sqb_connection_setting = conn, sqb_leases_table = ''''\<rparr>\<rparr>"

definition eventgrid_to_binding :: "string \<Rightarrow> binding" where
  "eventgrid_to_binding name = plain_binding name eventgrid_trigger_type ''in''"

definition queue_to_binding :: "string \<Rightarrow> string \<Rightarrow> string \<Rightarrow> binding" where
  "queue_to_binding name q conn =
     (plain_binding name queue_trigger_type ''in'')\<lparr>bd_queue := Some \<lparr>qub_name = q,
        qub_connection = conn\<rparr>\<rparr>"

definition eventhub_to_binding ::
    "string \<Rightarrow> string \<Rightarrow> string \<Rightarrow> string \<Rightarrow> string \<Rightarrow> binding" where
  "eventhub_to_binding name hub conn grp crd =
     (plain_binding name eventhub_trigger_type ''in'')\<lparr>bd_eventhub := Some \<lparr>ehb_name = hub,
        ehb_connection = conn, ehb_consumer_group = grp, ehb_cardinality = crd,
        ehb_data_type = ''binary''\<rparr>\<rparr>"

definition sbqueue_to_binding ::
    "string \<Rightarrow> string \<Rightarrow> string \<Rightarrow> bool \<Rightarrow> string \<Rightarrow> binding" where
  "sbqueue_to_binding name q conn sess crd =
     (plain_binding name servicebus_trigger_type ''in'')\<lparr>bd_servicebus := Some \<lparr>sbb_queue_name = q,
        sbb_topic_name = '''', sbb_subscription = '''', sbb_connection = conn,
        sbb_sessions = sess, sbb_cardinality = crd, sbb_data_type = ''binary''\<rparr>\<rparr>"

definition sbtopic_to_binding ::
    "string \<Rightarrow> string \<Rightarrow> string \<Rightarrow> string \<Rightarrow> bool \<Rightarrow> string \<Rightarrow> binding" where
  "sbtopic_to_binding name topic sub conn sess crd =
     (plain_binding name servicebus_trigger_type ''in'')\<lparr>bd_servicebus := Some \<lparr>sbb_queue_name = '''',
        sbb_topic_name = topic, sbb_subscription = sub, sbb_connection = conn,
        sbb_sessions = sess, sbb_cardinality = crd, sbb_data_type = ''binary''\<rparr>\<rparr>"

definition blob_to_binding :: "string \<Rightarrow> string \<Rightarrow> string \<Rightarrow> string \<Rightarrow> binding" where
  "blob_to_binding name path conn source =
     (plain_binding name blob_trigger_type ''in'')\<lparr>bd_blob := Some \<lparr>blb_path = path,
        blb_connection = conn, blb_source = source\<rparr>\<rparr>"

definition generic_to_binding :: "generic_trigger option \<Rightarrow> (string, binding) outcome" where
  "generic_to_binding p =
     (case p of
        None \<Rightarrow> Panic ''GenericTrigger: trigger must not be nil''
      | Some g \<Rightarrow> Ret ((plain_binding (gt_name g) (gt_type g) ''in'')\<lparr>bd_generic := Some
           \<lparr>gen_data_type = gt_data_type g, gen_cardinality = gt_cardinality g,
            gen_properties = gt_properties g\<rparr>\<rparr>))"

fun to_binding :: "trigger \<Rightarrow> (string, binding) outcome" where
  "to_binding (T_HTTP n r m a) = Ret (http_to_binding n r m a)"
| "to_binding (T_Timer n s) = Ret (timer_to_binding n s)"
| "to_binding (T_Cosmos n c) = Ret (cosmos_to_binding n c)"
| "to_binding (T_SQL n t c) = Ret (sql_to_binding n t c)"
| "to_binding (T_EventGrid n) = Ret (eventgrid_to_binding n)"
| "to_binding (T_Queue n q c) = Ret (queue_to_binding n q c)"
| "to_binding (T_EventHub n h c g k) = Ret (eventhub_to_binding n h c g k)"
| "to_binding (T_SBQueue n q c s k) = Ret (sbqueue_to_binding n q c s k)"
| "to_binding (T_SBTopic n t sb c s k) = Ret (sbtopic_to_binding n t sb c s k)"
| "to_binding (T_Blob n p c s) = Ret (blob_to_binding n p c s)"
| "to_binding (T_Generic g) = generic_to_binding g"
| "to_binding (T_Plain n ty) = Ret (plain_binding n ty ''in'')"

lemmas to_binding_defs =
  http_to_binding_def timer_to_binding_def cosmos_to_binding_def sql_to_binding_def
  eventgrid_to_binding_def queue_to_binding_def eventhub_to_binding_def
  sbqueue_to_binding_def sbtopic_to_binding_def blob_to_binding_def generic_to_binding_def

subsection \<open>The reflective view of a sub-binding: json tag and value of each field\<close>

definition json_strs :: "string list option \<Rightarrow> json" where
  "json_strs ms = (case ms of None \<Rightarrow> JNull | Some xs \<Rightarrow> JArr (map JStr xs))"

definition cosmos_view :: "cosmos_binding \<Rightarrow> (string \<times> json) list" where
  "cosmos_view c =
     [(''databaseName'', JStr (cos_database c)),
      (''containerName'', JStr (cos_container c)),
      (''connection'', JStr (cos_connection c)),
      (''leaseContainerName,omitempty'', JStr (cos_lease_container c)),
      (''leaseDatabaseName,omitempty'', JStr (cos_lease_database c)),
      (''leaseConnection,omitempty'', JStr (cos_lease_connection c)),
      (''createLeaseContainerIfNotExists,omitempty'', JBool (cos_create_lease c)),
      (''leasesContainerThroughput,omitempty'', json_int (cos_lease_throughput c)),
      (''leaseContainerPrefix,omitempty'', JStr (cos_lease_prefix c)),
      (''feedPollDelay,omitempty'', json_int (cos_feed_poll_delay c)),
      (''leaseRenewInterval,omitempty'', json_int (cos_lease_renew c)),
      (''leaseAcquireInterval,omitempty'', json_int (cos_lease_acquire c)),
      (''leaseExpirationInterval,omitempty'', json_int (cos_lease_expiration c)),
      (''maxItemsPerInvocation,omitempty'', json_int (cos_max_items c)),
      (''startFromBeginning,omitempty'', JBool (cos_from_beginning c)),
      (''startFromTime,omitempty'', JStr (cos_from_time c)),
      (''preferredLocations,omitempty'', JStr (cos_preferred c))]"

definition http_view :: "http_binding \<Rightarrow> (string \<times> json) list" where
  "http_view h =
     [(''authLevel'', JStr (htb_auth_level h)),
      (''methods'', json_strs (htb_methods h)),
      (''route,omitempty'', JStr (htb_route h))]"

definition blob_view :: "blob_binding \<Rightarrow> (string \<times> json) list" where
  "blob_view b =
     [(''path'', JStr (blb_path b)),
      (''connection'', JStr (blb_connection b)),
      (''source,omitempty'', JStr (blb_source b))]"

definition timer_view :: "timer_binding \<Rightarrow> (string \<times> json) list" where
  "timer_view t = [(''schedule'', JStr (tmb_schedule t))]"

definition eventhub_view :: "eventhub_binding \<Rightarrow> (string \<times> json) list" where
  "eventhub_view e =
     [(''eventHubName'', JStr (ehb_name e)),
      (''connection'', JStr (ehb_connection e)),
      (''consumerGroup,omitempty'', JStr (ehb_consumer_group e)),
      (''cardinality,omitempty'', JStr (ehb_cardinality e)),
      (''dataType'', JStr (ehb_data_type e))]"

definition servicebus_view :: "servicebus_binding \<Rightarrow> (string \<times> json) list" where
  "servicebus_view s =
     [(''queueName,omitempty'', JStr (sbb_queue_name s)),
      (''topicName,omitempty'', JStr (sbb_topic_name s)),
      (''subscriptionName,omitempty'', JStr (sbb_subscription s)),
      (''connection'', JStr (sbb_connection s)),
      (''isSessionsEnabled,omitempty'', JBool (sbb_sessions s)),
      (''cardinality,omitempty'', JStr (sbb_cardinality s)),
      (''dataType'', JStr (sbb_data_type s))]"

definition sql_view :: "sql_binding \<Rightarrow> (string \<times> json) list" where
  "sql_view s =
     [(''tableName'', JStr (sqb_table s)),
      (''connectionStringSetting'', JStr (sqb_connection_setting s)),
      (''leasesTableName,omitempty'', JStr (sqb_leases_table s))]"

definition queue_view :: "queue_binding \<Rightarrow> (string \<times> json) list" where
  "queue_view q =
     [(''queueName,omitempty'', JStr (qub_name q)),
      (''connection,omitempty'', JStr (qub_connection q))]"

lemmas view_defs =
  cosmos_view_def http_view_def blob_view_def timer_view_def eventhub_view_def
  servicebus_view_def sql_view_def queue_view_def

subsection \<open>MarshalJSON\<close>

definition base_entries :: "binding \<Rightarrow> (string, json) go_map" where
  "base_entries b =
     map_put ''direction'' (JStr (bd_direction b))
       (map_put ''type'' (JStr (bd_type b)) (map_put ''name'' (JStr (bd_name b)) []))"

text \<open>The reflection loop over the sub-binding's fields.\<close>

fun merge_view :: "(string \<times> json) list \<Rightarrow> (string, json) go_map \<Rightarrow> (string, json) go_map" where
  "merge_view [] m = m"
| "merge_view ((tag, v) # fs) m =
     (if tag = '''' \<or> tag = ''-'' then merge_view fs m
      else
        (let (name, opts, found) = cut_at CHR '','' tag in
         if contains_str opts ''omitempty'' \<and> json_is_zero v then merge_view fs m
         else merge_view fs (map_put name v m)))"

definition sub_view :: "binding \<Rightarrow> (string \<times> json) list" where
  "sub_view b =
     (case bd_cosmos b of Some x \<Rightarrow> cosmos_view x | None \<Rightarrow>
     (case bd_http b of Some x \<Rightarrow> http_view x | None \<Rightarrow>
     (case bd_blob b of Some x \<Rightarrow> blob_view x | None \<Rightarrow>
     (case bd_timer b of Some x \<Rightarrow> timer_view x | None \<Rightarrow>
     (case bd_eventhub b of Some x \<Rightarrow> eventhub_view x | None \<Rightarrow>
     (case bd_servicebus b of Some x \<Rightarrow> servicebus_view x | None \<Rightarrow>
     (case bd_sql b of Some x \<Rightarrow> sql_view x | None \<Rightarrow>
     (case bd_queue b of Some x \<Rightarrow> queue_view x | None \<Rightarrow> []))))))))"

definition has_typed_config :: "binding \<Rightarrow> bool" where
  "has_typed_config b \<longleftrightarrow>
     bd_cosmos b \<noteq> None \<or> bd_http b \<noteq> None \<or> bd_blob b \<noteq> None \<or>
     bd_timer b \<noteq> None \<or> bd_eventhub b \<noteq> None \<or> bd_servicebus b \<noteq> None \<or>
     bd_sql b \<noteq> None \<or> bd_queue b \<noteq> None"

definition reserved_keys :: "string list" where
  "reserved_keys = [''name'', ''type'', ''direction'', ''datatype'', ''cardinality'']"

definition binding_error :: "string \<Rightarrow> string \<Rightarrow> go_error" where
  "binding_error n msg = ''binding '' @ go_quote n @ '': '' @ msg"

text \<open>The loop over the properties, in the order the map is ranged over.\<close>

fun put_properties ::
    "string \<Rightarrow> (string, json) go_map \<Rightarrow> string list \<Rightarrow> (string, json) go_map \<Rightarrow>
     (string, json) go_map result" where
  "put_properties n [] seen m = Inr m"
| "put_properties n ((key, v) # ps) seen m =
     (let canonical = to_lower key in
      if canonical \<in> set reserved_keys
      then Inl (binding_error n (''property '' @ go_quote key @ '' is reserved; use the descriptor field''))
      else if trim_space key = '''' \<or> canonical \<in> set seen
      then Inl (binding_error n (''empty or duplicate property '' @ go_quote key))
      else put_properties n ps (canonical # seen) (map_put key v m))"

definition marshal_generic :: "binding \<Rightarrow> generic_binding \<Rightarrow> (string, json) go_map result" where
  "marshal_generic b g =
     (if has_typed_config b
      then Inl (binding_error (bd_name b) ''generic and typed configuration cannot be combined'')
      else if gen_data_type g \<notin> {'''', ''string'', ''binary''}
      then Inl (binding_error (bd_name b) ''dataType must be string or binary, or omitted'')
      else if gen_cardinality g \<notin> {'''', ''one'', ''many''}
      then Inl (binding_error (bd_name b) ''cardinality must be one or many, or omitted'')
      else
        (let m = base_entries b;
             m = (if gen_data_type g \<noteq> '''' then map_put ''dataType'' (JStr (gen_data_type g)) m else m);
             m = (if gen_cardinality g \<noteq> '''' then map_put ''cardinality'' (JStr (gen_cardinality g)) m else m)
         in put_properties (bd_name b) (gen_properties g) [] m))"

text \<open>\<open>Binding.MarshalJSON\<close>: the object, then its text.\<close>

definition binding_object :: "binding \<Rightarrow> (string, json) go_map result" where
  "binding_object b =
     (case bd_generic b of
        Some g \<Rightarrow> marshal_generic b g
      | None \<Rightarrow> Inr (merge_view (sub_view b) (base_entries b)))"

definition binding_json :: "binding \<Rightarrow> string result" where
  "binding_json b = bind_result (binding_object b) (\<lambda>m. Inr (json_encode (JMap m)))"

subsection \<open>Lemmas on the loops\<close>

lemma wf_base_entries [simp, intro]: "wf_map (base_entries b)"
  by (simp add: base_entries_def wf_map_put)

lemma base_entries_lookup [simp]:
  "map_of (base_entries b) ''name'' = Some (JStr (bd_name b))"
  "map_of (base_entries b) ''type'' = Some (JStr (bd_type b))"
  "map_of (base_entries b) ''direction'' = Some (JStr (bd_direction b))"
  by (simp_all add: base_entries_def)

lemma merge_view_frame:
  "k \<notin> (before_sep CHR '','' \<circ> fst) ` set fs \<Longrightarrow> map_of (merge_view fs m) k = map_of m k"
  by (induction fs m rule: merge_view.induct)
     (auto simp: before_sep_def Let_def split: prod.splits)

definition view_names :: "(string \<times> json) list \<Rightarrow> string list" where
  "view_names fs = map (before_sep CHR '','' \<circ> fst) fs"

lemma merge_view_frame_names:
  "k \<notin> set (view_names fs) \<Longrightarrow> map_of (merge_view fs m) k = map_of m k"
  by (rule merge_view_frame) (simp add: view_names_def)

text \<open>No struct declares one of the three base keys.\<close>

lemma view_names_cosmos: "{''name'', ''type'', ''direction''} \<inter> set (view_names (cosmos_view c)) = {}"
  by (simp add: view_names_def cosmos_view_def before_sep_def)

lemma view_names_rest:
  "{''name'', ''type'', ''direction''} \<inter> set (view_names (http_view h)) = {}"
  "{''name'', ''type'', ''direction''} \<inter> set (view_names (blob_view bl)) = {}"
  "{''name'', ''type'', ''direction''} \<inter> set (view_names (timer_view t)) = {}"
  "{''name'', ''type'', ''direction''} \<inter> set (view_names (eventhub_view e)) = {}"
  "{''name'', ''type'', ''direction''} \<inter> set (view_names (servicebus_view s)) = {}"
  "{''name'', ''type'', ''direction''} \<inter> set (view_names (sql_view sq)) = {}"
  "{''name'', ''type'', ''direction''} \<inter> set (view_names (queue_view q)) = {}"
  by (simp_all add: view_names_def before_sep_def http_view_def blob_view_def timer_view_def
      eventhub_view_def servicebus_view_def sql_view_def queue_view_def)

lemma sub_view_names: "{''name'', ''type'', ''direction''} \<inter> set (view_names (sub_view b)) = {}"
  unfolding sub_view_def
  by (simp only: view_names_cosmos view_names_rest split: option.split)
     (simp add: view_names_def)

lemma put_properties_Inr_iff:
  "(\<exists>m'. put_properties n ps seen m = Inr m') \<longleftrightarrow>
     (\<forall>k \<in> set (map fst ps). to_lower k \<notin> set reserved_keys \<and> trim_space k \<noteq> '''' \<and> to_lower k \<notin> set seen) \<and>
     distinct (map (to_lower \<circ> fst) ps)"
  by (induction n ps seen m rule: put_properties.induct) (auto simp: Let_def, force+)

lemma put_properties_map:
  "put_properties n ps seen m = Inr m' \<Longrightarrow> m' = map_merge m ps"
  by (induction n ps seen m rule: put_properties.induct)
     (auto simp: Let_def map_merge_def split: if_splits)

lemma distinct_lower_keys: "distinct (map (to_lower \<circ> fst) ps) \<Longrightarrow> wf_map ps"
  unfolding wf_map_def
  by (metis distinct_map map_map)

lemma reserved_lower: "k \<in> set reserved_keys \<Longrightarrow> to_lower k = k"
  by (auto simp: reserved_keys_def to_lower_def lower_char_def)

lemma marshal_generic_entries:
  assumes "marshal_generic b g = Inr m"
  shows "m = map_merge
    (let m = base_entries b;
         m = (if gen_data_type g \<noteq> '''' then map_put ''dataType'' (JStr (gen_data_type g)) m else m)
     in if gen_cardinality g \<noteq> '''' then map_put ''cardinality'' (JStr (gen_cardinality g)) m else m)
    (gen_properties g)"
  using assms unfolding marshal_generic_def Let_def
  by (auto split: if_splits dest!: put_properties_map)

lemma marshal_generic_keys:
  assumes "marshal_generic b g = Inr m"
  shows "\<forall>k \<in> set (map fst (gen_properties g)). to_lower k \<notin> set reserved_keys"
    and "wf_map (gen_properties g)"
proof -
  obtain m0 m1 where "put_properties (bd_name b) (gen_properties g) [] m0 = Inr m1"
    using assms unfolding marshal_generic_def Let_def by (auto split: if_splits)
  then have *: "(\<forall>k \<in> set (map fst (gen_properties g)). to_lower k \<notin> set reserved_keys \<and>
      trim_space k \<noteq> '''' \<and> to_lower k \<notin> set []) \<and> distinct (map (to_lower \<circ> fst) (gen_properties g))"
    using put_properties_Inr_iff by blast
  then show "\<forall>k \<in> set (map fst (gen_properties g)). to_lower k \<notin> set reserved_keys"
    by blast
  from * show "wf_map (gen_properties g)"
    by (blast intro: distinct_lower_keys)
qed

lemma reserved_not_property:
  assumes "marshal_generic b g = Inr m" and "k \<in> set reserved_keys"
  shows "map_of (gen_properties g) k = None"
  using marshal_generic_keys(1) [OF assms(1)] assms(2) reserved_lower
  by (fastforce simp: map_of_eq_None_iff)

lemma marshal_generic_base:
  assumes "marshal_generic b g = Inr m" and "k \<in> {''name'', ''type'', ''direction''}"
  shows "map_of m k = map_of (base_entries b) k"
proof -
  have "map_of (gen_properties g) k = None"
    using assms by (intro reserved_not_property [OF assms(1)]) (auto simp: reserved_keys_def)
  moreover have "k \<noteq> ''dataType''" "k \<noteq> ''cardinality''"
    using assms(2) by auto
  ultimately show ?thesis
    unfolding marshal_generic_entries [OF assms(1)]
    using marshal_generic_keys(2) [OF assms(1)]
    by (simp add: Let_def map_add_def)
qed

subsection \<open>Properties\<close>

text \<open>
  Whatever sub-binding a binding carries, typed or generic, the JSON object the host indexes
  has the binding's own name, type and direction: no field tag of the eight sub-binding structs
  and no caller-supplied property can replace them.
\<close>

theorem binding_object_core:
  assumes "binding_object b = Inr m"
  shows "map_of m ''name'' = Some (JStr (bd_name b)) \<and>
         map_of m ''type'' = Some (JStr (bd_type b)) \<and>
         map_of m ''direction'' = Some (JStr (bd_direction b))"
proof (cases "bd_generic b")
  case None
  with assms have "m = merge_view (sub_view b) (base_entries b)"
    by (simp add: binding_object_def)
  then show ?thesis
    using sub_view_names [of b] by (simp add: merge_view_frame_names)
next
  case (Some g)
  with assms have "marshal_generic b g = Inr m"
    by (simp add: binding_object_def)
  from marshal_generic_base [OF this] show ?thesis
    by simp
qed

theorem binding_object_core_witness:
  "binding_object (queue_to_binding ''message'' ''orders'' '''') =
     Inr [(''name'', JStr ''message''), (''type'', JStr ''queueTrigger''),
          (''direction'', JStr ''in''), (''queueName'', JStr ''orders'')] \<and>
   map_of [(''name'', JStr ''message''), (''type'', JStr ''queueTrigger''),
          (''direction'', JStr ''in''), (''queueName'', JStr ''orders'')] ''type'' =
     Some (JStr (bd_type (queue_to_binding ''message'' ''orders'' '''')))"
proof -
  have h: "binding_object (queue_to_binding ''message'' ''orders'' '''') =
     Inr [(''name'', JStr ''message''), (''type'', JStr ''queueTrigger''),
          (''direction'', JStr ''in''), (''queueName'', JStr ''orders'')]"
    by code_simp
  show ?thesis
    using h binding_object_core [OF h] by blast
qed

text \<open>
  A generic binding serializes exactly when it carries no typed configuration, its data type
  and cardinality are among the allowed words, and no property key is blank, reserved, or equal
  to another up to case; then its object holds every property with its value.  Both halves speak
  of the property map only, so they do not depend on the order the map is ranged over.
\<close>

theorem marshal_generic_iff:
  "((\<exists>m. marshal_generic b g = Inr m) \<longleftrightarrow>
      \<not> has_typed_config b \<and> gen_data_type g \<in> {'''', ''string'', ''binary''} \<and>
      gen_cardinality g \<in> {'''', ''one'', ''many''} \<and>
      list_all (\<lambda>k. to_lower k \<notin> set reserved_keys \<and> trim_space k \<noteq> '''') (map fst (gen_properties g)) \<and>
      distinct (map (to_lower \<circ> fst) (gen_properties g))) \<and>
   (marshal_generic b g = Inr m \<longrightarrow> map_of (gen_properties g) k = Some v \<longrightarrow> map_of m k = Some v)"
proof (rule conjI)
  have "\<And>m0. (\<exists>m. put_properties (bd_name b) (gen_properties g) [] m0 = Inr m) \<longleftrightarrow>
     list_all (\<lambda>k. to_lower k \<notin> set reserved_keys \<and> trim_space k \<noteq> '''') (map fst (gen_properties g)) \<and>
     distinct (map (to_lower \<circ> fst) (gen_properties g))"
    unfolding put_properties_Inr_iff list_all_iff by auto
  then show "(\<exists>m. marshal_generic b g = Inr m) \<longleftrightarrow>
     \<not> has_typed_config b \<and> gen_data_type g \<in> {'''', ''string'', ''binary''} \<and>
     gen_cardinality g \<in> {'''', ''one'', ''many''} \<and>
     list_all (\<lambda>k. to_lower k \<notin> set reserved_keys \<and> trim_space k \<noteq> '''') (map fst (gen_properties g)) \<and>
     distinct (map (to_lower \<circ> fst) (gen_properties g))"
    unfolding marshal_generic_def Let_def by auto
  show "marshal_generic b g = Inr m \<longrightarrow> map_of (gen_properties g) k = Some v \<longrightarrow> map_of m k = Some v"
  proof (intro impI)
    assume m: "marshal_generic b g = Inr m" and v: "map_of (gen_properties g) k = Some v"
    show "map_of m k = Some v"
      unfolding marshal_generic_entries [OF m]
      using marshal_generic_keys(2) [OF m] v by simp
  qed
qed

definition kafka_binding :: generic_binding where
  "kafka_binding = \<lparr>gen_data_type = ''string'', gen_cardinality = '''',
     gen_properties = [(''topic'', JStr ''orders'')]\<rparr>"

theorem marshal_generic_iff_witness:
  "marshal_generic (plain_binding ''event'' ''kafkaTrigger'' ''in'') kafka_binding =
     Inr [(''name'', JStr ''event''), (''type'', JStr ''kafkaTrigger''), (''direction'', JStr ''in''),
          (''dataType'', JStr ''string''), (''topic'', JStr ''orders'')] \<and>
   map_of [(''name'', JStr ''event''), (''type'', JStr ''kafkaTrigger''), (''direction'', JStr ''in''),
          (''dataType'', JStr ''string''), (''topic'', JStr ''orders'')] ''topic'' = Some (JStr ''orders'')"
proof -
  let ?m = "[(''name'', JStr ''event''), (''type'', JStr ''kafkaTrigger''), (''direction'', JStr ''in''),
          (''dataType'', JStr ''string''), (''topic'', JStr ''orders'')]"
  have h: "marshal_generic (plain_binding ''event'' ''kafkaTrigger'' ''in'') kafka_binding = Inr ?m"
    by code_simp
  have v: "map_of (gen_properties kafka_binding) ''topic'' = Some (JStr ''orders'')"
    by (simp add: kafka_binding_def)
  show ?thesis
    using h v conjunct2 [OF marshal_generic_iff] by blast
qed

end
