(* ===== verification/Binding_Types.thy ===== *)
theory Binding_Types
  imports Go_Prelude
begin

text \<open>
  \<open>internal/bindingtype/type.go\<close>: which Go types a generic trigger may take and return.
  The program reads types through \<open>reflect\<close>.  A program has finitely many types; here they
  are the entries of a list, the type environment, and a \<open>reflect.Type\<close> is an index into it
  (identical types have one index).  \<open>rt_name\<close> is \<open>t.String()\<close>, \<open>rt_short_name\<close> is
  \<open>t.Name()\<close>; the types the sources compare with by identity are marked \<open>well_known\<close>.  An index out of range is a type of kind \<open>Invalid\<close>.
\<close>

subsection \<open>Reflected types\<close>

datatype kind =
    K_Invalid | K_Bool | K_Int | K_Int8 | K_Int16 | K_Int32 | K_Int64
  | K_Uint | K_Uint8 | K_Uint16 | K_Uint32 | K_Uint64 | K_Uintptr
  | K_Float32 | K_Float64 | K_Complex64 | K_Complex128
  | K_Array | K_Chan | K_Func | K_Interface | K_Map | K_Ptr | K_Slice | K_String | K_Struct
  | K_UnsafePointer

datatype iface =
    I_JsonMarshaler | I_TextMarshaler | I_JsonUnmarshaler | I_TextUnmarshaler
  | I_Context | I_ResponseWriter | I_Error

datatype well_known =
    Type_Number | Type_Context | Type_Error | Type_Request | Type_Request_Ptr
  | Type_Response_Writer | Type_Other

type_synonym gtype = nat

record rfield =
  rf_field_name :: string
  rf_field_type :: gtype
  rf_json_tag :: string
  rf_azfunc_tag :: string

record rtype =
  rt_name :: string
  rt_short_name :: string
  rt_kind :: kind
  rt_elem :: gtype
  rt_key :: gtype
  rt_fields :: "rfield list"
  rt_num_method :: nat
  rt_in :: "gtype list"
  rt_out :: "gtype list"
  rt_variadic :: bool
  rt_implements :: "iface list"
  rt_ptr_implements :: "iface list"
  rt_well_known :: well_known

type_synonym tenv = "rtype list"

definition invalid_type :: rtype where
  "invalid_type = \<lparr>rt_name = ''invalid'', rt_short_name = '''', rt_kind = K_Invalid, rt_elem = 0, rt_key = 0,
     rt_fields = [], rt_num_method = 0, rt_in = [], rt_out = [], rt_variadic = False,
     rt_implements = [], rt_ptr_implements = [], rt_well_known = Type_Other\<rparr>"

definition tinfo :: "tenv \<Rightarrow> gtype \<Rightarrow> rtype" where
  "tinfo E t = (if t < length E then E ! t else invalid_type)"

abbreviation kind_of :: "tenv \<Rightarrow> gtype \<Rightarrow> kind" where
  "kind_of E t \<equiv> rt_kind (tinfo E t)"

abbreviation elem_of :: "tenv \<Rightarrow> gtype \<Rightarrow> gtype" where
  "elem_of E t \<equiv> rt_elem (tinfo E t)"

abbreviation key_of :: "tenv \<Rightarrow> gtype \<Rightarrow> gtype" where
  "key_of E t \<equiv> rt_key (tinfo E t)"

abbreviation type_name :: "tenv \<Rightarrow> gtype \<Rightarrow> string" where
  "type_name E t \<equiv> rt_name (tinfo E t)"

definition implements :: "tenv \<Rightarrow> gtype \<Rightarrow> iface \<Rightarrow> bool" where
  "implements E t i \<longleftrightarrow> i \<in> set (rt_implements (tinfo E t))"

text \<open>\<open>reflect.PointerTo(t).Implements(i)\<close>.\<close>

definition ptr_implements :: "tenv \<Rightarrow> gtype \<Rightarrow> iface \<Rightarrow> bool" where
  "ptr_implements E t i \<longleftrightarrow> i \<in> set (rt_ptr_implements (tinfo E t))"

lemma kind_in_range: "kind_of E t \<noteq> K_Invalid \<Longrightarrow> t < length E"
  by (auto simp: tinfo_def invalid_type_def split: if_splits)

subsection \<open>Type rules\<close>

definition is_text :: "tenv \<Rightarrow> gtype \<Rightarrow> bool" where
  "is_text E t \<longleftrightarrow> kind_of E t = K_String \<and> rt_well_known (tinfo E t) \<noteq> Type_Number"

definition is_bytes :: "tenv \<Rightarrow> gtype \<Rightarrow> bool" where
  "is_bytes E t \<longleftrightarrow> kind_of E t = K_Slice \<and> kind_of E (elem_of E t) = K_Uint8"

definition is_raw :: "tenv \<Rightarrow> gtype \<Rightarrow> bool" where
  "is_raw E t \<longleftrightarrow> is_text E t \<or> is_bytes E t"

definition marshals :: "tenv \<Rightarrow> gtype \<Rightarrow> bool" where
  "marshals E t \<longleftrightarrow> implements E t I_JsonMarshaler \<or> implements E t I_TextMarshaler"

text \<open>\<open>Marshals(reflect.PointerTo(t))\<close>.\<close>

definition ptr_marshals :: "tenv \<Rightarrow> gtype \<Rightarrow> bool" where
  "ptr_marshals E t \<longleftrightarrow> ptr_implements E t I_JsonMarshaler \<or> ptr_implements E t I_TextMarshaler"

definition unmarshals :: "tenv \<Rightarrow> gtype \<Rightarrow> bool" where
  "unmarshals E t \<longleftrightarrow> ptr_implements E t I_JsonUnmarshaler \<or> ptr_implements E t I_TextUnmarshaler"

subsection \<open>Unwrapping pointers\<close>

text \<open>The types of the environment not yet in the \<open>seen\<close> set: the measure of every loop here.\<close>

definition unseen :: "tenv \<Rightarrow> gtype list \<Rightarrow> nat" where
  "unseen E seen = card ({..<length E} - set seen)"

lemma unseen_less: "t < length E \<Longrightarrow> t \<notin> set seen \<Longrightarrow> unseen E (t # seen) < unseen E seen"
  unfolding unseen_def by (intro psubset_card_mono) auto

lemma unseen_mono: "set seen \<subseteq> set seen' \<Longrightarrow> unseen E seen' \<le> unseen E seen"
  unfolding unseen_def by (intro card_mono) auto

lemma unseen_Cons_le: "unseen E (t # seen) \<le> unseen E seen"
  by (rule unseen_mono) auto

function base_loop :: "tenv \<Rightarrow> gtype list \<Rightarrow> gtype \<Rightarrow> gtype result" where
  "base_loop E seen t =
     (if kind_of E t = K_Ptr
      then (if t \<in> set seen
            then Inl (''recursive pointer type '' @ type_name E t @ '' holds no data'')
            else base_loop E (t # seen) (elem_of E t))
      else Inr t)"
  by pat_completeness auto

termination
proof (relation "measure (\<lambda>(E, seen, t). unseen E seen)", goal_cases)
  case 1
  show ?case by simp
next
  case (2 E seen t)
  then have "t < length E" by (intro kind_in_range) simp
  with 2 show ?case by (simp add: unseen_less)
qed

declare base_loop.simps [simp del]

definition base_type :: "tenv \<Rightarrow> gtype \<Rightarrow> gtype result" where
  "base_type E t = base_loop E [] t"

text \<open>The pointees of a type, one step at a time.\<close>

definition pointee :: "tenv \<Rightarrow> nat \<Rightarrow> gtype \<Rightarrow> gtype" where
  "pointee E n t = (elem_of E ^^ n) t"

lemma pointee_0 [simp]: "pointee E 0 t = t"
  by (simp add: pointee_def)

lemma pointee_Suc: "pointee E (Suc n) t = pointee E n (elem_of E t)"
  by (simp add: pointee_def funpow_Suc_right del: funpow.simps)

lemma pointee_step: "pointee E (Suc n) t = elem_of E (pointee E n t)"
  by (simp add: pointee_def)

lemma pointee_add: "pointee E (m + n) t = pointee E m (pointee E n t)"
  by (simp add: pointee_def funpow_add)

lemma base_loop_Inr:
  "base_loop E seen t = Inr b \<Longrightarrow>
     kind_of E b \<noteq> K_Ptr \<and> (\<exists>n. b = pointee E n t \<and> (\<forall>i < n. kind_of E (pointee E i t) = K_Ptr))"
proof (induction E seen t rule: base_loop.induct)
  case (1 E seen t)
  show ?case
  proof (cases "kind_of E t = K_Ptr")
    case True
    with "1.prems" have r: "t \<notin> set seen" "base_loop E (t # seen) (elem_of E t) = Inr b"
      by (simp_all add: base_loop.simps [of E seen t] split: if_splits)
    from "1.IH" [OF True r] obtain n where
      k: "kind_of E b \<noteq> K_Ptr" and n: "b = pointee E n (elem_of E t)"
        "\<forall>i < n. kind_of E (pointee E i (elem_of E t)) = K_Ptr"
      by blast
    have "\<forall>i < Suc n. kind_of E (pointee E i t) = K_Ptr"
      using True n(2) by (auto simp: pointee_Suc less_Suc_eq_0_disj)
    moreover have "b = pointee E (Suc n) t"
      by (simp add: pointee_Suc n(1))
    ultimately show ?thesis using k by blast
  next
    case False
    with "1.prems" show ?thesis
      by (auto simp: base_loop.simps [of E seen t] intro!: exI [of _ 0])
  qed
qed


text \<open>A chain that ends at a data type is followed to its end.\<close>

lemma base_loop_reaches:
  "\<forall>i < n. kind_of E (pointee E i t) = K_Ptr \<Longrightarrow> kind_of E (pointee E n t) \<noteq> K_Ptr \<Longrightarrow>
     \<forall>i < n. pointee E i t \<notin> set seen \<Longrightarrow> base_loop E seen t = Inr (pointee E n t)"
proof (induction n arbitrary: t seen)
  case 0
  then show ?case by (simp add: base_loop.simps [of E seen t])
next
  case (Suc n)
  from Suc.prems(1) have p: "kind_of E t = K_Ptr"
    by (metis pointee_0 zero_less_Suc)
  from Suc.prems(3) have s: "t \<notin> set seen"
    by (metis pointee_0 zero_less_Suc)
  have fresh: "pointee E i (elem_of E t) \<noteq> t" if "i < n" for i
  proof
    assume "pointee E i (elem_of E t) = t"
    then have c: "(elem_of E ^^ Suc i) t = t"
      by (metis pointee_Suc pointee_def)
    have "pointee E (Suc n mod Suc i) t = pointee E (Suc n) t"
      unfolding pointee_def by (rule funpow_mod_eq [OF c])
    moreover have "Suc n mod Suc i < Suc n"
      using that by (meson mod_less_divisor zero_less_Suc Suc_less_eq less_trans)
    ultimately show False
      using Suc.prems(1,2) by metis
  qed
  have "base_loop E (t # seen) (elem_of E t) = Inr (pointee E n (elem_of E t))"
  proof (rule Suc.IH)
    show "\<forall>i < n. kind_of E (pointee E i (elem_of E t)) = K_Ptr"
      using Suc.prems(1) by (auto simp flip: pointee_Suc)
    show "kind_of E (pointee E n (elem_of E t)) \<noteq> K_Ptr"
      using Suc.prems(2) by (simp add: pointee_Suc)
    show "\<forall>i < n. pointee E i (elem_of E t) \<notin> set (t # seen)"
      using fresh Suc.prems(3) by (auto simp flip: pointee_Suc)
  qed
  then show ?case
    using p s by (simp add: base_loop.simps [of E seen t] pointee_Suc)
qed

lemma base_type_Inr_iff:
  "base_type E t = Inr b \<longleftrightarrow>
     (\<exists>n. b = pointee E n t \<and> kind_of E b \<noteq> K_Ptr \<and> (\<forall>i < n. kind_of E (pointee E i t) = K_Ptr))"
  unfolding base_type_def
  by (auto dest: base_loop_Inr simp: base_loop_reaches)

lemma base_type_Inl_iff:
  "(\<exists>e. base_type E t = Inl e) \<longleftrightarrow> (\<forall>n. kind_of E (pointee E n t) = K_Ptr)"
proof
  assume l: "\<exists>e. base_type E t = Inl e"
  show "\<forall>n. kind_of E (pointee E n t) = K_Ptr"
  proof (rule ccontr)
    assume "\<not> (\<forall>n. kind_of E (pointee E n t) = K_Ptr)"
    then obtain n where "kind_of E (pointee E n t) \<noteq> K_Ptr"
      "\<forall>i < n. kind_of E (pointee E i t) = K_Ptr"
      using exists_least_iff [of "\<lambda>n. kind_of E (pointee E n t) \<noteq> K_Ptr"] by auto
    then have "base_type E t = Inr (pointee E n t)"
      by (auto simp: base_type_Inr_iff)
    with l show False by simp
  qed
next
  assume "\<forall>n. kind_of E (pointee E n t) = K_Ptr"
  then show "\<exists>e. base_type E t = Inl e"
    by (cases "base_type E t") (auto simp: base_type_Inr_iff)
qed

lemma base_type_not_ptr: "base_type E t = Inr b \<Longrightarrow> kind_of E b \<noteq> K_Ptr"
  by (auto simp: base_type_Inr_iff)

lemma base_type_self: "kind_of E t \<noteq> K_Ptr \<Longrightarrow> base_type E t = Inr t"
  by (simp add: base_type_def base_loop.simps [of E "[]" t])

subsection \<open>The shape of a payload or result\<close>

definition json_key_kinds :: "kind list" where
  "json_key_kinds = [K_String, K_Int, K_Int8, K_Int16, K_Int32, K_Int64,
     K_Uint, K_Uint8, K_Uint16, K_Uint32, K_Uint64, K_Uintptr]"

definition unrepresentable :: "kind list" where
  "unrepresentable = [K_Chan, K_Func, K_Complex64, K_Complex128, K_UnsafePointer]"

text \<open>
  The closure \<open>visit\<close> of \<open>validateShape\<close>.  Its recursive calls are tail calls: a type
  has one element type.
\<close>

function visit_shape ::
    "tenv \<Rightarrow> string \<Rightarrow> (gtype \<Rightarrow> bool) \<Rightarrow> (gtype \<Rightarrow> bool) \<Rightarrow> gtype list \<Rightarrow> gtype \<Rightarrow> unit result" where
  "visit_shape E role custom text_key seen t =
     (case base_type E t of
        Inl e \<Rightarrow> Inl e
      | Inr b \<Rightarrow>
          if b \<in> set seen \<or> custom b then Inr ()
          else if kind_of E b \<in> set unrepresentable
          then Inl (type_name E b @ '' cannot be represented in JSON'')
          else if kind_of E b = K_Interface
          then (if role = ''payload'' \<and> rt_num_method (tinfo E b) > 0
                then Inl (''JSON cannot populate non-empty interface '' @ type_name E b)
                else Inr ())
          else if kind_of E b = K_Map
          then (if kind_of E (key_of E b) \<in> set json_key_kinds \<or> text_key (key_of E b)
                then visit_shape E role custom text_key (b # seen) (elem_of E b)
                else Inl (''map key '' @ type_name E (key_of E b) @
                  '' must be a string, an integer, or have a text encoding''))
          else if kind_of E b = K_Slice \<or> kind_of E b = K_Array
          then visit_shape E role custom text_key (b # seen) (elem_of E b)
          else Inr ())"
  by pat_completeness auto

termination
  by (relation "measure (\<lambda>(E, role, custom, text_key, seen, t). unseen E seen)")
     (auto intro!: unseen_less kind_in_range)

declare visit_shape.simps [simp del]

definition validate_shape ::
    "tenv \<Rightarrow> gtype \<Rightarrow> string \<Rightarrow> (gtype \<Rightarrow> bool) \<Rightarrow> (gtype \<Rightarrow> bool) \<Rightarrow> unit result" where
  "validate_shape E root role custom text_key =
     (case visit_shape E role custom text_key [] root of
        Inl e \<Rightarrow> Inl (''unsupported '' @ role @ '' type '' @ type_name E root @ '': '' @ e)
      | Inr u \<Rightarrow> Inr ())"

text \<open>
  The specification.  The shape of a type is the chain of data types met by unwrapping pointers,
  slices, arrays and maps, up to a type with a codec of its own.
\<close>

inductive shape :: "tenv \<Rightarrow> (gtype \<Rightarrow> bool) \<Rightarrow> gtype \<Rightarrow> gtype \<Rightarrow> bool" for E custom t where
  root: "shape E custom t t"
| step: "shape E custom t u \<Longrightarrow> base_type E u = Inr b \<Longrightarrow> \<not> custom b \<Longrightarrow>
     kind_of E b \<in> {K_Map, K_Slice, K_Array} \<Longrightarrow> shape E custom t (elem_of E b)"

definition shape_ok_at ::
    "tenv \<Rightarrow> string \<Rightarrow> (gtype \<Rightarrow> bool) \<Rightarrow> (gtype \<Rightarrow> bool) \<Rightarrow> gtype \<Rightarrow> bool" where
  "shape_ok_at E role custom text_key u \<longleftrightarrow>
     (case base_type E u of
        Inl e \<Rightarrow> False
      | Inr b \<Rightarrow> custom b \<or>
          (kind_of E b \<notin> set unrepresentable \<and>
           (kind_of E b = K_Interface \<longrightarrow> role = ''payload'' \<longrightarrow> rt_num_method (tinfo E b) = 0) \<and>
           (kind_of E b = K_Map \<longrightarrow>
              kind_of E (key_of E b) \<in> set json_key_kinds \<or> text_key (key_of E b))))"

lemma shape_front:
  assumes b: "base_type E t = Inr b" "\<not> custom b" "kind_of E b \<in> {K_Map, K_Slice, K_Array}"
    and u: "shape E custom (elem_of E b) u"
  shows "shape E custom t u"
  using u
proof (induction rule: shape.induct)
  case root
  show ?case by (rule shape.step [where E = E and custom = custom and t = t and u = t and b = b, OF shape.root b])
next
  case (step u b')
  from step.IH step.hyps(2-4) show ?case by (rule shape.step)
qed

lemma shape_cases_front:
  assumes "shape E custom t u"
  shows "u = t \<or> (\<exists>b. base_type E t = Inr b \<and> \<not> custom b \<and>
    kind_of E b \<in> {K_Map, K_Slice, K_Array} \<and> shape E custom (elem_of E b) u)"
  using assms
proof (induction rule: shape.induct)
  case root
  show ?case by simp
next
  case (step u b)
  from step.IH show ?case
  proof
    assume "u = t"
    with step.hyps show ?thesis by (blast intro: shape.root)
  next
    assume "\<exists>b'. base_type E t = Inr b' \<and> \<not> custom b' \<and>
      kind_of E b' \<in> {K_Map, K_Slice, K_Array} \<and> shape E custom (elem_of E b') u"
    then obtain b' where "base_type E t = Inr b'" "\<not> custom b'"
      "kind_of E b' \<in> {K_Map, K_Slice, K_Array}" "shape E custom (elem_of E b') u"
      by blast
    moreover from this(4) step.hyps(2-4) have "shape E custom (elem_of E b') (elem_of E b)"
      by (rule shape.step)
    ultimately show ?thesis by blast
  qed
qed

definition shape_steps :: "tenv \<Rightarrow> (gtype \<Rightarrow> bool) \<Rightarrow> gtype \<Rightarrow> gtype option" where
  "shape_steps E custom t =
     (case base_type E t of
        Inl e \<Rightarrow> None
      | Inr b \<Rightarrow> if custom b \<or> kind_of E b \<notin> {K_Map, K_Slice, K_Array} then None
          else Some (elem_of E b))"

lemma shape_iff_steps:
  "shape E custom t u \<longleftrightarrow>
     u = t \<or> (\<exists>t'. shape_steps E custom t = Some t' \<and> shape E custom t' u)"
proof
  assume "shape E custom t u"
  from shape_cases_front [OF this]
  show "u = t \<or> (\<exists>t'. shape_steps E custom t = Some t' \<and> shape E custom t' u)"
    by (elim disjE exE conjE) (simp_all add: shape_steps_def)
next
  assume "u = t \<or> (\<exists>t'. shape_steps E custom t = Some t' \<and> shape E custom t' u)"
  then show "shape E custom t u"
    by (auto simp: shape_steps_def shape.root intro: shape_front split: sum.splits if_splits)
qed

text \<open>
  One unfolding of the closure: unless the base was met before, the type must be good itself and
  then the rest of the chain is visited.
\<close>

lemma visit_shape_step:
  "visit_shape E role custom text_key seen t = Inr () \<longleftrightarrow>
     (case base_type E t of
        Inl e \<Rightarrow> False
      | Inr b \<Rightarrow> b \<in> set seen \<or>
          (shape_ok_at E role custom text_key t \<and>
           (case shape_steps E custom t of
              None \<Rightarrow> True
            | Some t' \<Rightarrow> visit_shape E role custom text_key (b # seen) t' = Inr ())))"
proof (cases "base_type E t")
  case (Inl e)
  then show ?thesis by (simp add: visit_shape.simps [of E role custom text_key seen t])
next
  case (Inr b)
  then show ?thesis
    by (simp add: visit_shape.simps [of E role custom text_key seen t] shape_ok_at_def
        shape_steps_def unrepresentable_def)
qed

lemma base_type_idem: "base_type E t = Inr b \<Longrightarrow> base_type E b = Inr b"
  by (simp add: base_type_self base_type_not_ptr)

lemma shape_same_base:
  assumes "base_type E t = Inr b"
  shows "shape_ok_at E role custom text_key t = shape_ok_at E role custom text_key b"
    and "shape_steps E custom t = shape_steps E custom b"
  using assms base_type_idem [OF assms] by (simp_all add: shape_ok_at_def shape_steps_def)

text \<open>A visit that succeeds has met a set of bases closed under the chain, all good.\<close>

definition shape_closed ::
    "tenv \<Rightarrow> string \<Rightarrow> (gtype \<Rightarrow> bool) \<Rightarrow> (gtype \<Rightarrow> bool) \<Rightarrow> gtype set \<Rightarrow> gtype set \<Rightarrow> bool" where
  "shape_closed E role custom text_key X S \<longleftrightarrow>
     (\<forall>c \<in> S - X. shape_ok_at E role custom text_key c \<and>
        (\<forall>t'. shape_steps E custom c = Some t' \<longrightarrow> (\<exists>b'. base_type E t' = Inr b' \<and> b' \<in> S)))"

lemma visit_shape_closed:
  "visit_shape E role custom text_key seen t = Inr () \<Longrightarrow>
     \<exists>S b. base_type E t = Inr b \<and> b \<in> S \<and> set seen \<subseteq> S \<and>
       shape_closed E role custom text_key (set seen) S"
proof (induction "unseen E seen" arbitrary: seen t rule: less_induct)
  case less
  from less.prems obtain b where b: "base_type E t = Inr b"
    by (auto simp: visit_shape_step split: sum.splits)
  show ?case
  proof (cases "b \<in> set seen")
    case True
    with b show ?thesis
      by (intro exI [of _ "set seen"]) (auto simp: shape_closed_def)
  next
    case False
    with less.prems b have ok: "shape_ok_at E role custom text_key b"
      and rest: "\<And>t'. shape_steps E custom b = Some t' \<Longrightarrow>
        visit_shape E role custom text_key (b # seen) t' = Inr ()"
      unfolding visit_shape_step [of E role custom text_key seen t] shape_same_base [OF b]
      by auto
    show ?thesis
    proof (cases "shape_steps E custom b")
      case None
      with b ok show ?thesis
        by (intro exI [of _ "insert b (set seen)"]) (auto simp: shape_closed_def)
    next
      case (Some t')
      then have t': "t' = elem_of E b" "\<not> custom b" "kind_of E b \<in> {K_Map, K_Slice, K_Array}"
        using base_type_idem [OF b] by (auto simp: shape_steps_def split: if_splits)
      have "b < length E"
        using t'(3) by (intro kind_in_range) auto
      then have "unseen E (b # seen) < unseen E seen"
        using False by (rule unseen_less)
      from less.hyps [OF this rest [OF Some]]
      obtain S c where S: "base_type E t' = Inr c" "c \<in> S" "set (b # seen) \<subseteq> S"
          "shape_closed E role custom text_key (set (b # seen)) S"
        by blast
      have "shape_closed E role custom text_key (set seen) S"
        unfolding shape_closed_def
      proof (intro ballI)
        fix d assume d: "d \<in> S - set seen"
        show "shape_ok_at E role custom text_key d \<and>
          (\<forall>t'. shape_steps E custom d = Some t' \<longrightarrow> (\<exists>b'. base_type E t' = Inr b' \<and> b' \<in> S))"
          using S d ok Some by (cases "d = b") (auto simp: shape_closed_def)
      qed
      with S b show ?thesis by (intro exI [of _ S]) auto
    qed
  qed
qed

lemma shape_in_closed:
  assumes "shape E custom t u" and "shape_closed E role custom text_key {} S"
    and "base_type E t = Inr b" and "b \<in> S"
  shows "\<exists>c. base_type E u = Inr c \<and> c \<in> S"
  using assms(1)
proof (induction rule: shape.induct)
  case root
  with assms show ?case by blast
next
  case (step u b')
  then have "b' \<in> S" by auto
  moreover have "shape_steps E custom b' = Some (elem_of E b')"
    using step.hyps base_type_idem by (auto simp: shape_steps_def)
  ultimately show ?case
    using assms(2) by (auto simp: shape_closed_def)
qed

lemma visit_shape_complete:
  "\<forall>u. shape E custom t u \<longrightarrow> shape_ok_at E role custom text_key u \<Longrightarrow>
     visit_shape E role custom text_key seen t = Inr ()"
proof (induction "unseen E seen" arbitrary: seen t rule: less_induct)
  case less
  have ok: "shape_ok_at E role custom text_key t"
    using less.prems by (blast intro: shape.root)
  then obtain b where b: "base_type E t = Inr b"
    by (auto simp: shape_ok_at_def split: sum.splits)
  show ?case
  proof (cases "b \<in> set seen")
    case True
    with b show ?thesis by (simp add: visit_shape_step)
  next
    case False
    have "visit_shape E role custom text_key (b # seen) t' = Inr ()"
      if t': "shape_steps E custom t = Some t'" for t'
    proof (rule less.hyps)
      have "b < length E"
        using t' b by (intro kind_in_range) (auto simp: shape_steps_def split: if_splits)
      then show "unseen E (b # seen) < unseen E seen"
        using False by (rule unseen_less)
      show "\<forall>u. shape E custom t' u \<longrightarrow> shape_ok_at E role custom text_key u"
        using less.prems t' shape_iff_steps [of E custom t] by blast
    qed
    with b ok show ?thesis
      unfolding visit_shape_step [of E role custom text_key seen t]
      by (auto split: option.splits)
  qed
qed

lemma validate_shape_iff:
  "validate_shape E root role custom text_key = Inr () \<longleftrightarrow>
     (\<forall>u. shape E custom root u \<longrightarrow> shape_ok_at E role custom text_key u)"
proof
  assume "validate_shape E root role custom text_key = Inr ()"
  then have "visit_shape E role custom text_key [] root = Inr ()"
    by (simp add: validate_shape_def split: sum.splits)
  from visit_shape_closed [OF this] obtain S b where
    S: "base_type E root = Inr b" "b \<in> S" "shape_closed E role custom text_key {} S"
    by auto
  show "\<forall>u. shape E custom root u \<longrightarrow> shape_ok_at E role custom text_key u"
  proof (intro allI impI)
    fix u assume "shape E custom root u"
    from shape_in_closed [OF this S(3,1,2)] obtain c where c: "base_type E u = Inr c" "c \<in> S"
      by blast
    with S(3) have "shape_ok_at E role custom text_key c" by (simp add: shape_closed_def)
    with c shape_same_base(1) show "shape_ok_at E role custom text_key u" by metis
  qed
next
  assume "\<forall>u. shape E custom root u \<longrightarrow> shape_ok_at E role custom text_key u"
  then show "validate_shape E root role custom text_key = Inr ()"
    by (simp add: validate_shape_def visit_shape_complete)
qed

subsection \<open>Pointer cycles anywhere in a payload\<close>

text \<open>The types \<open>rejectPointerCycles\<close> recurs into, in its order.\<close>

definition component_types :: "tenv \<Rightarrow> gtype \<Rightarrow> gtype list" where
  "component_types E b =
     (case kind_of E b of
        K_Slice \<Rightarrow> [elem_of E b]
      | K_Array \<Rightarrow> [elem_of E b]
      | K_Map \<Rightarrow> [key_of E b, elem_of E b]
      | K_Struct \<Rightarrow> map rf_field_type (rt_fields (tinfo E b))
      | _ \<Rightarrow> [])"

lemma component_types_invalid: "\<not> b < length E \<Longrightarrow> component_types E b = []"
  by (simp add: component_types_def tinfo_def invalid_type_def)

text \<open>The closure \<open>visit\<close> with the captured \<open>seen\<close> map passed through, and its loop.\<close>

function (sequential, domintros) cyc_visit :: "tenv \<Rightarrow> gtype list \<Rightarrow> gtype \<Rightarrow> gtype list \<times> unit result"
  and cyc_list :: "tenv \<Rightarrow> gtype list \<Rightarrow> gtype list \<Rightarrow> gtype list \<times> unit result" where
  "cyc_visit E seen t =
     (case base_type E t of
        Inl e \<Rightarrow> (seen, Inl e)
      | Inr b \<Rightarrow>
          if b \<in> set seen then (seen, Inr ())
          else cyc_list E (b # seen) (component_types E b))"
| "cyc_list E seen [] = (seen, Inr ())"
| "cyc_list E seen (t # ts) =
     (case cyc_visit E seen t of
        (seen', Inl e) \<Rightarrow> (seen', Inl e)
      | (seen', Inr u) \<Rightarrow> cyc_list E seen' ts)"
  by pat_completeness auto

lemma cyc_grows:
  "cyc_visit_cyc_list_dom (Inl (E, seen, t)) \<Longrightarrow> set seen \<subseteq> set (fst (cyc_visit E seen t))"
  "cyc_visit_cyc_list_dom (Inr (E, seen, ts)) \<Longrightarrow> set seen \<subseteq> set (fst (cyc_list E seen ts))"
proof (induction E seen t and E seen ts rule: cyc_visit_cyc_list.pinduct)
  case (1 E seen t)
  then show ?case
    by (auto simp: cyc_visit.psimps split: sum.splits)
next
  case (2 E seen)
  then show ?case by (simp add: cyc_list.psimps)
next
  case (3 E seen t ts)
  then show ?case
    by (fastforce simp: cyc_list.psimps split: prod.splits sum.splits)
qed

termination cyc_visit
proof (relation "inv_image (less_than <*lex*> less_than)
    (\<lambda>x. case x of Inl (E, seen, t) \<Rightarrow> (unseen E seen, 1)
       | Inr (E, seen, ts) \<Rightarrow> (unseen E seen, 2 * length ts))", goal_cases)
  case 1
  show ?case by auto
next
  case (2 E seen t b)
  then show ?case
    using unseen_less [of b E seen] unseen_Cons_le [of E b seen] component_types_invalid [of b E]
    by (cases "b < length E") auto
next
  case (3 E seen t ts)
  then show ?case by simp
next
  case (4 E seen t ts seen' u)
  then have "set seen \<subseteq> set seen'"
    by (metis cyc_grows(1) fst_conv)
  from unseen_mono [OF this, of E] show ?case by auto
qed

declare cyc_visit.simps [simp del]

definition reject_pointer_cycles :: "tenv \<Rightarrow> gtype \<Rightarrow> unit result" where
  "reject_pointer_cycles E root = snd (cyc_visit E [] root)"

text \<open>The specification: the parts of a type, through pointers, elements, keys and fields.\<close>

inductive part_of :: "tenv \<Rightarrow> gtype \<Rightarrow> gtype \<Rightarrow> bool" for E t where
  whole: "part_of E t t"
| pointed: "part_of E t u \<Longrightarrow> kind_of E u = K_Ptr \<Longrightarrow> part_of E t (elem_of E u)"
| component: "part_of E t u \<Longrightarrow> v \<in> set (component_types E u) \<Longrightarrow> part_of E t v"

lemma part_of_trans:
  assumes "part_of E t u" and "part_of E u v"
  shows "part_of E t v"
  using assms(2)
proof (induction rule: part_of.induct)
  case whole
  show ?case by (rule assms(1))
next
  case (pointed w)
  then show ?case by (blast intro: part_of.pointed)
next
  case (component w v)
  then show ?case by (blast intro: part_of.component)
qed

lemma part_of_pointee:
  "\<forall>i < n. kind_of E (pointee E i t) = K_Ptr \<Longrightarrow> part_of E t (pointee E n t)"
proof (induction n)
  case 0
  show ?case by (simp add: part_of.whole)
next
  case (Suc n)
  then show ?case by (simp add: pointee_step part_of.pointed)
qed

lemma part_of_base: "base_type E t = Inr b \<Longrightarrow> part_of E t b"
  using part_of_pointee [of _ E t] by (auto simp: base_type_Inr_iff)

lemma base_type_elem:
  assumes "kind_of E u = K_Ptr" and "base_type E u = Inr b"
  shows "base_type E (elem_of E u) = Inr b"
proof -
  obtain n where n: "b = pointee E n u" "kind_of E b \<noteq> K_Ptr" "\<forall>i < n. kind_of E (pointee E i u) = K_Ptr"
    using assms(2) by (auto simp: base_type_Inr_iff)
  with assms(1) obtain m where m: "n = Suc m"
    by (cases n) auto
  show ?thesis
    unfolding base_type_Inr_iff
    using n by (intro exI [of _ m]) (auto simp: m simp flip: pointee_Suc)
qed

lemma component_types_ptr: "v \<in> set (component_types E u) \<Longrightarrow> kind_of E u \<noteq> K_Ptr"
  by (auto simp: component_types_def)

definition parts_closed :: "tenv \<Rightarrow> gtype list \<Rightarrow> gtype list \<Rightarrow> bool" where
  "parts_closed E seen seen' \<longleftrightarrow>
     (\<forall>c \<in> set seen' - set seen. \<forall>v \<in> set (component_types E c).
        \<exists>b. base_type E v = Inr b \<and> b \<in> set seen')"

lemma cyc_keeps:
  "set seen \<subseteq> set (fst (cyc_visit E seen t))"
  "set seen \<subseteq> set (fst (cyc_list E seen ts))"
proof (induction E seen t and E seen ts rule: cyc_visit_cyc_list.induct)
  case (1 E seen t)
  then show ?case by (auto simp: cyc_visit.simps [of E seen t] split: sum.splits)
next
  case (2 E seen)
  then show ?case by simp
next
  case (3 E seen t ts)
  then show ?case by (fastforce split: prod.splits sum.splits)
qed

lemma cyc_ok_closed:
  "snd (cyc_visit E seen t) = Inr () \<Longrightarrow>
     parts_closed E seen (fst (cyc_visit E seen t)) \<and>
     (\<exists>b. base_type E t = Inr b \<and> b \<in> set (fst (cyc_visit E seen t)))"
  "snd (cyc_list E seen ts) = Inr () \<Longrightarrow>
     parts_closed E seen (fst (cyc_list E seen ts)) \<and>
     (\<forall>v \<in> set ts. \<exists>b. base_type E v = Inr b \<and> b \<in> set (fst (cyc_list E seen ts)))"
proof (induction E seen t and E seen ts rule: cyc_visit_cyc_list.induct)
  case (1 E seen t)
  from "1.prems" obtain b where b: "base_type E t = Inr b"
    by (auto simp: cyc_visit.simps [of E seen t] split: sum.splits)
  show ?case
  proof (cases "b \<in> set seen")
    case True
    with b show ?thesis by (simp add: cyc_visit.simps [of E seen t] parts_closed_def)
  next
    case False
    let ?s = "fst (cyc_list E (b # seen) (component_types E b))"
    have ok: "snd (cyc_list E (b # seen) (component_types E b)) = Inr ()"
      using "1.prems" b False by (simp add: cyc_visit.simps [of E seen t])
    from "1.IH" [OF b False ok]
    have "parts_closed E seen ?s"
      by (auto simp: parts_closed_def)
    moreover have "b \<in> set ?s"
      using cyc_keeps(2) [of "b # seen" E "component_types E b"] by auto
    ultimately show ?thesis
      using b False by (simp add: cyc_visit.simps [of E seen t])
  qed
next
  case (2 E seen)
  then show ?case by (simp add: parts_closed_def)
next
  case (3 E seen t ts)
  obtain s1 r1 where v: "cyc_visit E seen t = (s1, r1)" by fastforce
  with "3.prems" have r1: "r1 = Inr ()" by (cases r1) auto
  let ?s = "fst (cyc_list E s1 ts)"
  have l: "parts_closed E s1 ?s" "\<forall>v \<in> set ts. \<exists>b. base_type E v = Inr b \<and> b \<in> set ?s"
    using "3.IH"(2) [OF v [symmetric] r1] "3.prems" v r1 by auto
  have h: "parts_closed E seen s1" "\<exists>b. base_type E t = Inr b \<and> b \<in> set s1"
    using "3.IH"(1) v r1 by auto
  have k: "set s1 \<subseteq> set ?s" by (rule cyc_keeps)
  have "parts_closed E seen ?s"
    unfolding parts_closed_def
  proof (intro ballI)
    fix c v assume c: "c \<in> set ?s - set seen" "v \<in> set (component_types E c)"
    show "\<exists>b. base_type E v = Inr b \<and> b \<in> set ?s"
      using l(1) h(1) k c unfolding parts_closed_def by (cases "c \<in> set s1") blast+
  qed
  then show ?case using h(2) l(2) k v r1 by auto
qed

lemma cyc_error_part:
  "snd (cyc_visit E seen t) = Inl e \<Longrightarrow> \<exists>u. part_of E t u \<and> base_type E u = Inl e"
  "snd (cyc_list E seen ts) = Inl e \<Longrightarrow> \<exists>v \<in> set ts. \<exists>u. part_of E v u \<and> base_type E u = Inl e"
proof (induction E seen t and E seen ts rule: cyc_visit_cyc_list.induct)
  case (1 E seen t)
  show ?case
  proof (cases "base_type E t")
    case (Inl e')
    with "1.prems" show ?thesis
      by (auto simp: cyc_visit.simps [of E seen t] intro: part_of.whole)
  next
    case (Inr b)
    with "1.prems" have "b \<notin> set seen" "snd (cyc_list E (b # seen) (component_types E b)) = Inl e"
      by (auto simp: cyc_visit.simps [of E seen t] split: if_splits)
    from "1.IH" [OF Inr this] obtain v u where
      u: "v \<in> set (component_types E b)" "part_of E v u" "base_type E u = Inl e"
      by blast
    have "part_of E t v"
      by (rule part_of.component [OF part_of_base [OF Inr] u(1)])
    with u part_of_trans show ?thesis by blast
  qed
next
  case (2 E seen)
  then show ?case by simp
next
  case (3 E seen t ts)
  then show ?case
    by (fastforce split: prod.splits sum.splits)
qed

lemma reject_pointer_cycles_iff:
  "reject_pointer_cycles E t = Inr () \<longleftrightarrow> (\<forall>u. part_of E t u \<longrightarrow> (\<exists>b. base_type E u = Inr b))"
proof
  assume r: "reject_pointer_cycles E t = Inr ()"
  let ?S = "fst (cyc_visit E [] t)"
  from r have c: "parts_closed E [] ?S" "\<exists>b. base_type E t = Inr b \<and> b \<in> set ?S"
    using cyc_ok_closed(1) [of E "[]" t] by (simp_all add: reject_pointer_cycles_def)
  have "\<exists>b. base_type E u = Inr b \<and> b \<in> set ?S" if "part_of E t u" for u
    using that
  proof (induction rule: part_of.induct)
    case whole
    show ?case by (rule c(2))
  next
    case (pointed u)
    then show ?case by (blast dest: base_type_elem)
  next
    case (component u v)
    then have "base_type E u = Inr u"
      by (intro base_type_self component_types_ptr)
    with component c(1) show ?case by (auto simp: parts_closed_def)
  qed
  then show "\<forall>u. part_of E t u \<longrightarrow> (\<exists>b. base_type E u = Inr b)" by blast
next
  assume a: "\<forall>u. part_of E t u \<longrightarrow> (\<exists>b. base_type E u = Inr b)"
  show "reject_pointer_cycles E t = Inr ()"
  proof (cases "reject_pointer_cycles E t")
    case (Inl e)
    then have "snd (cyc_visit E [] t) = Inl e"
      by (simp add: reject_pointer_cycles_def)
    from cyc_error_part(1) [OF this] obtain u where "part_of E t u" "base_type E u = Inl e"
      by blast
    with a show ?thesis by fastforce
  qed simp
qed

subsection \<open>Payload and result validation\<close>

definition validate_payload :: "tenv \<Rightarrow> gtype \<Rightarrow> unit result" where
  "validate_payload E t =
     (case reject_pointer_cycles E t of
        Inl e \<Rightarrow> Inl (''unsupported payload type '' @ type_name E t @ '': '' @ e)
      | Inr u \<Rightarrow> validate_shape E t ''payload'' (unmarshals E)
          (\<lambda>key. ptr_implements E key I_TextUnmarshaler))"

definition result_custom :: "tenv \<Rightarrow> gtype \<Rightarrow> gtype \<Rightarrow> bool" where
  "result_custom E root t \<longleftrightarrow> marshals E t \<or> (t \<noteq> root \<and> ptr_marshals E t)"

definition validate_result :: "tenv \<Rightarrow> gtype \<Rightarrow> unit result" where
  "validate_result E root =
     (case validate_shape E root ''result'' (result_custom E root)
         (\<lambda>key. implements E key I_TextMarshaler) of
        Inr u \<Rightarrow> Inr ()
      | Inl e \<Rightarrow>
          if kind_of E root \<noteq> K_Ptr \<and> ptr_marshals E root
          then Inl (e @ ''; return *'' @ type_name E root @ '' so its pointer-receiver marshaler applies'')
          else Inl e)"

lemma validate_payload_base:
  assumes "validate_payload E t = Inr ()"
  shows "\<exists>b. base_type E t = Inr b"
proof -
  have "reject_pointer_cycles E t = Inr ()"
    using assms by (auto simp: validate_payload_def split: sum.splits)
  then show ?thesis
    using part_of.whole by (auto simp: reject_pointer_cycles_iff)
qed

subsection \<open>Properties\<close>

definition plain_type :: "string \<Rightarrow> kind \<Rightarrow> gtype \<Rightarrow> gtype list \<Rightarrow> rtype" where
  "plain_type n k e fs = invalid_type\<lparr>rt_name := n, rt_kind := k, rt_elem := e,
     rt_fields := map (\<lambda>f. \<lparr>rf_field_name = ''F'', rf_field_type = f,
       rf_json_tag = '''', rf_azfunc_tag = ''''\<rparr>) fs\<rparr>"

text \<open>\<open>type Order struct \{ Id string; Next []*Order \}\<close>, \<open>type P *P\<close>, and a struct with a
  field of type \<open>P\<close>.\<close>

definition sample_types :: tenv where
  "sample_types =
    [plain_type ''Order'' K_Struct 0 [1, 2], plain_type ''string'' K_String 0 [],
     plain_type ''[]*Order'' K_Slice 3 [], plain_type ''*Order'' K_Ptr 0 [],
     plain_type ''P'' K_Ptr 4 [], plain_type ''Bad'' K_Struct 0 [1, 4]]"

text \<open>
  C30. Unwrapping pointers always returns: the data type at the end of the pointer chain when there
  is one, and the recursive-pointer error exactly for a type all of whose pointees are pointers.
\<close>

theorem base_type_spec:
  "(base_type E t = Inr b \<longleftrightarrow>
      (\<exists>n. b = pointee E n t \<and> kind_of E b \<noteq> K_Ptr \<and> (\<forall>i < n. kind_of E (pointee E i t) = K_Ptr))) \<and>
   ((\<exists>e. base_type E t = Inl e) \<longleftrightarrow> (\<forall>n. kind_of E (pointee E n t) = K_Ptr))"
  using base_type_Inr_iff base_type_Inl_iff by blast

theorem base_type_spec_witness:
  "base_type sample_types 3 = Inr 0 \<and>
   (\<exists>n. (0::nat) = pointee sample_types n 3 \<and> kind_of sample_types 0 \<noteq> K_Ptr) \<and>
   (\<forall>n. kind_of sample_types (pointee sample_types n 4) = K_Ptr)"
proof -
  have "base_type sample_types 3 = Inr 0" "\<exists>e. base_type sample_types 4 = Inl e"
    by code_simp (intro exI, code_simp)
  then show ?thesis
    using base_type_spec [of sample_types 3 0] base_type_spec [of sample_types 4 0] by blast
qed



text \<open>
  A result type is accepted exactly when every type on its chain can be encoded: marshalers of
  the type itself count everywhere, those with a pointer receiver only below the root, whose
  returned value is not addressable; non-empty interfaces are allowed.
\<close>

theorem validate_result_iff:
  "validate_result E t = Inr () \<longleftrightarrow>
     (\<forall>u. shape E (result_custom E t) t u \<longrightarrow>
        shape_ok_at E ''result'' (result_custom E t) (\<lambda>key. implements E key I_TextMarshaler) u)"
  unfolding validate_shape_iff [symmetric]
  by (simp add: validate_result_def split: sum.splits)

theorem validate_result_iff_witness:
  "validate_result sample_types 2 = Inr () \<and>
   shape_ok_at sample_types ''result'' (result_custom sample_types 2)
     (\<lambda>key. implements sample_types key I_TextMarshaler) 2"
proof -
  have v: "validate_result sample_types 2 = Inr ()" by code_simp
  then show ?thesis
    using validate_result_iff [of sample_types 2] by (blast intro: shape.root)
qed

end
