(* ===== verification/Sdk_App.thy ===== *)
theory Sdk_App
  imports Sdk_Bindings Binding_Types
begin

text \<open>
  Registering functions: \<open>sdk/app.go\<close>, \<open>sdk/options.go\<close>, \<open>sdk/generic.go\<close>,
  \<open>sdk/factories.go\<close>, \<open>sdk/retry.go\<close>.  A registration either returns the registered
  function and the updated application, or panics.  Parameters stand for code that is not here:
  \<open>sha\<close> is \<open>hex(sha256(.))\<close>, the type environment \<open>E\<close> the program's types, and a
  user-supplied \<open>Option\<close> an arbitrary function that may panic.
\<close>

subsection \<open>Handlers, retry policies, registered functions\<close>

text \<open>
  A handler value \<open>f any\<close>: its dynamic type (\<open>None\<close> for the nil interface), whether it is a
  nil function, its \<open>runtime.Func\<close> name and file.
\<close>

record handler_value =
  hv_type :: "gtype option"
  hv_nil :: bool
  hv_full_name :: string
  hv_file :: string

text \<open>Durations are nanoseconds.\<close>

datatype retry_strategy = Exponential_Backoff | Fixed_Delay

record retry_options =
  rty_max :: int
  rty_delay :: "int option"
  rty_minimum :: "int option"
  rty_maximum :: "int option"
  rty_strategy :: retry_strategy

record 'cf registered_function =
  rf_func :: handler_value
  rf_func_name :: string
  rf_func_id :: string
  rf_raw_bindings :: "binding list"
  rf_retry :: "retry_options option"
  rf_script_file :: string
  rf_trigger_type :: string
  rf_client_factory :: "'cf option"

type_synonym 'cf sdk_opt = "'cf registered_function \<Rightarrow> (string, 'cf registered_function) outcome"

subsection \<open>Options\<close>

text \<open>\<open>b := rf.triggerBinding(); b != nil\<close>: an update of the first binding, if there is one.\<close>

definition trigger_binding :: "'cf registered_function \<Rightarrow> binding option" where
  "trigger_binding rf = (case rf_raw_bindings rf of [] \<Rightarrow> None | b # bs \<Rightarrow> Some b)"

definition on_trigger :: "(binding \<Rightarrow> binding) \<Rightarrow> 'cf registered_function \<Rightarrow> 'cf registered_function" where
  "on_trigger g rf =
     (case rf_raw_bindings rf of [] \<Rightarrow> rf | b # bs \<Rightarrow> rf\<lparr>rf_raw_bindings := g b # bs\<rparr>)"

definition on_http :: "(http_binding \<Rightarrow> http_binding) \<Rightarrow> 'cf sdk_opt" where
  "on_http g rf = Ret (on_trigger (\<lambda>b. b\<lparr>bd_http := map_option g (bd_http b)\<rparr>) rf)"

definition with_methods :: "string list \<Rightarrow> 'cf sdk_opt" where
  "with_methods ms = on_http (\<lambda>h. h\<lparr>htb_methods := (if ms = [] then None else Some ms)\<rparr>)"

definition with_auth :: "string \<Rightarrow> 'cf sdk_opt" where
  "with_auth level = on_http (\<lambda>h. h\<lparr>htb_auth_level := level\<rparr>)"

definition with_route :: "string \<Rightarrow> 'cf sdk_opt" where
  "with_route route = on_http (\<lambda>h. h\<lparr>htb_route := route\<rparr>)"

definition with_schedule :: "string \<Rightarrow> 'cf sdk_opt" where
  "with_schedule s rf =
     Ret (on_trigger (\<lambda>b. b\<lparr>bd_timer := map_option (\<lambda>t. t\<lparr>tmb_schedule := s\<rparr>) (bd_timer b)\<rparr>) rf)"

definition with_cosmos :: "(cosmos_binding \<Rightarrow> cosmos_binding) \<Rightarrow> 'cf sdk_opt" where
  "with_cosmos g rf = Ret (on_trigger (\<lambda>b. b\<lparr>bd_cosmos := map_option g (bd_cosmos b)\<rparr>) rf)"

text \<open>\<open>d.Milliseconds()\<close> truncates toward zero.\<close>

definition milliseconds :: "int \<Rightarrow> int" where
  "milliseconds d = (if d < 0 then - ((- d) div 1000000) else d div 1000000)"

definition with_database :: "string \<Rightarrow> 'cf sdk_opt" where
  "with_database s = with_cosmos (\<lambda>c. c\<lparr>cos_database := s\<rparr>)"

definition with_container :: "string \<Rightarrow> 'cf sdk_opt" where
  "with_container s = with_cosmos (\<lambda>c. c\<lparr>cos_container := s\<rparr>)"

definition with_create_lease :: "bool \<Rightarrow> 'cf sdk_opt" where
  "with_create_lease e = with_cosmos (\<lambda>c. c\<lparr>cos_create_lease := e\<rparr>)"

definition with_lease_container :: "string \<Rightarrow> 'cf sdk_opt" where
  "with_lease_container s = with_cosmos (\<lambda>c. c\<lparr>cos_lease_container := s\<rparr>)"

definition with_lease_database :: "string \<Rightarrow> 'cf sdk_opt" where
  "with_lease_database s = with_cosmos (\<lambda>c. c\<lparr>cos_lease_database := s\<rparr>)"

definition with_lease_connection :: "string \<Rightarrow> 'cf sdk_opt" where
  "with_lease_connection s = with_cosmos (\<lambda>c. c\<lparr>cos_lease_connection := s\<rparr>)"

definition with_lease_prefix :: "string \<Rightarrow> 'cf sdk_opt" where
  "with_lease_prefix s = with_cosmos (\<lambda>c. c\<lparr>cos_lease_prefix := s\<rparr>)"

definition with_lease_throughput :: "int \<Rightarrow> 'cf sdk_opt" where
  "with_lease_throughput n = with_cosmos (\<lambda>c. c\<lparr>cos_lease_throughput := n\<rparr>)"

definition with_feed_poll_delay :: "int \<Rightarrow> 'cf sdk_opt" where
  "with_feed_poll_delay d = with_cosmos (\<lambda>c. c\<lparr>cos_feed_poll_delay := milliseconds d\<rparr>)"

definition with_lease_renew :: "int \<Rightarrow> 'cf sdk_opt" where
  "with_lease_renew d = with_cosmos (\<lambda>c. c\<lparr>cos_lease_renew := milliseconds d\<rparr>)"

definition with_lease_acquire :: "int \<Rightarrow> 'cf sdk_opt" where
  "with_lease_acquire d = with_cosmos (\<lambda>c. c\<lparr>cos_lease_acquire := milliseconds d\<rparr>)"

definition with_lease_expiration :: "int \<Rightarrow> 'cf sdk_opt" where
  "with_lease_expiration d = with_cosmos (\<lambda>c. c\<lparr>cos_lease_expiration := milliseconds d\<rparr>)"

definition with_max_items :: "int \<Rightarrow> 'cf sdk_opt" where
  "with_max_items n = with_cosmos (\<lambda>c. c\<lparr>cos_max_items := n\<rparr>)"

definition with_from_beginning :: "bool \<Rightarrow> 'cf sdk_opt" where
  "with_from_beginning e = with_cosmos (\<lambda>c. c\<lparr>cos_from_beginning := e\<rparr>)"

definition with_from_time :: "string \<Rightarrow> 'cf sdk_opt" where
  "with_from_time s = with_cosmos (\<lambda>c. c\<lparr>cos_from_time := s\<rparr>)"

definition with_preferred :: "string list \<Rightarrow> 'cf sdk_opt" where
  "with_preferred ls = with_cosmos (\<lambda>c. c\<lparr>cos_preferred := join_with '','' (filter (\<lambda>l. l \<noteq> '''') ls)\<rparr>)"

definition on_eventhub :: "(eventhub_binding \<Rightarrow> eventhub_binding) \<Rightarrow> 'cf sdk_opt" where
  "on_eventhub g rf = Ret (on_trigger (\<lambda>b. b\<lparr>bd_eventhub := map_option g (bd_eventhub b)\<rparr>) rf)"

definition with_eventhub_name :: "string \<Rightarrow> 'cf sdk_opt" where
  "with_eventhub_name s = on_eventhub (\<lambda>e. e\<lparr>ehb_name := s\<rparr>)"

definition with_consumer_group :: "string \<Rightarrow> 'cf sdk_opt" where
  "with_consumer_group s = on_eventhub (\<lambda>e. e\<lparr>ehb_consumer_group := s\<rparr>)"

definition with_queue_name :: "string \<Rightarrow> 'cf sdk_opt" where
  "with_queue_name s rf = Ret (on_trigger (\<lambda>b. b\<lparr>
     bd_servicebus := map_option (\<lambda>x. x\<lparr>sbb_queue_name := s\<rparr>) (bd_servicebus b),
     bd_queue := map_option (\<lambda>x. x\<lparr>qub_name := s\<rparr>) (bd_queue b)\<rparr>) rf)"

definition on_servicebus :: "(servicebus_binding \<Rightarrow> servicebus_binding) \<Rightarrow> 'cf sdk_opt" where
  "on_servicebus g rf = Ret (on_trigger (\<lambda>b. b\<lparr>bd_servicebus := map_option g (bd_servicebus b)\<rparr>) rf)"

definition with_topic_name :: "string \<Rightarrow> 'cf sdk_opt" where
  "with_topic_name s = on_servicebus (\<lambda>x. x\<lparr>sbb_topic_name := s\<rparr>)"

definition with_subscription :: "string \<Rightarrow> 'cf sdk_opt" where
  "with_subscription s = on_servicebus (\<lambda>x. x\<lparr>sbb_subscription := s\<rparr>)"

definition with_sessions :: "bool \<Rightarrow> 'cf sdk_opt" where
  "with_sessions e = on_servicebus (\<lambda>x. x\<lparr>sbb_sessions := e\<rparr>)"

definition on_blob :: "(blob_binding \<Rightarrow> blob_binding) \<Rightarrow> 'cf sdk_opt" where
  "on_blob g rf = Ret (on_trigger (\<lambda>b. b\<lparr>bd_blob := map_option g (bd_blob b)\<rparr>) rf)"

definition with_path :: "string \<Rightarrow> 'cf sdk_opt" where
  "with_path s = on_blob (\<lambda>x. x\<lparr>blb_path := s\<rparr>)"

definition with_source :: "string \<Rightarrow> 'cf sdk_opt" where
  "with_source s = on_blob (\<lambda>x. x\<lparr>blb_source := s\<rparr>)"

definition on_sql :: "(sql_binding \<Rightarrow> sql_binding) \<Rightarrow> 'cf sdk_opt" where
  "on_sql g rf = Ret (on_trigger (\<lambda>b. b\<lparr>bd_sql := map_option g (bd_sql b)\<rparr>) rf)"

text \<open>The panic of \<open>WithTable\<close> comes when the option is made, before any registration.\<close>

definition with_table :: "string \<Rightarrow> (string, 'cf sdk_opt) outcome" where
  "with_table s =
     (if s = '''' then Panic ''WithTable: table name must not be empty''
      else Ret (on_sql (\<lambda>x. x\<lparr>sqb_table := s\<rparr>)))"

definition with_leases_table :: "string \<Rightarrow> 'cf sdk_opt" where
  "with_leases_table s = on_sql (\<lambda>x. x\<lparr>sqb_leases_table := s\<rparr>)"

definition with_connection :: "string \<Rightarrow> 'cf sdk_opt" where
  "with_connection s rf = Ret (on_trigger (\<lambda>b. b\<lparr>
     bd_cosmos := map_option (\<lambda>x. x\<lparr>cos_connection := s\<rparr>) (bd_cosmos b),
     bd_eventhub := map_option (\<lambda>x. x\<lparr>ehb_connection := s\<rparr>) (bd_eventhub b),
     bd_servicebus := map_option (\<lambda>x. x\<lparr>sbb_connection := s\<rparr>) (bd_servicebus b),
     bd_blob := map_option (\<lambda>x. x\<lparr>blb_connection := s\<rparr>) (bd_blob b),
     bd_queue := map_option (\<lambda>x. x\<lparr>qub_connection := s\<rparr>) (bd_queue b),
     bd_sql := map_option (\<lambda>x. x\<lparr>sqb_connection_setting := s\<rparr>) (bd_sql b)\<rparr>) rf)"

definition handler_shape :: "string \<Rightarrow> string" where
  "handler_shape c = (if c = ''one'' then ''single-message'' else if c = ''many'' then ''batch'' else '''')"

definition expected_cardinality :: "binding \<Rightarrow> string" where
  "expected_cardinality b =
     (case bd_servicebus b of
        Some s \<Rightarrow> sbb_cardinality s
      | None \<Rightarrow> (case bd_eventhub b of Some e \<Rightarrow> ehb_cardinality e | None \<Rightarrow> ''''))"

definition with_cardinality :: "string \<Rightarrow> 'cf sdk_opt" where
  "with_cardinality c rf =
     (case trigger_binding rf of
        None \<Rightarrow> Ret rf
      | Some b \<Rightarrow>
          if bd_eventhub b = None \<and> bd_servicebus b = None then Ret rf
          else if c \<noteq> ''one'' \<and> c \<noteq> ''many''
          then Panic (''cardinality must be '' @ go_quote ''one'' @ '' or '' @ go_quote ''many'' @
            '', got '' @ go_quote c)
          else
            (let expected = expected_cardinality b in
             if expected \<noteq> '''' \<and> c \<noteq> expected
             then Panic (''cardinality '' @ go_quote c @ '' does not match the registered '' @
               handler_shape expected @ '' handler; use cardinality '' @ go_quote expected @
               '' or register a '' @ handler_shape c @ '' handler'')
             else Ret (on_trigger (\<lambda>b. b\<lparr>
               bd_eventhub := map_option (\<lambda>e. e\<lparr>ehb_cardinality := c\<rparr>) (bd_eventhub b),
               bd_servicebus := map_option (\<lambda>s. s\<lparr>sbb_cardinality := c\<rparr>) (bd_servicebus b)\<rparr>) rf)))"

definition with_retry :: "retry_options option \<Rightarrow> 'cf sdk_opt" where
  "with_retry r rf = Ret (rf\<lparr>rf_retry := r\<rparr>)"

text \<open>The loop \<open>for _, opt := range opts \{ opt(rf) \}\<close>.\<close>

fun apply_options :: "'cf sdk_opt list \<Rightarrow> 'cf sdk_opt" where
  "apply_options [] rf = Ret rf"
| "apply_options (opt # opts) rf = bind_outcome (opt rf) (apply_options opts)"

subsection \<open>Generic triggers\<close>

definition generic_fail :: "string \<Rightarrow> (string, 'a) outcome" where
  "generic_fail msg = Panic (''GenericTrigger: '' @ msg)"

text \<open>
  \<open>validateGenericHandler\<close>.  \<open>Base\<close>'s error is dropped there; on it the type is nil and
  reading its kind panics.
\<close>

definition validate_generic_handler :: "tenv \<Rightarrow> handler_value \<Rightarrow> string \<Rightarrow> (string, unit) outcome" where
  "validate_generic_handler E f crd =
     (case hv_type f of
        None \<Rightarrow> generic_fail ''handler must be a non-nil function''
      | Some ft \<Rightarrow>
          let ins = rt_in (tinfo E ft); outs = rt_out (tinfo E ft) in
          if kind_of E ft \<noteq> K_Func \<or> hv_nil f
          then generic_fail ''handler must be a non-nil function''
          else if rt_variadic (tinfo E ft) \<or> length ins \<noteq> 2
          then generic_fail ''handler must accept exactly 2 arguments (context.Context, payload)''
          else if rt_well_known (tinfo E (ins ! 0)) \<noteq> Type_Context
          then generic_fail ''handler first argument must be context.Context''
          else if length outs < 1 \<or> length outs > 2 \<or> rt_well_known (tinfo E (last outs)) \<noteq> Type_Error
          then generic_fail ''handler must return error or (result, error)''
          else if length outs = 2 \<and> implements E (outs ! 0) I_Error
          then generic_fail ''handler result must not be another error''
          else
            (let pt = ins ! 1 in
             if implements E pt I_Context \<or> implements E pt I_ResponseWriter
             then generic_fail ''payload must be data, not a context or HTTP response writer''
             else
               (case validate_payload E pt of
                  Inl e \<Rightarrow> generic_fail e
                | Inr _ \<Rightarrow>
                    (case (if length outs = 2 then validate_result E (outs ! 0) else Inr ()) of
                       Inl e \<Rightarrow> generic_fail e
                     | Inr _ \<Rightarrow>
                         (case base_type E pt of
                            Inl e \<Rightarrow> Panic ''nil pointer dereference''
                          | Inr b \<Rightarrow>
                              if crd = ''many'' \<and> (kind_of E b \<noteq> K_Slice \<or> is_bytes E b)
                              then generic_fail ''cardinality many requires a slice payload such as []Order or [][]byte, not a single []byte''
                              else Ret ())))))"

definition is_alpha :: "char \<Rightarrow> bool" where
  "is_alpha c = (let n = of_char c :: nat in (65 \<le> n \<and> n \<le> 90) \<or> (97 \<le> n \<and> n \<le> 122))"

definition is_word_char :: "char \<Rightarrow> bool" where
  "is_word_char c = (is_alpha c \<or> (let n = of_char c :: nat in 48 \<le> n \<and> n \<le> 57) \<or> c = CHR ''_'')"

text \<open>The regular expression \<open>^[a-zA-Z][a-zA-Z0-9_]*$\<close>.\<close>

fun generic_binding_name :: "string \<Rightarrow> bool" where
  "generic_binding_name [] = False"
| "generic_binding_name (c # s) = (is_alpha c \<and> list_all is_word_char s)"

text \<open>
  What \<open>Decode\<close> into \<open>map[string]any\<close> with \<open>UseNumber\<close> reads back from the text
  \<open>Marshal\<close> wrote: the same tree, every object a map.
\<close>

fun json_reread :: "json \<Rightarrow> json" where
  "json_reread (JArr xs) = JArr (map json_reread xs)"
| "json_reread (JStruct fs) = JMap (map_merge [] (map (\<lambda>(k, v). (k, json_reread v)) fs))"
| "json_reread (JMap fs) = JMap (map (\<lambda>(k, v). (k, json_reread v)) fs)"
| "json_reread j = j"

definition descriptor_keys :: "string list" where
  "descriptor_keys = [''name'', ''type'', ''direction'', ''dataType'', ''cardinality'']"

definition marshal_error :: "go_error \<Rightarrow> go_error" where
  "marshal_error e = ''json: error calling MarshalJSON for type bindings.Binding: '' @ e"

definition snapshot_binding :: "binding \<Rightarrow> binding result" where
  "snapshot_binding b =
     (case binding_object b of
        Inl e \<Rightarrow> Inl (marshal_error e)
      | Inr m \<Rightarrow>
          (case bd_generic b of
             None \<Rightarrow> Inr b
           | Some g \<Rightarrow>
               Inr (b\<lparr>bd_generic := Some (g\<lparr>gen_properties :=
                 fold map_del descriptor_keys (map (\<lambda>(k, v). (k, json_reread v)) m)\<rparr>)\<rparr>)))"

text \<open>\<open>strings.HasSuffix(strings.ToLower(t), "trigger")\<close>.\<close>

definition trigger_suffix :: "string \<Rightarrow> bool" where
  "trigger_suffix t = has_suffix (to_lower t) ''trigger''"

definition is_return_binding :: "binding \<Rightarrow> bool" where
  "is_return_binding b \<longleftrightarrow> bd_name b = ''$return'' \<and> bd_direction b = ''out''"

definition registration_fail :: "string \<Rightarrow> string \<Rightarrow> (string, 'a) outcome" where
  "registration_fail fn msg = Panic (''GenericTrigger '' @ go_quote fn @ '': '' @ msg)"

text \<open>The loop over \<open>rf.RawBindings\<close>, replacing each by its snapshot.\<close>

fun check_bindings :: "string \<Rightarrow> nat \<Rightarrow> string list \<Rightarrow> binding list \<Rightarrow> (string, binding list) outcome" where
  "check_bindings fn i names [] = Ret []"
| "check_bindings fn i names (b # bs) =
     (let key = to_lower (bd_name b) in
      if (\<not> is_return_binding b \<and> \<not> generic_binding_name (bd_name b)) \<or> key \<in> set names
      then registration_fail fn (''binding name must be valid and unique: '' @ bd_name b)
      else if trim_space (bd_type b) = ''''
      then registration_fail fn ''binding type must not be empty''
      else if 0 < i \<and> trigger_suffix (bd_type b)
      then registration_fail fn ''only one trigger is allowed''
      else if bd_direction b \<noteq> ''in'' \<and> \<not> is_return_binding b
      then registration_fail fn ''only input and $return output bindings are supported''
      else
        (case snapshot_binding b of
           Inl e \<Rightarrow> registration_fail fn e
         | Inr s \<Rightarrow> bind_outcome (check_bindings fn (i + 1) (key # names) bs) (\<lambda>ss. Ret (s # ss))))"

definition validate_generic_registration ::
    "tenv \<Rightarrow> 'cf registered_function \<Rightarrow> (string, 'cf registered_function) outcome" where
  "validate_generic_registration E rf =
     (case rf_raw_bindings rf of
        [] \<Rightarrow> Panic ''index out of range''
      | t # _ \<Rightarrow>
          (case bd_generic t of
             None \<Rightarrow> Panic ''nil pointer dereference''
           | Some g \<Rightarrow>
               let fn = rf_func_name rf in
               if trim_space (bd_type t) = '''' then registration_fail fn ''type must not be empty''
               else if trim_space (bd_type t) \<noteq> bd_type t \<or> \<not> trigger_suffix (bd_type t)
               then registration_fail fn ''type must end in Trigger and match an installed host extension''
               else if equal_fold (bd_type t) ''httpTrigger''
               then registration_fail fn ''use App.HTTP for HTTP triggers''
               else if bd_type t \<noteq> rf_trigger_type rf \<or> bd_direction t \<noteq> ''in''
               then registration_fail fn ''trigger type and direction must match registration''
               else if rf_client_factory rf \<noteq> None
               then registration_fail fn ''SDK client injection requires a typed trigger adapter''
               else bind_outcome (validate_generic_handler E (rf_func rf) (gen_cardinality g))
                 (\<lambda>_. bind_outcome (check_bindings fn 0 [] (rf_raw_bindings rf))
                   (\<lambda>bs. Ret (rf\<lparr>rf_raw_bindings := bs\<rparr>)))))"

subsection \<open>Registration\<close>

record 'cf app_functions =
  app_registered :: "(string, 'cf registered_function) go_map"

definition get_function_name :: "handler_value \<Rightarrow> string" where
  "get_function_name f = last (split_at CHR ''.'' (hv_full_name f))"

definition function_key :: "string \<Rightarrow> string \<Rightarrow> string" where
  "function_key name ty = name @ '':'' @ ty"

definition hash_function_id :: "(string \<Rightarrow> string) \<Rightarrow> 'cf registered_function \<Rightarrow> string" where
  "hash_function_id sha rf = sha (function_key (rf_func_name rf) (rf_trigger_type rf))"

definition return_binding :: binding where
  "return_binding = plain_binding ''$return'' ''http'' ''out''"

definition initial_function :: "string \<Rightarrow> handler_value \<Rightarrow> binding \<Rightarrow> string \<Rightarrow> 'cf registered_function" where
  "initial_function name f b ty =
     \<lparr>rf_func = f, rf_func_name = (if name = '''' then get_function_name f else name), rf_func_id = '''',
      rf_raw_bindings = (if ty = http_trigger_type then [b, return_binding] else [b]),
      rf_retry = None, rf_script_file = hv_file f, rf_trigger_type = ty, rf_client_factory = None\<rparr>"

text \<open>
  What \<open>reflect.ValueOf(f).Pointer()\<close> and \<open>FuncForPC(ptr).FileLine\<close> need of the handler:
  a pointer that is not code, or nil code, has no \<open>runtime.Func\<close> and reading its line
  dereferences nil.
\<close>

definition handler_pointer :: "tenv \<Rightarrow> handler_value \<Rightarrow> (string, unit) outcome" where
  "handler_pointer E f =
     (case hv_type f of
        None \<Rightarrow> Panic ''reflect: call of reflect.Value.Pointer on zero Value''
      | Some ft \<Rightarrow>
          if kind_of E ft \<in> {K_Ptr, K_Chan, K_Map, K_Slice, K_String, K_UnsafePointer}
          then Panic ''nil pointer dereference''
          else if kind_of E ft \<noteq> K_Func then Panic ''reflect: call of reflect.Value.Pointer''
          else panic_if (hv_nil f) ''nil pointer dereference'')"

definition register_function ::
    "tenv \<Rightarrow> (string \<Rightarrow> string) \<Rightarrow> 'cf app_functions \<Rightarrow> string \<Rightarrow> handler_value \<Rightarrow> trigger \<Rightarrow>
     'cf sdk_opt list \<Rightarrow> (string, 'cf registered_function \<times> 'cf app_functions) outcome" where
  "register_function E sha app name f t opts =
     bind_outcome (to_binding t) (\<lambda>b.
     bind_outcome (case bd_generic b of
         None \<Rightarrow> Ret ()
       | Some g \<Rightarrow> validate_generic_handler E f (gen_cardinality g)) (\<lambda>_.
     bind_outcome (get_binding_type t) (\<lambda>ty.
     bind_outcome (handler_pointer E f) (\<lambda>_.
     bind_outcome (apply_options opts (initial_function name f b ty)) (\<lambda>rf.
     bind_outcome (if bd_generic b = None then Ret rf
       else (case rf_raw_bindings rf of
           [] \<Rightarrow> Panic ''GenericTrigger: options must preserve the generic trigger binding''
         | b0 # _ \<Rightarrow>
             if bd_generic b0 = None
             then Panic ''GenericTrigger: options must preserve the generic trigger binding''
             else validate_generic_registration E rf)) (\<lambda>rf.
     let rf = rf\<lparr>rf_func_id := hash_function_id sha rf\<rparr>;
         (existing, m) = sm_load_or_store (rf_func_id rf) rf (app_registered app) in
     case existing of
       Some e \<Rightarrow> Panic (''duplicate function registration: '' @ go_quote (rf_func_name rf) @
         '' (trigger type '' @ go_quote (rf_trigger_type rf) @
         '') conflicts with existing function '' @ go_quote (rf_func_name e))
     | None \<Rightarrow> Ret (rf, app\<lparr>app_registered := m\<rparr>)))))))"

subsection \<open>The trigger-specific methods\<close>

definition empty_cosmos :: cosmos_binding where
  "empty_cosmos = \<lparr>cos_database = '''', cos_container = '''', cos_connection = '''',
     cos_lease_container = '''', cos_lease_database = '''', cos_lease_connection = '''',
     cos_create_lease = False, cos_lease_throughput = 0, cos_lease_prefix = '''',
     cos_feed_poll_delay = 0, cos_lease_renew = 0, cos_lease_acquire = 0,
     cos_lease_expiration = 0, cos_max_items = 0, cos_from_beginning = False,
     cos_from_time = '''', cos_preferred = ''''\<rparr>"

definition app_http where
  "app_http E sha app name f opts = register_function E sha app name f
     (T_HTTP ''req'' name (Some [''GET'', ''POST'']) ''anonymous'') opts"

definition app_timer where
  "app_timer E sha app name f opts = register_function E sha app name f (T_Timer ''timer'' '''') opts"

definition app_cosmos where
  "app_cosmos E sha app name f opts =
     register_function E sha app name f (T_Cosmos ''docs'' empty_cosmos) opts"

definition app_sql where
  "app_sql E sha app name f opts = register_function E sha app name f (T_SQL ''changes'' '''' '''') opts"

definition app_eventgrid where
  "app_eventgrid E sha app name f opts = register_function E sha app name f (T_EventGrid ''event'') opts"

definition app_queue where
  "app_queue E sha app name f opts = register_function E sha app name f (T_Queue ''message'' '''' '''') opts"

definition app_eventhub where
  "app_eventhub E sha app name f opts = register_function E sha app name f
     (T_EventHub ''message'' '''' '''' ''$Default'' ''one'') opts"

definition app_eventhub_batch where
  "app_eventhub_batch E sha app name f opts = register_function E sha app name f
     (T_EventHub ''message'' '''' '''' ''$Default'' ''many'') opts"

definition app_sbqueue where
  "app_sbqueue E sha app name f opts = register_function E sha app name f
     (T_SBQueue ''message'' '''' '''' False ''one'') opts"

definition app_sbqueue_batch where
  "app_sbqueue_batch E sha app name f opts = register_function E sha app name f
     (T_SBQueue ''message'' '''' '''' False ''many'') opts"

definition app_sbtopic where
  "app_sbtopic E sha app name f opts = register_function E sha app name f
     (T_SBTopic ''message'' '''' '''' '''' False ''one'') opts"

definition app_sbtopic_batch where
  "app_sbtopic_batch E sha app name f opts = register_function E sha app name f
     (T_SBTopic ''message'' '''' '''' '''' False ''many'') opts"

definition app_generic where
  "app_generic E sha app name f g opts = register_function E sha app name f (T_Generic g) opts"

subsection \<open>Client factories and the blob trigger\<close>

definition register_client_factory ::
    "string \<Rightarrow> 'cf \<Rightarrow> (string, 'cf) go_map \<Rightarrow> (string, (string, 'cf) go_map) outcome" where
  "register_client_factory ty cf reg =
     (case map_of reg ty of
        Some _ \<Rightarrow> Panic (''duplicate ClientFactory registration for trigger type: '' @ ty)
      | None \<Rightarrow> Ret (map_put ty cf reg))"

definition get_client_factory :: "string \<Rightarrow> (string, 'cf) go_map \<Rightarrow> 'cf option" where
  "get_client_factory ty reg = map_of reg ty"

definition validate_blob_handler :: "tenv \<Rightarrow> handler_value \<Rightarrow> (string, unit) outcome" where
  "validate_blob_handler E f =
     (case hv_type f of
        None \<Rightarrow> Panic ''Blob handler must be a function''
      | Some ft \<Rightarrow>
          let ins = rt_in (tinfo E ft); outs = rt_out (tinfo E ft) in
          if kind_of E ft \<noteq> K_Func then Panic ''Blob handler must be a function''
          else if length ins \<noteq> 2
          then Panic (''Blob handler must accept exactly 2 arguments (context.Context, clientType), got '' @
            string_of_int (int (length ins)))
          else if \<not> implements E (ins ! 0) I_Context
          then Panic (''Blob handler first argument must be context.Context, got '' @ type_name E (ins ! 0))
          else if length outs \<noteq> 1
          then Panic (''Blob handler must return exactly 1 value (error), got '' @
            string_of_int (int (length outs)))
          else if \<not> implements E (outs ! 0) I_Error
          then Panic (''Blob handler return type must be error, got '' @ type_name E (outs ! 0))
          else Ret ())"

text \<open>
  \<open>App.Blob\<close>: the factory is set on the registered function after it was stored, through the
  same pointer, so the stored entry has it too.
\<close>

definition app_blob ::
    "tenv \<Rightarrow> (string \<Rightarrow> string) \<Rightarrow> (string, 'cf) go_map \<Rightarrow> 'cf app_functions \<Rightarrow> string \<Rightarrow> handler_value \<Rightarrow>
     'cf sdk_opt list \<Rightarrow> (string, 'cf registered_function \<times> 'cf app_functions) outcome" where
  "app_blob E sha reg app name f opts =
     bind_outcome (validate_blob_handler E f) (\<lambda>_.
     bind_outcome (register_function E sha app name f (T_Blob ''blob'' '''' '''' '''') opts) (\<lambda>(rf, app').
     case get_client_factory blob_trigger_type reg of
       None \<Rightarrow> Ret (rf, app')
     | Some cf \<Rightarrow>
         let rf' = rf\<lparr>rf_client_factory := Some cf\<rparr> in
         Ret (rf', app'\<lparr>app_registered := map_put (rf_func_id rf) rf' (app_registered app')\<rparr>)))"

subsection \<open>Lemmas\<close>

lemma generic_fail_not_Ret [simp]: "generic_fail m \<noteq> Ret x"
  by (simp add: generic_fail_def)

lemma registration_fail_not_Ret [simp]: "registration_fail fn m \<noteq> Ret x"
  by (simp add: registration_fail_def)

text \<open>A snapshot changes the caller's property map and nothing else.\<close>

lemma snapshot_binding_frame:
  assumes "snapshot_binding b = Inr s"
  shows "bd_name s = bd_name b" "bd_type s = bd_type b" "bd_direction s = bd_direction b"
    and "map_option gen_cardinality (bd_generic s) = map_option gen_cardinality (bd_generic b)"
    and "map_option gen_data_type (bd_generic s) = map_option gen_data_type (bd_generic b)"
  using assms unfolding snapshot_binding_def by (auto split: sum.splits option.splits)

definition binding_admitted :: "nat \<Rightarrow> binding \<Rightarrow> bool" where
  "binding_admitted i b \<longleftrightarrow>
     (is_return_binding b \<or> generic_binding_name (bd_name b)) \<and>
     trim_space (bd_type b) \<noteq> '''' \<and> (0 < i \<longrightarrow> \<not> trigger_suffix (bd_type b)) \<and>
     (bd_direction b = ''in'' \<or> is_return_binding b)"

lemma binding_admitted_mono: "binding_admitted (Suc i) b \<Longrightarrow> binding_admitted i b"
  by (auto simp: binding_admitted_def)

lemma binding_admitted_snapshot:
  "snapshot_binding b = Inr s \<Longrightarrow> binding_admitted i s = binding_admitted i b"
  using snapshot_binding_frame(1-3) [of b s]
  by (simp add: binding_admitted_def is_return_binding_def)

lemma check_bindings_Ret:
  "check_bindings fn i names bs = Ret ss \<Longrightarrow>
     list_all2 (\<lambda>b s. snapshot_binding b = Inr s) bs ss \<and>
     distinct (map (to_lower \<circ> bd_name) ss) \<and> set (map (to_lower \<circ> bd_name) ss) \<inter> set names = {} \<and>
     (ss \<noteq> [] \<longrightarrow> binding_admitted i (hd ss)) \<and> list_all (binding_admitted (Suc i)) (tl ss)"
proof (induction fn i names bs arbitrary: ss rule: check_bindings.induct)
  case (1 fn i names)
  then show ?case by simp
next
  case (2 fn i names b bs)
  let ?key = "to_lower (bd_name b)"
  from "2.prems" have adm: "binding_admitted i b" "?key \<notin> set names"
    by (auto simp: binding_admitted_def Let_def split: if_splits)
  from "2.prems" obtain s ss' where
    s: "snapshot_binding b = Inr s" and ss: "ss = s # ss'"
    and r: "check_bindings fn (i + 1) (?key # names) bs = Ret ss'"
    by (auto simp: Let_def bind_outcome_Ret_iff split: if_splits sum.splits)
  have ih: "list_all2 (\<lambda>b s. snapshot_binding b = Inr s) bs ss' \<and>
     distinct (map (to_lower \<circ> bd_name) ss') \<and>
     set (map (to_lower \<circ> bd_name) ss') \<inter> set (?key # names) = {} \<and>
     (ss' \<noteq> [] \<longrightarrow> binding_admitted (i + 1) (hd ss')) \<and>
     list_all (binding_admitted (Suc (i + 1))) (tl ss')"
    using "2.prems" r s by (intro "2.IH" [OF refl]) (auto simp: Let_def split: if_splits)
  have "list_all (binding_admitted (Suc i)) ss'"
    using ih by (cases ss') (auto simp: list_all_iff intro: binding_admitted_mono)
  then show ?case
    using ih adm s ss snapshot_binding_frame(1) [OF s] binding_admitted_snapshot [OF s]
    by (auto simp: o_def)
qed

text \<open>What a registered generic function looks like, whatever options were given.\<close>

definition generic_registered :: "tenv \<Rightarrow> 'cf registered_function \<Rightarrow> bool" where
  "generic_registered E rf \<longleftrightarrow>
     (\<exists>t g bs. rf_raw_bindings rf = t # bs \<and> bd_generic t = Some g \<and>
        bd_type t = rf_trigger_type rf \<and> bd_direction t = ''in'' \<and>
        trigger_suffix (bd_type t) \<and> \<not> equal_fold (bd_type t) ''httpTrigger'' \<and>
        rf_client_factory rf = None \<and>
        validate_generic_handler E (rf_func rf) (gen_cardinality g) = Ret () \<and>
        distinct (map (to_lower \<circ> bd_name) (t # bs)) \<and>
        binding_admitted 0 t \<and> list_all (binding_admitted 1) bs)"

lemma validate_generic_registration_Ret:
  assumes "validate_generic_registration E rf = Ret rf'"
  shows "generic_registered E rf'" and "\<exists>bs. rf' = rf\<lparr>rf_raw_bindings := bs\<rparr>"
proof -
  obtain t bs g where t: "rf_raw_bindings rf = t # bs" "bd_generic t = Some g"
    using assms by (auto simp: validate_generic_registration_def split: list.splits option.splits)
  obtain ss where ss: "check_bindings (rf_func_name rf) 0 [] (rf_raw_bindings rf) = Ret ss"
      "rf' = rf\<lparr>rf_raw_bindings := ss\<rparr>"
    and h: "trigger_suffix (bd_type t)" "\<not> equal_fold (bd_type t) ''httpTrigger''"
      "bd_type t = rf_trigger_type rf" "bd_direction t = ''in''" "rf_client_factory rf = None"
      "validate_generic_handler E (rf_func rf) (gen_cardinality g) = Ret ()"
    using assms t
    by (auto simp: validate_generic_registration_def Let_def bind_outcome_Ret_iff split: if_splits)
  from ss(1) t have c: "list_all2 (\<lambda>b s. snapshot_binding b = Inr s) (t # bs) ss"
      "distinct (map (to_lower \<circ> bd_name) ss)" "ss \<noteq> [] \<longrightarrow> binding_admitted 0 (hd ss)"
      "list_all (binding_admitted 1) (tl ss)"
    using check_bindings_Ret [of "rf_func_name rf" 0 "[]" "t # bs" ss] by auto
  from c(1) obtain t' ss' where t': "ss = t' # ss'" "snapshot_binding t = Inr t'"
    by (auto simp: list_all2_Cons1)
  note fr = snapshot_binding_frame [OF t'(2)]
  from fr(4) t(2) obtain g' where g': "bd_generic t' = Some g'" "gen_cardinality g' = gen_cardinality g"
    by auto
  show "generic_registered E rf'"
    unfolding generic_registered_def
    using ss(2) t' g' fr(1-3) h c by (intro exI [of _ t'] exI [of _ g'] exI [of _ ss']) auto
  show "\<exists>bs. rf' = rf\<lparr>rf_raw_bindings := bs\<rparr>" using ss(2) by blast
qed

lemma generic_registered_id [simp]:
  "generic_registered E (rf\<lparr>rf_func_id := i\<rparr>) = generic_registered E rf"
  by (simp add: generic_registered_def)

lemma hash_function_id_id [simp]:
  "hash_function_id sha (rf\<lparr>rf_func_id := i\<rparr>) = hash_function_id sha rf"
  by (simp add: hash_function_id_def)

text \<open>The steps of a registration that returns.\<close>

lemma register_function_RetE:
  assumes "register_function E sha app name f t opts = Ret (rf, app')"
  obtains b ty rf0 rf1 where
    "to_binding t = Ret b" "get_binding_type t = Ret ty"
    "apply_options opts (initial_function name f b ty) = Ret rf0"
    "bd_generic b = None \<longrightarrow> rf1 = rf0"
    "bd_generic b \<noteq> None \<longrightarrow> validate_generic_registration E rf0 = Ret rf1"
    "rf = rf1\<lparr>rf_func_id := hash_function_id sha rf1\<rparr>"
    "sm_load_or_store (rf_func_id rf) rf (app_registered app) = (None, app_registered app')"
    "app' = app\<lparr>app_registered := app_registered app'\<rparr>"
proof -
  from assms obtain b ty rf0 rf1 where
    h: "to_binding t = Ret b" "get_binding_type t = Ret ty"
      "apply_options opts (initial_function name f b ty) = Ret rf0"
    and r1: "(if bd_generic b = None then Ret rf0
       else (case rf_raw_bindings rf0 of
           [] \<Rightarrow> Panic ''GenericTrigger: options must preserve the generic trigger binding''
         | b0 # _ \<Rightarrow>
             if bd_generic b0 = None
             then Panic ''GenericTrigger: options must preserve the generic trigger binding''
             else validate_generic_registration E rf0)) = Ret rf1"
    and fin: "(let rf' = rf1\<lparr>rf_func_id := hash_function_id sha rf1\<rparr>;
         (existing, m) = sm_load_or_store (rf_func_id rf') rf' (app_registered app) in
     case existing of
       Some e \<Rightarrow> Panic (''duplicate function registration: '' @ go_quote (rf_func_name rf') @
         '' (trigger type '' @ go_quote (rf_trigger_type rf') @
         '') conflicts with existing function '' @ go_quote (rf_func_name e))
     | None \<Rightarrow> Ret (rf', app\<lparr>app_registered := m\<rparr>)) = Ret (rf, app')"
    unfolding register_function_def bind_outcome_Ret_iff by blast
  show thesis
  proof (rule that [OF h])
    show "bd_generic b = None \<longrightarrow> rf1 = rf0"
      using r1 by auto
    show "bd_generic b \<noteq> None \<longrightarrow> validate_generic_registration E rf0 = Ret rf1"
      using r1 by (auto split: list.splits if_splits)
    show "rf = rf1\<lparr>rf_func_id := hash_function_id sha rf1\<rparr>"
      using fin by (auto simp: Let_def split: prod.splits option.splits)
    show "sm_load_or_store (rf_func_id rf) rf (app_registered app) = (None, app_registered app')"
      using fin by (auto simp: Let_def split: prod.splits option.splits)
    show "app' = app\<lparr>app_registered := app_registered app'\<rparr>"
      using fin by (auto simp: Let_def split: prod.splits option.splits)
  qed
qed

text \<open>An SDK option keeps what identifies the function and its bindings.\<close>

definition binding_ids :: "binding \<Rightarrow> string \<times> string \<times> string \<times> generic_binding option" where
  "binding_ids b = (bd_name b, bd_type b, bd_direction b, bd_generic b)"

definition same_identity :: "'cf registered_function \<Rightarrow> 'cf registered_function \<Rightarrow> bool" where
  "same_identity rf rf' \<longleftrightarrow>
     map binding_ids (rf_raw_bindings rf') = map binding_ids (rf_raw_bindings rf) \<and>
     tl (rf_raw_bindings rf') = tl (rf_raw_bindings rf) \<and>
     rf_func rf' = rf_func rf \<and> rf_func_name rf' = rf_func_name rf \<and>
     rf_trigger_type rf' = rf_trigger_type rf \<and> rf_client_factory rf' = rf_client_factory rf"

lemma same_identity_refl [simp]: "same_identity rf rf"
  by (simp add: same_identity_def)

lemma same_identity_trans:
  "same_identity rf rf1 \<Longrightarrow> same_identity rf1 rf2 \<Longrightarrow> same_identity rf rf2"
  by (simp add: same_identity_def)

definition keeps_identity :: "'cf sdk_opt \<Rightarrow> bool" where
  "keeps_identity opt \<longleftrightarrow> (\<forall>rf rf'. opt rf = Ret rf' \<longrightarrow> same_identity rf rf')"

lemma same_identity_on_trigger:
  "(\<And>b. binding_ids (g b) = binding_ids b) \<Longrightarrow> same_identity rf (on_trigger g rf)"
  by (cases "rf_raw_bindings rf") (simp_all add: on_trigger_def same_identity_def)

lemma keeps_identity_on_trigger:
  "(\<And>b. binding_ids (g b) = binding_ids b) \<Longrightarrow> keeps_identity (\<lambda>rf. Ret (on_trigger g rf))"
  by (auto simp: keeps_identity_def intro: same_identity_on_trigger)

lemma keeps_identity_groups:
  "keeps_identity (on_http gh)" "keeps_identity (with_schedule s)" "keeps_identity (with_cosmos gc)"
  "keeps_identity (on_eventhub ge)" "keeps_identity (with_queue_name s)"
  "keeps_identity (on_servicebus gs)" "keeps_identity (on_blob gb)" "keeps_identity (on_sql gq)"
  "keeps_identity (with_connection s)"
  unfolding on_http_def [abs_def] with_schedule_def [abs_def] with_cosmos_def [abs_def]
    on_eventhub_def [abs_def] with_queue_name_def [abs_def] on_servicebus_def [abs_def]
    on_blob_def [abs_def] on_sql_def [abs_def] with_connection_def [abs_def]
  by (rule keeps_identity_on_trigger, simp add: binding_ids_def)+

lemma keeps_identity_cardinality: "keeps_identity (with_cardinality c)"
  unfolding keeps_identity_def with_cardinality_def
  by (auto simp: Let_def binding_ids_def intro: same_identity_on_trigger split: option.splits if_splits)

lemma keeps_identity_retry: "keeps_identity (with_retry r)"
  by (simp add: keeps_identity_def same_identity_def with_retry_def)

lemmas sdk_option_defs =
  with_methods_def with_auth_def with_route_def with_database_def with_container_def
  with_create_lease_def with_lease_container_def with_lease_database_def with_lease_connection_def
  with_lease_prefix_def with_lease_throughput_def with_feed_poll_delay_def with_lease_renew_def
  with_lease_acquire_def with_lease_expiration_def with_max_items_def with_from_beginning_def
  with_from_time_def with_preferred_def with_eventhub_name_def with_consumer_group_def
  with_topic_name_def with_subscription_def with_sessions_def with_path_def with_source_def
  with_leases_table_def

lemma apply_options_keeps:
  "\<forall>opt \<in> set opts. keeps_identity opt \<Longrightarrow> keeps_identity (apply_options opts)"
proof (induction opts)
  case Nil
  then show ?case by (simp add: keeps_identity_def)
next
  case (Cons opt opts)
  then have "keeps_identity opt" "keeps_identity (apply_options opts)" by simp_all
  then show ?case
    unfolding keeps_identity_def apply_options.simps bind_outcome_Ret_iff
    by (blast intro: same_identity_trans)
qed

lemma binding_ids_eq:
  "map binding_ids xs = map binding_ids ys \<Longrightarrow> map bd_name xs = map bd_name ys \<and>
     map bd_type xs = map bd_type ys \<and> map bd_direction xs = map bd_direction ys"
proof -
  assume "map binding_ids xs = map binding_ids ys"
  then have "map (f \<circ> binding_ids) xs = map (f \<circ> binding_ids) ys" for f :: "_ \<Rightarrow> string"
    by (metis map_map)
  from this [of fst] this [of "fst \<circ> snd"] this [of "fst \<circ> snd \<circ> snd"]
  show ?thesis by (simp add: binding_ids_def o_def)
qed

subsection \<open>Properties\<close>

text \<open>Sample data for the witnesses: the types of a handler \<open>func(context.Context, []Order) error\<close>.\<close>

definition handler_types :: tenv where
  "handler_types =
    [plain_type ''func(context.Context, []Order) error'' K_Func 0 []\<lparr>rt_in := [1, 3], rt_out := [2]\<rparr>,
     plain_type ''context.Context'' K_Interface 0 []\<lparr>rt_well_known := Type_Context,
       rt_implements := [I_Context], rt_num_method := 4\<rparr>,
     plain_type ''error'' K_Interface 0 []\<lparr>rt_well_known := Type_Error, rt_implements := [I_Error],
       rt_num_method := 1\<rparr>,
     plain_type ''[]Order'' K_Slice 4 [], plain_type ''Order'' K_Struct 0 []]"

definition sample_handler :: handler_value where
  "sample_handler = \<lparr>hv_type = Some 0, hv_nil = False, hv_full_name = ''main.orders'', hv_file = ''main.go''\<rparr>"

definition sample_generic :: "string \<Rightarrow> generic_trigger" where
  "sample_generic ty = \<lparr>gt_type = ty, gt_name = ''orders'', gt_data_type = '''', gt_cardinality = ''many'',
     gt_properties = [(''topic'', JStr ''orders'')]\<rparr>"

definition empty_app :: "'cf app_functions" where
  "empty_app = \<lparr>app_registered = []\<rparr>"

text \<open>
  C14. A registration that returns has stored its function under a fresh id: the id is the digest of
  the function's own name and trigger type, no earlier function had it, every other function keeps
  its entry, and registering the same function once more panics.
\<close>

theorem register_function_stores:
  assumes "register_function E sha app name f t opts = Ret (rf, app')"
  shows "map_of (app_registered app) (rf_func_id rf) = None \<and>
    map_of (app_registered app') = (map_of (app_registered app))(rf_func_id rf \<mapsto> rf) \<and>
    rf_func_id rf = sha (function_key (rf_func_name rf) (rf_trigger_type rf)) \<and>
    (\<exists>p. register_function E sha app' name f t opts = Panic p)"
proof -
  from assms obtain b ty rf0 rf1 where
    r: "rf = rf1\<lparr>rf_func_id := hash_function_id sha rf1\<rparr>"
    and st: "sm_load_or_store (rf_func_id rf) rf (app_registered app) = (None, app_registered app')"
    by (rule register_function_RetE)
  have fresh: "map_of (app_registered app) (rf_func_id rf) = None"
    and new: "app_registered app' = map_put (rf_func_id rf) rf (app_registered app)"
    using st by (auto simp: sm_load_or_store_def split: option.splits)
  have "\<exists>p. register_function E sha app' name f t opts = Panic p"
  proof (cases "register_function E sha app' name f t opts")
    case (Ret x)
    obtain rf2 app2 where x: "x = (rf2, app2)" by (cases x)
    have same: "rf2 = rf"
      by (rule register_function_RetE [OF assms], rule register_function_RetE [OF Ret [unfolded x]]) auto
    have "sm_load_or_store (rf_func_id rf2) rf2 (app_registered app') = (None, app_registered app2)"
      by (rule register_function_RetE [OF Ret [unfolded x]])
    with same new show ?thesis
      by (simp add: sm_load_or_store_def)
  qed simp
  with fresh new r show ?thesis
    by (simp add: hash_function_id_def)
qed

text \<open>
  The keys that are hashed tell functions apart as long as no trigger type contains a colon.
  One that does can be registered (nothing in the generic validation rejects it), and then two
  functions with different names and trigger types share one key, so the second registration is
  refused as a duplicate.
\<close>

theorem function_key_collision:
  "(CHR '':'' \<notin> set ty \<longrightarrow> CHR '':'' \<notin> set ty' \<longrightarrow>
      (function_key n ty = function_key n' ty' \<longleftrightarrow> n = n' \<and> ty = ty')) \<and>
   (\<exists>rf app p.
      app_generic handler_types sha (empty_app :: unit app_functions) ''a'' sample_handler (Some (sample_generic ''b:kafkaTrigger'')) [] =
        Ret (rf, app) \<and>
      app_generic handler_types sha app ''a:b'' sample_handler (Some (sample_generic ''kafkaTrigger'')) [] =
        Panic p)"
proof (rule conjI)
  have cut: "cut_at CHR '':'' (rev (function_key n ty)) = (rev ty, rev n, True)"
    if "CHR '':'' \<notin> set ty" for n ty
    using that cut_at_append [of "CHR '':''" "rev ty" "rev n"] by (simp add: function_key_def)
  then show "CHR '':'' \<notin> set ty \<longrightarrow> CHR '':'' \<notin> set ty' \<longrightarrow>
      (function_key n ty = function_key n' ty' \<longleftrightarrow> n = n' \<and> ty = ty')"
    by (metis Pair_inject rev_rev_ident)
next
  show "\<exists>rf app p.
      app_generic handler_types sha (empty_app :: unit app_functions) ''a'' sample_handler (Some (sample_generic ''b:kafkaTrigger'')) [] =
        Ret (rf, app) \<and>
      app_generic handler_types sha app ''a:b'' sample_handler (Some (sample_generic ''kafkaTrigger'')) [] =
        Panic p"
    by (intro exI conjI, code_simp, code_simp)
qed

theorem register_function_stores_witness:
  "\<exists>rf app. app_generic handler_types (\<lambda>s. s) (empty_app :: unit app_functions) ''orders'' sample_handler
       (Some (sample_generic ''kafkaTrigger'')) [with_retry None] = Ret (rf, app) \<and>
     map_of (app_registered app) ''orders:kafkaTrigger'' = Some rf"
proof -
  let ?r = "app_generic handler_types (\<lambda>s. s) (empty_app :: unit app_functions) ''orders'' sample_handler
       (Some (sample_generic ''kafkaTrigger'')) [with_retry None]"
  have "\<exists>rf app. ?r = Ret (rf, app) \<and> rf_func_name rf = ''orders'' \<and> rf_trigger_type rf = ''kafkaTrigger''"
    by (intro exI conjI, code_simp, code_simp, code_simp)
  then obtain rf app where r: "?r = Ret (rf, app)"
    and n: "rf_func_name rf = ''orders''" "rf_trigger_type rf = ''kafkaTrigger''" by blast
  from register_function_stores [OF r [unfolded app_generic_def]] n
  have "map_of (app_registered app) ''orders:kafkaTrigger'' = Some rf"
    by (simp add: function_key_def)
  with r show ?thesis by blast
qed

theorem function_key_collision_witness:
  "function_key ''a'' ''kafkaTrigger'' \<noteq> function_key ''b'' ''kafkaTrigger''"
  using function_key_collision [of "''kafkaTrigger''" "''kafkaTrigger''" "''a''" "''b''"] by simp



text \<open>
  No option of the SDK changes the name, type, direction or generic configuration of a binding,
  a binding after the trigger, the handler, its name, its trigger type or its client factory.
\<close>

theorem sdk_options_keep_identity:
  "list_all keeps_identity
     [with_methods ls, with_auth s, with_route s, with_schedule s, with_database s, with_container s,
      with_create_lease e, with_lease_container s, with_lease_database s, with_lease_connection s,
      with_lease_prefix s, with_lease_throughput n, with_feed_poll_delay n, with_lease_renew n,
      with_lease_acquire n, with_lease_expiration n, with_max_items n, with_from_beginning e,
      with_from_time s, with_preferred ls, with_eventhub_name s, with_consumer_group s,
      with_queue_name s, with_topic_name s, with_subscription s, with_sessions e, with_path s,
      with_source s, with_leases_table s, with_connection s, with_cardinality s, with_retry r] \<and>
   (case with_table s of Panic p \<Rightarrow> s = '''' | Ret opt \<Rightarrow> keeps_identity opt)"
  by (simp add: sdk_option_defs with_table_def keeps_identity_groups keeps_identity_cardinality
      keeps_identity_retry)

text \<open>
  An HTTP registration with options of that kind yields the inbound trigger binding \<open>req\<close>
  followed by the outbound \<open>$return\<close> binding of type \<open>http\<close>, and nothing else.
\<close>

theorem app_http_bindings:
  assumes "app_http E sha app name f opts = Ret (rf, app')"
    and "\<forall>opt \<in> set opts. keeps_identity opt"
  shows "map bd_name (rf_raw_bindings rf) = [''req'', ''$return''] \<and>
    map bd_type (rf_raw_bindings rf) = [''httpTrigger'', ''http''] \<and>
    map bd_direction (rf_raw_bindings rf) = [''in'', ''out''] \<and>
    rf_raw_bindings rf ! 1 = return_binding \<and> rf_trigger_type rf = ''httpTrigger''"
proof -
  let ?b = "http_to_binding ''req'' name (Some [''GET'', ''POST'']) ''anonymous''"
  from assms(1) [unfolded app_http_def] obtain b ty rf0 rf1 where
    h: "to_binding (T_HTTP ''req'' name (Some [''GET'', ''POST'']) ''anonymous'') = Ret b"
       "get_binding_type (T_HTTP ''req'' name (Some [''GET'', ''POST'']) ''anonymous'') = Ret ty"
       "apply_options opts (initial_function name f b ty) = Ret rf0"
       "bd_generic b = None \<longrightarrow> rf1 = rf0" "rf = rf1\<lparr>rf_func_id := hash_function_id sha rf1\<rparr>"
    by (rule register_function_RetE)
  from h(1,2) have b: "b = ?b" "ty = http_trigger_type" by auto
  then have rf1: "rf1 = rf0" using h(4) by (simp add: http_to_binding_def)
  have "keeps_identity (apply_options opts)"
    by (rule apply_options_keeps [OF assms(2)])
  with h(3) have "same_identity (initial_function name f b ty) rf0"
    unfolding keeps_identity_def by blast
  then have k: "map binding_ids (rf_raw_bindings rf0) = map binding_ids [?b, return_binding]"
      "tl (rf_raw_bindings rf0) = [return_binding]" "rf_trigger_type rf0 = http_trigger_type"
    by (simp_all add: same_identity_def initial_function_def b)
  from k(2) obtain b0 where "rf_raw_bindings rf0 = [b0, return_binding]"
    by (cases "rf_raw_bindings rf0") auto
  then show ?thesis
    using binding_ids_eq [OF k(1)] k(3) h(5) rf1
    by (simp add: http_to_binding_def return_binding_def trigger_type_defs)
qed

theorem app_http_bindings_witness:
  "\<exists>rf app. app_http handler_types (\<lambda>s. s) (empty_app :: unit app_functions) ''hello'' sample_handler
       [with_auth ''function''] = Ret (rf, app) \<and> map bd_name (rf_raw_bindings rf) = [''req'', ''$return'']"
proof -
  have "\<exists>rf app. app_http handler_types (\<lambda>s. s) (empty_app :: unit app_functions) ''hello'' sample_handler
       [with_auth ''function''] = Ret (rf, app)"
    by (intro exI, code_simp)
  then obtain rf app where r: "app_http handler_types (\<lambda>s. s) (empty_app :: unit app_functions) ''hello''
       sample_handler [with_auth ''function''] = Ret (rf, app)" by blast
  have "keeps_identity (with_auth ''function'' :: unit sdk_opt)"
    by (simp add: sdk_option_defs keeps_identity_groups)
  then have "map bd_name (rf_raw_bindings rf) = [''req'', ''$return'']"
    using app_http_bindings [OF r] by simp
  with r show ?thesis by (intro exI conjI)
qed

text \<open>
  On an Event Hub or Service Bus trigger \<open>WithCardinality\<close> can only repeat the cardinality
  the handler's shape fixed at registration: that value leaves the function as it is, any other
  one panics.
\<close>

theorem with_cardinality_fixed:
  assumes "trigger_binding rf = Some b" and "(bd_eventhub b = None) \<noteq> (bd_servicebus b = None)"
    and "expected_cardinality b \<in> {''one'', ''many''}"
  shows "(c = expected_cardinality b \<longrightarrow> with_cardinality c rf = Ret rf) \<and>
    (c \<noteq> expected_cardinality b \<longrightarrow> (\<exists>p. with_cardinality c rf = Panic p))"
proof -
  obtain bs where bs: "rf_raw_bindings rf = b # bs"
    using assms(1) by (auto simp: trigger_binding_def split: list.splits)
  show ?thesis
  proof (cases "bd_eventhub b")
    case None
    with assms(2) obtain sb where "bd_servicebus b = Some sb" by auto
    with None assms bs show ?thesis
      by (simp add: with_cardinality_def expected_cardinality_def on_trigger_def Let_def) auto
  next
    case (Some e)
    with assms(2) have "bd_servicebus b = None" by auto
    with Some assms bs show ?thesis
      by (simp add: with_cardinality_def expected_cardinality_def on_trigger_def Let_def) auto
  qed
qed

theorem with_cardinality_fixed_witness:
  "\<exists>p. with_cardinality ''one'' (initial_function ''f'' sample_handler
     (eventhub_to_binding ''message'' '''' '''' ''$Default'' ''many'') eventhub_trigger_type :: unit registered_function) = Panic p"
proof -
  let ?rf = "initial_function ''f'' sample_handler
     (eventhub_to_binding ''message'' '''' '''' ''$Default'' ''many'') eventhub_trigger_type :: unit registered_function"
  have t: "trigger_binding ?rf = Some (eventhub_to_binding ''message'' '''' '''' ''$Default'' ''many'')"
    by (simp add: trigger_binding_def initial_function_def)
  show ?thesis
    using with_cardinality_fixed [OF t, of "''one''"]
    by (simp add: eventhub_to_binding_def expected_cardinality_def plain_binding_def)
qed

end
