(* ===== verification/Sdk_Middleware.thy ===== *)
theory Sdk_Middleware
  imports Sdk_App Rpc_Proto
begin

text \<open>
  The middleware chain and its per-invocation carrier: \<open>sdk/middleware.go\<close>,
  \<open>sdk/middleware_context.go\<close>, \<open>sdk/context.go\<close>, \<open>sdk/safego.go\<close>,
  \<open>sdk/lifecycle.go\<close>.  A \<open>Handler\<close> is a function of the context and of a state it
  passes on; it returns an error or nil, or panics.  What the handlers share by pointer (the
  \<open>MiddlewareContext\<close>, the rest of the program's memory) is in that state.
\<close>

subsection \<open>Invocation and middleware context\<close>

record trace_context =
  tc_parent :: string
  tc_state :: string
  tc_attributes :: "(string, string) go_map"
  tc_baggage :: "(string, string) go_map"

record retry_context =
  rc_count :: "32 word"
  rc_max :: "32 word"

text \<open>The values of \<open>TriggerMetadataValues\<close>: what the worker puts there.\<close>

datatype meta_value =
    MV_String string | MV_Bytes string | MV_Raw_Json string | MV_Int int64 | MV_Double float64
  | MV_Strings "string list" | MV_Bytes_List "string list" | MV_Ints "int64 list"
  | MV_Doubles "float64 list"

record invocation_context =
  ic_invocation_id :: string
  ic_function_id :: string
  ic_function_name :: string
  ic_trigger_type :: string
  ic_trace :: trace_context
  ic_retry :: retry_context
  ic_metadata :: "(string, string) go_map option"
  ic_metadata_values :: "(string, meta_value) go_map option"

text \<open>
  A nil map and a nil slice are \<open>None\<close>.  The type parameter is the dynamic type of the return
  value (\<open>any\<close>); \<open>None\<close> is the nil interface.
\<close>

record 'v middleware_context =
  mc_invocation :: "invocation_context option"
  mc_outbound :: "(string, string) go_map option"
  mc_input_string :: string
  mc_input_bytes :: "string option"
  mc_binding_inputs :: "(string, string option) go_map option"
  mc_binding_strings :: "(string, string) go_map option"
  mc_return_value :: "'v option"
  mc_has_return :: bool

definition new_middleware_context :: "invocation_context option \<Rightarrow> 'v middleware_context" where
  "new_middleware_context ic = \<lparr>mc_invocation = ic, mc_outbound = None, mc_input_string = '''',
     mc_input_bytes = None, mc_binding_inputs = None, mc_binding_strings = None,
     mc_return_value = None, mc_has_return = False\<rparr>"

text \<open>\<open>if m == nil \{ m = make(...) \}; m[k] = v\<close>.\<close>

definition make_put :: "'k \<Rightarrow> 'a \<Rightarrow> ('k, 'a) go_map option \<Rightarrow> ('k, 'a) go_map option" where
  "make_put k v m = Some (map_put k v (case m of None \<Rightarrow> [] | Some m \<Rightarrow> m))"

definition nil_lookup :: "('k, 'a) go_map option \<Rightarrow> 'k \<Rightarrow> 'a option" where
  "nil_lookup m k = (case m of None \<Rightarrow> None | Some m \<Rightarrow> map_of m k)"

lemma nil_lookup_make_put [simp]:
  "nil_lookup (make_put k v m) k' = (if k' = k then Some v else nil_lookup m k')"
  by (simp add: nil_lookup_def make_put_def split: option.splits)

definition set_outbound_attribute :: "string \<Rightarrow> string \<Rightarrow> 'v middleware_context \<Rightarrow> 'v middleware_context" where
  "set_outbound_attribute k v mc = mc\<lparr>mc_outbound := make_put k v (mc_outbound mc)\<rparr>"

definition outbound_attributes :: "'v middleware_context \<Rightarrow> (string, string) go_map option" where
  "outbound_attributes mc = mc_outbound mc"

definition set_input_bytes :: "string option \<Rightarrow> 'v middleware_context \<Rightarrow> 'v middleware_context" where
  "set_input_bytes b mc = mc\<lparr>mc_input_bytes := b\<rparr>"

definition set_input_string :: "string \<Rightarrow> 'v middleware_context \<Rightarrow> 'v middleware_context" where
  "set_input_string s mc = mc\<lparr>mc_input_string := s\<rparr>"

definition input_string :: "'v middleware_context \<Rightarrow> string" where
  "input_string mc =
     (case mc_input_bytes mc of
        Some b \<Rightarrow> if mc_input_string mc = '''' then b else mc_input_string mc
      | None \<Rightarrow> mc_input_string mc)"

definition input_bytes :: "'v middleware_context \<Rightarrow> string option \<times> 'v middleware_context" where
  "input_bytes mc =
     (let mc = (if mc_input_bytes mc = None \<and> mc_input_string mc \<noteq> ''''
                then mc\<lparr>mc_input_bytes := Some (mc_input_string mc)\<rparr> else mc)
      in (mc_input_bytes mc, mc))"

definition set_binding_input :: "string \<Rightarrow> string option \<Rightarrow> 'v middleware_context \<Rightarrow> 'v middleware_context" where
  "set_binding_input name b mc =
     (if name = '''' then mc
      else mc\<lparr>mc_binding_inputs := make_put name b (mc_binding_inputs mc)\<rparr>)"

definition set_binding_input_string :: "string \<Rightarrow> string \<Rightarrow> 'v middleware_context \<Rightarrow> 'v middleware_context" where
  "set_binding_input_string name s mc =
     (if name = '''' then mc
      else mc\<lparr>mc_binding_strings := make_put name s (mc_binding_strings mc)\<rparr>)"

text \<open>The value (\<open>None\<close>: not present) and the context with the conversion cached.\<close>

definition binding_input ::
    "string \<Rightarrow> 'v middleware_context \<Rightarrow> string option option \<times> 'v middleware_context" where
  "binding_input name mc =
     (case nil_lookup (mc_binding_inputs mc) name of
        Some b \<Rightarrow> (Some b, mc)
      | None \<Rightarrow>
          (case nil_lookup (mc_binding_strings mc) name of
             Some s \<Rightarrow> (Some (Some s),
               mc\<lparr>mc_binding_inputs := make_put name (Some s) (mc_binding_inputs mc)\<rparr>)
           | None \<Rightarrow> (None, mc)))"

definition set_return_value :: "'v option \<Rightarrow> 'v middleware_context \<Rightarrow> 'v middleware_context" where
  "set_return_value v mc = mc\<lparr>mc_return_value := v, mc_has_return := True\<rparr>"

definition return_value :: "'v middleware_context \<Rightarrow> 'v option \<times> bool" where
  "return_value mc = (mc_return_value mc, mc_has_return mc)"

subsection \<open>Contexts\<close>

text \<open>
  A \<open>context.Context\<close> as the chain of its values: the invocation key, whose value is a
  \<open>*MiddlewareContext\<close> (\<open>None\<close>: nil), and any other key.
\<close>

datatype 'm go_context =
    Ctx_Background
  | Ctx_Invocation "'m option" "'m go_context"
  | Ctx_Other string string "'m go_context"

fun ctx_invocation :: "'m go_context \<Rightarrow> 'm option" where
  "ctx_invocation Ctx_Background = None"
| "ctx_invocation (Ctx_Invocation m c) = m"
| "ctx_invocation (Ctx_Other k v c) = ctx_invocation c"

definition context_with_middleware :: "'m go_context option \<Rightarrow> 'm option \<Rightarrow> 'm go_context" where
  "context_with_middleware parent mc =
     Ctx_Invocation mc (case parent of None \<Rightarrow> Ctx_Background | Some c \<Rightarrow> c)"

definition middleware_context_from :: "'m go_context option \<Rightarrow> 'm option" where
  "middleware_context_from ctx = (case ctx of None \<Rightarrow> None | Some c \<Rightarrow> ctx_invocation c)"

definition new_context ::
    "'v middleware_context go_context option \<Rightarrow> invocation_context option \<Rightarrow> 'v middleware_context go_context" where
  "new_context parent ic = context_with_middleware parent (Some (new_middleware_context ic))"

definition from_context :: "'v middleware_context go_context option \<Rightarrow> invocation_context option" where
  "from_context ctx =
     (case middleware_context_from ctx of None \<Rightarrow> None | Some mc \<Rightarrow> mc_invocation mc)"

subsection \<open>Handlers and middleware\<close>

type_synonym ('c, 's) handler = "'c \<Rightarrow> 's \<Rightarrow> (string, go_error option) outcome \<times> 's"

type_synonym 'w shutdown = "'w \<Rightarrow> (string, go_error option) outcome \<times> 'w"

record 'cf function_registration =
  fr_name :: string
  fr_func :: handler_value
  fr_trigger :: trigger
  fr_options :: "'cf sdk_opt list"

text \<open>A middleware and the optional contracts it implements (\<open>None\<close>, \<open>False\<close>: it does not).\<close>

record ('c, 's, 'w, 'cf) middleware =
  mw_wrap :: "('c, 's) handler \<Rightarrow> ('c, 's) handler"
  mw_capabilities :: "(string, string) go_map option"
  mw_shutdown :: "'w shutdown option"
  mw_functions :: "'cf function_registration list option"
  mw_sealer :: bool

record ('c, 's, 'w, 'cf) app = "'cf app_functions" +
  app_middlewares :: "('c, 's, 'w, 'cf) middleware list"
  app_capability_map :: "(string, string) go_map option"
  app_shutdowns :: "'w shutdown list"

text \<open>What \<open>Use\<close> asks of the middleware or does to the application, in order.\<close>

datatype use_event = Ev_Provided | Ev_Sealed | Ev_Registered string

text \<open>\<open>registerFunction\<close> on the larger state: a panic leaves the application as it was.\<close>

definition lift_register ::
    "tenv \<Rightarrow> (string \<Rightarrow> string) \<Rightarrow> 'cf function_registration \<Rightarrow> ('c, 's, 'w, 'cf) app \<Rightarrow>
     (string, 'cf registered_function) outcome \<times> ('c, 's, 'w, 'cf) app" where
  "lift_register E sha fr app =
     (case register_function E sha \<lparr>app_registered = app_registered app\<rparr> (fr_name fr) (fr_func fr)
         (fr_trigger fr) (fr_options fr) of
        Panic p \<Rightarrow> (Panic p, app)
      | Ret (rf, a) \<Rightarrow> (Ret rf, app\<lparr>app_registered := app_registered a\<rparr>))"

fun register_provided ::
    "tenv \<Rightarrow> (string \<Rightarrow> string) \<Rightarrow> 'cf function_registration list \<Rightarrow> ('c, 's, 'w, 'cf) app \<Rightarrow>
     (string, unit) outcome \<times> ('c, 's, 'w, 'cf) app \<times> use_event list" where
  "register_provided E sha [] app = (Ret (), app, [])"
| "register_provided E sha (fr # frs) app =
     (case lift_register E sha fr app of
        (Panic p, app') \<Rightarrow> (Panic p, app', [])
      | (Ret rf, app') \<Rightarrow>
          (case register_provided E sha frs app' of
             (r, app'', ev) \<Rightarrow> (r, app'', Ev_Registered (rf_func_id rf) # ev)))"

definition merge_capabilities ::
    "(string, string) go_map option \<Rightarrow> (string, string) go_map \<Rightarrow> (string, string) go_map option" where
  "merge_capabilities caps new =
     (if new = [] then caps else Some (map_merge (case caps of None \<Rightarrow> [] | Some m \<Rightarrow> m) new))"

text \<open>\<open>App.Use\<close>; \<open>None\<close> is a nil middleware.\<close>

definition use_middleware ::
    "tenv \<Rightarrow> (string \<Rightarrow> string) \<Rightarrow> ('c, 's, 'w, 'cf) middleware option \<Rightarrow> ('c, 's, 'w, 'cf) app \<Rightarrow>
     (string, unit) outcome \<times> ('c, 's, 'w, 'cf) app \<times> use_event list" where
  "use_middleware E sha mw app =
     (case mw of
        None \<Rightarrow> (Ret (), app, [])
      | Some m \<Rightarrow>
          let app = app\<lparr>app_middlewares := app_middlewares app @ [m]\<rparr>;
              app = (case mw_capabilities m of
                  None \<Rightarrow> app
                | Some caps \<Rightarrow> app\<lparr>app_capability_map := merge_capabilities (app_capability_map app) caps\<rparr>);
              app = (case mw_shutdown m of
                  None \<Rightarrow> app
                | Some f \<Rightarrow> app\<lparr>app_shutdowns := app_shutdowns app @ [f]\<rparr>)
          in (case mw_functions m of
                None \<Rightarrow> (Ret (), app, [])
              | Some frs \<Rightarrow>
                  (case register_provided E sha frs app of
                     (r, app', ev) \<Rightarrow>
                       (r, app', Ev_Provided # (if mw_sealer m then [Ev_Sealed] else []) @ ev))))"

definition app_capabilities :: "('c, 's, 'w, 'cf) app \<Rightarrow> (string, string) go_map" where
  "app_capabilities app =
     (case app_capability_map app of None \<Rightarrow> [] | Some m \<Rightarrow> map_merge [] m)"

text \<open>\<open>Compose\<close>: the loop from the last middleware to the first.\<close>

definition compose_chain ::
    "('c, 's, 'w, 'cf) middleware list \<Rightarrow> ('c, 's) handler \<Rightarrow> ('c, 's) handler" where
  "compose_chain mws inner = fold (\<lambda>m h. mw_wrap m h) (rev mws) inner"

fun run_shutdown_list ::
    "'w shutdown list \<Rightarrow> go_error option \<Rightarrow> 'w \<Rightarrow> (string, go_error option) outcome \<times> 'w" where
  "run_shutdown_list [] first_err w = (Ret first_err, w)"
| "run_shutdown_list (f # fs) first_err w =
     (case f w of
        (Panic p, w') \<Rightarrow> (Panic p, w')
      | (Ret err, w') \<Rightarrow>
          run_shutdown_list fs (if err \<noteq> None \<and> first_err = None then err else first_err) w')"

definition run_shutdowns :: "('c, 's, 'w, 'cf) app \<Rightarrow> 'w \<Rightarrow> (string, go_error option) outcome \<times> 'w" where
  "run_shutdowns app w = run_shutdown_list (app_shutdowns app) None w"

subsection \<open>Recovering goroutines, lifecycle options\<close>

text \<open>
  \<open>RecoverTo\<close> as a deferred call: the recovered value if the goroutine panicked, and
  \<open>errp\<close> (\<open>None\<close>: a nil pointer, otherwise what it points to).  It returns whether the
  panic was logged and the new \<open>errp\<close>.
\<close>

definition recover_to :: "string option \<Rightarrow> go_error option option \<Rightarrow> bool \<times> go_error option option" where
  "recover_to recovered errp =
     (case recovered of
        None \<Rightarrow> (False, errp)
      | Some r \<Rightarrow> (True, if errp = Some None then Some (Some (''recovered panic: '' @ r)) else errp))"

record 'h start_config =
  sc_hooks :: "'h list"

definition with_lifecycle_hook :: "'h option \<Rightarrow> 'h start_config \<Rightarrow> 'h start_config" where
  "with_lifecycle_hook h c = (case h of None \<Rightarrow> c | Some x \<Rightarrow> c\<lparr>sc_hooks := sc_hooks c @ [x]\<rparr>)"

subsection \<open>Lemmas\<close>

lemma compose_chain_Nil [simp]: "compose_chain [] inner = inner"
  and compose_chain_Cons [simp]: "compose_chain (m # ms) inner = mw_wrap m (compose_chain ms inner)"
  by (simp_all add: compose_chain_def)

lemma compose_chain_append: "compose_chain (ms @ ms') inner = compose_chain ms (compose_chain ms' inner)"
  by (induction ms) simp_all

lemma register_provided_frame:
  "register_provided E sha frs app = (r, app', ev) \<Longrightarrow>
     app_middlewares app' = app_middlewares app \<and> app_capability_map app' = app_capability_map app \<and>
     app_shutdowns app' = app_shutdowns app \<and> Ev_Sealed \<notin> set ev \<and> Ev_Provided \<notin> set ev"
proof (induction frs arbitrary: app r app' ev)
  case Nil
  then show ?case by simp
next
  case (Cons fr frs)
  obtain q app1 where l: "lift_register E sha fr app = (q, app1)" by fastforce
  then have k: "app_middlewares app1 = app_middlewares app"
    "app_capability_map app1 = app_capability_map app" "app_shutdowns app1 = app_shutdowns app"
    by (auto simp: lift_register_def split: outcome.splits prod.splits)
  show ?case
  proof (cases q)
    case (Panic p)
    with Cons.prems l k show ?thesis by auto
  next
    case (Ret rf)
    obtain r2 app2 ev2 where r2: "register_provided E sha frs app1 = (r2, app2, ev2)"
      by (cases "register_provided E sha frs app1") auto
    from Cons.IH [OF r2] Cons.prems l k Ret r2 show ?thesis by auto
  qed
qed

definition wf_capability_map :: "(string, string) go_map option \<Rightarrow> bool" where
  "wf_capability_map c = (case c of None \<Rightarrow> True | Some m \<Rightarrow> wf_map m)"

lemma merge_capabilities_lookup:
  "wf_map caps \<Longrightarrow> nil_lookup (merge_capabilities c caps) k =
     (case map_of caps k of Some v \<Rightarrow> Some v | None \<Rightarrow> nil_lookup c k)"
  by (auto simp: merge_capabilities_def nil_lookup_def map_add_def split: option.splits)

lemma app_capabilities_lookup:
  "wf_capability_map (app_capability_map app) \<Longrightarrow>
     map_of (app_capabilities app) k = nil_lookup (app_capability_map app) k"
  by (auto simp: wf_capability_map_def app_capabilities_def nil_lookup_def split: option.splits)

text \<open>The errors the callbacks return, in order, when each is run on the state the previous left.\<close>

fun shutdown_errors :: "'w shutdown list \<Rightarrow> 'w \<Rightarrow> go_error option list \<times> 'w" where
  "shutdown_errors [] w = ([], w)"
| "shutdown_errors (f # fs) w =
     (case f w of
        (Panic p, w') \<Rightarrow> ([], w')
      | (Ret e, w') \<Rightarrow> (case shutdown_errors fs w' of (es, w'') \<Rightarrow> (e # es, w'')))"

definition first_error :: "go_error option list \<Rightarrow> go_error option" where
  "first_error es = (case dropWhile (\<lambda>e. e = None) es of [] \<Rightarrow> None | e # _ \<Rightarrow> e)"

lemma run_shutdown_list_errors:
  assumes "\<forall>f \<in> set fs. \<forall>w. \<exists>e w'. f w = (Ret e, w')"
  shows "run_shutdown_list fs e0 w =
    (Ret (if e0 = None then first_error (fst (shutdown_errors fs w)) else e0), snd (shutdown_errors fs w)) \<and>
    length (fst (shutdown_errors fs w)) = length fs"
  using assms
proof (induction fs arbitrary: e0 w)
  case Nil
  show ?case by (simp add: first_error_def)
next
  case (Cons f fs)
  from Cons.prems obtain e w' where f: "f w = (Ret e, w')" by fastforce
  have "\<forall>f \<in> set fs. \<forall>w. \<exists>e w'. f w = (Ret e, w')" using Cons.prems by simp
  note ih = Cons.IH [OF this]
  show ?case
    using ih [of "if e \<noteq> None \<and> e0 = None then e else e0" w'] ih [of None w'] f
    by (auto simp: first_error_def split: prod.splits)
qed

subsection \<open>Properties\<close>

datatype 'i trace_event = Enter 'i | Leave 'i

definition tracing_wrap :: "'i \<Rightarrow> ('c, 'i trace_event list) handler \<Rightarrow> ('c, 'i trace_event list) handler" where
  "tracing_wrap i next c s = (case next c (s @ [Enter i]) of (r, s') \<Rightarrow> (r, s' @ [Leave i]))"

definition tracing :: "'i \<Rightarrow> ('c, 'i trace_event list, unit, unit) middleware" where
  "tracing i = \<lparr>mw_wrap = tracing_wrap i, mw_capabilities = None, mw_shutdown = None,
     mw_functions = None, mw_sealer = False\<rparr>"

text \<open>
  C13. The composed chain runs the middlewares in registration order, the first registered outermost:
  every middleware is entered before the handler in that order and left after it in the reverse
  order, whatever the handler does, also when it panics; the chain is the first middleware around the
  chain of the rest.
\<close>

theorem compose_order:
  "compose_chain (m # ms) h = mw_wrap m (compose_chain ms h) \<and>
   compose_chain (map tracing ids) inner c s =
     (fst (inner c (s @ map Enter ids)),
      snd (inner c (s @ map Enter ids)) @ map Leave (rev ids))"
proof (rule conjI)
  show "compose_chain (map tracing ids) inner c s =
     (fst (inner c (s @ map Enter ids)), snd (inner c (s @ map Enter ids)) @ map Leave (rev ids))"
    by (induction ids arbitrary: s) (simp_all add: tracing_def tracing_wrap_def)
qed simp

text \<open>
  Using a middleware appends it to the chain; its capabilities override earlier values key by
  key and leave the other keys; a provider that can be sealed is sealed right after its functions
  were read and before any of them is registered, so also when a registration panics.
\<close>

theorem use_middleware_effects:
  assumes "use_middleware E sha (Some m) app = (r, app', ev)"
    and "wf_capability_map (app_capability_map app)" and "wf_capability_map (mw_capabilities m)"
  shows "app_middlewares app' = app_middlewares app @ [m] \<and>
    map_of (app_capabilities app') k =
      (case nil_lookup (mw_capabilities m) k of Some v \<Rightarrow> Some v
        | None \<Rightarrow> map_of (app_capabilities app) k) \<and>
    (mw_functions m \<noteq> None \<longrightarrow> mw_sealer m \<longrightarrow>
      (\<exists>ev'. ev = Ev_Provided # Ev_Sealed # ev' \<and> Ev_Sealed \<notin> set ev'))"
proof -
  define app1 where "app1 =
    (let app = app\<lparr>app_middlewares := app_middlewares app @ [m]\<rparr>;
         app = (case mw_capabilities m of
            None \<Rightarrow> app
          | Some caps \<Rightarrow> app\<lparr>app_capability_map := merge_capabilities (app_capability_map app) caps\<rparr>)
     in (case mw_shutdown m of
            None \<Rightarrow> app
          | Some f \<Rightarrow> app\<lparr>app_shutdowns := app_shutdowns app @ [f]\<rparr>))"
  have caps1: "app_capability_map app1 = (case mw_capabilities m of
      None \<Rightarrow> app_capability_map app | Some caps \<Rightarrow> merge_capabilities (app_capability_map app) caps)"
    and mws1: "app_middlewares app1 = app_middlewares app @ [m]"
    by (auto simp: app1_def Let_def split: option.splits)
  have app': "app_middlewares app' = app_middlewares app1" "app_capability_map app' = app_capability_map app1"
    and ev: "mw_functions m \<noteq> None \<longrightarrow> mw_sealer m \<longrightarrow>
      (\<exists>ev'. ev = Ev_Provided # Ev_Sealed # ev' \<and> Ev_Sealed \<notin> set ev')"
    using assms(1) unfolding use_middleware_def
    by (auto simp: Let_def app1_def [symmetric, unfolded Let_def] split: option.splits prod.splits
        dest: register_provided_frame)
  have wf': "wf_capability_map (app_capability_map app')"
    using assms(2,3) app'(2) caps1
    by (auto simp: wf_capability_map_def merge_capabilities_def split: option.splits if_splits)
  have "map_of (app_capabilities app') k =
      (case nil_lookup (mw_capabilities m) k of Some v \<Rightarrow> Some v
        | None \<Rightarrow> map_of (app_capabilities app) k)"
  proof (cases "mw_capabilities m")
    case None
    then show ?thesis
      using app'(2) caps1
      by (simp add: app_capabilities_lookup [OF wf'] app_capabilities_lookup [OF assms(2)] nil_lookup_def)
  next
    case (Some caps)
    moreover from this assms(3) have "wf_map caps" by (simp add: wf_capability_map_def)
    ultimately show ?thesis
      using app'(2) caps1 merge_capabilities_lookup [of caps "app_capability_map app" k]
      by (simp add: app_capabilities_lookup [OF wf'] app_capabilities_lookup [OF assms(2)]
          nil_lookup_def [of "Some caps"] split: option.split)
  qed
  with app' mws1 ev show ?thesis by simp
qed

definition sample_middleware :: "(unit, unit, unit, unit) middleware" where
  "sample_middleware = \<lparr>mw_wrap = (\<lambda>next. next), mw_capabilities = Some [(''WorkerStatus'', ''false'')],
     mw_shutdown = None, mw_functions = Some [\<lparr>fr_name = ''f'', fr_func = sample_handler,
       fr_trigger = T_Generic None, fr_options = []\<rparr>], mw_sealer = True\<rparr>"

definition sample_app :: "(unit, unit, unit, unit) app" where
  "sample_app = \<lparr>app_registered = [], app_middlewares = [], app_capability_map = Some [(''WorkerStatus'', ''true'')],
     app_shutdowns = []\<rparr>"

theorem use_middleware_effects_witness:
  "\<exists>p app' ev. use_middleware handler_types (\<lambda>s. s) (Some sample_middleware) sample_app = (Panic p, app', ev) \<and>
     (\<exists>ev'. ev = Ev_Provided # Ev_Sealed # ev') \<and>
     map_of (app_capabilities app') ''WorkerStatus'' = Some ''false''"
proof -
  obtain r app' ev where u: "use_middleware handler_types (\<lambda>s. s) (Some sample_middleware) sample_app = (r, app', ev)"
    by (cases "use_middleware handler_types (\<lambda>s. s) (Some sample_middleware) sample_app") auto
  have "fst (use_middleware handler_types (\<lambda>s. s) (Some sample_middleware) sample_app) =
      Panic ''GenericTrigger: trigger must not be nil''"
    by code_simp
  with u have r: "r = Panic ''GenericTrigger: trigger must not be nil''" by simp
  have w: "wf_capability_map (app_capability_map sample_app)" "wf_capability_map (mw_capabilities sample_middleware)"
    by (simp_all add: wf_capability_map_def sample_app_def sample_middleware_def wf_map_def)
  have "nil_lookup (mw_capabilities sample_middleware) ''WorkerStatus'' = Some ''false''"
    "mw_functions sample_middleware \<noteq> None" "mw_sealer sample_middleware"
    by (simp_all add: sample_middleware_def nil_lookup_def)
  with use_middleware_effects [OF u w, of "''WorkerStatus''"] u r show ?thesis by auto
qed

text \<open>
  Shutting down runs every callback once, in registration order, each on the state the previous
  one left, and returns the first error any of them returned, as long as none panics.
\<close>

theorem run_shutdowns_all:
  assumes "\<forall>f \<in> set (app_shutdowns app). \<forall>w. \<exists>e w'. f w = (Ret e, w')"
  shows "run_shutdowns app w =
     (Ret (first_error (fst (shutdown_errors (app_shutdowns app) w))), snd (shutdown_errors (app_shutdowns app) w)) \<and>
    length (fst (shutdown_errors (app_shutdowns app) w)) = length (app_shutdowns app)"
  using run_shutdown_list_errors [OF assms, of None w] by (simp add: run_shutdowns_def)

definition failing_shutdown :: "string \<Rightarrow> string list shutdown" where
  "failing_shutdown n w = (Ret (Some n), w @ [n])"

theorem run_shutdowns_all_witness:
  "run_shutdowns (\<lparr>app_registered = [], app_middlewares = [], app_capability_map = None,
      app_shutdowns = [failing_shutdown ''traces'', failing_shutdown ''logs'']\<rparr> :: (unit, unit, string list, unit) app) [] =
     (Ret (Some ''traces''), [''traces'', ''logs''])"
proof -
  let ?a = "\<lparr>app_registered = [], app_middlewares = [], app_capability_map = None,
      app_shutdowns = [failing_shutdown ''traces'', failing_shutdown ''logs'']\<rparr> :: (unit, unit, string list, unit) app"
  have "\<forall>f \<in> set (app_shutdowns ?a). \<forall>w. \<exists>e w'. f w = (Ret e, w')"
    by (simp add: failing_shutdown_def)
  from run_shutdowns_all [OF this, of "[]"] show ?thesis
    by (simp add: failing_shutdown_def first_error_def)
qed

text \<open>
  The trigger input read as text or as bytes is the payload the worker stored, in either form:
  in particular \<open>InputString\<close> yields a binary payload as text (its documentation says it returns
  the empty string then); reading it as bytes never changes what is read as text.
\<close>

theorem input_views:
  "input_string (set_input_string s (new_middleware_context ic)) = s \<and>
   fst (input_bytes (set_input_string s (new_middleware_context ic))) = (if s = '''' then None else Some s) \<and>
   input_string (set_input_bytes (Some b) (new_middleware_context ic)) = b \<and>
   fst (input_bytes (set_input_bytes (Some b) (new_middleware_context ic))) = Some b \<and>
   input_string (snd (input_bytes mc)) = input_string mc \<and>
   input_bytes (snd (input_bytes mc)) = input_bytes mc"
  by (simp add: input_string_def input_bytes_def set_input_string_def set_input_bytes_def
      new_middleware_context_def Let_def split: option.splits)

text \<open>
  The payload of a named binding is read back as the worker stored it, bytes before text when
  both were stored; reading it again gives the same, and a nameless binding is never stored.
\<close>

theorem binding_input_views:
  "fst (binding_input n (set_binding_input n' b mc)) =
     (if n' \<noteq> '''' \<and> n = n' then Some b else fst (binding_input n mc)) \<and>
   fst (binding_input n (set_binding_input_string n' s mc)) =
     (if n' \<noteq> '''' \<and> n = n' \<and> nil_lookup (mc_binding_inputs mc) n = None then Some (Some s)
      else fst (binding_input n mc)) \<and>
   fst (binding_input n (snd (binding_input n' mc))) = fst (binding_input n mc)"
  by (auto simp: binding_input_def set_binding_input_def set_binding_input_string_def split: option.splits)

end
