(* ===== verification/Worker_Convert.thy ===== *)
theory Worker_Convert
  imports Sdk_Middleware Go_Utf8
begin

text \<open>
  Between the wire and Go values: \<open>worker/converter.go\<close>, \<open>worker/generic.go\<close>,
  \<open>worker/http_converters.go\<close>, \<open>worker/http_helpers.go\<close>.

  A decoded value names its origin and, where it was converted to one, its type.  Decoding JSON
  into a user's type runs \<open>encoding/json\<close> and the type's own methods; it is a parameter, part of
  the record \<open>codec\<close>, and may panic.  The outcome of a conversion is a panic, an error or a value.
\<close>

subsection \<open>Values\<close>

record http_request =
  rq_method :: string
  rq_url :: string
  rq_query :: "(string, string list) go_map"
  rq_headers :: "(string, string list) go_map"
  rq_body :: string

datatype go_value =
    GV_Zero gtype
  | GV_String string
  | GV_Bool bool
  | GV_Bytes string
  | GV_Int int64
  | GV_Int64 int64
  | GV_Float float64
  | GV_Text gtype string
  | GV_Raw gtype string
  | GV_Decoded gtype string
  | GV_Struct gtype "go_value list"
  | GV_Slice gtype "go_value list"
  | GV_Ptr gtype go_value
  | GV_Request http_request

datatype json_rest = Rest_EOF | Rest_Value | Rest_Error go_error

type_synonym 'a step = "(string, 'a result) outcome"

text \<open>
  The parts of \<open>encoding/json\<close> and \<open>net/url\<close>, \<open>net/http\<close> the conversions call:
  \<open>Unmarshal\<close> into a type, \<open>Decoder.Decode\<close> with \<open>UseNumber\<close> (the value and what is
  left), what the next \<open>Decode\<close> finds, \<open>Unmarshal\<close> into \<open>[]json.RawMessage\<close>,
  \<open>Marshal\<close> of a number and of a \<open>[]json.RawMessage\<close>, \<open>url.Parse\<close> followed by
  \<open>String\<close>, the method and URL check of \<open>NewRequest\<close>, the query of a URL, header names in
  canonical form.
\<close>

record codec =
  cd_unmarshal :: "gtype \<Rightarrow> string \<Rightarrow> go_value step"
  cd_decode :: "gtype \<Rightarrow> string \<Rightarrow> (go_value \<times> string) step"
  cd_next :: "string \<Rightarrow> json_rest"
  cd_raw_array :: "string \<Rightarrow> string list result"
  cd_float :: "float64 \<Rightarrow> string result"
  cd_marshal_raws :: "string list \<Rightarrow> string result"
  cd_parse_url :: "string \<Rightarrow> string result"
  cd_check_request :: "string \<Rightarrow> string \<Rightarrow> unit result"
  cd_url_query :: "string \<Rightarrow> (string, string list) go_map"
  cd_canonical :: "string \<Rightarrow> string"

definition bind_step :: "'a step \<Rightarrow> ('a \<Rightarrow> 'b step) \<Rightarrow> 'b step" where
  "bind_step r f = (case r of Panic p \<Rightarrow> Panic p | Ret (Inl e) \<Rightarrow> Ret (Inl e) | Ret (Inr x) \<Rightarrow> f x)"

definition err :: "go_error \<Rightarrow> 'a step" where
  "err e = Ret (Inl e)"

definition ok :: "'a \<Rightarrow> 'a step" where
  "ok x = Ret (Inr x)"

text \<open>\<open>if err != nil \{ return ..., wrap(err) \}\<close>.\<close>

definition wrap_err :: "(go_error \<Rightarrow> go_error) \<Rightarrow> 'a step \<Rightarrow> 'a step" where
  "wrap_err w r = (case r of Ret (Inl e) \<Rightarrow> Ret (Inl (w e)) | _ \<Rightarrow> r)"

lemma step_simps [simp]:
  "bind_step (err e) f = err e" "bind_step (ok x) f = f x" "bind_step (Panic p) f = Panic p"
  "bind_step (Ret (Inl e)) f = Ret (Inl e)" "bind_step (Ret (Inr x)) f = f x"
  "wrap_err w (err e) = err (w e)" "wrap_err w (ok x) = ok x" "wrap_err w (Panic p) = Panic p"
  "wrap_err w (Ret (Inl e)) = Ret (Inl (w e))" "wrap_err w (Ret (Inr x)) = Ret (Inr x)"
  by (simp_all add: bind_step_def err_def ok_def wrap_err_def)

lemma ok_eq [simp]: "ok x = ok y \<longleftrightarrow> x = y" "ok x \<noteq> err e" "err e \<noteq> ok x" "err e = err e' \<longleftrightarrow> e = e'"
  "ok x \<noteq> Panic p" "err e \<noteq> Panic p" "Panic p \<noteq> ok x" "Panic p \<noteq> err e"
  by (simp_all add: ok_def err_def)

lemma bind_step_ok_iff: "bind_step r f = ok y \<longleftrightarrow> (\<exists>x. r = ok x \<and> f x = ok y)"
  by (cases r rule: outcome.exhaust) (auto simp: bind_step_def ok_def split: sum.splits)

fun traverse_step :: "(nat \<Rightarrow> 'a \<Rightarrow> 'b step) \<Rightarrow> nat \<Rightarrow> 'a list \<Rightarrow> 'b list step" where
  "traverse_step f i [] = ok []"
| "traverse_step f i (x # xs) =
     bind_step (f i x) (\<lambda>y. bind_step (traverse_step f (i + 1) xs) (\<lambda>ys. ok (y # ys)))"

subsection \<open>HTTP requests and responses\<close>

definition body_bytes :: "typed_data option \<Rightarrow> string" where
  "body_bytes d =
     (case d of
        Some (TD_String s) \<Rightarrow> s | Some (TD_Bytes b) \<Rightarrow> b | Some (TD_Json j) \<Rightarrow> j | _ \<Rightarrow> '''')"

text \<open>\<open>Header.Add\<close> and \<open>Values.Add\<close>.\<close>

definition add_value :: "string \<Rightarrow> string \<Rightarrow> (string, string list) go_map \<Rightarrow> (string, string list) go_map" where
  "add_value k v m = map_put k (get_or [] m k @ [v]) m"

definition rpc_http_to_request :: "codec \<Rightarrow> rpc_http \<Rightarrow> http_request result" where
  "rpc_http_to_request C h =
     (let m = (if http_method h = '''' then ''GET'' else http_method h) in
      case cd_parse_url C (http_url h) of
        Inl e \<Rightarrow> Inl (''failed to parse URL: '' @ e)
      | Inr u \<Rightarrow>
          (case cd_check_request C m u of
             Inl e \<Rightarrow> Inl (''failed to create http.Request: '' @ e)
           | Inr _ \<Rightarrow> Inr \<lparr>rq_method = m, rq_url = u,
               rq_query = fold (\<lambda>(k, v) q. add_value k v q) (http_query h) (cd_url_query C u),
               rq_headers = fold (\<lambda>(k, v) q. add_value (cd_canonical C k) v q) (http_headers h) [],
               rq_body = body_bytes (http_body h)\<rparr>))"

record response_writer =
  rw_header :: "(string, string list) go_map"
  rw_status :: int
  rw_body :: string

definition new_response_writer :: response_writer where
  "new_response_writer = \<lparr>rw_header = [], rw_status = 200, rw_body = ''''\<rparr>"

definition rw_write :: "string \<Rightarrow> response_writer \<Rightarrow> response_writer" where
  "rw_write b rw = rw\<lparr>rw_body := rw_body rw @ b\<rparr>"

definition rw_write_header :: "int \<Rightarrow> response_writer \<Rightarrow> response_writer" where
  "rw_write_header code rw = rw\<lparr>rw_status := code\<rparr>"

definition encode_http_response :: "response_writer \<Rightarrow> typed_data" where
  "encode_http_response rw =
     TD_Http (RpcHttp '''' ''''
       (map (\<lambda>(k, vs). (k, hd vs)) (filter (\<lambda>(k, vs). vs \<noteq> []) (rw_header rw)))
       (Some (TD_Bytes (rw_body rw))) [] (string_of_int (rw_status rw)) [])"

subsection \<open>Struct fields that receive the raw input\<close>

definition strip_tag :: "string \<Rightarrow> string" where
  "strip_tag tag = before_sep CHR '','' tag"

definition is_data_field :: "rfield \<Rightarrow> bool" where
  "is_data_field f \<longleftrightarrow>
     equal_fold (rf_azfunc_tag f) ''data'' \<or> equal_fold (strip_tag (rf_json_tag f)) ''azfuncdata''"

definition has_data_field :: "tenv \<Rightarrow> gtype \<Rightarrow> bool" where
  "has_data_field E t \<longleftrightarrow> list_ex is_data_field (rt_fields (tinfo E t))"

subsection \<open>Collections\<close>

fun collection_values :: "typed_data option \<Rightarrow> typed_data list option" where
  "collection_values (Some (TD_CollectionBytes bs)) = Some (map TD_Bytes bs)"
| "collection_values (Some (TD_CollectionString ss)) = Some (map TD_String ss)"
| "collection_values (Some (TD_CollectionDouble ds)) = Some (map TD_Double ds)"
| "collection_values (Some (TD_CollectionSint64 xs)) = Some (map TD_Int xs)"
| "collection_values _ = None"

text \<open>The element, or not there, or an error.\<close>

definition element_at :: "codec \<Rightarrow> typed_data option \<Rightarrow> nat \<Rightarrow> typed_data option result" where
  "element_at C d i =
     (case collection_values d of
        Some vs \<Rightarrow> Inr (if i < length vs then Some (vs ! i) else None)
      | None \<Rightarrow>
          if get_json d = '''' then Inr None
          else (case cd_raw_array C (get_json d) of
                  Inl e \<Rightarrow> Inl e
                | Inr vs \<Rightarrow> Inr (if i < length vs then Some (TD_Json (vs ! i)) else None)))"

definition array_name :: "string \<Rightarrow> bool" where
  "array_name n \<longleftrightarrow> has_suffix (to_lower n) ''array''"

definition array_stem :: "string \<Rightarrow> string" where
  "array_stem n = take (length n - 5) n"

type_synonym metadata = "(string, typed_data option) go_map"

text \<open>The two loops, each in the order the map is ranged over.\<close>

definition metadata_at :: "codec \<Rightarrow> metadata \<Rightarrow> nat \<Rightarrow> metadata" where
  "metadata_at C md i =
     (let scalars = fold (\<lambda>(n, v) m. if array_name n then m else map_put n v m) md [] in
      fold (\<lambda>(n, v) m.
          if \<not> array_name n then m
          else (case element_at C v i of
                  Inr (Some x) \<Rightarrow> map_put (array_stem n) (Some x) m
                | _ \<Rightarrow> m)) md scalars)"

subsection \<open>Decoding one value\<close>

definition go_bytes_type :: "tenv \<Rightarrow> gtype \<Rightarrow> bool" where
  "go_bytes_type E t \<longleftrightarrow> kind_of E t = K_Slice \<and> kind_of E (elem_of E t) = K_Uint8"

definition is_request_type :: "tenv \<Rightarrow> gtype \<Rightarrow> bool" where
  "is_request_type E t \<longleftrightarrow>
     rt_well_known (tinfo E t) = Type_Request \<or>
     (kind_of E t = K_Ptr \<and> rt_short_name (tinfo E (elem_of E t)) = ''Request'')"

text \<open>
  The first switch: a value, or fall through to what follows.
\<close>

definition decode_natural :: "tenv \<Rightarrow> typed_data option \<Rightarrow> gtype \<Rightarrow> go_value option" where
  "decode_natural E d t =
     (if kind_of E t = K_String
      then (if get_string d \<noteq> '''' then Some (GV_String (get_string d)) else None)
      else if kind_of E t = K_Bool
      then (if get_string d \<noteq> '''' then Some (GV_Bool (equal_fold (get_string d) ''true''))
            else Some (GV_Bool (get_int d \<noteq> 0)))
      else if go_bytes_type E t
      then (case get_bytes d of
              Some b \<Rightarrow> if b \<noteq> '''' then Some (GV_Bytes b)
                else if get_string d \<noteq> '''' then Some (GV_Bytes (get_string d)) else None
            | None \<Rightarrow> if get_string d \<noteq> '''' then Some (GV_Bytes (get_string d)) else None)
      else if kind_of E t = K_Int
      then (if get_int d \<noteq> 0 then Some (GV_Int (get_int d)) else None)
      else if kind_of E t = K_Int64
      then (if get_int d \<noteq> 0 then Some (GV_Int64 (get_int d)) else None)
      else if kind_of E t = K_Float64
      then (if double_nonzero (get_double d) then Some (GV_Float (get_double d)) else None)
      else None)"

text \<open>What follows the JSON branches: text and bytes for the types that take them, else zero.\<close>

definition decode_plain :: "tenv \<Rightarrow> typed_data option \<Rightarrow> gtype \<Rightarrow> go_value" where
  "decode_plain E d t =
     (case get_bytes d of
        Some b \<Rightarrow> if go_bytes_type E t then GV_Bytes b
          else if kind_of E t = K_String then GV_String b else GV_Zero t
      | None \<Rightarrow> if get_json d \<noteq> '''' \<and> go_bytes_type E t then GV_Bytes (get_json d) else GV_Zero t)"

definition decode_text :: "tenv \<Rightarrow> codec \<Rightarrow> typed_data option \<Rightarrow> gtype \<Rightarrow> go_value step" where
  "decode_text E C d t =
     (let s = get_string d in
      if s = '''' then ok (decode_plain E d t)
      else if (kind_of E t = K_Slice \<or> kind_of E t = K_Map) \<and> \<not> go_bytes_type E t
      then wrap_err (\<lambda>e. ''decode '' @ type_name E t @ '' from string-typed JSON payload: '' @ e)
             (cd_unmarshal C t s)
      else if kind_of E t = K_String then ok (GV_String s)
      else if go_bytes_type E t then ok (GV_Bytes s)
      else if kind_of E t = K_Struct
      then (case cd_unmarshal C t s of
              Ret (Inl e) \<Rightarrow> ok (decode_plain E d t)
            | r \<Rightarrow> r)
      else ok (decode_plain E d t))"

definition decode_proto :: "tenv \<Rightarrow> codec \<Rightarrow> typed_data option \<Rightarrow> gtype \<Rightarrow> go_value step" where
  "decode_proto E C d t =
     (if d = None then ok (GV_Zero t)
      else
        (case decode_natural E d t of
           Some v \<Rightarrow> ok v
         | None \<Rightarrow>
             (case (if is_request_type E t then get_http d else None) of
                Some h \<Rightarrow>
                  (case rpc_http_to_request C h of
                     Inl e \<Rightarrow> err e
                   | Inr r \<Rightarrow> ok (GV_Request r))
              | None \<Rightarrow>
                  if get_json d \<noteq> '''' \<and> \<not> go_bytes_type E t
                  then cd_unmarshal C t (get_json d)
                  else decode_text E C d t)))"

subsection \<open>Decoding a trigger argument\<close>

text \<open>
  \<open>reflect.Value.Set\<close>: whether a decoded value can be assigned to a variable of the type.  A
  value the type's own decoder or \<open>reflect.Zero\<close> made has that type.
\<close>

definition assignable :: "tenv \<Rightarrow> gtype \<Rightarrow> go_value \<Rightarrow> bool" where
  "assignable E t v =
     (case v of
        GV_String _ \<Rightarrow> type_name E t = ''string''
      | GV_Bool _ \<Rightarrow> type_name E t = ''bool''
      | GV_Bytes _ \<Rightarrow> kind_of E t = K_Slice \<and> type_name E (elem_of E t) = ''uint8''
      | GV_Int _ \<Rightarrow> type_name E t = ''int''
      | GV_Int64 _ \<Rightarrow> type_name E t = ''int64''
      | GV_Float _ \<Rightarrow> type_name E t = ''float64''
      | GV_Request _ \<Rightarrow> rt_well_known (tinfo E t) = Type_Request
      | _ \<Rightarrow> True)"

definition set_panic :: string where
  "set_panic = ''reflect.Set: value is not assignable''"

text \<open>
  The data of one field, and whether it counts as decoded: the input itself, the metadata entry of
  its json name, or the first entry in the map's order whose name is equal up to case.
\<close>

definition field_data :: "rfield \<Rightarrow> typed_data option \<Rightarrow> metadata \<Rightarrow> typed_data option \<times> bool" where
  "field_data f d md =
     (if is_data_field f then (d, True)
      else
        (let tag = strip_tag (rf_json_tag f) in
         case map_of md tag of
           Some v \<Rightarrow> (v, True)
         | None \<Rightarrow>
             (case find (\<lambda>(k, v). equal_fold k tag) md of
                Some (k, v) \<Rightarrow> (v, True)
              | None \<Rightarrow> (None, False))))"

fun decode_fields ::
    "tenv \<Rightarrow> codec \<Rightarrow> typed_data option \<Rightarrow> metadata \<Rightarrow> rfield list \<Rightarrow> (go_value list \<times> nat) step" where
  "decode_fields E C d md [] = ok ([], 0)"
| "decode_fields E C d md (f # fs) =
     (let (td, hit) = field_data f d md;
          rest = (\<lambda>v. bind_step (decode_fields E C d md fs)
            (\<lambda>(vs, n). ok (v # vs, (if hit then n + 1 else n)))) in
      if td = None then rest (GV_Zero (rf_field_type f))
      else bind_step (wrap_err (\<lambda>e. ''failed to decode field '' @ rf_field_name f @ '': '' @ e)
             (decode_proto E C td (rf_field_type f)))
           (\<lambda>v. if assignable E (rf_field_type f) v then rest v else Panic set_panic))"

definition wrap_ptr :: "tenv \<Rightarrow> gtype \<Rightarrow> go_value \<Rightarrow> go_value" where
  "wrap_ptr E pt v = (if kind_of E pt = K_Ptr then GV_Ptr pt v else v)"

definition convert_default :: "tenv \<Rightarrow> codec \<Rightarrow> gtype \<Rightarrow> typed_data option \<Rightarrow> go_value step" where
  "convert_default E C pt d =
     (let t = (if kind_of E pt = K_Ptr then elem_of E pt else pt) in
      bind_step (decode_proto E C d t)
        (\<lambda>v. if kind_of E pt = K_Ptr \<and> \<not> assignable E t v then Panic set_panic
             else ok (wrap_ptr E pt v)))"

text \<open>The text the whole-struct fast path tries.\<close>

definition json_text :: "typed_data option \<Rightarrow> string" where
  "json_text d = (if get_json d = '''' then get_string d else get_json d)"

definition convert_fields :: "tenv \<Rightarrow> codec \<Rightarrow> gtype \<Rightarrow> typed_data option \<Rightarrow> metadata \<Rightarrow> go_value step" where
  "convert_fields E C pt d md =
     (let t = (if kind_of E pt = K_Ptr then elem_of E pt else pt) in
      bind_step (decode_fields E C d md (rt_fields (tinfo E t)))
        (\<lambda>(vs, n). if 0 < n then ok (wrap_ptr E pt (GV_Struct t vs)) else convert_default E C pt d))"

definition convert_single :: "tenv \<Rightarrow> codec \<Rightarrow> gtype \<Rightarrow> typed_data option \<Rightarrow> metadata \<Rightarrow> go_value step" where
  "convert_single E C pt d md =
     (let t = (if kind_of E pt = K_Ptr then elem_of E pt else pt) in
      if kind_of E t \<noteq> K_Struct then convert_default E C pt d
      else if has_data_field E t \<or> json_text d = '''' then convert_fields E C pt d md
      else (case cd_unmarshal C t (json_text d) of
              Panic p \<Rightarrow> Panic p
            | Ret (Inr v) \<Rightarrow> ok (wrap_ptr E pt v)
            | Ret (Inl e) \<Rightarrow> convert_fields E C pt d md))"

text \<open>
  \<open>convertToTypeValue\<close>.  Its recursive call is on the struct type of a slice's elements, which is
  no slice, so one level of it is \<open>convert_single\<close>.
\<close>

definition convert_to_type :: "tenv \<Rightarrow> codec \<Rightarrow> gtype \<Rightarrow> typed_data option \<Rightarrow> metadata \<Rightarrow> go_value step" where
  "convert_to_type E C pt d md =
     (let t = (if kind_of E pt = K_Ptr then elem_of E pt else pt) in
      case (if kind_of E t = K_Slice \<and> kind_of E (elem_of E t) = K_Struct
            then collection_values d else None) of
        Some vs \<Rightarrow>
          bind_step (traverse_step (\<lambda>i v.
              wrap_err (\<lambda>e. ''failed to decode collection element '' @ string_of_int (int i) @ '': '' @ e)
                (convert_single E C (elem_of E t) (Some v) (metadata_at C md i))) 0 vs)
            (\<lambda>xs. ok (GV_Slice t xs))
      | None \<Rightarrow> convert_single E C pt d md)"

subsection \<open>Generic bindings: raw or JSON\<close>

definition input_is_null :: "typed_data \<Rightarrow> bool" where
  "input_is_null d =
     (case d of
        TD_String s \<Rightarrow> trim_space s = ''null''
      | TD_Json j \<Rightarrow> trim_space j = ''null''
      | TD_Bytes b \<Rightarrow> trim_space b = ''null''
      | _ \<Rightarrow> False)"

text \<open>\<open>%T\<close> of the oneof wrapper.\<close>

fun wire_kind :: "typed_data \<Rightarrow> string" where
  "wire_kind TD_Unset = ''<nil>''"
| "wire_kind (TD_String _) = ''*proto.TypedData_String_''"
| "wire_kind (TD_Json _) = ''*proto.TypedData_Json''"
| "wire_kind (TD_Bytes _) = ''*proto.TypedData_Bytes''"
| "wire_kind (TD_Stream _) = ''*proto.TypedData_Stream''"
| "wire_kind (TD_Http _) = ''*proto.TypedData_Http''"
| "wire_kind (TD_Int _) = ''*proto.TypedData_Int''"
| "wire_kind (TD_Double _) = ''*proto.TypedData_Double''"
| "wire_kind (TD_CollectionBytes _) = ''*proto.TypedData_CollectionBytes''"
| "wire_kind (TD_CollectionString _) = ''*proto.TypedData_CollectionString''"
| "wire_kind (TD_CollectionDouble _) = ''*proto.TypedData_CollectionDouble''"
| "wire_kind (TD_CollectionSint64 _) = ''*proto.TypedData_CollectionSint64''"
| "wire_kind (TD_ModelBindingData _) = ''*proto.TypedData_ModelBindingData''"
| "wire_kind (TD_CollectionModelBindingData _) = ''*proto.TypedData_CollectionModelBindingData''"

text \<open>
  The wire value as text; both the raw and the JSON reading start from it.  \<open>fmt.Sprint\<close> of an
  \<open>int64\<close> is its signed decimal form.
\<close>

definition wire_text :: "codec \<Rightarrow> typed_data \<Rightarrow> string result" where
  "wire_text C d =
     (case d of
        TD_String s \<Rightarrow> Inr s
      | TD_Json j \<Rightarrow> Inr j
      | TD_Bytes b \<Rightarrow> Inr b
      | TD_Int n \<Rightarrow> Inr (string_of_int (sint n))
      | TD_Double x \<Rightarrow> cd_float C x
      | _ \<Rightarrow> Inl (''unsupported host payload kind '' @ wire_kind d))"

definition decode_raw :: "tenv \<Rightarrow> codec \<Rightarrow> gtype \<Rightarrow> typed_data \<Rightarrow> go_value result" where
  "decode_raw E C t d =
     bind_result (wire_text C d)
       (\<lambda>s. Inr (if is_text E t then GV_Text t s else GV_Raw t s))"

definition decode_json :: "tenv \<Rightarrow> codec \<Rightarrow> gtype \<Rightarrow> string \<Rightarrow> go_value step" where
  "decode_json E C t s =
     bind_step (wrap_err (\<lambda>e. ''decode JSON into '' @ type_name E t @ '': '' @ e) (cd_decode C t s))
       (\<lambda>(v, rest). case cd_next C rest of
          Rest_EOF \<Rightarrow> ok v
        | Rest_Value \<Rightarrow> err (''decode JSON into '' @ type_name E t @ '': trailing content: multiple JSON values'')
        | Rest_Error e \<Rightarrow> err (''decode JSON into '' @ type_name E t @ '': trailing content: '' @ e))"

definition collection_element :: "tenv \<Rightarrow> codec \<Rightarrow> gtype \<Rightarrow> nat \<Rightarrow> typed_data \<Rightarrow> string result" where
  "collection_element E C base i d =
     (case (if is_raw E base
            then bind_result (wire_text C d)
              (\<lambda>s. Inr (if is_text E base then json_quote s else CHR 0x22 # base64_encode s @ [CHR 0x22]))
            else wire_text C d) of
        Inl e \<Rightarrow> Inl (''element '' @ string_of_int (int i) @ '': '' @ e)
      | Inr s \<Rightarrow> Inr s)"

fun traverse_from :: "(nat \<Rightarrow> 'a \<Rightarrow> 'b result) \<Rightarrow> nat \<Rightarrow> 'a list \<Rightarrow> 'b list result" where
  "traverse_from f i [] = Inr []"
| "traverse_from f i (x # xs) =
     bind_result (f i x) (\<lambda>y. bind_result (traverse_from f (i + 1) xs) (\<lambda>ys. Inr (y # ys)))"

definition collection_json :: "tenv \<Rightarrow> codec \<Rightarrow> gtype \<Rightarrow> typed_data list \<Rightarrow> string result" where
  "collection_json E C elem vs =
     bind_result (base_type E elem) (\<lambda>base.
     bind_result (traverse_from (collection_element E C base) 0 vs) (cd_marshal_raws C))"

definition lift_result :: "'a result \<Rightarrow> 'a step" where
  "lift_result r = Ret r"

text \<open>The deferred \<open>recover\<close> of \<open>decodeGenericInput\<close>: a panic becomes an error of this level.\<close>

definition recover_decode :: "tenv \<Rightarrow> gtype \<Rightarrow> go_value step \<Rightarrow> go_value result" where
  "recover_decode E t r =
     (case r of Ret x \<Rightarrow> x | Panic p \<Rightarrow> Inl (''decode '' @ type_name E t @ '': '' @ p))"

definition wrap_element :: "nat \<Rightarrow> go_value result \<Rightarrow> go_value result" where
  "wrap_element i r =
     (case r of Inl e \<Rightarrow> Inl (''element '' @ string_of_int (int i) @ '': '' @ e) | Inr v \<Rightarrow> Inr v)"

definition is_collection :: "typed_data option \<Rightarrow> bool" where
  "is_collection d \<longleftrightarrow> collection_values d \<noteq> None"

text \<open>How many pointers the type is away from data.\<close>

definition ptr_depth :: "tenv \<Rightarrow> gtype \<Rightarrow> nat" where
  "ptr_depth E t = (LEAST n. kind_of E (pointee E n t) \<noteq> K_Ptr)"

lemma ptr_depth_elem:
  assumes "kind_of E t = K_Ptr" and "base_type E t = Inr b"
  shows "ptr_depth E (elem_of E t) < ptr_depth E t"
proof -
  obtain n where "kind_of E (pointee E n t) \<noteq> K_Ptr"
    using assms(2) by (auto simp: base_type_Inr_iff)
  then have l: "kind_of E (pointee E (ptr_depth E t) t) \<noteq> K_Ptr"
    unfolding ptr_depth_def by (rule LeastI)
  with assms(1) obtain m where m: "ptr_depth E t = Suc m"
    by (cases "ptr_depth E t") auto
  with l have "kind_of E (pointee E m (elem_of E t)) \<noteq> K_Ptr"
    by (simp add: pointee_Suc)
  then have "ptr_depth E (elem_of E t) \<le> m"
    unfolding ptr_depth_def by (rule Least_le)
  with m show ?thesis by simp
qed

lemma collection_values_flat:
  "collection_values d = Some vs \<Longrightarrow> v \<in> set vs \<Longrightarrow> \<not> is_collection (Some v)"
  by (cases d rule: collection_values.cases) (auto simp: is_collection_def)

lemma traverse_cong [fundef_cong]:
  "xs = ys \<Longrightarrow> (\<And>x. x \<in> set ys \<Longrightarrow> f x = g x) \<Longrightarrow> traverse f xs = traverse g ys"
proof (induction xs arbitrary: ys)
  case Nil
  then show ?case by simp
next
  case (Cons x xs)
  then show ?case by (cases ys) simp_all
qed

text \<open>\<open>decodeGenericInput\<close>; the argument is the wire value, absent when \<open>data == nil\<close>.\<close>

function decode_generic :: "tenv \<Rightarrow> codec \<Rightarrow> gtype \<Rightarrow> typed_data option \<Rightarrow> go_value result" where
  "decode_generic E C t data =
     (case data of
        None \<Rightarrow> Inl ''missing payload''
      | Some d \<Rightarrow>
          if d = TD_Unset then Inl ''missing payload''
          else if kind_of E t = K_Ptr
          then (case base_type E t of
                  Inl e \<Rightarrow> Inl e
                | Inr base \<Rightarrow>
                    if \<not> is_raw E base \<and> input_is_null d then Inr (GV_Zero t)
                    else bind_result (decode_generic E C (elem_of E t) (Some d))
                      (\<lambda>v. Inr (GV_Ptr t v)))
          else
            (case collection_values (Some d) of
               Some vs \<Rightarrow>
                 if kind_of E t \<noteq> K_Slice \<or> is_bytes E t
                 then Inl (''host collection requires a slice, got '' @ type_name E t)
                 else if ptr_implements E t I_JsonUnmarshaler
                 then (case collection_json E C (elem_of E t) vs of
                         Inl e \<Rightarrow> Inl e
                       | Inr s \<Rightarrow> recover_decode E t (decode_json E C t s))
                 else bind_result
                   (traverse (\<lambda>(i, v). wrap_element i (decode_generic E C (elem_of E t) (Some v)))
                     (zip [0..<length vs] vs))
                   (\<lambda>xs. Inr (GV_Slice t xs))
             | None \<Rightarrow>
                 if is_raw E t then decode_raw E C t d
                 else if input_is_null d \<and> kind_of E t \<notin> {K_Map, K_Slice, K_Interface}
                 then Inl (''null is not valid for '' @ type_name E t @ ''; use a pointer for nullable payloads'')
                 else (case wire_text C d of
                         Inl e \<Rightarrow> Inl e
                       | Inr s \<Rightarrow> recover_decode E t (decode_json E C t s))))"
  by pat_completeness auto

termination
proof (relation "measures [\<lambda>(E, C, t, d). if is_collection d then 1 else 0, \<lambda>(E, C, t, d). ptr_depth E t]", goal_cases)
  case 1
  show ?case by simp
next
  case (2 E C t data d b)
  then show ?case by (auto simp: ptr_depth_elem is_collection_def)
next
  case (3 E C t data d vs x i v)
  then have "v \<in> set vs" by (auto dest: set_zip_rightD)
  with 3 collection_values_flat show ?case by (auto simp: is_collection_def)
qed

declare decode_generic.simps [simp del]

fun meta_value_of :: "typed_data \<Rightarrow> meta_value option" where
  "meta_value_of (TD_String s) = Some (MV_String s)"
| "meta_value_of (TD_Bytes b) = Some (MV_Bytes b)"
| "meta_value_of (TD_Json j) = Some (MV_Raw_Json j)"
| "meta_value_of (TD_Int n) = Some (MV_Int n)"
| "meta_value_of (TD_Double x) = Some (MV_Double x)"
| "meta_value_of (TD_CollectionString ss) = Some (MV_Strings ss)"
| "meta_value_of (TD_CollectionBytes bs) = Some (MV_Bytes_List bs)"
| "meta_value_of (TD_CollectionSint64 ns) = Some (MV_Ints ns)"
| "meta_value_of (TD_CollectionDouble xs) = Some (MV_Doubles xs)"
| "meta_value_of _ = None"

definition generic_trigger_metadata :: "metadata \<Rightarrow> (string, meta_value) go_map option" where
  "generic_trigger_metadata md =
     (if md = [] then None
      else Some (fold (\<lambda>(k, v) m.
        case (case v of None \<Rightarrow> None | Some d \<Rightarrow> meta_value_of d) of
          Some x \<Rightarrow> map_put k x m
        | None \<Rightarrow> m) md []))"

subsection \<open>Binding the arguments\<close>

record func_field =
  ff_name :: string
  ff_type :: gtype
  ff_position :: nat
  ff_direction :: string
  ff_is_argument :: bool
  ff_is_writer :: bool
  ff_generic :: bool

definition binding_prefix :: "string \<Rightarrow> go_error \<Rightarrow> go_error" where
  "binding_prefix n e = ''binding '' @ go_quote n @ '': '' @ e"

definition is_input_field :: "func_field \<Rightarrow> bool" where
  "is_input_field f \<longleftrightarrow> ff_direction f = ''in'' \<and> ff_is_argument f"

text \<open>The arguments set so far, one slot per parameter; \<open>None\<close> keeps the pre-allocated value.\<close>

type_synonym arg_values = "go_value option list"

fun bind_inputs ::
    "tenv \<Rightarrow> codec \<Rightarrow> metadata \<Rightarrow> (string, func_field) go_map \<Rightarrow> parameter_binding list \<Rightarrow>
     string list \<Rightarrow> arg_values \<Rightarrow> (arg_values \<times> string list) step" where
  "bind_inputs E C md ffs [] seen args = ok (args, seen)"
| "bind_inputs E C md ffs (b # bs) seen args =
     (let n = pb_name b in
      case map_of ffs n of
        None \<Rightarrow> bind_inputs E C md ffs bs seen args
      | Some f \<Rightarrow>
          if is_input_field f \<and> ff_position f < length args
          then (if ff_generic f
                then (if n \<in> set seen then err (binding_prefix n ''duplicate input'')
                      else (case decode_generic E C (ff_type f) (pb_data b) of
                              Inl e \<Rightarrow> err (binding_prefix n e)
                            | Inr v \<Rightarrow> bind_inputs E C md ffs bs (n # seen) (args[ff_position f := Some v])))
                else bind_step (wrap_err (binding_prefix n) (convert_to_type E C (ff_type f) (pb_data b) md))
                       (\<lambda>v. bind_inputs E C md ffs bs seen (args[ff_position f := Some v])))
          else bind_inputs E C md ffs bs seen args)"

definition from_proto ::
    "tenv \<Rightarrow> codec \<Rightarrow> invocation_request \<Rightarrow> (string, func_field) go_map \<Rightarrow> arg_values \<Rightarrow> arg_values step" where
  "from_proto E C req ffs args =
     bind_step (bind_inputs E C (ireq_trigger_metadata req) ffs (ireq_input_data req) [] args)
       (\<lambda>(args', seen).
          case find (\<lambda>(n, f). ff_generic f \<and> is_input_field f \<and> n \<notin> set seen) ffs of
            Some (n, f) \<Rightarrow> err (binding_prefix n ''missing input'')
          | None \<Rightarrow> ok args')"

subsection \<open>Encoding a return value\<close>

text \<open>
  A returned \<open>any\<close> as \<open>reflect\<close> sees it: a pointer (with its address) or interface to follow,
  a nil one, a pointer back to an address on the way, text or bytes of a type, or a value of
  another type.
\<close>

datatype ret_value =
    RV_Nil
  | RV_Ptr nat ret_value
  | RV_Back gtype nat
  | RV_Iface ret_value
  | RV_Text gtype string
  | RV_Bytes gtype string
  | RV_Other gtype

datatype followed = At_Nil | At_Cycle gtype | At_Value ret_value bool

fun follow_pointers :: "nat list \<Rightarrow> bool \<Rightarrow> ret_value \<Rightarrow> followed" where
  "follow_pointers seen addr RV_Nil = At_Nil"
| "follow_pointers seen addr (RV_Ptr a v) = follow_pointers (a # seen) True v"
| "follow_pointers seen addr (RV_Back t a) = At_Cycle t"
| "follow_pointers seen addr (RV_Iface v) = follow_pointers seen False v"
| "follow_pointers seen addr v = At_Value v addr"

fun value_type :: "ret_value \<Rightarrow> gtype" where
  "value_type (RV_Text t _) = t"
| "value_type (RV_Bytes t _) = t"
| "value_type (RV_Other t) = t"
| "value_type _ = 0"

text \<open>\<open>marshal\<close> is \<open>json.Marshal\<close> of the original value; it runs the value's own methods.\<close>

definition encode_json ::
    "(ret_value \<Rightarrow> string step) \<Rightarrow> ret_value \<Rightarrow> typed_data option result" where
  "encode_json marshal v =
     (case marshal v of
        Panic p \<Rightarrow> Inl (''encode return value: '' @ p)
      | Ret (Inl e) \<Rightarrow> Inl (''encode return value: '' @ e)
      | Ret (Inr b) \<Rightarrow>
          if valid_utf8 b then Inr (Some (TD_Json b))
          else Inl ''encode return value: JSON is not valid UTF-8'')"

definition encode_return_value ::
    "tenv \<Rightarrow> (ret_value \<Rightarrow> string step) \<Rightarrow> ret_value \<Rightarrow> typed_data option result" where
  "encode_return_value E marshal v =
     (case follow_pointers [] False v of
        At_Nil \<Rightarrow> Inr None
      | At_Cycle t \<Rightarrow> encode_json marshal v
      | At_Value w addr \<Rightarrow>
          (let t = value_type w in
           if marshals E t \<or> (addr \<and> ptr_marshals E t) then encode_json marshal v
           else if is_text E t
           then (case w of
                   RV_Text _ s \<Rightarrow>
                     if valid_utf8 s then Inr (Some (TD_String s))
                     else Inl ''encode return value: text is not valid UTF-8; return []byte for binary data''
                 | _ \<Rightarrow> encode_json marshal v)
           else if is_bytes E t
           then (case w of RV_Bytes _ b \<Rightarrow> Inr (Some (TD_Bytes b)) | _ \<Rightarrow> encode_json marshal v)
           else encode_json marshal v))"

subsection \<open>Lemmas\<close>

lemma traverse_step_ok_iff:
  "traverse_step f k xs = ok ys \<longleftrightarrow>
     length ys = length xs \<and> (\<forall>i < length xs. f (k + i) (xs ! i) = ok (ys ! i))"
proof (induction xs arbitrary: k ys)
  case Nil
  then show ?case by auto
next
  case (Cons x xs)
  show ?case
  proof
    assume "traverse_step f k (x # xs) = ok ys"
    then obtain y ys' where y: "f k x = ok y" "traverse_step f (k + 1) xs = ok ys'" "ys = y # ys'"
      by (auto simp: bind_step_ok_iff)
    with Cons.IH [of "k + 1" ys'] show "length ys = length (x # xs) \<and>
        (\<forall>i < length (x # xs). f (k + i) ((x # xs) ! i) = ok (ys ! i))"
      by (auto simp: less_Suc_eq_0_disj)
  next
    assume h: "length ys = length (x # xs) \<and> (\<forall>i < length (x # xs). f (k + i) ((x # xs) ! i) = ok (ys ! i))"
    then obtain y ys' where ys: "ys = y # ys'" by (cases ys) auto
    with h have "f k x = ok y" by (metis add.right_neutral length_greater_0_conv list.distinct(1) nth_Cons_0)
    moreover from h ys have "\<forall>i < length xs. f (k + 1 + i) (xs ! i) = ok (ys' ! i)" by auto
    ultimately show "traverse_step f k (x # xs) = ok ys"
      using Cons.IH [of "k + 1" ys'] h ys by simp
  qed
qed

lemma scalar_fold_lookup:
  "wf_map md \<Longrightarrow>
     map_of (fold (\<lambda>(n, v) m. if array_name n then m else map_put n v m) md acc) k =
       (if array_name k then map_of acc k
        else (case map_of md k of Some v \<Rightarrow> Some v | None \<Rightarrow> map_of acc k))"
proof (induction md arbitrary: acc)
  case Nil
  show ?case by simp
next
  case (Cons nv md)
  obtain n v where nv: "nv = (n, v)" by fastforce
  with Cons.prems have "map_of md n = None" "wf_map md" by (simp_all add: wf_map_Cons)
  with Cons.IH nv show ?case by (auto split: option.splits)
qed

definition array_step :: "codec \<Rightarrow> nat \<Rightarrow> string \<times> typed_data option \<Rightarrow> metadata \<Rightarrow> metadata" where
  "array_step C i = (\<lambda>(n, v) m.
     if \<not> array_name n then m
     else (case element_at C v i of
             Inr (Some x) \<Rightarrow> map_put (array_stem n) (Some x) m
           | _ \<Rightarrow> m))"

lemma array_fold_other:
  "(\<And>n v x. (n, v) \<in> set md \<Longrightarrow> array_name n \<Longrightarrow> array_stem n = k \<Longrightarrow> element_at C v i \<noteq> Inr (Some x)) \<Longrightarrow>
     map_of (fold (array_step C i) md acc) k = map_of acc k"
proof (induction md arbitrary: acc)
  case Nil
  show ?case by simp
next
  case (Cons nv md)
  obtain n v where nv: "nv = (n, v)" by fastforce
  have "map_of (fold (array_step C i) md (array_step C i nv acc)) k = map_of (array_step C i nv acc) k"
    by (rule Cons.IH) (use Cons.prems in auto)
  also have "\<dots> = map_of acc k"
    using Cons.prems [of n v] nv by (auto simp: array_step_def split: sum.splits option.splits)
  finally show ?case by simp
qed

lemma array_fold_hit:
  assumes "(n, v) \<in> set md" and "array_name n" and "element_at C v i = Inr (Some x)"
    and "\<And>n' v'. (n', v') \<in> set md \<Longrightarrow> array_name n' \<Longrightarrow> array_stem n' = array_stem n \<Longrightarrow> (n', v') = (n, v)"
  shows "map_of (fold (array_step C i) md acc) (array_stem n) = Some (Some x)"
  using assms
proof (induction md arbitrary: acc rule: rev_induct)
  case Nil
  then show ?case by simp
next
  case (snoc nv md)
  show ?case
  proof (cases "nv = (n, v)")
    case True
    with snoc.prems(2,3) show ?thesis by (simp add: array_step_def)
  next
    case False
    with snoc.prems(1) have m: "(n, v) \<in> set md" by auto
    have "map_of (fold (array_step C i) md acc) (array_stem n) = Some (Some x)"
      by (rule snoc.IH [OF m snoc.prems(2,3)]) (use snoc.prems(4) in auto)
    moreover obtain n' v' where nv: "nv = (n', v')" by fastforce
    moreover have "\<not> (array_name n' \<and> array_stem n' = array_stem n)"
      using snoc.prems(4) [of n' v'] nv False by auto
    ultimately show ?thesis
      by (auto simp: array_step_def split: sum.splits option.splits)
  qed
qed

lemma metadata_at_folds:
  "metadata_at C md i = fold (array_step C i) md
     (fold (\<lambda>(n, v) m. if array_name n then m else map_put n v m) md [])"
  by (simp add: metadata_at_def array_step_def Let_def)

lemma decode_generic_ptr:
  "kind_of E t = K_Ptr \<Longrightarrow> base_type E t = Inr b \<Longrightarrow> d \<noteq> TD_Unset \<Longrightarrow> is_raw E b \<or> \<not> input_is_null d \<Longrightarrow>
     decode_generic E C t (Some d) =
       bind_result (decode_generic E C (elem_of E t) (Some d)) (\<lambda>v. Inr (GV_Ptr t v))"
  by (subst decode_generic.simps) auto

lemma decode_generic_chain:
  assumes "base_type E t = Inr b" and "d \<noteq> TD_Unset" and "is_raw E b \<or> \<not> input_is_null d"
  shows "(\<exists>v. decode_generic E C t (Some d) = Inr v) \<longleftrightarrow> (\<exists>v. decode_generic E C b (Some d) = Inr v)"
  using assms(1)
proof (induction "ptr_depth E t" arbitrary: t rule: less_induct)
  case less
  show ?case
  proof (cases "kind_of E t = K_Ptr")
    case False
    with less.prems show ?thesis by (simp add: base_type_self)
  next
    case True
    have e: "base_type E (elem_of E t) = Inr b"
      by (rule base_type_elem [OF True less.prems])
    have "(\<exists>v. decode_generic E C t (Some d) = Inr v) \<longleftrightarrow>
        (\<exists>v. decode_generic E C (elem_of E t) (Some d) = Inr v)"
      using decode_generic_ptr [OF True less.prems assms(2,3)] by (auto simp: bind_result_Inr_iff)
    also have "\<dots> \<longleftrightarrow> (\<exists>v. decode_generic E C b (Some d) = Inr v)"
      by (rule less.hyps [OF ptr_depth_elem [OF True less.prems] e])
    finally show ?thesis .
  qed
qed

lemma is_raw_not_ptr: "is_raw E t \<Longrightarrow> kind_of E t \<noteq> K_Ptr"
  by (auto simp: is_raw_def is_text_def is_bytes_def)

lemma decode_generic_raw:
  assumes "is_raw E t" and "d \<noteq> TD_Unset" and "\<not> is_collection (Some d)"
  shows "decode_generic E C t (Some d) = decode_raw E C t d"
  using assms is_raw_not_ptr [OF assms(1)]
  by (subst decode_generic.simps) (auto simp: is_collection_def)

text \<open>One input: what is bound and what is seen when the next input's turn comes.\<close>

lemma bind_inputs_step:
  assumes "bind_inputs E C md ffs (b # bs) seen args = ok (args', seen')"
    and "map_of ffs n = Some f" and "ff_generic f" and "is_input_field f" and "ff_position f < length args"
    and "\<forall>n' f'. map_of ffs n' = Some f' \<longrightarrow> is_input_field f' \<longrightarrow> ff_position f' = ff_position f \<longrightarrow> n' = n"
  obtains seen1 args1 where
    "bind_inputs E C md ffs bs seen1 args1 = ok (args', seen')" "length args1 = length args"
    "pb_name b \<noteq> n \<Longrightarrow> args1 ! ff_position f = args ! ff_position f \<and> (n \<in> set seen1 \<longleftrightarrow> n \<in> set seen)"
    "pb_name b = n \<Longrightarrow> n \<notin> set seen \<and> n \<in> set seen1 \<and>
       (\<exists>v. decode_generic E C (ff_type f) (pb_data b) = Inr v \<and> args1 ! ff_position f = Some v)"
proof (cases "map_of ffs (pb_name b)")
  case None
  with assms(1,2) show ?thesis by (intro that [of seen args]) (auto simp: Let_def)
next
  case (Some g)
  show ?thesis
  proof (cases "is_input_field g \<and> ff_position g < length args")
    case False
    have r: "bind_inputs E C md ffs bs seen args = ok (args', seen')"
      using assms(1) Some False by (simp add: Let_def)
    have "pb_name b \<noteq> n" using Some False assms(2,4,5) by auto
    with r show ?thesis by (intro that [of seen args]) simp_all
  next
    case True
    have pos: "pb_name b \<noteq> n \<Longrightarrow> ff_position g \<noteq> ff_position f"
      using assms(6) Some True by metis
    show ?thesis
    proof (cases "ff_generic g")
      case gen: True
      then obtain v where v: "pb_name b \<notin> set seen" "decode_generic E C (ff_type g) (pb_data b) = Inr v"
        "bind_inputs E C md ffs bs (pb_name b # seen) (args[ff_position g := Some v]) = ok (args', seen')"
        using assms(1) Some True by (auto simp: Let_def split: if_splits sum.splits)
      show ?thesis
      proof (rule that [OF v(3)])
        assume n: "pb_name b \<noteq> n"
        show "args[ff_position g := Some v] ! ff_position f = args ! ff_position f \<and>
            (n \<in> set (pb_name b # seen) \<longleftrightarrow> n \<in> set seen)"
          using pos [OF n] n by simp
      next
        assume n: "pb_name b = n"
        with Some assms(2) have "g = f" by simp
        with v n True show "n \<notin> set seen \<and> n \<in> set (pb_name b # seen) \<and>
          (\<exists>w. decode_generic E C (ff_type f) (pb_data b) = Inr w \<and>
             args[ff_position g := Some v] ! ff_position f = Some w)"
          by simp
      qed simp
    next
      case False
      then obtain v where v:
        "bind_inputs E C md ffs bs seen (args[ff_position g := Some v]) = ok (args', seen')"
        using assms(1) Some True by (auto simp: Let_def bind_step_ok_iff)
      show ?thesis
      proof (rule that [OF v])
        assume "pb_name b \<noteq> n"
        from pos [OF this] show "args[ff_position g := Some v] ! ff_position f = args ! ff_position f \<and>
            (n \<in> set seen \<longleftrightarrow> n \<in> set seen)"
          by simp
      next
        assume "pb_name b = n"
        with Some assms(2,3) False show "n \<notin> set seen \<and> n \<in> set seen \<and>
          (\<exists>w. decode_generic E C (ff_type f) (pb_data b) = Inr w \<and>
             args[ff_position g := Some v] ! ff_position f = Some w)"
          by simp
      qed simp
    qed
  qed
qed

lemma bind_inputs_spec:
  assumes "map_of ffs n = Some f" and "ff_generic f" and "is_input_field f"
    and "\<forall>n' f'. map_of ffs n' = Some f' \<longrightarrow> is_input_field f' \<longrightarrow> ff_position f' = ff_position f \<longrightarrow> n' = n"
  shows "bind_inputs E C md ffs bs seen args = ok (args', seen') \<Longrightarrow> ff_position f < length args \<Longrightarrow>
    (n \<in> set seen \<longrightarrow> args' ! ff_position f = args ! ff_position f \<and> filter (\<lambda>b. pb_name b = n) bs = []) \<and>
    (n \<notin> set seen \<longrightarrow> n \<in> set seen' \<longrightarrow>
       (\<exists>b v. filter (\<lambda>b. pb_name b = n) bs = [b] \<and>
          decode_generic E C (ff_type f) (pb_data b) = Inr v \<and> args' ! ff_position f = Some v))"
proof (induction bs arbitrary: seen args)
  case Nil
  then show ?case by simp
next
  case (Cons b bs)
  from bind_inputs_step [OF Cons.prems(1) assms(1-3) Cons.prems(2) assms(4)] obtain seen1 args1 where
    r: "bind_inputs E C md ffs bs seen1 args1 = ok (args', seen')" "length args1 = length args"
      "pb_name b \<noteq> n \<Longrightarrow> args1 ! ff_position f = args ! ff_position f \<and> (n \<in> set seen1 \<longleftrightarrow> n \<in> set seen)"
      "pb_name b = n \<Longrightarrow> n \<notin> set seen \<and> n \<in> set seen1 \<and>
         (\<exists>v. decode_generic E C (ff_type f) (pb_data b) = Inr v \<and> args1 ! ff_position f = Some v)"
    by blast
  from Cons.prems(2) r(2) have "ff_position f < length args1" by simp
  note ih = Cons.IH [OF r(1) this]
  show ?case
  proof (cases "pb_name b = n")
    case True
    from r(4) [OF True] ih True show ?thesis by auto
  next
    case False
    from r(3) [OF False] ih False show ?thesis by simp
  qed
qed

lemma bind_inputs_length:
  "bind_inputs E C md ffs bs seen args = ok (args', seen') \<Longrightarrow> length args' = length args"
  by (induction E C md ffs bs seen args rule: bind_inputs.induct)
     (auto simp: Let_def bind_step_ok_iff split: option.splits if_splits sum.splits)

subsection \<open>Properties\<close>

text \<open>A codec for the witnesses; it decodes nothing.\<close>

definition sample_codec :: codec where
  "sample_codec = \<lparr>cd_unmarshal = (\<lambda>t s. err ''no JSON here''), cd_decode = (\<lambda>t s. ok (GV_Decoded t s, '''')),
     cd_next = (\<lambda>s. Rest_EOF), cd_raw_array = (\<lambda>s. Inl ''no JSON here''), cd_float = (\<lambda>x. Inr ''0''),
     cd_marshal_raws = (\<lambda>xs. Inr (''['' @ join_with '','' xs @ '']'')), cd_parse_url = Inr,
     cd_check_request = (\<lambda>m u. Inr ()), cd_url_query = (\<lambda>u. []), cd_canonical = (\<lambda>s. s)\<rparr>"

text \<open>
  Generic arguments are bound one to one: when binding succeeds, the host sent exactly one input
  for every generic argument, that input decodes, and the argument holds its value; so a missing or
  repeated input, or one that does not decode, is an error and never a zero argument.
\<close>

theorem from_proto_generic:
  assumes "from_proto E C req ffs args = ok args'" and "wf_map ffs"
    and "map_of ffs n = Some f" and "ff_generic f" and "is_input_field f" and "ff_position f < length args"
    and "\<forall>n' f'. map_of ffs n' = Some f' \<longrightarrow> is_input_field f' \<longrightarrow> ff_position f' = ff_position f \<longrightarrow> n' = n"
  shows "length args' = length args \<and>
    (\<exists>b v. filter (\<lambda>b. pb_name b = n) (ireq_input_data req) = [b] \<and>
       decode_generic E C (ff_type f) (pb_data b) = Inr v \<and> args' ! ff_position f = Some v)"
proof -
  from assms(1) obtain seen where
    b: "bind_inputs E C (ireq_trigger_metadata req) ffs (ireq_input_data req) [] args = ok (args', seen)"
    and m0: "(case find (\<lambda>(n, f). ff_generic f \<and> is_input_field f \<and> n \<notin> set seen) ffs of
        Some (n, f) \<Rightarrow> err (binding_prefix n ''missing input'') | None \<Rightarrow> ok args') = ok args'"
    by (auto simp: from_proto_def bind_step_ok_iff split: option.splits)
  from m0 have m: "find (\<lambda>(n, f). ff_generic f \<and> is_input_field f \<and> n \<notin> set seen) ffs = None"
    by (cases "find (\<lambda>(n, f). ff_generic f \<and> is_input_field f \<and> n \<notin> set seen) ffs") auto
  have "(n, f) \<in> set ffs" using assms(2,3) by (simp add: map_of_wf_mem)
  with m assms(4,5) have "n \<in> set seen" by (auto simp: find_None_iff)
  with bind_inputs_spec [OF assms(3-5,7) b assms(6)] bind_inputs_length [OF b] show ?thesis by simp
qed

definition sample_fields :: "(string, func_field) go_map" where
  "sample_fields = [(''orders'', \<lparr>ff_name = ''orders'', ff_type = 1, ff_position = 1, ff_direction = ''in'',
     ff_is_argument = True, ff_is_writer = False, ff_generic = True\<rparr>)]"

definition sample_request :: invocation_request where
  "sample_request = \<lparr>ireq_invocation_id = ''i1'', ireq_function_id = ''f1'',
     ireq_input_data = [\<lparr>pb_name = ''orders'', pb_data = Some (TD_String ''hello'')\<rparr>],
     ireq_trigger_metadata = [], ireq_trace_context = None, ireq_retry_context = None\<rparr>"

theorem from_proto_generic_witness:
  "from_proto sample_types sample_codec sample_request sample_fields [None, None] =
     ok [None, Some (GV_Text 1 ''hello'')] \<and>
   (\<exists>b. filter (\<lambda>b. pb_name b = ''orders'') (ireq_input_data sample_request) = [b] \<and>
      decode_generic sample_types sample_codec 1 (pb_data b) = Inr (GV_Text 1 ''hello''))"
proof -
  let ?f = "\<lparr>ff_name = ''orders'', ff_type = 1, ff_position = 1, ff_direction = ''in'',
     ff_is_argument = True, ff_is_writer = False, ff_generic = True\<rparr>"
  have t: "is_text sample_types 1" by code_simp
  have d: "decode_generic sample_types sample_codec 1 (Some (TD_String ''hello'')) = Inr (GV_Text 1 ''hello'')"
    using decode_generic_raw [of sample_types 1 "TD_String ''hello''" sample_codec] t
    by (simp add: is_raw_def is_collection_def decode_raw_def wire_text_def)
  have r: "from_proto sample_types sample_codec sample_request sample_fields [None, None] =
     ok [None, Some (GV_Text 1 ''hello'')]"
    using d by (simp add: from_proto_def sample_request_def sample_fields_def is_input_field_def Let_def)
  have h: "wf_map sample_fields" "map_of sample_fields ''orders'' = Some ?f" "ff_generic ?f" "is_input_field ?f"
    "ff_position ?f < length [None, None :: go_value option]"
    "\<forall>n' f'. map_of sample_fields n' = Some f' \<longrightarrow> is_input_field f' \<longrightarrow> ff_position f' = ff_position ?f \<longrightarrow> n' = ''orders''"
    by (auto simp: sample_fields_def wf_map_def is_input_field_def split: if_splits)
  from from_proto_generic [OF r h] obtain b v where
    "filter (\<lambda>b. pb_name b = ''orders'') (ireq_input_data sample_request) = [b]"
    "decode_generic sample_types sample_codec (ff_type ?f) (pb_data b) = Inr v"
    "[None, Some (GV_Text 1 ''hello'')] ! ff_position ?f = Some v"
    by blast
  with r show ?thesis by simp
qed

text \<open>
  A host collection bound to a plain slice type decodes element by element: the result has the
  collection's length and order, and each element is what its payload decodes to on its own; one
  element that does not decode fails the whole binding.
\<close>

theorem decode_generic_collection:
  assumes "collection_values (Some d) = Some vs" and "kind_of E t = K_Slice" and "\<not> is_bytes E t"
    and "\<not> ptr_implements E t I_JsonUnmarshaler"
  shows "decode_generic E C t (Some d) = Inr (GV_Slice t xs) \<longleftrightarrow>
    list_all2 (\<lambda>v x. decode_generic E C (elem_of E t) (Some v) = Inr x) vs xs"
proof -
  have d: "d \<noteq> TD_Unset" using assms(1) by auto
  have w: "wrap_element i r = Inr x \<longleftrightarrow> r = Inr x" for i r x
    by (simp add: wrap_element_def split: sum.split)
  have "decode_generic E C t (Some d) = Inr (GV_Slice t xs) \<longleftrightarrow>
      traverse (\<lambda>(i, v). wrap_element i (decode_generic E C (elem_of E t) (Some v))) (zip [0..<length vs] vs) = Inr xs"
    using assms d by (subst decode_generic.simps) (auto simp: bind_result_Inr_iff)
  also have "\<dots> \<longleftrightarrow> list_all2 (\<lambda>v x. decode_generic E C (elem_of E t) (Some v) = Inr x) vs xs"
    by (auto simp: traverse_Inr_iff list_all2_conv_all_nth w)
  finally show ?thesis .
qed

theorem decode_generic_collection_witness:
  "decode_generic handler_types sample_codec 3 (Some (TD_CollectionString [''a'', ''b''])) =
     Inr (GV_Slice 3 [GV_Decoded 4 ''a'', GV_Decoded 4 ''b''])"
proof -
  have h: "collection_values (Some (TD_CollectionString [''a'', ''b''])) = Some [TD_String ''a'', TD_String ''b'']"
    "kind_of handler_types 3 = K_Slice" "\<not> is_bytes handler_types 3"
    "\<not> ptr_implements handler_types 3 I_JsonUnmarshaler" "elem_of handler_types 3 = 4"
    "kind_of handler_types 4 = K_Struct" "\<not> is_raw handler_types 4"
    by code_simp+
  have e: "decode_generic handler_types sample_codec 4 (Some (TD_String s)) = Inr (GV_Decoded 4 s)"
    if "trim_space s \<noteq> ''null''" for s
    using h that by (subst decode_generic.simps)
      (simp add: input_is_null_def wire_text_def decode_json_def sample_codec_def recover_decode_def ok_def)
  have n: "trim_space ''a'' \<noteq> ''null''" "trim_space ''b'' \<noteq> ''null''" by code_simp+
  show ?thesis
    using decode_generic_collection [OF h(1-4), of sample_codec "[GV_Decoded 4 ''a'', GV_Decoded 4 ''b'']"] e n h(5)
    by simp
qed

text \<open>
  A pointer argument receives null as a nil pointer unless it points to raw text or bytes;
  otherwise pointers are transparent: the payload decodes exactly when it decodes as the pointed-to
  data.  A type of pointers only is refused, so decoding always returns.
\<close>

theorem decode_generic_pointer:
  "(base_type E t = Inr b \<longrightarrow> d \<noteq> TD_Unset \<longrightarrow> is_raw E b \<or> \<not> input_is_null d \<longrightarrow>
      ((\<exists>v. decode_generic E C t (Some d) = Inr v) \<longleftrightarrow> (\<exists>v. decode_generic E C b (Some d) = Inr v))) \<and>
   (kind_of E t = K_Ptr \<longrightarrow> base_type E t = Inr b \<longrightarrow> \<not> is_raw E b \<longrightarrow> input_is_null d \<longrightarrow>
      decode_generic E C t (Some d) = Inr (GV_Zero t)) \<and>
   (d \<noteq> TD_Unset \<longrightarrow> (\<forall>n. kind_of E (pointee E n t) = K_Ptr) \<longrightarrow>
      (\<exists>e. decode_generic E C t (Some d) = Inl e))"
proof (intro conjI impI)
  assume "base_type E t = Inr b" "d \<noteq> TD_Unset" "is_raw E b \<or> \<not> input_is_null d"
  then show "(\<exists>v. decode_generic E C t (Some d) = Inr v) \<longleftrightarrow> (\<exists>v. decode_generic E C b (Some d) = Inr v)"
    by (rule decode_generic_chain)
next
  assume h: "kind_of E t = K_Ptr" "base_type E t = Inr b" "\<not> is_raw E b" "input_is_null d"
  then have "d \<noteq> TD_Unset" by (auto simp: input_is_null_def)
  with h show "decode_generic E C t (Some d) = Inr (GV_Zero t)"
    by (subst decode_generic.simps) simp
next
  assume d: "d \<noteq> TD_Unset" and p: "\<forall>n. kind_of E (pointee E n t) = K_Ptr"
  then obtain e where "base_type E t = Inl e" using base_type_Inl_iff by blast
  moreover have "kind_of E t = K_Ptr" using p by (metis pointee_0)
  ultimately show "\<exists>e. decode_generic E C t (Some d) = Inl e"
    using d by (subst decode_generic.simps) simp
qed

theorem decode_generic_pointer_witness:
  "decode_generic sample_types sample_codec 3 (Some (TD_Json '' null'')) = Inr (GV_Zero 3) \<and>
   (\<exists>e. decode_generic sample_types sample_codec 4 (Some (TD_Json ''null'')) = Inl e)"
proof -
  have h: "kind_of sample_types 3 = K_Ptr" "base_type sample_types 3 = Inr 0" "\<not> is_raw sample_types 0"
    "input_is_null (TD_Json '' null'')" "\<exists>e. base_type sample_types 4 = Inl e"
    by (code_simp, code_simp, code_simp, code_simp, intro exI, code_simp)
  then have "\<forall>n. kind_of sample_types (pointee sample_types n 4) = K_Ptr"
    using base_type_Inl_iff by blast
  then show ?thesis
    using h(1-4) decode_generic_pointer [of sample_types 3 0 "TD_Json '' null''" sample_codec]
      decode_generic_pointer [of sample_types 4 0 "TD_Json ''null''" sample_codec] by blast
qed

text \<open>
  The metadata of the message at an index of a batch: an entry of a per-message array replaces
  the shared entry of the array's name without "Array", and every other shared entry is kept, no
  array; this holds for any order the map is ranged over when no two array names have the same
  stem.  When two have (they differ in the case of "Array"), the order decides.
\<close>

theorem metadata_at_lookup:
  assumes "wf_map md"
  shows "(map_of md n = Some v \<longrightarrow> array_name n \<longrightarrow> element_at C v i = Inr (Some x) \<longrightarrow>
      (\<forall>n' v'. map_of md n' = Some v' \<longrightarrow> array_name n' \<longrightarrow> array_stem n' = array_stem n \<longrightarrow> n' = n) \<longrightarrow>
      map_of (metadata_at C md i) (array_stem n) = Some (Some x)) \<and>
    ((\<forall>n v x. map_of md n = Some v \<longrightarrow> array_name n \<longrightarrow> array_stem n = k \<longrightarrow>
        element_at C v i \<noteq> Inr (Some x)) \<longrightarrow>
      map_of (metadata_at C md i) k = (if array_name k then None else map_of md k)) \<and>
    map_of (metadata_at C [(''XArray'', Some (TD_CollectionString [''a''])),
        (''XARRAY'', Some (TD_CollectionString [''b'']))] 0) ''X'' \<noteq>
    map_of (metadata_at C [(''XARRAY'', Some (TD_CollectionString [''b''])),
        (''XArray'', Some (TD_CollectionString [''a'']))] 0) ''X''"
proof (intro conjI impI)
  assume h: "map_of md n = Some v" "array_name n" "element_at C v i = Inr (Some x)"
    and u: "\<forall>n' v'. map_of md n' = Some v' \<longrightarrow> array_name n' \<longrightarrow> array_stem n' = array_stem n \<longrightarrow> n' = n"
  have m: "(n, v) \<in> set md" using h(1) by (rule map_of_SomeD)
  show "map_of (metadata_at C md i) (array_stem n) = Some (Some x)"
    unfolding metadata_at_folds
  proof (rule array_fold_hit [OF m h(2,3)])
    fix n' v' assume a: "(n', v') \<in> set md" "array_name n'" "array_stem n' = array_stem n"
    then have "map_of md n' = Some v'" using assms by (simp add: map_of_wf_mem)
    with u a h(1) show "(n', v') = (n, v)" by auto
  qed
next
  assume u: "\<forall>n v x. map_of md n = Some v \<longrightarrow> array_name n \<longrightarrow> array_stem n = k \<longrightarrow>
        element_at C v i \<noteq> Inr (Some x)"
  have "map_of (metadata_at C md i) k =
      map_of (fold (\<lambda>(n, v) m. if array_name n then m else map_put n v m) md []) k"
    unfolding metadata_at_folds
    by (rule array_fold_other) (use u assms map_of_wf_mem in fastforce)
  also have "\<dots> = (if array_name k then None else map_of md k)"
    using scalar_fold_lookup [OF assms, of "[]" k] by (auto split: option.splits)
  finally show "map_of (metadata_at C md i) k = (if array_name k then None else map_of md k)" .
next
  have "array_name ''XArray''" "array_name ''XARRAY''" "array_stem ''XArray'' = ''X''" "array_stem ''XARRAY'' = ''X''"
    by code_simp+
  then show "map_of (metadata_at C [(''XArray'', Some (TD_CollectionString [''a''])),
        (''XARRAY'', Some (TD_CollectionString [''b'']))] 0) ''X'' \<noteq>
    map_of (metadata_at C [(''XARRAY'', Some (TD_CollectionString [''b''])),
        (''XArray'', Some (TD_CollectionString [''a'']))] 0) ''X''"
    by (simp add: metadata_at_def element_at_def)
qed

theorem metadata_at_lookup_witness:
  "map_of (metadata_at sample_codec [(''MessageIdArray'', Some (TD_CollectionString [''a'', ''b''])),
       (''MessageId'', Some (TD_String ''shared''))] 1) ''MessageId'' = Some (Some (TD_String ''b''))"
proof -
  let ?md = "[(''MessageIdArray'', Some (TD_CollectionString [''a'', ''b''])), (''MessageId'', Some (TD_String ''shared''))]"
  have a: "array_name ''MessageIdArray''" "\<not> array_name ''MessageId''" "array_stem ''MessageIdArray'' = ''MessageId''"
    by code_simp+
  have w: "wf_map ?md" by (simp add: wf_map_def)
  have m: "map_of ?md ''MessageIdArray'' = Some (Some (TD_CollectionString [''a'', ''b'']))" by simp
  have e: "element_at sample_codec (Some (TD_CollectionString [''a'', ''b''])) 1 = Inr (Some (TD_String ''b''))"
    by (simp add: element_at_def)
  have u: "\<forall>n' v'. map_of ?md n' = Some v' \<longrightarrow> array_name n' \<longrightarrow>
      array_stem n' = array_stem ''MessageIdArray'' \<longrightarrow> n' = ''MessageIdArray''"
    using a(2) by (auto split: if_splits)
  have "map_of (metadata_at sample_codec ?md 1) (array_stem ''MessageIdArray'') = Some (Some (TD_String ''b''))"
    using conjunct1 [OF metadata_at_lookup [OF w, of "''MessageIdArray''" "Some (TD_CollectionString [''a'', ''b''])"
        sample_codec 1 "TD_String ''b''"]] m a(1) e u by blast
  then show ?thesis unfolding a(3) .
qed

text \<open>
  A batch bound to a slice of structs keeps its length and order, and element i is converted from
  payload i with the metadata of message i.
\<close>

theorem convert_batch:
  assumes "collection_values d = Some vs" and "kind_of E t = K_Slice" and "kind_of E (elem_of E t) = K_Struct"
  shows "convert_to_type E C t d md = ok (GV_Slice t xs) \<longleftrightarrow>
    length xs = length vs \<and>
    (\<forall>i < length vs. convert_single E C (elem_of E t) (Some (vs ! i)) (metadata_at C md i) = ok (xs ! i))"
proof -
  have w: "wrap_err g r = ok x \<longleftrightarrow> r = ok x" for g and r :: "'a step" and x
    by (cases r rule: outcome.exhaust) (auto simp: wrap_err_def ok_def split: sum.splits)
  show ?thesis
    using assms
    by (simp add: convert_to_type_def Let_def bind_step_ok_iff traverse_step_ok_iff w)
qed

theorem convert_batch_witness:
  "convert_to_type handler_types sample_codec 3 (Some (TD_CollectionString [])) [] = ok (GV_Slice 3 [])"
proof -
  have "collection_values (Some (TD_CollectionString [])) = Some []" "kind_of handler_types 3 = K_Slice"
    "kind_of handler_types (elem_of handler_types 3) = K_Struct"
    by code_simp+
  from convert_batch [OF this, of sample_codec "[]" "[]"] show ?thesis by simp
qed

lemma wrap_err_ok_iff [simp]: "wrap_err g r = ok x \<longleftrightarrow> r = ok x"
  by (cases r rule: outcome.exhaust) (auto simp: wrap_err_def ok_def split: sum.splits)

lemma decode_fields_length: "decode_fields E C d md fs = ok (vs, n) \<Longrightarrow> length vs = length fs"
proof (induction fs arbitrary: vs n)
  case Nil
  then show ?case by simp
next
  case (Cons f fs)
  obtain td hit where "field_data f d md = (td, hit)" by fastforce
  with Cons show ?case by (auto simp: Let_def bind_step_ok_iff split: if_splits)
qed

lemma decode_fields_nth:
  "decode_fields E C d md fs = ok (vs, n) \<Longrightarrow> i < length fs \<Longrightarrow> is_data_field (fs ! i) \<Longrightarrow> d \<noteq> None \<Longrightarrow>
     length vs = length fs \<and> 0 < n \<and> decode_proto E C d (rf_field_type (fs ! i)) = ok (vs ! i)"
proof (induction fs arbitrary: vs n i)
  case Nil
  then show ?case by simp
next
  case (Cons f fs)
  obtain td hit where fd: "field_data f d md = (td, hit)" by fastforce
  from Cons.prems(1) fd obtain v vs' n' where
    r: "decode_fields E C d md fs = ok (vs', n')" "vs = v # vs'" "n = (if hit then n' + 1 else n')"
       "td \<noteq> None \<Longrightarrow> decode_proto E C td (rf_field_type f) = ok v"
    by (auto simp: Let_def bind_step_ok_iff split: if_splits)
  have len: "length vs' = length fs" by (rule decode_fields_length [OF r(1)])
  show ?case
  proof (cases i)
    case 0
    with Cons.prems(3) have "is_data_field f" by simp
    with fd have "td = d" "hit" by (auto simp: field_data_def)
    with r Cons.prems(4) 0 len show ?thesis by simp
  next
    case (Suc j)
    with Cons.prems have "j < length fs" "is_data_field (fs ! j)" by simp_all
    from Cons.IH [OF r(1) this Cons.prems(4)] r Suc len show ?thesis by auto
  qed
qed

text \<open>
  A struct with a field marked for the raw input never has the body unmarshalled over it: when
  the conversion succeeds, a byte-slice field so marked holds the payload as it was sent, text,
  JSON or bytes.
\<close>

theorem raw_body_field:
  assumes "kind_of E t = K_Struct" and "i < length (rt_fields (tinfo E t))"
    and "is_data_field (rt_fields (tinfo E t) ! i)"
    and "go_bytes_type E (rf_field_type (rt_fields (tinfo E t) ! i))"
    and "d \<in> {TD_String s, TD_Json s, TD_Bytes s}" and "s \<noteq> ''''"
    and "convert_to_type E C t (Some d) md = ok v"
  shows "\<exists>vs. v = GV_Struct t vs \<and> vs ! i = GV_Bytes s"
proof -
  let ?f = "rt_fields (tinfo E t) ! i"
  have dat: "has_data_field E t"
    using assms(2,3) by (auto simp: has_data_field_def list_ex_iff)
  have "convert_fields E C t (Some d) md = ok v"
    using assms(1,7) dat by (simp add: convert_to_type_def convert_single_def Let_def)
  then obtain vs n where f: "decode_fields E C (Some d) md (rt_fields (tinfo E t)) = ok (vs, n)"
    and v: "(if 0 < n then ok (wrap_ptr E t (GV_Struct t vs)) else convert_default E C t (Some d)) = ok v"
    using assms(1) by (auto simp: convert_fields_def Let_def bind_step_ok_iff)
  from decode_fields_nth [OF f assms(2,3)] have n: "0 < n"
    and p: "decode_proto E C (Some d) (rf_field_type ?f) = ok (vs ! i)" by simp_all
  have "decode_proto E C (Some d) (rf_field_type ?f) = ok (GV_Bytes s)"
    using assms(4-6) by (auto simp: decode_proto_def decode_natural_def decode_text_def decode_plain_def
        go_bytes_type_def is_request_type_def)
  with p n v assms(1) show ?thesis by (auto simp: wrap_ptr_def)
qed

definition message_types :: tenv where
  "message_types =
    [plain_type ''QueueMessage'' K_Struct 0 []\<lparr>rt_fields :=
       [\<lparr>rf_field_name = ''Id'', rf_field_type = 3, rf_json_tag = ''id'', rf_azfunc_tag = ''''\<rparr>,
        \<lparr>rf_field_name = ''Body'', rf_field_type = 1, rf_json_tag = ''azfuncdata'', rf_azfunc_tag = ''''\<rparr>]\<rparr>,
     plain_type ''[]uint8'' K_Slice 2 [], plain_type ''uint8'' K_Uint8 0 [], plain_type ''string'' K_String 0 []]"

theorem raw_body_field_witness:
  "convert_to_type message_types sample_codec 0 (Some (TD_Json ''[1]'')) [(''Id'', Some (TD_String ''m1''))] =
     ok (GV_Struct 0 [GV_String ''m1'', GV_Bytes ''[1]'']) \<and>
   (\<exists>vs. GV_Struct 0 [GV_String ''m1'', GV_Bytes ''[1]''] = GV_Struct 0 vs \<and> vs ! 1 = GV_Bytes ''[1]'')"
proof -
  have c: "convert_to_type message_types sample_codec 0 (Some (TD_Json ''[1]'')) [(''Id'', Some (TD_String ''m1''))] =
     ok (GV_Struct 0 [GV_String ''m1'', GV_Bytes ''[1]''])"
    by code_simp
  have h: "kind_of message_types 0 = K_Struct" "1 < length (rt_fields (tinfo message_types 0))"
    "is_data_field (rt_fields (tinfo message_types 0) ! 1)"
    "go_bytes_type message_types (rf_field_type (rt_fields (tinfo message_types 0) ! 1))"
    by code_simp+
  show ?thesis
    using c raw_body_field [OF h, of "TD_Json ''[1]''" "''[1]''"] by simp
qed

text \<open>A returned value under pointers and interfaces: \<open>Some a\<close> a pointer at address a.\<close>

definition under :: "nat option list \<Rightarrow> ret_value \<Rightarrow> ret_value" where
  "under ws v = foldr (\<lambda>w v. case w of Some a \<Rightarrow> RV_Ptr a v | None \<Rightarrow> RV_Iface v) ws v"

lemma follow_under:
  "\<exists>seen' addr'. follow_pointers seen addr (under ws v) = follow_pointers seen' addr' v"
  by (induction ws arbitrary: seen addr) (auto simp: under_def split: option.splits)

text \<open>
  Return values: a nil at the end of any chain of pointers and interfaces sends no value; text
  and bytes of a type without marshalers are sent raw under any such chain, and decode back to
  themselves at that type; whatever is sent as text or JSON is valid UTF-8.
\<close>

theorem encode_return_round_trip:
  "encode_return_value E m (under ws RV_Nil) = Inr None \<and>
   (is_text E t \<longrightarrow> \<not> marshals E t \<longrightarrow> \<not> ptr_marshals E t \<longrightarrow> valid_utf8 s \<longrightarrow>
      encode_return_value E m (under ws (RV_Text t s)) = Inr (Some (TD_String s)) \<and>
      decode_generic E C t (Some (TD_String s)) = Inr (GV_Text t s)) \<and>
   (is_bytes E t \<longrightarrow> \<not> marshals E t \<longrightarrow> \<not> ptr_marshals E t \<longrightarrow>
      encode_return_value E m (under ws (RV_Bytes t s)) = Inr (Some (TD_Bytes s)) \<and>
      decode_generic E C t (Some (TD_Bytes s)) = Inr (GV_Raw t s)) \<and>
   (encode_return_value E m v = Inr (Some d) \<longrightarrow> d = TD_String s \<or> d = TD_Json s \<longrightarrow> valid_utf8 s)"
proof (intro conjI impI)
  show "encode_return_value E m (under ws RV_Nil) = Inr None"
    using follow_under [of "[]" False ws RV_Nil] by (auto simp: encode_return_value_def)
next
  assume h: "is_text E t" "\<not> marshals E t" "\<not> ptr_marshals E t" "valid_utf8 s"
  show "encode_return_value E m (under ws (RV_Text t s)) = Inr (Some (TD_String s))"
    using follow_under [of "[]" False ws "RV_Text t s"] h by (auto simp: encode_return_value_def)
  show "decode_generic E C t (Some (TD_String s)) = Inr (GV_Text t s)"
    using h(1) by (subst decode_generic_raw) (simp_all add: is_raw_def is_collection_def decode_raw_def wire_text_def)
next
  assume h: "is_bytes E t" "\<not> marshals E t" "\<not> ptr_marshals E t"
  then have nt: "\<not> is_text E t" by (auto simp: is_bytes_def is_text_def)
  show "encode_return_value E m (under ws (RV_Bytes t s)) = Inr (Some (TD_Bytes s))"
    using follow_under [of "[]" False ws "RV_Bytes t s"] h nt by (auto simp: encode_return_value_def)
  show "decode_generic E C t (Some (TD_Bytes s)) = Inr (GV_Raw t s)"
    using h(1) nt by (subst decode_generic_raw) (simp_all add: is_raw_def is_collection_def decode_raw_def wire_text_def)
next
  assume e: "encode_return_value E m v = Inr (Some d)" and d: "d = TD_String s \<or> d = TD_Json s"
  have j: "encode_json m v = Inr (Some d) \<Longrightarrow> valid_utf8 s"
    using d by (auto simp: encode_json_def split: outcome.splits sum.splits if_splits)
  show "valid_utf8 s"
    using e d j by (auto simp: encode_return_value_def Let_def
        split: followed.splits if_splits ret_value.splits)
qed

theorem encode_return_round_trip_witness:
  "encode_return_value sample_types (\<lambda>v. err ''unused'') (RV_Ptr 7 (RV_Text 1 ''ok'')) = Inr (Some (TD_String ''ok'')) \<and>
   decode_generic sample_types sample_codec 1 (Some (TD_String ''ok'')) = Inr (GV_Text 1 ''ok'')"
proof -
  have "is_text sample_types 1" "\<not> marshals sample_types 1" "\<not> ptr_marshals sample_types 1" "valid_utf8 ''ok''"
    by code_simp+
  then show ?thesis
    using encode_return_round_trip [of sample_types "\<lambda>v. err ''unused''" "[Some 7]" 1 "''ok''" sample_codec]
    by (simp add: under_def)
qed

end
