(* ===== verification/Worker_Metadata.thy ===== *)
theory Worker_Metadata
  imports Rpc_Proto Json_Value "HOL-Library.Multiset"
begin

text \<open>
  What the worker reports about the binary it runs in: \<open>worker/metadata.go\<close>,
  \<open>worker/dependencies.go\<close>, \<open>worker/binarysize.go\<close>.  The build information is what
  \<open>debug.ReadBuildInfo\<close> returned (\<open>None\<close>: not available); the runtime version, the
  platform and the file system are parameters.
\<close>

subsection \<open>Once\<close>

text \<open>
  A cell whose content is computed on the first use and kept: the contract of \<open>sync.OnceValue\<close>.
\<close>

locale once_cell =
  fixes force :: "'c \<Rightarrow> 'a \<times> 'c"
    and content :: "'c \<Rightarrow> 'a option"
  assumes force_content: "content (snd (force c)) = Some (fst (force c))"
    and force_keeps: "content c = Some a \<Longrightarrow> force c = (a, c)"
begin

lemma force_twice: "force (snd (force c)) = (fst (force c), snd (force c))"
  by (rule force_keeps) (rule force_content)

lemma force_again: "fst (force (snd (force c))) = fst (force c)"
  by (simp add: force_twice)

lemma force_iterate: "((\<lambda>c. snd (force c)) ^^ Suc n) c = snd (force c)"
proof (induction n)
  case (Suc n)
  have "((\<lambda>c. snd (force c)) ^^ Suc (Suc n)) c = snd (force (((\<lambda>c. snd (force c)) ^^ Suc n) c))"
    by simp
  also have "\<dots> = snd (force c)" by (simp only: Suc.IH force_twice snd_conv)
  finally show ?case .
qed simp

end

text \<open>The cell of the model: the value once computed, and the world the computation reads.\<close>

record ('a, 'w) once =
  once_value :: "'a option"
  once_world :: 'w

definition force_once :: "('w \<Rightarrow> 'a \<times> 'w) \<Rightarrow> ('a, 'w) once \<Rightarrow> 'a \<times> ('a, 'w) once" where
  "force_once f c =
     (case once_value c of
        Some a \<Rightarrow> (a, c)
      | None \<Rightarrow> (case f (once_world c) of (a, w) \<Rightarrow> (a, \<lparr>once_value = Some a, once_world = w\<rparr>)))"

interpretation oc: once_cell "force_once f" once_value for f
  by unfold_locales (auto simp: force_once_def split: option.splits prod.splits)

subsection \<open>Build information\<close>

record replacement =
  rp_path :: string
  rp_version :: string

record build_module =
  bm_path :: string
  bm_version :: string
  bm_replace :: "replacement option"

record build_info =
  bi_deps :: "build_module option list"
  bi_settings :: "(string \<times> string) list"

subsection \<open>The dependency inventory\<close>

definition sdk_module_path :: string where
  "sdk_module_path = ''github.com/azure/azure-functions-golang-worker''"

text \<open>A replacement by a local directory has no version.\<close>

definition local_replacement :: "replacement \<Rightarrow> bool" where
  "local_replacement r \<longleftrightarrow> rp_version r = '''' \<or> rp_version r = ''(devel)''"

definition omit_empty :: "string \<Rightarrow> string \<Rightarrow> (string \<times> json) list" where
  "omit_empty k s = (if s = '''' then [] else [(k, JStr s)])"

definition module_record :: "build_module \<Rightarrow> json" where
  "module_record m =
     (case bm_replace m of
        None \<Rightarrow> JStruct ((''path'', JStr (bm_path m)) # omit_empty ''version'' (bm_version m))
      | Some r \<Rightarrow>
          if local_replacement r
          then JStruct [(''path'', JStr (bm_path m)), (''replacement'', JStruct [])]
          else JStruct ((''path'', JStr (bm_path m)) # omit_empty ''version'' (bm_version m) @
                 [(''replacement'', JStruct (omit_empty ''path'' (rp_path r) @
                    omit_empty ''version'' (rp_version r)))]))"

definition reported_modules :: "build_module option list \<Rightarrow> build_module list" where
  "reported_modules ds = filter (\<lambda>m. bm_path m \<noteq> '''') (concat (map (\<lambda>d. case d of None \<Rightarrow> [] | Some m \<Rightarrow> [m]) ds))"

text \<open>The records as text, sorted as bytes, adjacent duplicates removed.\<close>

definition inventory_modules :: "build_info \<Rightarrow> string list" where
  "inventory_modules bi =
     remdups_adj (sort (map (\<lambda>m. json_encode (module_record m)) (reported_modules (bi_deps bi))))"

definition inventory_text :: "string \<Rightarrow> string list \<Rightarrow> string" where
  "inventory_text status mods =
     CHR ''{'' # json_quote ''schema_version'' @ '':1,'' @ json_quote ''status'' @ '':'' @ json_quote status @
     '','' @ json_quote ''total'' @ '':'' @ string_of_int (int (length mods)) @
     '','' @ json_quote ''reported'' @ '':'' @ string_of_int (int (length mods)) @
     '','' @ json_quote ''truncated'' @ '':false,'' @
     json_quote ''modules'' @ '':['' @ join_with '','' mods @ '']}''"

definition dependency_inventory :: "build_info option \<Rightarrow> string" where
  "dependency_inventory bi =
     (case bi of
        None \<Rightarrow> inventory_text ''unavailable'' []
      | Some b \<Rightarrow> inventory_text ''available'' (inventory_modules b))"

subsection \<open>The size of the executable\<close>

record file_info =
  fi_regular :: bool
  fi_size :: int

definition binary_size ::
    "string \<Rightarrow> string result \<Rightarrow> (string \<Rightarrow> file_info result) \<Rightarrow> string" where
  "binary_size goos executable stat =
     (case (if goos = ''linux'' then Inr ''/proc/self/exe'' else executable) of
        Inl e \<Rightarrow> ''''
      | Inr path \<Rightarrow>
          (case stat path of
             Inl e \<Rightarrow> ''''
           | Inr i \<Rightarrow> if \<not> fi_regular i \<or> fi_size i < 0 then '''' else string_of_int (fi_size i)))"

subsection \<open>Worker metadata\<close>

definition base_properties :: "build_info option \<Rightarrow> (string, string) go_map" where
  "base_properties bi =
     [(''sdk_replaced'', ''false''), (''sdk_replace_path'', ''''), (''app_built_dirty'', ''false''),
      (''app_vcs_revision'', ''''), (''app_dependencies'', dependency_inventory bi),
      (''app_binary_size_bytes'', '''')]"

text \<open>The loop over the dependencies: the first entry of the SDK's path decides.\<close>

definition sdk_module :: "build_module option list \<Rightarrow> build_module option" where
  "sdk_module ds =
     (case find (\<lambda>d. case d of None \<Rightarrow> False | Some m \<Rightarrow> bm_path m = sdk_module_path) ds of
        Some (Some m) \<Rightarrow> Some m | _ \<Rightarrow> None)"

definition sdk_version :: "build_module option \<Rightarrow> string" where
  "sdk_version m =
     (let v = (case m of
          None \<Rightarrow> ''''
        | Some d \<Rightarrow> (case bm_replace d of
            None \<Rightarrow> bm_version d
          | Some r \<Rightarrow> if rp_version r \<noteq> '''' then rp_version r else ''(replaced)''))
      in if v = '''' then ''(devel)'' else v)"

definition setting_step :: "string \<times> string \<Rightarrow> (string, string) go_map \<Rightarrow> (string, string) go_map" where
  "setting_step s p =
     (if fst s = ''vcs.revision'' then map_put ''app_vcs_revision'' (snd s) p
      else if fst s = ''vcs.modified'' \<and> snd s = ''true'' then map_put ''app_built_dirty'' ''true'' p
      else p)"

definition build_worker_metadata :: "string \<Rightarrow> string \<Rightarrow> build_info option \<Rightarrow> worker_metadata" where
  "build_worker_metadata version platform bi =
     (let md = \<lparr>wm_runtime_name = ''go'', wm_runtime_version = version, wm_worker_version = '''',
         wm_worker_bitness = platform, wm_custom = base_properties bi\<rparr> in
      case bi of
        None \<Rightarrow> md
      | Some b \<Rightarrow>
          (let m = sdk_module (bi_deps b);
               p = (case m of
                   None \<Rightarrow> wm_custom md
                 | Some d \<Rightarrow> (case bm_replace d of
                     None \<Rightarrow> wm_custom md
                   | Some r \<Rightarrow> map_put ''sdk_replace_path'' (rp_path r) (map_put ''sdk_replaced'' ''true'' (wm_custom md))));
               p = fold setting_step (bi_settings b) p
           in md\<lparr>wm_worker_version := sdk_version m, wm_custom := p\<rparr>))"

text \<open>
  The provider: the template is built from the readers once; every call returns a copy.  The
  world counts how often the readers ran.
\<close>

definition metadata_template ::
    "string \<Rightarrow> string \<Rightarrow> (nat \<Rightarrow> build_info option) \<Rightarrow> (nat \<Rightarrow> string) \<Rightarrow> nat \<Rightarrow> worker_metadata \<times> nat" where
  "metadata_template version platform read_info read_size n =
     (let md = build_worker_metadata version platform (read_info n)
      in (md\<lparr>wm_custom := map_put ''app_binary_size_bytes'' (read_size n) (wm_custom md)\<rparr>, n + 1))"

definition metadata_provider ::
    "string \<Rightarrow> string \<Rightarrow> (nat \<Rightarrow> build_info option) \<Rightarrow> (nat \<Rightarrow> string) \<Rightarrow>
     (worker_metadata, nat) once \<Rightarrow> worker_metadata \<times> (worker_metadata, nat) once" where
  "metadata_provider version platform read_info read_size =
     force_once (metadata_template version platform read_info read_size)"

subsection \<open>Lemmas\<close>

lemma sort_mset_eq: "mset xs = mset ys \<Longrightarrow> sort xs = sort ys"
  by (rule properties_for_sort) simp_all

lemma reported_modules_mset:
  "mset ds = mset ds' \<Longrightarrow> mset (reported_modules ds) = mset (reported_modules ds')"
proof -
  have r: "mset (reported_modules xs) =
      filter_mset (\<lambda>m. bm_path m \<noteq> '''') (\<Sum>\<^sub># (image_mset (\<lambda>d. case d of None \<Rightarrow> {#} | Some m \<Rightarrow> {#m#}) (mset xs)))" for xs
    by (induction xs) (auto simp: reported_modules_def split: option.splits)
  assume "mset ds = mset ds'"
  then show ?thesis by (simp only: r)
qed

lemma sorted_remdups_adj_distinct: "sorted xs \<Longrightarrow> distinct (remdups_adj xs)"
  by (induction xs rule: remdups_adj.induct) (auto simp: le_less)

subsection \<open>Properties\<close>

text \<open>A module as the inventory may see it: a locally replaced one without its pin and directory.\<close>

definition public_module :: "build_module \<Rightarrow> build_module" where
  "public_module m =
     (case bm_replace m of
        Some r \<Rightarrow> if local_replacement r
          then m\<lparr>bm_version := '''', bm_replace := Some \<lparr>rp_path = '''', rp_version = ''''\<rparr>\<rparr> else m
      | None \<Rightarrow> m)"

lemma module_record_public: "module_record (public_module m) = module_record m"
  by (auto simp: public_module_def module_record_def local_replacement_def omit_empty_def split: option.splits)

lemma bm_path_public [simp]: "bm_path (public_module m) = bm_path m"
  by (simp add: public_module_def split: option.split)

text \<open>
  The dependency inventory is a sorted list of distinct records that depends on the set of
  dependencies only, not on their order; and it never carries the directory of a local
  replacement or the version that was replaced: erasing both from the build information
  leaves the inventory as it is.
\<close>

theorem inventory_canonical:
  "sorted (inventory_modules bi) \<and> distinct (inventory_modules bi) \<and>
   (mset ds = mset (bi_deps bi) \<longrightarrow>
      dependency_inventory (Some (bi\<lparr>bi_deps := ds\<rparr>)) = dependency_inventory (Some bi)) \<and>
   dependency_inventory (Some (bi\<lparr>bi_deps := map (map_option public_module) (bi_deps bi)\<rparr>)) =
     dependency_inventory (Some bi)"
proof (intro conjI impI)
  show "sorted (inventory_modules bi)" by (simp add: inventory_modules_def)
  show "distinct (inventory_modules bi)"
    by (simp add: inventory_modules_def sorted_remdups_adj_distinct)
next
  assume perm: "mset ds = mset (bi_deps bi)"
  have "mset (map (\<lambda>m. json_encode (module_record m)) (reported_modules ds)) =
      mset (map (\<lambda>m. json_encode (module_record m)) (reported_modules (bi_deps bi)))"
    by (simp only: mset_map reported_modules_mset [OF perm])
  from sort_mset_eq [OF this]
  show "dependency_inventory (Some (bi\<lparr>bi_deps := ds\<rparr>)) = dependency_inventory (Some bi)"
    by (simp add: dependency_inventory_def inventory_modules_def)
next
  have "reported_modules (map (map_option public_module) ds) = map public_module (reported_modules ds)" for ds
    by (induction ds) (auto simp: reported_modules_def split: option.splits)
  then show "dependency_inventory (Some (bi\<lparr>bi_deps := map (map_option public_module) (bi_deps bi)\<rparr>)) =
     dependency_inventory (Some bi)"
    by (simp add: dependency_inventory_def inventory_modules_def module_record_public o_def)
qed

definition sample_build :: build_info where
  "sample_build = \<lparr>bi_deps = [Some \<lparr>bm_path = ''b'', bm_version = ''v2'', bm_replace = None\<rparr>, None,
      Some \<lparr>bm_path = ''a'', bm_version = ''v1'', bm_replace = Some \<lparr>rp_path = ''../a'', rp_version = ''''\<rparr>\<rparr>],
     bi_settings = []\<rparr>"

theorem inventory_canonical_witness:
  "dependency_inventory (Some (sample_build\<lparr>bi_deps := rev (bi_deps sample_build)\<rparr>)) =
     dependency_inventory (Some sample_build)"
  using inventory_canonical [of sample_build "rev (bi_deps sample_build)"] by simp

text \<open>
  The worker's metadata is a snapshot of the process: the readers run at most once, and every
  later call returns the first answer, with the size that was read then.
\<close>

theorem metadata_provider_snapshot:
  "fst (metadata_provider v p ri rs (snd (metadata_provider v p ri rs c))) = fst (metadata_provider v p ri rs c) \<and>
   (once_value c = None \<longrightarrow>
      once_world (((\<lambda>c. snd (metadata_provider v p ri rs c)) ^^ Suc n) c) = once_world c + 1 \<and>
      map_of (wm_custom (fst (metadata_provider v p ri rs c))) ''app_binary_size_bytes'' = Some (rs (once_world c)))"
proof (intro conjI impI)
  show "fst (metadata_provider v p ri rs (snd (metadata_provider v p ri rs c))) = fst (metadata_provider v p ri rs c)"
    unfolding metadata_provider_def by (rule oc.force_again)
next
  assume n: "once_value c = None"
  have "((\<lambda>c. snd (metadata_provider v p ri rs c)) ^^ Suc n) c = snd (metadata_provider v p ri rs c)"
    unfolding metadata_provider_def by (rule oc.force_iterate)
  then show "once_world (((\<lambda>c. snd (metadata_provider v p ri rs c)) ^^ Suc n) c) = once_world c + 1"
    using n by (simp only:) (simp add: metadata_provider_def force_once_def metadata_template_def Let_def)
next
  assume "once_value c = None"
  then show "map_of (wm_custom (fst (metadata_provider v p ri rs c))) ''app_binary_size_bytes'' = Some (rs (once_world c))"
    by (simp add: metadata_provider_def force_once_def metadata_template_def Let_def)
qed

theorem metadata_provider_snapshot_witness:
  "once_world (((\<lambda>c. snd (metadata_provider ''go1.24'' ''linux/amd64'' (\<lambda>n. None) (\<lambda>n. ''7'') c)) ^^ Suc 4)
     \<lparr>once_value = None, once_world = 0\<rparr>) = 1"
proof -
  let ?c = "\<lparr>once_value = None, once_world = 0\<rparr> :: (worker_metadata, nat) once"
  have "once_value ?c = None" "once_world ?c = 0" by simp_all
  with metadata_provider_snapshot [of "''go1.24''" "''linux/amd64''" "\<lambda>n. None" "\<lambda>n. ''7''" ?c 4]
  show ?thesis by (simp del: funpow.simps)
qed

end
