(* ===== verification/Worker_Handlers.thy ===== *)
theory Worker_Handlers
  imports Worker_Convert Worker_Metadata
begin

text \<open>
  The dispatcher's handlers: \<open>worker/handlers.go\<close>, \<open>worker/dispatcher.go\<close>,
  \<open>worker/invocation.go\<close>.  The user's function, the SDK client factories, the HTTP rendezvous
  (modelled in its own theory) and the host configuration provider are parameters; the composed
  middleware chain is the application's own.  Logging has no effect on the responses and is
  left out.
\<close>

subsection \<open>Loaded functions\<close>

type_synonym 'cl client_factory =
  "(string, json) go_map \<Rightarrow> (string, string) go_map option \<Rightarrow> 'cl result"

type_synonym 'cl rfunction = "'cl client_factory registered_function"

record 'cl loaded_function =
  lf_function :: "'cl rfunction"
  lf_fields :: "(string, func_field) go_map"

definition is_context_type :: "tenv \<Rightarrow> gtype \<Rightarrow> bool" where
  "is_context_type E t \<longleftrightarrow> implements E t I_Context"

definition is_writer_type :: "tenv \<Rightarrow> gtype \<Rightarrow> bool" where
  "is_writer_type E t \<longleftrightarrow> rt_well_known (tinfo E t) = Type_Response_Writer"

definition handler_params :: "tenv \<Rightarrow> handler_value \<Rightarrow> gtype list" where
  "handler_params E f = (case hv_type f of None \<Rightarrow> [] | Some ft \<Rightarrow> rt_in (tinfo E ft))"

text \<open>The first response writer among the parameters.\<close>

fun find_index :: "('a \<Rightarrow> bool) \<Rightarrow> 'a list \<Rightarrow> nat \<Rightarrow> nat option" where
  "find_index P [] i = None"
| "find_index P (x # xs) i = (if P x then Some i else find_index P xs (i + 1))"

definition writer_fields :: "tenv \<Rightarrow> gtype list \<Rightarrow> (string, func_field) go_map" where
  "writer_fields E ps =
     (case find_index (is_writer_type E) ps 0 of
        None \<Rightarrow> []
      | Some i \<Rightarrow> [(''$return'', \<lparr>ff_name = ''$return'', ff_type = ps ! i, ff_position = i,
          ff_direction = ''out'', ff_is_argument = True, ff_is_writer = True, ff_generic = False\<rparr>)])"

text \<open>The next parameter from \<open>i\<close> on that is neither a context nor a response writer.\<close>

function next_argument :: "tenv \<Rightarrow> gtype list \<Rightarrow> nat \<Rightarrow> nat" where
  "next_argument E ps i =
     (if i < length ps \<and> (is_context_type E (ps ! i) \<or> is_writer_type E (ps ! i))
      then next_argument E ps (i + 1) else i)"
  by pat_completeness auto

termination
  by (relation "measure (\<lambda>(E, ps, i). length ps - i)") auto

declare next_argument.simps [simp del]

fun map_bindings ::
    "tenv \<Rightarrow> gtype list \<Rightarrow> binding list \<Rightarrow> nat \<Rightarrow> (string, func_field) go_map \<Rightarrow> (string, func_field) go_map" where
  "map_bindings E ps [] i m = m"
| "map_bindings E ps (b # bs) i m =
     (if bd_direction b \<noteq> ''in'' then map_bindings E ps bs i m
      else
        (let j = next_argument E ps i in
         if length ps \<le> j then m
         else map_bindings E ps bs (j + 1) (map_put (bd_name b)
           \<lparr>ff_name = bd_name b, ff_type = ps ! j, ff_position = j, ff_direction = bd_direction b,
            ff_is_argument = True, ff_is_writer = False, ff_generic = (bd_generic b \<noteq> None)\<rparr> m)))"

definition load_function :: "tenv \<Rightarrow> 'cl rfunction \<Rightarrow> 'cl loaded_function" where
  "load_function E rf =
     (let ps = handler_params E (rf_func rf) in
      \<lparr>lf_function = rf, lf_fields = map_bindings E ps (rf_raw_bindings rf) 0 (writer_fields E ps)\<rparr>)"

definition not_found :: "string \<Rightarrow> status_result" where
  "not_found fid = status_failure (no_exception\<lparr>ex_message := ''Function with ID '' @ fid @ '' not found''\<rparr>)"

definition handle_load ::
    "tenv \<Rightarrow> (string, 'cl rfunction) go_map \<Rightarrow> string \<Rightarrow> string \<Rightarrow> (string, 'cl loaded_function) go_map \<Rightarrow>
     streaming_message \<times> (string, 'cl loaded_function) go_map" where
  "handle_load E registered fid rid loaded =
     (case sm_load registered fid of
        None \<Rightarrow> (mk_msg rid (C_FunctionLoadResponse fid (not_found fid)), loaded)
      | Some rf \<Rightarrow>
          (mk_msg rid (C_FunctionLoadResponse fid status_success_text),
           map_put fid (load_function E rf) loaded))"

subsection \<open>Initialisation and indexing\<close>

definition base_capabilities :: "(string, string) go_map" where
  "base_capabilities =
     [(''TypedDataCollection'', ''true''), (''IncludeEmptyEntriesInMessagePayload'', ''true''),
      (''WorkerStatus'', ''true''), (''RpcHttpBodyOnly'', ''true''), (''RawHttpBodyBytes'', ''true''),
      (''RpcHttpTriggerMetadataRemoved'', ''true''), (''UseNullableValueDictionaryForHttp'', ''true''),
      (''HandlesWorkerTerminateMessage'', ''true'')]"

definition init_capabilities :: "(string, string) go_map \<Rightarrow> string option \<Rightarrow> (string, string) go_map" where
  "init_capabilities app_caps proxy_url =
     (let caps = map_merge base_capabilities app_caps in
      case proxy_url of
        None \<Rightarrow> caps
      | Some url \<Rightarrow> map_put ''RequiresRouteParameters'' ''true'' (map_put ''HttpUri'' url caps))"

definition handle_init ::
    "(string, string) go_map \<Rightarrow> string option \<Rightarrow> worker_metadata \<Rightarrow>
     (worker_init_request \<Rightarrow> host_configuration option) \<Rightarrow> worker_init_request \<Rightarrow> string \<Rightarrow> streaming_message" where
  "handle_init app_caps proxy_url md host_config req rid =
     mk_msg rid (C_WorkerInitResponse \<lparr>wis_result = Some status_success_text, wis_worker_version = ''1.0.0'',
       wis_capabilities = init_capabilities app_caps proxy_url, wis_metadata = Some md,
       wis_host_config = host_config req\<rparr>)"

definition direction_of :: "string \<Rightarrow> binding_direction" where
  "direction_of d = (if d = ''out'' then Dir_out else if d = ''inout'' then Dir_inout else Dir_in)"

definition data_type_of :: "binding \<Rightarrow> binding_data_type" where
  "data_type_of b =
     (case bd_generic b of
        None \<Rightarrow> DT_undefined
      | Some g \<Rightarrow> if gen_data_type g = ''string'' then DT_string
          else if gen_data_type g = ''binary'' then DT_binary else DT_undefined)"

fun index_bindings ::
    "string \<Rightarrow> binding list \<Rightarrow> (string, binding_info) go_map \<Rightarrow> string list \<Rightarrow>
     ((string, binding_info) go_map \<times> string list) result" where
  "index_bindings fn [] m raws = Inr (m, raws)"
| "index_bindings fn (b # bs) m raws =
     (let m = map_put (bd_name b) \<lparr>bi_type = bd_type b, bi_direction = direction_of (bd_direction b),
        bi_data_type = data_type_of b\<rparr> m in
      case binding_json b of
        Inl e \<Rightarrow> Inl (''function '' @ go_quote fn @ '' binding '' @ go_quote (bd_name b) @ '': '' @ marshal_error e)
      | Inr s \<Rightarrow> index_bindings fn bs m (raws @ [s]))"

definition rpc_retry :: "retry_options \<Rightarrow> rpc_retry_options" where
  "rpc_retry r = \<lparr>ro_max_retry_count = word_of_int (rty_max r),
     ro_strategy = (case rty_strategy r of Exponential_Backoff \<Rightarrow> 0 | Fixed_Delay \<Rightarrow> 1),
     ro_delay = rty_delay r, ro_minimum = rty_minimum r, ro_maximum = rty_maximum r\<rparr>"

definition index_function :: "'cl rfunction \<Rightarrow> function_metadata result" where
  "index_function rf =
     (case index_bindings (rf_func_name rf) (rf_raw_bindings rf) [] [] of
        Inl e \<Rightarrow> Inl e
      | Inr (m, raws) \<Rightarrow> Inr \<lparr>fm_function_id = rf_func_id rf, fm_name = rf_func_name rf, fm_bindings = m,
          fm_raw_bindings = raws, fm_language = ''go'', fm_script_file = rf_script_file rf,
          fm_entry_point = rf_func_name rf, fm_retry = map_option rpc_retry (rf_retry rf)\<rparr>)"

definition handle_metadata :: "(string, 'cl rfunction) go_map \<Rightarrow> string \<Rightarrow> streaming_message" where
  "handle_metadata registered rid =
     (case traverse (\<lambda>(k, rf). index_function rf) registered of
        Inl e \<Rightarrow> mk_msg rid (C_FunctionMetadataResponse [] (status_failure (no_exception\<lparr>ex_message := e\<rparr>)))
      | Inr fns \<Rightarrow> mk_msg rid (C_FunctionMetadataResponse fns status_success_text))"

subsection \<open>The invocation's context\<close>

definition flatten_metadata :: "metadata \<Rightarrow> (string, string) go_map option" where
  "flatten_metadata md =
     (if md = [] then None
      else Some (fold (\<lambda>(k, v) m. if get_string v \<noteq> '''' then map_put k (get_string v) m else m) md []))"

definition convert_trace_context :: "rpc_trace_context option \<Rightarrow> trace_context" where
  "convert_trace_context tc =
     (case tc of
        None \<Rightarrow> \<lparr>tc_parent = '''', tc_state = '''', tc_attributes = [], tc_baggage = []\<rparr>
      | Some t \<Rightarrow> \<lparr>tc_parent = rtc_trace_parent t, tc_state = rtc_trace_state t,
          tc_attributes = rtc_attributes t, tc_baggage = rtc_baggage t\<rparr>)"

definition convert_retry_context :: "rpc_retry_context option \<Rightarrow> retry_context" where
  "convert_retry_context rc =
     (case rc of
        None \<Rightarrow> \<lparr>rc_count = 0, rc_max = 0\<rparr>
      | Some r \<Rightarrow> \<lparr>rc_count = rrc_retry_count r, rc_max = rrc_max_retry_count r\<rparr>)"

definition build_middleware_context ::
    "invocation_request \<Rightarrow> 'cl rfunction \<Rightarrow> ret_value middleware_context" where
  "build_middleware_context req fn =
     new_middleware_context (Some
       \<lparr>ic_invocation_id = ireq_invocation_id req, ic_function_id = ireq_function_id req,
        ic_function_name = rf_func_name fn, ic_trigger_type = rf_trigger_type fn,
        ic_trace = convert_trace_context (ireq_trace_context req),
        ic_retry = convert_retry_context (ireq_retry_context req),
        ic_metadata = flatten_metadata (ireq_trigger_metadata req),
        ic_metadata_values =
          (case rf_raw_bindings fn of
             b # _ \<Rightarrow> if bd_generic b \<noteq> None then generic_trigger_metadata (ireq_trigger_metadata req) else None
           | [] \<Rightarrow> None)\<rparr>)"

text \<open>The name of the first inbound binding, empty when there is none.\<close>

definition trigger_name :: "binding list \<Rightarrow> string" where
  "trigger_name bs = (case find (\<lambda>b. bd_direction b = ''in'') bs of None \<Rightarrow> '''' | Some b \<Rightarrow> bd_name b)"

text \<open>
  What a payload is read as: text, else bytes, else JSON.
\<close>

datatype payload = P_Text string | P_Bytes string | P_None

definition payload_of :: "typed_data \<Rightarrow> payload" where
  "payload_of td =
     (if get_string (Some td) \<noteq> '''' then P_Text (get_string (Some td))
      else case get_bytes (Some td) of
        Some b \<Rightarrow> P_Bytes b
      | None \<Rightarrow> if get_json (Some td) \<noteq> '''' then P_Text (get_json (Some td)) else P_None)"

fun extract_from :: "string \<Rightarrow> parameter_binding list \<Rightarrow> ret_value middleware_context \<Rightarrow> ret_value middleware_context" where
  "extract_from n [] mc = mc"
| "extract_from n (b # bs) mc =
     (if n \<noteq> '''' \<and> pb_name b \<noteq> n then extract_from n bs mc
      else case pb_data b of
        None \<Rightarrow> extract_from n bs mc
      | Some td \<Rightarrow>
          (case payload_of td of
             P_Text s \<Rightarrow> set_input_string s mc
           | P_Bytes s \<Rightarrow> set_input_bytes (Some s) mc
           | P_None \<Rightarrow> mc))"

definition extract_trigger_input ::
    "invocation_request \<Rightarrow> 'cl loaded_function \<Rightarrow> ret_value middleware_context \<Rightarrow> ret_value middleware_context" where
  "extract_trigger_input req lf mc =
     extract_from (trigger_name (rf_raw_bindings (lf_function lf))) (ireq_input_data req) mc"

definition populate_step ::
    "string \<Rightarrow> parameter_binding \<Rightarrow> ret_value middleware_context \<Rightarrow> ret_value middleware_context" where
  "populate_step n b mc =
     (if pb_name b = '''' \<or> pb_name b = n then mc
      else case pb_data b of
        None \<Rightarrow> mc
      | Some td \<Rightarrow>
          (case payload_of td of
             P_Text s \<Rightarrow> set_binding_input_string (pb_name b) s mc
           | P_Bytes s \<Rightarrow> set_binding_input (pb_name b) (Some s) mc
           | P_None \<Rightarrow> mc))"

definition populate_binding_inputs ::
    "invocation_request \<Rightarrow> 'cl loaded_function \<Rightarrow> ret_value middleware_context \<Rightarrow> ret_value middleware_context" where
  "populate_binding_inputs req lf mc =
     fold (populate_step (trigger_name (rf_raw_bindings (lf_function lf)))) (ireq_input_data req) mc"

subsection \<open>Running user code\<close>

text \<open>
  The state an invocation threads: the middleware context, the response writer handed to an HTTP
  handler, and the rest of the world.
\<close>

record 'w inv_state =
  is_mc :: "ret_value middleware_context"
  is_rw :: response_writer
  is_world :: 'w

text \<open>An argument in its slot, and what a call returns: an error result or another value.\<close>

datatype ('c, 'cl) arg =
    A_Context 'c
  | A_Writer
  | A_Value go_value
  | A_Request go_value 'c
  | A_Client 'cl

datatype call_result = Err_Result "go_error option" | Val_Result ret_value

type_synonym ('c, 'cl, 'w) user_code =
  "handler_value \<Rightarrow> ('c, 'cl) arg list \<Rightarrow> 'w inv_state \<Rightarrow> (string, call_result list) outcome \<times> 'w inv_state"

record recovered_result =
  rr_recovered :: "string option"
  rr_stack :: string
  rr_error :: "go_error option"

text \<open>
  \<open>runUserInvocation\<close>: the composed chain under one \<open>recover\<close>.  The stack text of a panic is a
  parameter.
\<close>

definition run_user_invocation ::
    "string \<Rightarrow> ('c, 'w inv_state, 's, 'f) middleware list \<Rightarrow> ('c, 'w inv_state) handler \<Rightarrow> 'c \<Rightarrow> 'w inv_state \<Rightarrow>
     recovered_result \<times> 'w inv_state" where
  "run_user_invocation stack mws inner ctx s =
     (case compose_chain mws inner ctx s of
        (Panic p, s') \<Rightarrow> (\<lparr>rr_recovered = Some p, rr_stack = stack, rr_error = None\<rparr>, s')
      | (Ret e, s') \<Rightarrow> (\<lparr>rr_recovered = None, rr_stack = '''', rr_error = e\<rparr>, s'))"

definition status_from_invocation :: "recovered_result \<Rightarrow> status_result" where
  "status_from_invocation r =
     (case rr_recovered r of
        Some p \<Rightarrow> status_failure \<lparr>ex_source = ''User function'', ex_stack = rr_stack r, ex_message = p, ex_is_user = True\<rparr>
      | None \<Rightarrow>
          (case rr_error r of
             Some e \<Rightarrow> status_failure \<lparr>ex_source = ''User function'', ex_stack = '''', ex_message = e, ex_is_user = True\<rparr>
           | None \<Rightarrow> status_success))"

text \<open>The pre-allocated arguments.\<close>

definition preallocate :: "tenv \<Rightarrow> 'c \<Rightarrow> gtype \<Rightarrow> ('c, 'cl) arg" where
  "preallocate E ctx t =
     (if is_context_type E t then A_Context ctx
      else if is_writer_type E t then A_Writer
      else if kind_of E t = K_Ptr then A_Value (GV_Ptr t (GV_Zero (elem_of E t)))
      else A_Value (GV_Zero t))"

definition place_values :: "('c, 'cl) arg list \<Rightarrow> arg_values \<Rightarrow> ('c, 'cl) arg list" where
  "place_values args vs =
     map2 (\<lambda>a v. case v of None \<Rightarrow> a | Some x \<Rightarrow> A_Value x) args vs"

text \<open>The trigger argument a client replaces: the first that is neither context nor writer.\<close>

definition place_client :: "tenv \<Rightarrow> gtype list \<Rightarrow> 'cl \<Rightarrow> ('c, 'cl) arg list \<Rightarrow> ('c, 'cl) arg list" where
  "place_client E ps c args =
     (case find_index (\<lambda>t. \<not> is_context_type E t \<and> \<not> is_writer_type E t) ps 0 of
        None \<Rightarrow> args | Some i \<Rightarrow> args[i := A_Client c])"

definition inject_context :: "tenv \<Rightarrow> 'c \<Rightarrow> gtype \<Rightarrow> ('c, 'cl) arg \<Rightarrow> ('c, 'cl) arg" where
  "inject_context E ctx t a =
     (if is_context_type E t then A_Context ctx
      else if rt_well_known (tinfo E t) = Type_Request_Ptr
      then (case a of
              A_Value (GV_Ptr pt r) \<Rightarrow> A_Request (GV_Ptr pt r) ctx
            | A_Request r c \<Rightarrow> A_Request r ctx
            | _ \<Rightarrow> a)
      else a)"

text \<open>The loop over the results: the last error returned, the first other value recorded.\<close>

fun collect_results ::
    "call_result list \<Rightarrow> go_error option \<Rightarrow> bool \<Rightarrow> ret_value middleware_context \<Rightarrow>
     go_error option \<times> ret_value middleware_context" where
  "collect_results [] e done mc = (e, mc)"
| "collect_results (Err_Result x # rs) e done mc =
     collect_results rs (case x of None \<Rightarrow> e | Some y \<Rightarrow> Some y) done mc"
| "collect_results (Val_Result v # rs) e done mc =
     (if done then collect_results rs e done mc
      else collect_results rs e True (set_return_value (Some v) mc))"

definition inner_handler ::
    "tenv \<Rightarrow> ('c, 'cl, 'w) user_code \<Rightarrow> handler_value \<Rightarrow> ('c, 'cl) arg list \<Rightarrow> ('c, 'w inv_state) handler" where
  "inner_handler E user f args ctx s =
     (case user f (map2 (inject_context E ctx) (handler_params E f) args) s of
        (Panic p, s') \<Rightarrow> (Panic p, s')
      | (Ret rs, s') \<Rightarrow>
          (let (e, mc) = collect_results rs None False (is_mc s') in (Ret e, s'\<lparr>is_mc := mc\<rparr>)))"

subsection \<open>The response\<close>

definition http_return :: "(string, func_field) go_map \<Rightarrow> ('c, 'cl) arg list \<Rightarrow> response_writer \<Rightarrow> typed_data option" where
  "http_return ffs args rw =
     (case find (\<lambda>(n, f). ff_direction f = ''out'' \<and> ff_is_writer f \<and> ff_name f = ''$return'' \<and>
          ff_position f < length args \<and> args ! ff_position f = A_Writer) ffs of
        None \<Rightarrow> None | Some _ \<Rightarrow> Some (encode_http_response rw))"

definition binding_failure :: "string \<Rightarrow> string \<Rightarrow> go_error \<Rightarrow> streaming_message" where
  "binding_failure rid iid e =
     mk_msg rid (C_InvocationResponse \<lparr>ires_invocation_id = iid,
       ires_result = Some (status_failure (no_exception\<lparr>ex_source := ''Binding conversion'', ex_message := e\<rparr>)),
       ires_return_value = None, ires_trace_attributes = []\<rparr>)"

definition attributes_of :: "ret_value middleware_context option \<Rightarrow> (string, string) go_map" where
  "attributes_of mc =
     (case mc of None \<Rightarrow> [] | Some m \<Rightarrow> (case outbound_attributes m of None \<Rightarrow> [] | Some a \<Rightarrow> a))"

text \<open>The return value and the final status, once the user code is done.\<close>

definition finish_invocation ::
    "tenv \<Rightarrow> (ret_value \<Rightarrow> string step) \<Rightarrow> status_result \<Rightarrow> typed_data option \<Rightarrow> ret_value middleware_context \<Rightarrow>
     status_result \<times> typed_data option" where
  "finish_invocation E marshal status http mc =
     (if http = None \<and> sr_status status = Status_Success \<and> snd (return_value mc)
      then (case encode_return_value E marshal
              (case fst (return_value mc) of None \<Rightarrow> RV_Nil | Some v \<Rightarrow> v) of
              Inr d \<Rightarrow> (status, d)
            | Inl e \<Rightarrow> (status_failure (no_exception\<lparr>ex_source := ''Binding conversion'', ex_message := e\<rparr>), None))
      else (status, http))"

text \<open>
  Everything an invocation takes from outside: the types and codecs, the application's middlewares,
  the user code, the stack text, the context with the carrier attached, the HTTP rendezvous
  (\<open>None\<close>: no proxy), and the function types that are HTTP handlers.
\<close>

record ('c, 'cl, 'w, 's, 'f) inv_env =
  ie_types :: tenv
  ie_codec :: codec
  ie_marshal :: "ret_value \<Rightarrow> string step"
  ie_middlewares :: "('c, 'w inv_state, 's, 'f) middleware list"
  ie_user :: "('c, 'cl, 'w) user_code"
  ie_stack :: string
  ie_context :: "ret_value middleware_context \<Rightarrow> 'c"
  ie_proxy :: "(invocation_request \<Rightarrow> 'cl loaded_function \<Rightarrow>
      (status_result \<times> ret_value middleware_context option) result) option"
  ie_http_types :: "gtype list"

definition is_http_handler :: "('c, 'cl, 'w, 's, 'f) inv_env \<Rightarrow> 'cl loaded_function \<Rightarrow> bool" where
  "is_http_handler X lf =
     (case hv_type (rf_func (lf_function lf)) of None \<Rightarrow> False | Some t \<Rightarrow> t \<in> set (ie_http_types X))"

text \<open>No trigger input names a URL.\<close>

definition is_proxied :: "invocation_request \<Rightarrow> bool" where
  "is_proxied req =
     list_all (\<lambda>b. case get_http (pb_data b) of
        None \<Rightarrow> True | Some h \<Rightarrow> trim_space (http_url h) = '''') (ireq_input_data req)"

definition proxied_response ::
    "string \<Rightarrow> string \<Rightarrow> (status_result \<times> ret_value middleware_context option) result \<Rightarrow> streaming_message" where
  "proxied_response rid iid r =
     (let (status, mc) = (case r of
          Inr x \<Rightarrow> x
        | Inl e \<Rightarrow> (status_failure (no_exception\<lparr>ex_message := e, ex_source := ''HTTP proxy rendezvous''\<rparr>), None))
      in mk_msg rid (C_InvocationResponse \<lparr>ires_invocation_id = iid, ires_result = Some status,
           ires_return_value = None, ires_trace_attributes = attributes_of mc\<rparr>))"

text \<open>The client of an extension trigger; without a factory the arguments stay.\<close>

definition client_args ::
    "('c, 'cl, 'w, 's, 'f) inv_env \<Rightarrow> 'cl loaded_function \<Rightarrow> ret_value middleware_context \<Rightarrow> ('c, 'cl) arg list \<Rightarrow>
     ('c, 'cl) arg list result" where
  "client_args X lf mc args =
     (case rf_client_factory (lf_function lf) of
        None \<Rightarrow> Inr args
      | Some cf \<Rightarrow>
          (let config = (case rf_raw_bindings (lf_function lf) of
               [] \<Rightarrow> []
             | b # _ \<Rightarrow> (case binding_object b of
                 Inl e \<Rightarrow> [] | Inr m \<Rightarrow> map (\<lambda>(k, v). (k, json_reread v)) m));
               meta = (case mc_invocation mc of None \<Rightarrow> None | Some ic \<Rightarrow> ic_metadata ic)
           in case cf config meta of
                Inl e \<Rightarrow> Inl (''client factory error: '' @ e)
              | Inr c \<Rightarrow> Inr (place_client (ie_types X) (handler_params (ie_types X) (rf_func (lf_function lf))) c args)))"

definition run_invocation ::
    "('c, 'cl, 'w, 's, 'f) inv_env \<Rightarrow> 'cl loaded_function \<Rightarrow> ret_value middleware_context \<Rightarrow> ('c, 'cl) arg list \<Rightarrow>
     string \<Rightarrow> string \<Rightarrow> 'w \<Rightarrow> streaming_message \<times> 'w" where
  "run_invocation X lf mc args rid iid w =
     (let f = rf_func (lf_function lf);
          (r, s) = run_user_invocation (ie_stack X) (ie_middlewares X)
            (inner_handler (ie_types X) (ie_user X) f args) (ie_context X mc)
            \<lparr>is_mc = mc, is_rw = new_response_writer, is_world = w\<rparr>;
          (status, ret) = finish_invocation (ie_types X) (ie_marshal X) (status_from_invocation r)
            (http_return (lf_fields lf) args (is_rw s)) (is_mc s)
      in (mk_msg rid (C_InvocationResponse \<lparr>ires_invocation_id = iid, ires_result = Some status,
            ires_return_value = ret, ires_trace_attributes = attributes_of (Some (is_mc s))\<rparr>), is_world s))"

text \<open>
  \<open>handleInvocationRequest\<close>: an error of the handler itself is \<open>Inl\<close>; binding the arguments can
  panic (a reflective \<open>Set\<close>), and that panic is the handler's.
\<close>

definition handle_invocation ::
    "('c, 'cl, 'w, 's, 'f) inv_env \<Rightarrow> (string, 'cl loaded_function) go_map \<Rightarrow> invocation_request \<Rightarrow> string \<Rightarrow> 'w \<Rightarrow>
     streaming_message step \<times> 'w" where
  "handle_invocation X loaded req rid w =
     (case sm_load loaded (ireq_function_id req) of
        None \<Rightarrow> (err (''function with ID '' @ ireq_function_id req @ '' not loaded''), w)
      | Some lf \<Rightarrow>
          (case (if is_http_handler X lf \<and> is_proxied req then ie_proxy X else None) of
             Some notify \<Rightarrow> (ok (proxied_response rid (ireq_invocation_id req) (notify req lf)), w)
           | None \<Rightarrow>
               (let mc = populate_binding_inputs req lf
                      (extract_trigger_input req lf (build_middleware_context req (lf_function lf)));
                    ps = handler_params (ie_types X) (rf_func (lf_function lf));
                    args = map (preallocate (ie_types X) (ie_context X mc)) ps
                in case from_proto (ie_types X) (ie_codec X) req (lf_fields lf) (map (\<lambda>_. None) ps) of
                     Panic p \<Rightarrow> (Panic p, w)
                   | Ret (Inl e) \<Rightarrow> (ok (binding_failure rid (ireq_invocation_id req) e), w)
                   | Ret (Inr vs) \<Rightarrow>
                       (case client_args X lf mc (place_values args vs) of
                          Inl e \<Rightarrow> (err e, w)
                        | Inr args' \<Rightarrow>
                            (case run_invocation X lf mc args' rid (ireq_invocation_id req) w of
                               (m, w') \<Rightarrow> (ok m, w'))))))"

subsection \<open>The dispatcher\<close>

record ('cl, 'w) dispatcher =
  d_request_id :: string
  d_registered :: "(string, 'cl rfunction) go_map"
  d_loaded :: "(string, 'cl loaded_function) go_map"
  d_capabilities :: "(string, string) go_map"
  d_proxy_url :: "string option"
  d_metadata :: worker_metadata
  d_categories :: "(string, log_level) go_map option"
  d_world :: 'w

text \<open>The requests answered without looking at the functions.\<close>

definition handle_status :: "string \<Rightarrow> streaming_message" where
  "handle_status rid = mk_msg rid C_WorkerStatusResponse"

definition handle_terminate :: "string \<Rightarrow> streaming_message option" where
  "handle_terminate rid = None"

definition handle_env_reload :: "worker_metadata \<Rightarrow> string \<Rightarrow> streaming_message" where
  "handle_env_reload md rid = mk_msg rid (C_EnvReloadResponse \<lparr>ers_result = Some status_success_text,
     ers_capabilities = [], ers_strategy = Caps_merge, ers_metadata = Some md\<rparr>)"

lemmas plain_handlers = handle_status_def handle_terminate_def handle_env_reload_def

declare plain_handlers [simp]

text \<open>
  \<open>processRequestMessage\<close>: the response, if there is one.  \<open>host_config\<close> is the provider of the
  host configuration.
\<close>

definition process_request ::
    "('c, 'cl, 'w, 's, 'f) inv_env \<Rightarrow> (worker_init_request \<Rightarrow> host_configuration option) \<Rightarrow> streaming_message \<Rightarrow>
     ('cl, 'w) dispatcher \<Rightarrow> streaming_message option step \<times> ('cl, 'w) dispatcher" where
  "process_request X host_config msg d =
     (let rid = d_request_id d in
      case sm_content msg of
        Some (C_WorkerInitRequest req) \<Rightarrow>
          (ok (Some (handle_init (d_capabilities d) (d_proxy_url d) (d_metadata d) host_config req rid)),
           d\<lparr>d_categories := wir_log_categories req\<rparr>)
      | Some C_FunctionsMetadataRequest \<Rightarrow> (ok (Some (handle_metadata (d_registered d) rid)), d)
      | Some (C_InvocationRequest req) \<Rightarrow>
          (case handle_invocation X (d_loaded d) req (sm_request_id msg) (d_world d) of
             (r, w) \<Rightarrow> (bind_step r (\<lambda>m. ok (Some m)), d\<lparr>d_world := w\<rparr>))
      | Some (C_FunctionLoadRequest fid) \<Rightarrow>
          (case handle_load (ie_types X) (d_registered d) fid rid (d_loaded d) of
             (m, loaded) \<Rightarrow> (ok (Some m), d\<lparr>d_loaded := loaded\<rparr>))
      | Some C_WorkerStatusRequest \<Rightarrow> (ok (Some (handle_status rid)), d)
      | Some C_WorkerTerminate \<Rightarrow> (ok (handle_terminate rid), d)
      | Some (C_EnvReloadRequest req) \<Rightarrow> (ok (Some (handle_env_reload (d_metadata d) rid)), d)
      | _ \<Rightarrow> (ok None, d))"

subsection \<open>Lemmas\<close>

lemma next_argument_spec:
  "i \<le> next_argument E ps i \<and>
   (next_argument E ps i < length ps \<longrightarrow>
      \<not> is_context_type E (ps ! next_argument E ps i) \<and> \<not> is_writer_type E (ps ! next_argument E ps i))"
proof (induction E ps i rule: next_argument.induct)
  case (1 E ps i)
  show ?case
  proof (cases "i < length ps \<and> (is_context_type E (ps ! i) \<or> is_writer_type E (ps ! i))")
    case True
    with 1 show ?thesis by (simp add: next_argument.simps [of E ps i])
  next
    case False
    then show ?thesis by (auto simp: next_argument.simps [of E ps i])
  qed
qed

text \<open>What a map of fields satisfies once the parameters below \<open>i\<close> have been handed out.\<close>

definition fields_upto :: "tenv \<Rightarrow> gtype list \<Rightarrow> nat \<Rightarrow> (string, func_field) go_map \<Rightarrow> bool" where
  "fields_upto E ps i m \<longleftrightarrow>
     wf_map m \<and>
     (\<forall>n f. map_of m n = Some f \<longrightarrow> is_input_field f \<longrightarrow>
        ff_name f = n \<and> ff_position f < i \<and> ff_position f < length ps \<and> ff_type f = ps ! ff_position f \<and>
        \<not> is_context_type E (ps ! ff_position f) \<and> \<not> is_writer_type E (ps ! ff_position f)) \<and>
     (\<forall>n n' f f'. map_of m n = Some f \<longrightarrow> map_of m n' = Some f' \<longrightarrow> is_input_field f \<longrightarrow> is_input_field f' \<longrightarrow>
        ff_position f = ff_position f' \<longrightarrow> n = n')"

lemma fields_upto_writer: "fields_upto E ps 0 (writer_fields E ps)"
  by (auto simp: fields_upto_def writer_fields_def wf_map_def is_input_field_def split: option.splits if_splits)

lemma fields_upto_mono: "fields_upto E ps i m \<Longrightarrow> i \<le> j \<Longrightarrow> fields_upto E ps j m"
  unfolding fields_upto_def by (meson less_le_trans)

lemma fields_upto_put:
  assumes m: "fields_upto E ps i m" and f: "ff_position f = i" "i < length ps" "ff_name f = n" "ff_type f = ps ! i"
    and p: "\<not> is_context_type E (ps ! i)" "\<not> is_writer_type E (ps ! i)"
  shows "fields_upto E ps (i + 1) (map_put n f m)"
  unfolding fields_upto_def
proof (intro conjI allI impI)
  show "wf_map (map_put n f m)" using m by (simp add: fields_upto_def)
next
  fix n' f' assume a: "map_of (map_put n f m) n' = Some f'" "is_input_field f'"
  have "ff_name f' = n' \<and> ff_position f' < i + 1 \<and> ff_position f' < length ps \<and> ff_type f' = ps ! ff_position f' \<and>
      \<not> is_context_type E (ps ! ff_position f') \<and> \<not> is_writer_type E (ps ! ff_position f')"
  proof (cases "n' = n")
    case True
    with a f p show ?thesis by auto
  next
    case False
    with a m show ?thesis by (fastforce simp: fields_upto_def)
  qed
  then show "ff_name f' = n'" "ff_position f' < i + 1" "ff_position f' < length ps" "ff_type f' = ps ! ff_position f'"
    "\<not> is_context_type E (ps ! ff_position f')" "\<not> is_writer_type E (ps ! ff_position f')"
    by simp_all
next
  fix n1 n2 f1 f2
  assume a: "map_of (map_put n f m) n1 = Some f1" "map_of (map_put n f m) n2 = Some f2"
    "is_input_field f1" "is_input_field f2" "ff_position f1 = ff_position f2"
  have old: "map_of m k = Some g \<Longrightarrow> is_input_field g \<Longrightarrow> ff_position g < i" for k g
    using m by (simp add: fields_upto_def)
  show "n1 = n2"
  proof (cases "n1 = n"; cases "n2 = n")
    assume "n1 \<noteq> n" "n2 \<noteq> n"
    with a have "map_of m n1 = Some f1" "map_of m n2 = Some f2" by simp_all
    with a(3-5) m show ?thesis unfolding fields_upto_def by blast
  next
    assume "n1 = n" "n2 \<noteq> n"
    with a old [of n2 f2] f(1) show ?thesis by simp
  next
    assume "n1 \<noteq> n" "n2 = n"
    with a old [of n1 f1] f(1) show ?thesis by simp
  qed simp
qed

lemma map_bindings_fields:
  "fields_upto E ps i m \<Longrightarrow> \<exists>j. fields_upto E ps j (map_bindings E ps bs i m)"
proof (induction E ps bs i m rule: map_bindings.induct)
  case (1 E ps i m)
  then show ?case by auto
next
  case (2 E ps b bs i m)
  show ?case
  proof (cases "bd_direction b = ''in''")
    case False
    with 2 show ?thesis by simp
  next
    case True
    define j where "j = next_argument E ps i"
    note nx = next_argument_spec [of i E ps, folded j_def]
    show ?thesis
    proof (cases "length ps \<le> j")
      case True
      with 2(3) \<open>bd_direction b = ''in''\<close> show ?thesis by (auto simp: Let_def j_def)
    next
      case False
      let ?f = "\<lparr>ff_name = bd_name b, ff_type = ps ! j, ff_position = j, ff_direction = bd_direction b,
            ff_is_argument = True, ff_is_writer = False, ff_generic = (bd_generic b \<noteq> None)\<rparr>"
      have "fields_upto E ps (j + 1) (map_put (bd_name b) ?f m)"
        by (rule fields_upto_put [OF fields_upto_mono [OF 2(3)]]) (use nx False in auto)
      with 2(2) True False show ?thesis by (auto simp: Let_def j_def)
    qed
  qed
qed

lemma load_fields_upto:
  "\<exists>j. fields_upto E (handler_params E (rf_func rf)) j (lf_fields (load_function E rf))"
  unfolding load_function_def Let_def
  using map_bindings_fields [OF fields_upto_writer] by simp

lemma mk_msg_request_id_init [simp]: "sm_request_id (handle_init c u md h req rid) = rid"
  by (simp add: handle_init_def)

lemma handle_metadata_id [simp]: "sm_request_id (handle_metadata m rid) = rid"
  by (simp add: handle_metadata_def split: sum.split)

lemma handle_load_id: "handle_load E m fid rid l = (r, l') \<Longrightarrow> sm_request_id r = rid"
  by (auto simp: handle_load_def split: option.splits)

definition is_response_for :: "string \<Rightarrow> string \<Rightarrow> streaming_message \<Rightarrow> bool" where
  "is_response_for rid iid m \<longleftrightarrow>
     (\<exists>r. m = mk_msg rid (C_InvocationResponse r) \<and> ires_invocation_id r = iid \<and> ires_result r \<noteq> None)"

lemma is_response_for_id: "is_response_for rid iid m \<Longrightarrow> sm_request_id m = rid"
  by (auto simp: is_response_for_def)

lemma run_invocation_response:
  "run_invocation X lf mc args rid iid w = (m, w') \<Longrightarrow> is_response_for rid iid m"
  by (auto simp: run_invocation_def is_response_for_def Let_def split: prod.splits)

lemma handle_invocation_ok:
  assumes "handle_invocation X loaded req rid w = (ok m, w')"
  shows "is_response_for rid (ireq_invocation_id req) m"
proof -
  have p: "is_response_for rid iid (proxied_response rid iid r)" for iid r
    by (simp add: proxied_response_def is_response_for_def Let_def split: prod.split)
  have b: "is_response_for rid iid (binding_failure rid iid e)" for iid e
    by (simp add: binding_failure_def is_response_for_def)
  show ?thesis
    using assms p b
    by (auto simp: handle_invocation_def Let_def ok_def err_def
        split: option.splits outcome.splits sum.splits prod.splits dest: run_invocation_response)
qed

lemma from_proto_length: "from_proto E C req ffs args = ok args' \<Longrightarrow> length args' = length args"
  by (auto simp: from_proto_def bind_step_ok_iff dest!: bind_inputs_length split: option.splits)

subsection \<open>Properties\<close>


definition sample_function :: "unit rfunction" where
  "sample_function = initial_function ''orders'' sample_handler
     ((plain_binding ''orders'' ''kafkaTrigger'' ''in'')\<lparr>bd_generic := Some
        \<lparr>gen_data_type = '''', gen_cardinality = ''many'', gen_properties = []\<rparr>\<rparr>) ''kafkaTrigger''"


text \<open>
  A response to an invocation carries the request id of its own message; every other response
  carries the id the worker was started with.
\<close>

theorem process_request_id:
  assumes "process_request X hc msg d = (ok (Some r), d')"
  shows "sm_request_id r =
    (case sm_content msg of Some (C_InvocationRequest _) \<Rightarrow> sm_request_id msg | _ \<Rightarrow> d_request_id d)"
  using assms
  by (auto simp: process_request_def Let_def bind_step_ok_iff split: option.splits content.splits prod.splits
      dest!: handle_load_id handle_invocation_ok is_response_for_id)

definition sample_dispatcher :: "(unit, unit) dispatcher" where
  "sample_dispatcher = \<lparr>d_request_id = ''r0'', d_registered = [(''f1'', sample_function)], d_loaded = [],
     d_capabilities = [], d_proxy_url = None, d_metadata = build_worker_metadata ''go1.24'' ''linux/amd64'' None,
     d_categories = None, d_world = ()\<rparr>"

definition sample_env :: "(unit, unit, unit, unit, unit) inv_env" where
  "sample_env = \<lparr>ie_types = handler_types, ie_codec = sample_codec, ie_marshal = (\<lambda>v. err ''unused''),
     ie_middlewares = [], ie_user = (\<lambda>f args s. (Panic ''boom'', s)), ie_stack = ''stack'',
     ie_context = (\<lambda>mc. ()), ie_proxy = None, ie_http_types = []\<rparr>"

theorem process_request_id_witness:
  "\<exists>r d'. process_request sample_env (\<lambda>r. Some \<lparr>hc_status = HC_Missing, hc_content = ''''\<rparr>)
       (mk_msg ''m7'' (C_FunctionLoadRequest ''f1'')) sample_dispatcher = (ok (Some r), d') \<and>
     sm_request_id r = ''r0''"
proof -
  have "\<exists>r d'. process_request sample_env (\<lambda>r. Some \<lparr>hc_status = HC_Missing, hc_content = ''''\<rparr>)
       (mk_msg ''m7'' (C_FunctionLoadRequest ''f1'')) sample_dispatcher = (ok (Some r), d')"
    by (simp add: process_request_def sample_dispatcher_def Let_def handle_load_def sm_load_def)
  then obtain r d' where p: "process_request sample_env (\<lambda>r. Some \<lparr>hc_status = HC_Missing, hc_content = ''''\<rparr>)
       (mk_msg ''m7'' (C_FunctionLoadRequest ''f1'')) sample_dispatcher = (ok (Some r), d')" by blast
  with process_request_id [OF p] show ?thesis by (auto simp: sample_dispatcher_def)
qed




text \<open>
  The capabilities the host is told: the proxy's keys when the HTTP proxy runs, else what the
  application's middlewares advertise, else the worker's defaults.
\<close>

theorem init_capabilities_lookup:
  assumes "wf_map app_caps"
  shows "map_of (init_capabilities app_caps proxy_url) k =
    (case proxy_url of
       Some url \<Rightarrow>
         if k = ''RequiresRouteParameters'' then Some ''true''
         else if k = ''HttpUri'' then Some url
         else (case map_of app_caps k of Some v \<Rightarrow> Some v | None \<Rightarrow> map_of base_capabilities k)
     | None \<Rightarrow> (case map_of app_caps k of Some v \<Rightarrow> Some v | None \<Rightarrow> map_of base_capabilities k))"
  using assms by (auto simp: init_capabilities_def Let_def map_add_def split: option.splits)

theorem init_capabilities_lookup_witness:
  "map_of (init_capabilities [(''WorkerOpenTelemetryEnabled'', ''true'')] (Some ''http://127.0.0.1:5000'')) ''HttpUri'' =
     Some ''http://127.0.0.1:5000''"
proof -
  have "wf_map [(''WorkerOpenTelemetryEnabled'', ''true'')]" by (simp add: wf_map_def)
  from init_capabilities_lookup [OF this, of "Some ''http://127.0.0.1:5000''" "''HttpUri''"] show ?thesis by simp
qed

text \<open>
  C10. A call of user code has the arguments its inputs decode to: an invocation that is answered without
  a client factory or the HTTP proxy either failed to bind, with nothing run, or ran the handler once
  with one argument per parameter, where each generic binding's parameter holds the decoded value of
  the only input of its name.
\<close>

theorem generic_arguments_reach_handler:
  assumes "map_of loaded (ireq_function_id req) = Some (load_function (ie_types X) rf)"
    and "handle_invocation X loaded req rid w = (ok m, w')"
    and "rf_client_factory rf = None" and "ie_proxy X = None"
  shows "(\<exists>e. m = binding_failure rid (ireq_invocation_id req) e \<and> w' = w) \<or>
    (\<exists>mc args. run_invocation X (load_function (ie_types X) rf) mc args rid (ireq_invocation_id req) w = (m, w') \<and>
      length args = length (handler_params (ie_types X) (rf_func rf)) \<and>
      (\<forall>n f. map_of (lf_fields (load_function (ie_types X) rf)) n = Some f \<longrightarrow> is_input_field f \<longrightarrow> ff_generic f \<longrightarrow>
        (\<exists>b v. filter (\<lambda>b. pb_name b = n) (ireq_input_data req) = [b] \<and>
          decode_generic (ie_types X) (ie_codec X) (ff_type f) (pb_data b) = Inr v \<and> args ! ff_position f = A_Value v)))"
proof -
  let ?lf = "load_function (ie_types X) rf"
  let ?ps = "handler_params (ie_types X) (rf_func rf)"
  have lf: "lf_function ?lf = rf" by (simp add: load_function_def Let_def)
  have fields: "wf_map (lf_fields ?lf)"
    "map_of (lf_fields ?lf) n = Some f \<Longrightarrow> is_input_field f \<Longrightarrow> ff_position f < length ?ps"
    "map_of (lf_fields ?lf) n = Some f \<Longrightarrow> is_input_field f \<Longrightarrow>
      \<forall>n' f'. map_of (lf_fields ?lf) n' = Some f' \<longrightarrow> is_input_field f' \<longrightarrow> ff_position f' = ff_position f \<longrightarrow> n' = n" for n f
    using load_fields_upto [of "ie_types X" rf] unfolding fields_upto_def by blast+
  consider (failed) e where "m = binding_failure rid (ireq_invocation_id req) e" "w' = w"
    | (run) mc vs where "from_proto (ie_types X) (ie_codec X) req (lf_fields ?lf) (map (\<lambda>_. None) ?ps) = ok vs"
        "run_invocation X ?lf mc (place_values (map (preallocate (ie_types X) (ie_context X mc)) ?ps) vs) rid (ireq_invocation_id req) w = (m, w')"
    using assms(2) unfolding handle_invocation_def sm_load_def assms(1,4)
    by (auto simp: Let_def ok_def client_args_def lf assms(3) split: outcome.splits sum.splits prod.splits)
  then show ?thesis
  proof cases
    case (run mc vs)
    note bound = from_proto_generic [OF run(1) fields(1), unfolded length_map]
    let ?args = "place_values (map (preallocate (ie_types X) (ie_context X mc)) ?ps) vs"
    have vs: "length vs = length ?ps" using from_proto_length [OF run(1)] by simp
    have "\<exists>b v. filter (\<lambda>b. pb_name b = n) (ireq_input_data req) = [b] \<and>
        decode_generic (ie_types X) (ie_codec X) (ff_type f) (pb_data b) = Inr v \<and> ?args ! ff_position f = A_Value v"
      if f: "map_of (lf_fields ?lf) n = Some f" "is_input_field f" "ff_generic f" for n f
    proof -
      from bound [OF f(1,3,2) fields(2) [OF f(1,2)] fields(3) [OF f(1,2)]] obtain b v where
        "filter (\<lambda>b. pb_name b = n) (ireq_input_data req) = [b]"
        "decode_generic (ie_types X) (ie_codec X) (ff_type f) (pb_data b) = Inr v" "vs ! ff_position f = Some v" by blast
      with vs fields(2) [OF f(1,2)] show ?thesis by (simp add: place_values_def)
    qed
    moreover have "length ?args = length ?ps" using vs by (simp add: place_values_def)
    ultimately show ?thesis using run(2) by blast
  qed blast
qed

definition text_types :: tenv where
  "text_types =
    [plain_type ''func(context.Context, string) error'' K_Func 0 []\<lparr>rt_in := [1, 3], rt_out := [2]\<rparr>,
     plain_type ''context.Context'' K_Interface 0 []\<lparr>rt_well_known := Type_Context,
       rt_implements := [I_Context], rt_num_method := 4\<rparr>,
     plain_type ''error'' K_Interface 0 []\<lparr>rt_well_known := Type_Error, rt_implements := [I_Error],
       rt_num_method := 1\<rparr>,
     plain_type ''string'' K_String 0 []]"

text \<open>A program whose handler records its text argument in the world and returns no error.\<close>

definition echo_env :: "(unit, unit, go_value list, unit, unit) inv_env" where
  "echo_env = \<lparr>ie_types = text_types, ie_codec = sample_codec, ie_marshal = (\<lambda>v. err ''unused''),
     ie_middlewares = [],
     ie_user = (\<lambda>f args s. (Ret [Err_Result None],
        s\<lparr>is_world := concat (map (\<lambda>a. case a of A_Value v \<Rightarrow> [v] | _ \<Rightarrow> []) args)\<rparr>)),
     ie_stack = ''stack'', ie_context = (\<lambda>mc. ()), ie_proxy = None, ie_http_types = []\<rparr>"

theorem generic_arguments_reach_handler_witness:
  "\<exists>mc args m. run_invocation echo_env (load_function text_types sample_function) mc args ''r1'' ''i1'' [] =
       (m, [GV_Text 3 ''hello'']) \<and> length args = 2 \<and> args ! 1 = A_Value (GV_Text 3 ''hello'') \<and>
     handle_invocation echo_env [(''f1'', load_function text_types sample_function)] sample_request ''r1'' [] =
       (ok m, [GV_Text 3 ''hello''])"
proof -
  let ?lf = "load_function text_types sample_function"
  let ?loaded = "[(''f1'', ?lf)]"
  have "case handle_invocation echo_env ?loaded sample_request ''r1'' [] of
      (Ret (Inr m), w) \<Rightarrow> w = [GV_Text 3 ''hello''] | _ \<Rightarrow> False"
    by code_simp
  then obtain m where run: "handle_invocation echo_env ?loaded sample_request ''r1'' [] = (ok m, [GV_Text 3 ''hello''])"
    by (auto simp: ok_def split: prod.splits outcome.splits sum.splits)
  have h: "map_of ?loaded (ireq_function_id sample_request) = Some (load_function (ie_types echo_env) sample_function)"
    "rf_client_factory sample_function = None" "ie_proxy echo_env = None"
    by (simp_all add: sample_request_def echo_env_def sample_function_def initial_function_def)
  have p: "handler_params (ie_types echo_env) (rf_func sample_function) = [1, 3]" by code_simp
  have "map (\<lambda>(n, f). (n, ff_position f, ff_type f, ff_direction f, ff_is_argument f, ff_generic f))
      (lf_fields ?lf) = [(''orders'', 1, 3, ''in'', True, True)]"
    by code_simp
  then obtain f where "lf_fields ?lf = [(''orders'', f)]" "ff_position f = 1" "ff_type f = 3"
      "ff_direction f = ''in''" "ff_is_argument f" "ff_generic f"
    by auto
  then have f: "map_of (lf_fields (load_function (ie_types echo_env) sample_function)) ''orders'' = Some f"
      "is_input_field f" "ff_generic f" "ff_position f = 1" "ff_type f = 3"
    by (simp_all add: is_input_field_def echo_env_def)
  have t: "is_text text_types 3" by code_simp
  have d: "decode_generic text_types sample_codec 3 (Some (TD_String ''hello'')) = Inr (GV_Text 3 ''hello'')"
    using decode_generic_raw [of text_types 3 "TD_String ''hello''" sample_codec] t
    by (simp add: is_raw_def is_collection_def decode_raw_def wire_text_def)
  from generic_arguments_reach_handler [OF h(1) run h(2,3)] obtain mc args where a:
      "run_invocation echo_env (load_function (ie_types echo_env) sample_function) mc args ''r1''
         (ireq_invocation_id sample_request) [] = (m, [GV_Text 3 ''hello''])"
      "length args = length (handler_params (ie_types echo_env) (rf_func sample_function))"
      "\<exists>b v. filter (\<lambda>b. pb_name b = ''orders'') (ireq_input_data sample_request) = [b] \<and>
         decode_generic (ie_types echo_env) (ie_codec echo_env) (ff_type f) (pb_data b) = Inr v \<and>
         args ! ff_position f = A_Value v"
    using f(1-3) by fastforce
  from a(3) d f(4,5) have "args ! 1 = A_Value (GV_Text 3 ''hello'')"
    by (auto simp: sample_request_def echo_env_def)
  moreover have "ie_types echo_env = text_types" "ireq_invocation_id sample_request = ''i1''"
    by (simp_all add: echo_env_def sample_request_def)
  ultimately show ?thesis using a(1,2) p run by (intro exI conjI) simp_all
qed

end
