(* ===== verification/Go_Runs.thy ===== *)
theory Go_Runs
  imports "HOL-Library.Multiset"
begin

text \<open>
  Concurrent components are modelled as transition systems: \<open>exec e s\<close> is the state after event \<open>e\<close>,
  \<open>None\<close> when the event cannot happen in \<open>s\<close>.  This theory has their runs, the two contracts the
  components prove (an invariant; a rank that every internal event lowers), and what follows.
\<close>

fun exec_all :: "('e \<Rightarrow> 's \<Rightarrow> 's option) \<Rightarrow> 'e list \<Rightarrow> 's \<Rightarrow> 's option" where
  "exec_all exec [] s = Some s"
| "exec_all exec (e # es) s = (case exec e s of None \<Rightarrow> None | Some s' \<Rightarrow> exec_all exec es s')"

inductive reaches :: "('e \<Rightarrow> 's \<Rightarrow> 's option) \<Rightarrow> 's \<Rightarrow> 's \<Rightarrow> bool" for exec s where
  here: "reaches exec s s"
| further: "reaches exec s t \<Longrightarrow> exec e t = Some u \<Longrightarrow> reaches exec s u"

inductive_cases reachesE: "reaches exec s t"

lemma exec_all_append:
  "exec_all exec (es @ fs) s = (case exec_all exec es s of None \<Rightarrow> None | Some t \<Rightarrow> exec_all exec fs t)"
  by (induction es arbitrary: s) (auto split: option.split)

lemma reaches_exec_all:
  assumes "reaches exec s t" and "exec_all exec es t = Some u"
  shows "reaches exec s u"
  using assms
proof (induction es arbitrary: t)
  case (Cons e es)
  then show ?case by (auto split: option.splits intro: reaches.further)
qed simp

lemma reaches_iff: "reaches exec s t \<longleftrightarrow> (\<exists>es. exec_all exec es s = Some t)"
proof
  assume "reaches exec s t"
  then show "\<exists>es. exec_all exec es s = Some t"
  proof (induction rule: reaches.induct)
    case here
    show ?case by (rule exI [of _ "[]"]) simp
  next
    case (further t e u)
    then obtain es where "exec_all exec es s = Some t" by blast
    with further.hyps(2) have "exec_all exec (es @ [e]) s = Some u" by (simp add: exec_all_append)
    then show ?case by blast
  qed
next
  assume "\<exists>es. exec_all exec es s = Some t"
  then show "reaches exec s t" by (blast intro: reaches_exec_all [OF reaches.here])
qed

locale invariant_runs =
  fixes exec :: "'e \<Rightarrow> 's \<Rightarrow> 's option" and init :: 's and inv :: "'s \<Rightarrow> bool"
  assumes inv_init: "inv init"
    and inv_step: "inv s \<Longrightarrow> exec e s = Some t \<Longrightarrow> inv t"
begin

lemma reaches_inv: "reaches exec init s \<Longrightarrow> inv s"
  by (induction rule: reaches.induct) (auto intro: inv_init inv_step)

lemma exec_all_inv: "exec_all exec es init = Some s \<Longrightarrow> inv s"
  by (rule reaches_inv) (rule reaches_exec_all [OF reaches.here])

end

text \<open>
  A specification is a transition system as well; the detailed one refines it when each of its events,
  in a state that satisfies the invariant, is a sequence of the specification's events.
\<close>

fun spec_trace :: "('e \<Rightarrow> 's \<Rightarrow> 's option) \<Rightarrow> ('e \<Rightarrow> 's \<Rightarrow> 'f list) \<Rightarrow> 'e list \<Rightarrow> 's \<Rightarrow> 'f list" where
  "spec_trace exec view [] s = []"
| "spec_trace exec view (e # es) s =
     (case exec e s of None \<Rightarrow> [] | Some t \<Rightarrow> view e s @ spec_trace exec view es t)"

locale simulation = invariant_runs exec init inv
  for exec :: "'e \<Rightarrow> 's \<Rightarrow> 's option" and init :: 's and inv :: "'s \<Rightarrow> bool" +
  fixes spec :: "'f \<Rightarrow> 'a \<Rightarrow> 'a option" and abs :: "'s \<Rightarrow> 'a" and view :: "'e \<Rightarrow> 's \<Rightarrow> 'f list"
  assumes sim_step: "inv s \<Longrightarrow> exec e s = Some t \<Longrightarrow> exec_all spec (view e s) (abs s) = Some (abs t)"
begin

lemma simulates_from:
  "inv s \<Longrightarrow> exec_all exec es s = Some t \<Longrightarrow>
   exec_all spec (spec_trace exec view es s) (abs s) = Some (abs t)"
proof (induction es arbitrary: s)
  case (Cons e es)
  then obtain u where u: "exec e s = Some u" "exec_all exec es u = Some t" by (auto split: option.splits)
  with Cons inv_step [OF _ u(1)] show ?case by (simp add: exec_all_append sim_step)
qed simp

lemma simulates:
  "exec_all exec es init = Some s \<Longrightarrow>
   exec_all spec (spec_trace exec view es init) (abs init) = Some (abs s)"
  by (rule simulates_from [OF inv_init])

end

locale ranked_runs =
  fixes exec :: "'e \<Rightarrow> 's \<Rightarrow> 's option" and rank :: "'s \<Rightarrow> nat" and internal :: "'e \<Rightarrow> bool"
  assumes rank_step: "exec e s = Some t \<Longrightarrow> internal e \<Longrightarrow> rank t < rank s"
begin

lemma run_bound:
  "exec_all exec es s = Some t \<Longrightarrow> list_all internal es \<Longrightarrow> length es + rank t \<le> rank s"
proof (induction es arbitrary: s)
  case (Cons e es)
  then obtain u where u: "exec e s = Some u" "exec_all exec es u = Some t"
    by (auto split: option.splits)
  with Cons have "length es + rank t \<le> rank u" by simp
  with rank_step [OF u(1)] Cons.prems(2) show ?case by simp
qed simp

text \<open>When some internal event is possible unless the work is done, every run can be completed.\<close>

lemma run_completes:
  assumes inv: "\<And>u v e. I u \<Longrightarrow> exec e u = Some v \<Longrightarrow> internal e \<Longrightarrow> I v"
    and live: "\<And>u. I u \<Longrightarrow> \<not> done u \<Longrightarrow> \<exists>e v. internal e \<and> exec e u = Some v"
    and "I s"
  shows "\<exists>es t. list_all internal es \<and> exec_all exec es s = Some t \<and> done t \<and> I t"
  using \<open>I s\<close>
proof (induction "rank s" arbitrary: s rule: less_induct)
  case less
  show ?case
  proof (cases "done s")
    case True
    with less.prems have "list_all internal [] \<and> exec_all exec [] s = Some s \<and> done s \<and> I s" by simp
    then show ?thesis by blast
  next
    case False
    from live [OF less.prems this] obtain e v where e: "internal e" "exec e s = Some v" by blast
    from less.hyps [OF rank_step [OF e(2,1)] inv [OF less.prems e(2,1)]] obtain es t
      where "list_all internal es \<and> exec_all exec es v = Some t \<and> done t \<and> I t" by blast
    with e have "list_all internal (e # es) \<and> exec_all exec (e # es) s = Some t \<and> done t \<and> I t" by simp
    then show ?thesis by blast
  qed
qed

end

text \<open>What a list of tasks holds or has left, when one task of it moves.\<close>

lemma mset_concat_update:
  "i < length xs \<Longrightarrow>
   mset (concat (map f (xs[i := y]))) + mset (f (xs ! i)) = mset (concat (map f xs)) + mset (f y)"
proof (induction xs arbitrary: i)
  case (Cons x xs)
  then show ?case by (cases i) (auto simp: add_ac)
qed simp

lemma concat_update_same:
  "i < length xs \<Longrightarrow> f y = f (xs ! i) \<Longrightarrow> mset (concat (map f (xs[i := y]))) = mset (concat (map f xs))"
  using mset_concat_update [of i xs f y] by simp

lemma concat_update_drop:
  "i < length xs \<Longrightarrow> f (xs ! i) = a # f y \<Longrightarrow>
   mset (concat (map f xs)) = add_mset a (mset (concat (map f (xs[i := y]))))"
  using mset_concat_update [of i xs f y] by simp

lemma concat_update_add:
  "i < length xs \<Longrightarrow> f y = f (xs ! i) @ [a] \<Longrightarrow>
   mset (concat (map f (xs[i := y]))) = add_mset a (mset (concat (map f xs)))"
  using mset_concat_update [of i xs f y] by simp

lemma sum_list_update_left:
  fixes f :: "'b \<Rightarrow> nat"
  shows "i < length xs \<Longrightarrow> sum_list (map f (xs[i := y])) + f (xs ! i) = sum_list (map f xs) + f y"
proof (induction xs arbitrary: i)
  case (Cons x xs)
  then show ?case by (cases i) auto
qed simp

lemma sum_list_decrease:
  fixes f :: "'b \<Rightarrow> nat"
  shows "i < length xs \<Longrightarrow> f y < f (xs ! i) \<Longrightarrow> sum_list (map f (xs[i := y])) < sum_list (map f xs)"
  using sum_list_update_left [of i xs f y] by simp

end
