(* ===== verification/Host_Config.thy ===== *)
theory Host_Config
  imports Worker_Metadata Go_Utf8 Rpc_Proto
begin

text \<open>
  The host configuration the worker hands to the host: \<open>worker/host_configuration.go\<close> and
  \<open>worker/host_configuration_json.go\<close>.  Files, their errors and \<open>json.Compact\<close> are parameters; the
  decoding of UTF-8, UTF-16 and UTF-32, the removal of comments and trailing commas and the
  once-only snapshot are modelled.  Content is a list of bytes.
\<close>

definition max_host_configuration_bytes :: nat where
  "max_host_configuration_bytes = 65536"

datatype hc_failure =
    HC_Too_Large | HC_Invalid | HC_Json | HC_Root | HC_Parent | HC_Access | HC_Open | HC_Read

fun hc_reason :: "hc_failure \<Rightarrow> string" where
  "hc_reason HC_Too_Large = ''Oversized''"
| "hc_reason HC_Invalid = ''InvalidEncoding''"
| "hc_reason HC_Json = ''InvalidJson''"
| "hc_reason HC_Root = ''AppDirectoryNotSet''"
| "hc_reason HC_Parent = ''AppDirectoryNotFound''"
| "hc_reason HC_Access = ''AccessDenied''"
| "hc_reason HC_Open = ''OpenFailed''"
| "hc_reason HC_Read = ''ReadFailed''"

text \<open>The missing file, one of the failures above, or an error from the operating system.\<close>

datatype hc_error = HC_Missing_Error | HC_Failure hc_failure | HC_Other

subsection \<open>Decoding\<close>

text \<open>\<open>bufio.Reader.ReadRune\<close> on the bytes left: \<open>None\<close> is \<open>RuneError\<close> of size one.\<close>

definition read_rune :: "nat list \<Rightarrow> (nat \<times> nat list) option" where
  "read_rune s =
     (case s of
        [] \<Rightarrow> None
      | a # s1 \<Rightarrow>
          if a < 0x80 then Some (a, s1)
          else (case s1 of
            [] \<Rightarrow> None
          | b # s2 \<Rightarrow>
              if 0xC2 \<le> a \<and> a \<le> 0xDF
              then (if is_cont b then Some ((a - 0xC0) * 64 + (b - 0x80), s2) else None)
              else (case s2 of
                [] \<Rightarrow> None
              | c # s3 \<Rightarrow>
                  if 0xE0 \<le> a \<and> a \<le> 0xEF
                  then (if is_cont b \<and> is_cont c \<and> (a = 0xE0 \<longrightarrow> 0xA0 \<le> b) \<and> (a = 0xED \<longrightarrow> b \<le> 0x9F)
                        then Some ((a - 0xE0) * 4096 + (b - 0x80) * 64 + (c - 0x80), s3) else None)
                  else (case s3 of
                    [] \<Rightarrow> None
                  | d # s4 \<Rightarrow>
                      if 0xF0 \<le> a \<and> a \<le> 0xF4 \<and> is_cont b \<and> is_cont c \<and> is_cont d \<and>
                         (a = 0xF0 \<longrightarrow> 0x90 \<le> b) \<and> (a = 0xF4 \<longrightarrow> b \<le> 0x8F)
                      then Some ((a - 0xF0) * 262144 + (b - 0x80) * 4096 + (c - 0x80) * 64 + (d - 0x80), s4)
                      else None))))"

datatype scalar_read = Scalar nat "nat list" | At_End | Scalar_Error hc_error

text \<open>
  \<open>io.ReadFull\<close>; the source ends with \<open>EOF\<close> or, when \<open>fails\<close>, with a read error.
\<close>

datatype full_read = Full "nat list" "nat list" | Full_EOF | Full_Unexpected | Full_Error

definition read_full :: "bool \<Rightarrow> nat \<Rightarrow> nat list \<Rightarrow> full_read" where
  "read_full fails n s =
     (if n \<le> length s then Full (take n s) (drop n s)
      else if fails then Full_Error
      else if s = [] then Full_EOF else Full_Unexpected)"

definition uint16_at :: "bool \<Rightarrow> nat list \<Rightarrow> nat" where
  "uint16_at big u = (if big then u ! 0 * 256 + u ! 1 else u ! 1 * 256 + u ! 0)"

definition uint32_at :: "bool \<Rightarrow> nat list \<Rightarrow> nat" where
  "uint32_at big u =
     (if big then ((u ! 0 * 256 + u ! 1) * 256 + u ! 2) * 256 + u ! 3
      else ((u ! 3 * 256 + u ! 2) * 256 + u ! 1) * 256 + u ! 0)"

definition read_wide_scalar :: "bool \<Rightarrow> bool \<Rightarrow> nat \<Rightarrow> nat list \<Rightarrow> scalar_read" where
  "read_wide_scalar fails big width s =
     (case read_full fails width s of
        Full_EOF \<Rightarrow> At_End
      | Full_Unexpected \<Rightarrow> Scalar_Error (HC_Failure HC_Invalid)
      | Full_Error \<Rightarrow> Scalar_Error HC_Other
      | Full u s1 \<Rightarrow>
          if width = 4
          then (if scalar_value (uint32_at big u) then Scalar (uint32_at big u) s1
                else Scalar_Error (HC_Failure HC_Invalid))
          else (let first = uint16_at big u in
            if 0xDC00 \<le> first \<and> first \<le> 0xDFFF then Scalar_Error (HC_Failure HC_Invalid)
            else if first < 0xD800 \<or> 0xDBFF < first then Scalar first s1
            else (case read_full fails 2 s1 of
              Full_EOF \<Rightarrow> Scalar_Error (HC_Failure HC_Invalid)
            | Full_Unexpected \<Rightarrow> Scalar_Error (HC_Failure HC_Invalid)
            | Full_Error \<Rightarrow> Scalar_Error HC_Other
            | Full u2 s2 \<Rightarrow>
                (let second = uint16_at big u2 in
                 if second < 0xDC00 \<or> 0xDFFF < second then Scalar_Error (HC_Failure HC_Invalid)
                 else Scalar (0x10000 + (first - 0xD800) * 1024 + (second - 0xDC00)) s2))))"

definition read_scalar :: "bool \<Rightarrow> bool \<Rightarrow> nat \<Rightarrow> nat list \<Rightarrow> scalar_read" where
  "read_scalar fails big width s =
     (if width = 1
      then (if s = [] then (if fails then Scalar_Error HC_Other else At_End)
            else (case read_rune s of
              None \<Rightarrow> Scalar_Error (HC_Failure HC_Invalid)
            | Some (r, s') \<Rightarrow> Scalar r s'))
      else read_wide_scalar fails big width s)"

lemma read_rune_shorter: "read_rune s = Some (r, s') \<Longrightarrow> length s' < length s"
  by (auto simp: read_rune_def split: list.splits if_splits)

lemma read_wide_shorter: "0 < width \<Longrightarrow> read_wide_scalar fails big width s = Scalar r s' \<Longrightarrow> length s' < length s"
  by (auto simp: read_wide_scalar_def read_full_def Let_def split: full_read.splits if_splits)

lemma read_scalar_shorter: "0 < width \<Longrightarrow> read_scalar fails big width s = Scalar r s' \<Longrightarrow> length s' < length s"
  by (auto simp: read_scalar_def read_rune_shorter split: if_splits option.splits dest: read_wide_shorter)

text \<open>The loop, with the output so far.\<close>

function decode_loop :: "bool \<Rightarrow> bool \<Rightarrow> nat \<Rightarrow> nat list \<Rightarrow> nat list \<Rightarrow> hc_error + nat list" where
  "decode_loop fails big width content s =
     (if width = 0 then Inr content
      else case read_scalar fails big width s of
        At_End \<Rightarrow> Inr content
      | Scalar_Error e \<Rightarrow> Inl e
      | Scalar r s' \<Rightarrow>
          if max_host_configuration_bytes < length content + length (utf8_encode r)
          then Inl (HC_Failure HC_Too_Large)
          else decode_loop fails big width (content @ utf8_encode r) s')"
  by pat_completeness auto

termination
  by (relation "measure (\<lambda>(f, b, w, c, s). length s)") (auto dest: read_scalar_shorter)

declare decode_loop.simps [simp del]

text \<open>Width, byte order (\<open>True\<close>: big endian) and length of the byte order mark.\<close>

definition bom_of :: "nat list \<Rightarrow> nat \<times> bool \<times> nat" where
  "bom_of s =
     (if take 4 s = [0xFF, 0xFE, 0, 0] then (4, False, 4)
      else if take 4 s = [0, 0, 0xFE, 0xFF] then (4, True, 4)
      else if take 3 s = [0xEF, 0xBB, 0xBF] then (1, False, 3)
      else if take 2 s = [0xFF, 0xFE] then (2, False, 2)
      else if take 2 s = [0xFE, 0xFF] then (2, True, 2)
      else (1, False, 0))"

definition decode_host_configuration :: "bool \<Rightarrow> nat list \<Rightarrow> hc_error + nat list" where
  "decode_host_configuration fails s =
     (if fails \<and> length s < 4 then Inl HC_Other
      else case bom_of s of (width, big, skip) \<Rightarrow> decode_loop fails big width [] (drop skip s))"

subsection \<open>Normalising\<close>

abbreviation "ch_quote \<equiv> (34 :: nat)"
abbreviation "ch_backslash \<equiv> (92 :: nat)"
abbreviation "ch_slash \<equiv> (47 :: nat)"
abbreviation "ch_star \<equiv> (42 :: nat)"
abbreviation "ch_comma \<equiv> (44 :: nat)"
abbreviation "ch_colon \<equiv> (58 :: nat)"
abbreviation "ch_open_brace \<equiv> (123 :: nat)"
abbreviation "ch_close_brace \<equiv> (125 :: nat)"
abbreviation "ch_open_bracket \<equiv> (91 :: nat)"
abbreviation "ch_close_bracket \<equiv> (93 :: nat)"
abbreviation "ch_space \<equiv> (32 :: nat)"

definition json_space :: "nat \<Rightarrow> bool" where
  "json_space c \<longleftrightarrow> c = 32 \<or> c = 9 \<or> c = 13 \<or> c = 10"

text \<open>
  \<open>hostConfigurationStringEnd\<close> after the opening quote: the rest of the literal with its closing
  quote, and what follows.
\<close>

fun string_end :: "nat list \<Rightarrow> (nat list \<times> nat list) option" where
  "string_end [] = None"
| "string_end (c # s) =
     (if c = ch_backslash
      then (case s of [] \<Rightarrow> None
            | d # s' \<Rightarrow> (case string_end s' of None \<Rightarrow> None | Some (l, r) \<Rightarrow> Some (c # d # l, r)))
      else if c = ch_quote then Some ([c], s)
      else (case string_end s of None \<Rightarrow> None | Some (l, r) \<Rightarrow> Some (c # l, r)))"

text \<open>After \<open>//\<close>: up to the line's end, which stays; the separators U+2028 and U+2029 are refused.\<close>

fun line_end :: "nat list \<Rightarrow> nat list option" where
  "line_end [] = Some []"
| "line_end (c # s) =
     (if c = 13 \<or> c = 10 then Some (c # s)
      else if c = 0xE2 \<and> (take 2 s = [0x80, 0xA8] \<or> take 2 s = [0x80, 0xA9]) then None
      else line_end s)"

text \<open>After the opening of a block comment: what follows its end.\<close>

fun block_end :: "nat list \<Rightarrow> nat list option" where
  "block_end [] = None"
| "block_end (c # s) = (if c = ch_star \<and> s \<noteq> [] \<and> hd s = ch_slash then Some (tl s) else block_end s)"

lemma string_end_shorter: "string_end s = Some (l, r) \<Longrightarrow> s = l @ r \<and> l \<noteq> []"
  by (induction s arbitrary: l r rule: string_end.induct) (auto split: if_splits list.splits option.splits)

lemma line_end_shorter: "line_end s = Some r \<Longrightarrow> length r \<le> length s"
  by (induction s) (auto split: if_splits)

lemma block_end_shorter: "block_end s = Some r \<Longrightarrow> length r \<le> length s"
  by (induction s) (auto split: if_splits)

abbreviation json_error :: "hc_error + 'a" where
  "json_error \<equiv> Inl (HC_Failure HC_Json)"

definition prepend :: "nat list \<Rightarrow> hc_error + nat list \<Rightarrow> hc_error + nat list" where
  "prepend l r = map_sum id (append l) r"

function strip_comments :: "nat list \<Rightarrow> hc_error + nat list" where
  "strip_comments s =
     (case s of
        [] \<Rightarrow> Inr []
      | c # t \<Rightarrow>
          if c = ch_quote
          then (case string_end t of None \<Rightarrow> json_error | Some (l, r) \<Rightarrow> prepend (c # l) (strip_comments r))
          else if c = ch_slash \<and> t \<noteq> [] \<and> hd t = ch_slash
          then (case line_end (tl t) of None \<Rightarrow> json_error | Some r \<Rightarrow> prepend [ch_space] (strip_comments r))
          else if c = ch_slash \<and> t \<noteq> [] \<and> hd t = ch_star
          then (case block_end (tl t) of None \<Rightarrow> json_error | Some r \<Rightarrow> prepend [ch_space] (strip_comments r))
          else prepend [c] (strip_comments t))"
  by pat_completeness auto

termination
proof (relation "measure length", goal_cases)
  case (2 s c t p l r)
  then show ?case using string_end_shorter [of t l r] by auto
next
  case (3 s c t r)
  then show ?case using line_end_shorter [of "tl t" r] by (cases t) auto
next
  case (4 s c t r)
  then show ?case using block_end_shorter [of "tl t" r] by (cases t) auto
qed auto

declare strip_comments.simps [simp del]

text \<open>The second pass: nesting depth, and trailing commas blanked; \<open>prev\<close> is the last byte that is no space.\<close>

function drop_commas :: "nat \<Rightarrow> int \<Rightarrow> nat list \<Rightarrow> hc_error + nat list" where
  "drop_commas prev depth s =
     (case s of
        [] \<Rightarrow> Inr []
      | c # t \<Rightarrow>
          if c = ch_quote
          then (case string_end t of None \<Rightarrow> json_error
                | Some (l, r) \<Rightarrow> prepend (c # l) (drop_commas ch_quote depth r))
          else if c = ch_open_brace \<or> c = ch_open_bracket
          then (if 64 < depth + 1 then json_error else prepend [c] (drop_commas c (depth + 1) t))
          else if c = ch_close_brace \<or> c = ch_close_bracket
          then prepend [c] (drop_commas c (depth - 1) t)
          else if c = ch_comma
          then (let next = dropWhile json_space t in
                if next \<noteq> [] \<and> hd next \<in> {ch_close_brace, ch_close_bracket} \<and>
                   prev \<notin> {ch_open_bracket, ch_open_brace, ch_comma, ch_colon}
                then prepend [ch_space] (drop_commas prev depth t)
                else prepend [c] (drop_commas c depth t))
          else prepend [c] (drop_commas (if json_space c then prev else c) depth t))"
  by pat_completeness auto

termination
proof (relation "measure (\<lambda>(p, d, s). length s)", goal_cases)
  case (2 prev depth s c t p l r)
  then show ?case using string_end_shorter [of t l r] by auto
qed (auto simp: Let_def)

declare drop_commas.simps [simp del]

definition normalize_host_configuration ::
    "(nat list \<Rightarrow> nat list option) \<Rightarrow> nat list \<Rightarrow> hc_error + nat list" where
  "normalize_host_configuration compact content =
     (if max_host_configuration_bytes < length content then Inl (HC_Failure HC_Too_Large)
      else if content = [] then json_error
      else case strip_comments content of
        Inl e \<Rightarrow> Inl e
      | Inr stripped \<Rightarrow>
          (case drop_commas 0 0 stripped of
             Inl e \<Rightarrow> Inl e
           | Inr text \<Rightarrow>
               (case compact text of
                  None \<Rightarrow> json_error
                | Some out \<Rightarrow>
                    if max_host_configuration_bytes < length out then Inl (HC_Failure HC_Too_Large)
                    else if out = [] \<or> hd out \<noteq> ch_open_brace then json_error
                    else Inr out)))"

subsection \<open>Reading the file\<close>

text \<open>An error of the operating system, by what the tests of package \<open>os\<close> say about it.\<close>

record os_error =
  oe_not_exist :: bool
  oe_permission :: bool
  oe_not_dir :: bool

text \<open>A file that was opened: its bytes, whether reading ends in an error, whether closing does.\<close>

record host_file =
  hf_bytes :: "nat list"
  hf_read_fails :: bool
  hf_close_fails :: bool

definition open_failure :: "os_error \<Rightarrow> os_error + bool \<Rightarrow> hc_error" where
  "open_failure e stat =
     (let rest = HC_Failure (if oe_permission e then HC_Access else HC_Open) in
      if oe_not_exist e \<or> oe_not_dir e
      then (case stat of
          Inr True \<Rightarrow> if oe_not_exist e \<and> \<not> oe_not_dir e then HC_Missing_Error else HC_Failure HC_Open
        | Inr False \<Rightarrow> HC_Failure HC_Parent
        | Inl se \<Rightarrow>
            if oe_permission se then HC_Failure HC_Access
            else if oe_not_exist se \<or> oe_not_dir se then HC_Failure HC_Parent
            else rest)
      else rest)"

definition read_host_configuration ::
    "(nat list \<Rightarrow> nat list option) \<Rightarrow> string \<Rightarrow> os_error + host_file \<Rightarrow> os_error + bool \<Rightarrow> hc_error + nat list" where
  "read_host_configuration compact root opened stat =
     (if trim_space root = '''' then Inl (HC_Failure HC_Root)
      else case opened of
        Inl e \<Rightarrow> Inl (open_failure e stat)
      | Inr f \<Rightarrow>
          (let content = decode_host_configuration (hf_read_fails f) (hf_bytes f) in
           if hf_close_fails f then Inl (HC_Failure HC_Read)
           else case content of
             Inl e \<Rightarrow>
               Inl (if e = HC_Failure HC_Invalid \<or> e = HC_Failure HC_Too_Large then e else HC_Failure HC_Read)
           | Inr c \<Rightarrow> normalize_host_configuration compact c))"

subsection \<open>The snapshot\<close>

record hc_snapshot =
  hs_status :: host_config_status
  hs_content :: "nat list"
  hs_reason :: "hc_failure option"

definition capture :: "hc_error + nat list \<Rightarrow> hc_snapshot" where
  "capture r =
     (case r of
        Inr c \<Rightarrow> \<lparr>hs_status = HC_Available, hs_content = c, hs_reason = None\<rparr>
      | Inl HC_Missing_Error \<Rightarrow> \<lparr>hs_status = HC_Missing, hs_content = [], hs_reason = None\<rparr>
      | Inl (HC_Failure f) \<Rightarrow>
          \<lparr>hs_status = (if f = HC_Too_Large then HC_TooLarge else HC_Error), hs_content = [], hs_reason = Some f\<rparr>
      | Inl HC_Other \<Rightarrow> \<lparr>hs_status = HC_Error, hs_content = [], hs_reason = Some HC_Read\<rparr>)"

text \<open>
  The provider: the snapshot cell over the file system, and whether the warning was considered.
  A call returns the answer and the reason it warned about, if any.
\<close>

record 'w hc_provider =
  hp_snapshot :: "(hc_snapshot, 'w) once"
  hp_warned :: bool

definition provide_host_configuration ::
    "('w \<Rightarrow> (hc_error + nat list) \<times> 'w) \<Rightarrow> worker_init_request \<Rightarrow> 'w hc_provider \<Rightarrow>
     host_configuration option \<times> hc_failure option \<times> 'w hc_provider" where
  "provide_host_configuration read req p =
     (if map_of (wir_capabilities req) ''HostConfiguration'' \<noteq> Some ''1'' then (None, None, p)
      else (case force_once (\<lambda>w. case read w of (r, w') \<Rightarrow> (capture r, w')) (hp_snapshot p) of
        (snap, cell) \<Rightarrow>
          (Some \<lparr>hc_status = hs_status snap,
             hc_content = (if hs_status snap = HC_Available then map char_of (hs_content snap) else '''')\<rparr>,
           (if hp_warned p then None else hs_reason snap),
           \<lparr>hp_snapshot = cell, hp_warned = True\<rparr>)))"

subsection \<open>Lemmas\<close>

text \<open>Scalars: what is read is a scalar value, and an encoded scalar is read back.\<close>

lemma is_cont_sextet: "is_cont b \<Longrightarrow> \<exists>y < 64. b = 128 + y"
  by (rule exI [of _ "b - 128"]) (auto simp: is_cont_def)

lemma rune_two: "194 \<le> a \<Longrightarrow> a \<le> 223 \<Longrightarrow> is_cont b \<Longrightarrow> scalar_value ((a - 192) * 64 + (b - 128))"
  using is_cont_sextet [of b] by (auto simp: scalar_value_def)

lemma rune_three:
  assumes "224 \<le> a" "a \<le> 239" "is_cont b" "is_cont c" "a = 237 \<longrightarrow> b \<le> 159"
  shows "scalar_value ((a - 224) * 4096 + (b - 128) * 64 + (c - 128))"
proof -
  obtain y z where yz: "b = 128 + y" "y < 64" "c = 128 + z" "z < 64"
    using assms(3,4) is_cont_sextet by blast
  obtain x where x: "a = 224 + x" "x < 16" using assms(1,2) le_Suc_ex [of 224 a] by auto
  with assms yz have "(a - 224) * 4096 + (b - 128) * 64 + (c - 128) = x * 4096 + y * 64 + z" "x = 13 \<Longrightarrow> y < 32"
    by auto
  with x yz show ?thesis by (cases "x < 13"; cases "x = 13") (auto simp: scalar_value_def)
qed

lemma rune_four:
  assumes "240 \<le> a" "a \<le> 244" "is_cont b" "is_cont c" "is_cont d" "a = 240 \<longrightarrow> 144 \<le> b" "a = 244 \<longrightarrow> b \<le> 143"
  shows "scalar_value ((a - 240) * 262144 + (b - 128) * 4096 + (c - 128) * 64 + (d - 128))"
proof -
  obtain x y z where yz: "b = 128 + x" "x < 64" "c = 128 + y" "y < 64" "d = 128 + z" "z < 64"
    using is_cont_sextet [OF assms(3)] is_cont_sextet [OF assms(4)] is_cont_sextet [OF assms(5)] by auto
  obtain w where w: "a = 240 + w" "w < 5" using assms(1,2) le_Suc_ex [of 240 a] by auto
  define r where "r = w * 262144 + x * 4096 + y * 64 + z"
  from w yz have q: "(a - 240) * 262144 + (b - 128) * 4096 + (c - 128) * 64 + (d - 128) = r" by (simp add: r_def)
  from assms(6,7) w yz have e: "w = 4 \<Longrightarrow> x < 16" "w = 0 \<Longrightarrow> 16 \<le> x" by auto
  from e(2) have "0x10000 \<le> r" by (cases "w = 0") (auto simp: r_def)
  moreover have "r < 0x110000" using w e(1) yz by (cases "w = 4") (auto simp: r_def)
  ultimately show ?thesis unfolding q by (simp add: scalar_value_def)
qed

lemma read_rune_scalar:
  assumes "read_rune s = Some (r, s')"
  shows "scalar_value r"
proof -
  from assms obtain a s1 where s: "s = a # s1" by (cases s) (auto simp: read_rune_def)
  show ?thesis
  proof (cases "a < 128")
    case True
    with assms s show ?thesis by (auto simp: read_rune_def scalar_value_def)
  next
    case a: False
    with assms s obtain b s2 where s1: "s1 = b # s2" by (cases s1) (auto simp: read_rune_def)
    show ?thesis
    proof (cases "194 \<le> a \<and> a \<le> 223")
      case True
      with assms s s1 a rune_two [of a b] show ?thesis by (auto simp: read_rune_def split: if_splits)
    next
      case b: False
      with assms s s1 a obtain c s3 where s2: "s2 = c # s3" by (cases s2) (auto simp: read_rune_def)
      show ?thesis
      proof (cases "224 \<le> a \<and> a \<le> 239")
        case True
        with assms s s1 s2 a b rune_three [of a b c] show ?thesis by (simp add: read_rune_def split: if_splits)
      next
        case False
        with assms s s1 s2 a b obtain d s4 where "s3 = d # s4" by (cases s3) (auto simp: read_rune_def)
        with assms s s1 s2 a b False rune_four [of a b c d] show ?thesis by (simp add: read_rune_def split: if_splits)
      qed
    qed
  qed
qed

lemma uint16_less: "list_all (\<lambda>b. b < 256) u \<Longrightarrow> length u = 2 \<Longrightarrow> uint16_at big u < 0x10000"
  by (cases u; cases "tl u") (auto simp: uint16_at_def)

lemma read_wide_scalar_value:
  assumes "read_wide_scalar fails big width s = Scalar r s'" and "list_all (\<lambda>b. b < 256) s" and "width = 2 \<or> width = 4"
  shows "scalar_value r \<and> list_all (\<lambda>b. b < 256) s'"
proof -
  from assms(1) obtain u s1 where u: "read_full fails width s = Full u s1"
    by (auto simp: read_wide_scalar_def split: full_read.splits)
  then have s: "width \<le> length s" "u = take width s" "s1 = drop width s"
    by (auto simp: read_full_def split: if_splits)
  then have b: "list_all (\<lambda>b. b < 256) u" "list_all (\<lambda>b. b < 256) s1"
    using assms(2) by (auto simp: list_all_iff dest: in_set_takeD in_set_dropD)
  show ?thesis
  proof (cases "width = 4")
    case True
    with assms(1) u b show ?thesis by (auto simp: read_wide_scalar_def split: if_splits)
  next
    case False
    with assms(3) have w: "width = 2" by simp
    then have f: "uint16_at big u < 0x10000" using uint16_less [OF b(1)] s by simp
    show ?thesis
    proof (cases "0xD800 \<le> uint16_at big u \<and> uint16_at big u \<le> 0xDBFF")
      case True
      with assms(1) u w obtain u2 where
        "s' = drop 2 s1" "r = 0x10000 + (uint16_at big u - 0xD800) * 1024 + (uint16_at big u2 - 0xDC00)"
        "0xDC00 \<le> uint16_at big u2" "uint16_at big u2 \<le> 0xDFFF"
        by (auto simp: read_wide_scalar_def Let_def read_full_def [of fails 2 s1] split: full_read.splits if_splits)
      with True b(2) show ?thesis by (auto simp: scalar_value_def list_all_iff dest: in_set_dropD)
    next
      case False
      with assms(1) u w f b(2) show ?thesis
        by (auto simp: read_wide_scalar_def Let_def scalar_value_def split: if_splits)
    qed
  qed
qed

lemma read_scalar_value:
  assumes "read_scalar fails big width s = Scalar r s'" and "list_all (\<lambda>b. b < 256) s" and "width \<in> {1, 2, 4}"
  shows "scalar_value r \<and> list_all (\<lambda>b. b < 256) s'"
proof (cases "width = 1")
  case True
  with assms(1) have r: "read_rune s = Some (r, s')" by (auto simp: read_scalar_def split: if_splits option.splits)
  then have "list_all (\<lambda>b. b < 256) s'"
    using assms(2) by (auto simp: read_rune_def split: list.splits if_splits)
  with read_rune_scalar [OF r] show ?thesis by simp
next
  case False
  with assms read_wide_scalar_value show ?thesis by (auto simp: read_scalar_def)
qed

lemma read_rune_encode:
  assumes "scalar_value r"
  shows "read_rune (utf8_encode r @ s) = Some (r, s)"
proof -
  consider "r < 0x80" | "0x80 \<le> r" "r < 0x800" | "0x800 \<le> r" "r < 0x10000" | "0x10000 \<le> r" "r < 0x110000"
    using assms by (fastforce simp: scalar_value_def)
  then show ?thesis
  proof cases
    case 1
    then show ?thesis by (simp add: utf8_encode_def read_rune_def)
  next
    case 2
    then have b: "2 \<le> r div 64" "r div 64 < 32" "r mod 64 < 64" by auto
    have e: "utf8_encode r = [192 + r div 64, 128 + r mod 64]" using 2 by (simp add: utf8_encode_def)
    from b show ?thesis
      unfolding e using sextets(1) [of r] by (simp add: read_rune_def is_cont_def del: div_mult_mod_eq mult_div_mod_eq)
  next
    case 3
    then have b: "r div 4096 < 16" "r div 64 mod 64 < 64" "r mod 64 < 64" by auto
    have e: "r div 4096 = 0 \<Longrightarrow> 32 \<le> r div 64 mod 64" "r div 4096 = 13 \<Longrightarrow> r div 64 mod 64 < 32"
      using 3 assms sextets(2) [of r] b by (auto simp: scalar_value_def)
    have u: "utf8_encode r = [224 + r div 4096, 128 + r div 64 mod 64, 128 + r mod 64]"
      using 3 by (simp add: utf8_encode_def)
    have "read_rune ([224 + x, 128 + y, 128 + z] @ s) = Some (x * 4096 + y * 64 + z, s)"
      if "x < 16" "y < 64" "z < 64" "x = 0 \<Longrightarrow> 32 \<le> y" "x = 13 \<Longrightarrow> y < 32" for x y z
      using that by (fastforce simp: read_rune_def is_cont_def)
    from this [OF b e] show ?thesis unfolding u by (simp only: sextets(2) [of r, symmetric])
  next
    case 4
    then have b: "r div 262144 < 5" "r div 4096 mod 64 < 64" "r div 64 mod 64 < 64" "r mod 64 < 64" by auto
    have e: "r div 262144 = 0 \<Longrightarrow> 16 \<le> r div 4096 mod 64" "r div 262144 = 4 \<Longrightarrow> r div 4096 mod 64 < 16"
      using 4 sextets(3) [of r] b by auto
    have u: "utf8_encode r = [240 + r div 262144, 128 + r div 4096 mod 64, 128 + r div 64 mod 64, 128 + r mod 64]"
      using 4 by (simp add: utf8_encode_def)
    have "read_rune ([240 + w, 128 + x, 128 + y, 128 + z] @ s) = Some (w * 262144 + x * 4096 + y * 64 + z, s)"
      if "w < 5" "x < 64" "y < 64" "z < 64" "w = 0 \<Longrightarrow> 16 \<le> x" "w = 4 \<Longrightarrow> x < 16" for w x y z
      using that by (fastforce simp: read_rune_def is_cont_def)
    from this [OF b e] show ?thesis unfolding u by (simp only: sextets(3) [of r, symmetric])
  qed
qed

lemma utf8_encode_nonempty [simp]: "utf8_encode r \<noteq> []"
  by (simp add: utf8_encode_def)

lemma utf8_encode_bytes: "scalar_value r \<Longrightarrow> list_all (\<lambda>b. b < 0xF5) (utf8_encode r)"
  by (auto simp: utf8_encode_def scalar_value_def div_less_iff_less_mult)

text \<open>The encodings a host configuration file can have.\<close>

datatype hc_encoding = Plain_UTF8 | Marked_UTF8 | UTF16 bool | UTF32 bool

definition bytes16 :: "bool \<Rightarrow> nat \<Rightarrow> nat list" where
  "bytes16 big u = (if big then [u div 256, u mod 256] else [u mod 256, u div 256])"

definition utf16_encode :: "bool \<Rightarrow> nat \<Rightarrow> nat list" where
  "utf16_encode big r =
     (if r < 0x10000 then bytes16 big r
      else bytes16 big (0xD800 + (r - 0x10000) div 1024) @ bytes16 big (0xDC00 + (r - 0x10000) mod 1024))"

definition utf32_encode :: "bool \<Rightarrow> nat \<Rightarrow> nat list" where
  "utf32_encode big r =
     (let bs = [0, r div 65536, r div 256 mod 256, r mod 256] in if big then bs else rev bs)"

fun scalar_bytes :: "hc_encoding \<Rightarrow> nat \<Rightarrow> nat list" where
  "scalar_bytes Plain_UTF8 r = utf8_encode r"
| "scalar_bytes Marked_UTF8 r = utf8_encode r"
| "scalar_bytes (UTF16 big) r = utf16_encode big r"
| "scalar_bytes (UTF32 big) r = utf32_encode big r"

fun mark_bytes :: "hc_encoding \<Rightarrow> nat list" where
  "mark_bytes Plain_UTF8 = []"
| "mark_bytes Marked_UTF8 = [0xEF, 0xBB, 0xBF]"
| "mark_bytes (UTF16 big) = bytes16 big 0xFEFF"
| "mark_bytes (UTF32 big) = utf32_encode big 0xFEFF"

fun encoding_width :: "hc_encoding \<Rightarrow> nat" where
  "encoding_width (UTF16 big) = 2"
| "encoding_width (UTF32 big) = 4"
| "encoding_width e = 1"

fun encoding_big :: "hc_encoding \<Rightarrow> bool" where
  "encoding_big (UTF16 big) = big"
| "encoding_big (UTF32 big) = big"
| "encoding_big e = False"

definition encode_file :: "hc_encoding \<Rightarrow> nat list \<Rightarrow> nat list" where
  "encode_file e rs = mark_bytes e @ concat (map (scalar_bytes e) rs)"

lemma uint16_bytes16: "u < 0x10000 \<Longrightarrow> uint16_at big (bytes16 big u) = u"
  by (auto simp: uint16_at_def bytes16_def div_mult_mod_eq)

lemma read_full_append: "length u = n \<Longrightarrow> read_full fails n (u @ s) = Full u s"
  by (simp add: read_full_def)

lemma length_bytes16 [simp]: "length (bytes16 big u) = 2"
  by (simp add: bytes16_def)

lemma read_wide_utf16:
  assumes "scalar_value r"
  shows "read_wide_scalar fails big 2 (utf16_encode big r @ s) = Scalar r s"
proof (cases "r < 0x10000")
  case True
  with assms show ?thesis
    by (auto simp: utf16_encode_def read_wide_scalar_def read_full_append uint16_bytes16 Let_def scalar_value_def)
next
  case False
  let ?h = "0xD800 + (r - 0x10000) div 1024" and ?l = "0xDC00 + (r - 0x10000) mod 1024"
  from False assms have h: "?h \<le> 0xDBFF" and l: "?l \<le> 0xDFFF" by (auto simp: scalar_value_def)
  have "0x10000 + (?h - 0xD800) * 1024 + (?l - 0xDC00) = r" using False by simp
  with False h l show ?thesis
    by (simp add: utf16_encode_def read_wide_scalar_def read_full_append uint16_bytes16 Let_def)
qed

lemma uint32_utf32: "r < 0x110000 \<Longrightarrow> uint32_at big (utf32_encode big r) = r"
proof -
  have "(r div 65536 * 256 + r div 256 mod 256) * 256 + r mod 256 = r"
  proof -
    have "r div 65536 = r div 256 div 256" by (simp add: div_mult2_eq [symmetric])
    then have "r div 65536 * 256 + r div 256 mod 256 = r div 256" by simp
    then show ?thesis by simp
  qed
  then show ?thesis by (cases big) (simp_all add: uint32_at_def utf32_encode_def Let_def)
qed

lemma read_wide_utf32:
  assumes "scalar_value r"
  shows "read_wide_scalar fails big 4 (utf32_encode big r @ s) = Scalar r s"
proof -
  have "read_full fails 4 (utf32_encode big r @ s) = Full (utf32_encode big r) s"
    by (rule read_full_append) (simp add: utf32_encode_def Let_def)
  moreover have "uint32_at big (utf32_encode big r) = r"
    by (rule uint32_utf32) (use assms in \<open>auto simp: scalar_value_def\<close>)
  ultimately show ?thesis using assms by (simp add: read_wide_scalar_def)
qed

lemma read_scalar_encoded:
  assumes "scalar_value r"
  shows "read_scalar fails (encoding_big e) (encoding_width e) (scalar_bytes e r @ s) = Scalar r s"
  using assms by (cases e) (simp_all add: read_scalar_def read_rune_encode read_wide_utf16 read_wide_utf32)

lemma encoding_width_pos [simp]: "encoding_width e \<noteq> 0"
  by (cases e) simp_all

lemma read_scalar_end: "read_scalar False (encoding_big e) (encoding_width e) [] = At_End"
  by (cases e) (simp_all add: read_scalar_def read_wide_scalar_def read_full_def)

lemma decode_loop_encoded:
  assumes "list_all scalar_value rs" and "length c + length (utf8_encode_all rs) \<le> max_host_configuration_bytes"
  shows "decode_loop False (encoding_big e) (encoding_width e) c (concat (map (scalar_bytes e) rs)) =
    Inr (c @ utf8_encode_all rs)"
  using assms
proof (induction rs arbitrary: c)
  case Nil
  then show ?case
    using read_scalar_end [of e] by (simp add: decode_loop.simps utf8_encode_all_def)
next
  case (Cons r rs)
  from Cons.prems have "length (c @ utf8_encode r) + length (utf8_encode_all rs) \<le> max_host_configuration_bytes"
    by (simp add: utf8_encode_all_def)
  with Cons show ?case
    by (subst decode_loop.simps) (simp add: read_scalar_encoded utf8_encode_all_def)
qed

lemma bom_of_unmarked:
  assumes "\<forall>b \<in> set s. b < 0xF5" and "take 3 s \<noteq> [0xEF, 0xBB, 0xBF]"
  shows "bom_of s = (1, False, 0)"
proof -
  have no: "take n s \<noteq> u" if "b \<in> set u" "0xF5 \<le> b" for n u b
    using assms(1) that by (metis in_set_takeD leD)
  have "take 4 s \<noteq> [0xFF, 0xFE, 0, 0]" "take 4 s \<noteq> [0, 0, 0xFE, 0xFF]" "take 2 s \<noteq> [0xFF, 0xFE]" "take 2 s \<noteq> [0xFE, 0xFF]"
    by (rule no [of "0xFF"]; simp)+
  with assms(2) show ?thesis by (simp add: bom_of_def)
qed

lemma bom_of_file:
  assumes "list_all scalar_value rs"
    and "e = Plain_UTF8 \<Longrightarrow> rs = [] \<or> hd rs \<noteq> 0xFEFF" and "e = UTF16 False \<Longrightarrow> rs = [] \<or> hd rs \<noteq> 0"
  shows "bom_of (encode_file e rs) = (encoding_width e, encoding_big e, length (mark_bytes e))"
proof (cases e)
  case Plain_UTF8
  show ?thesis
  proof (cases rs)
    case (Cons r rs')
    let ?s = "utf8_encode r @ concat (map utf8_encode rs')"
    have small: "\<forall>b \<in> set ?s. b < 0xF5"
      using assms(1) Cons utf8_encode_bytes by (fastforce simp: list_all_iff)
    have "take 3 ?s \<noteq> [0xEF, 0xBB, 0xBF]"
    proof
      assume "take 3 ?s = [0xEF, 0xBB, 0xBF]"
      then have "?s = [0xEF, 0xBB, 0xBF] @ drop 3 ?s" by (metis append_take_drop_id)
      moreover have "read_rune ([0xEF, 0xBB, 0xBF] @ drop 3 ?s) = Some (0xFEFF, drop 3 ?s)"
        by (simp add: read_rune_def is_cont_def)
      moreover have "read_rune ?s = Some (r, concat (map utf8_encode rs'))"
        using assms(1) Cons by (simp add: read_rune_encode)
      ultimately have "r = 0xFEFF" by (metis option.inject prod.inject)
      with assms(2) Plain_UTF8 Cons show False by simp
    qed
    moreover have "encode_file e rs = ?s"
      by (simp add: encode_file_def Plain_UTF8 Cons scalar_bytes.simps(1) [abs_def])
    ultimately show ?thesis using bom_of_unmarked [OF small] Plain_UTF8 by simp
  qed (simp add: Plain_UTF8 encode_file_def bom_of_def)
next
  case Marked_UTF8
  then show ?thesis by (simp add: encode_file_def bom_of_def)
next
  case (UTF16 big)
  show ?thesis
  proof (cases big)
    case True
    with UTF16 show ?thesis by (simp add: encode_file_def bom_of_def bytes16_def)
  next
    case False
    show ?thesis
    proof (cases rs)
      case (Cons r rs')
      have "take 2 (utf16_encode False r @ x) \<noteq> [0, 0]" for x
      proof (cases "r < 0x10000")
        case True
        from assms(3) UTF16 False Cons have "r \<noteq> 0" by simp
        then have "\<not> (r mod 256 = 0 \<and> r div 256 = 0)" using div_mult_mod_eq [of r 256] by auto
        with True show ?thesis by (auto simp: utf16_encode_def bytes16_def)
      next
        case big: False
        have "(0xD800 + (r - 0x10000) div 1024) div 256 \<noteq> 0" by (simp add: div_eq_0_iff)
        with big show ?thesis by (simp add: utf16_encode_def bytes16_def)
      qed
      with UTF16 False Cons show ?thesis
        by (simp add: encode_file_def bom_of_def bytes16_def)
    qed (simp add: UTF16 False encode_file_def bom_of_def bytes16_def)
  qed
next
  case (UTF32 big)
  then show ?thesis by (cases big) (simp_all add: encode_file_def bom_of_def utf32_encode_def)
qed

lemma decode_loop_output:
  assumes "decode_loop fails big width c s = Inr out" and "width \<in> {1, 2, 4}" and "list_all (\<lambda>b. b < 256) s"
    and "length c \<le> max_host_configuration_bytes"
  shows "length out \<le> max_host_configuration_bytes \<and> (\<exists>rs. list_all scalar_value rs \<and> out = c @ utf8_encode_all rs)"
  using assms
proof (induction fails big width c s rule: decode_loop.induct)
  case (1 fails big width c s)
  have w: "width \<noteq> 0" using 1(3) by auto
  show ?case
  proof (cases "read_scalar fails big width s")
    case (Scalar r s')
    from read_scalar_value [OF Scalar 1(4,3)] have r: "scalar_value r" "list_all (\<lambda>b. b < 256) s'" by auto
    from 1(2) w Scalar have len: "length c + length (utf8_encode r) \<le> max_host_configuration_bytes"
      and d: "decode_loop fails big width (c @ utf8_encode r) s' = Inr out"
      by (auto simp: decode_loop.simps [of fails big width c s] split: if_splits)
    from 1(1) [OF w Scalar _ d 1(3) r(2)] len obtain rs where
      "length out \<le> max_host_configuration_bytes" "list_all scalar_value rs" "out = (c @ utf8_encode r) @ utf8_encode_all rs"
      by auto
    with r(1) show ?thesis by (intro conjI exI [of _ "r # rs"]) (simp_all add: utf8_encode_all_def)
  next
    case At_End
    with 1(2,5) w have "out = c" by (simp add: decode_loop.simps [of fails big width c s])
    with 1(5) show ?thesis by (intro conjI exI [of _ "[]"]) (simp_all add: utf8_encode_all_def)
  next
    case (Scalar_Error e)
    with 1(2) w show ?thesis by (simp add: decode_loop.simps [of fails big width c s])
  qed
qed

text \<open>The two passes over the text: what they leave is left alone by both.\<close>

lemma prepend_Inr_iff [simp]: "prepend l x = Inr y \<longleftrightarrow> (\<exists>z. x = Inr z \<and> y = l @ z)"
  by (cases x) (auto simp: prepend_def)

lemma prepend_Inr [simp]: "prepend l (Inr z) = Inr (l @ z)"
  by (simp add: prepend_def)

lemma string_end_append: "string_end s = Some (l, r) \<Longrightarrow> string_end (l @ r') = Some (l, r')"
  by (induction s arbitrary: l rule: string_end.induct) (auto split: if_splits list.splits option.splits)

definition comment_start :: "nat \<Rightarrow> nat list \<Rightarrow> bool" where
  "comment_start c t \<longleftrightarrow> c = ch_slash \<and> t \<noteq> [] \<and> hd t \<in> {ch_slash, ch_star}"

lemma strip_simps [simp]:
  "strip_comments [] = Inr []"
  "strip_comments (ch_quote # t) =
     (case string_end t of None \<Rightarrow> json_error | Some (l, r) \<Rightarrow> prepend (ch_quote # l) (strip_comments r))"
  "c \<noteq> ch_quote \<Longrightarrow> \<not> comment_start c t \<Longrightarrow> strip_comments (c # t) = prepend [c] (strip_comments t)"
  by (auto simp: strip_comments.simps comment_start_def)

lemma strip_comments_Cons:
  "strip_comments (c # t) =
     (if c = ch_quote
      then (case string_end t of None \<Rightarrow> json_error | Some (l, r) \<Rightarrow> prepend (c # l) (strip_comments r))
      else if c = ch_slash \<and> t \<noteq> [] \<and> hd t = ch_slash
      then (case line_end (tl t) of None \<Rightarrow> json_error | Some r \<Rightarrow> prepend [ch_space] (strip_comments r))
      else if c = ch_slash \<and> t \<noteq> [] \<and> hd t = ch_star
      then (case block_end (tl t) of None \<Rightarrow> json_error | Some r \<Rightarrow> prepend [ch_space] (strip_comments r))
      else prepend [c] (strip_comments t))"
  by (subst strip_comments.simps) simp

lemma drop_commas_Cons:
  "drop_commas prev depth (c # t) =
     (if c = ch_quote
      then (case string_end t of None \<Rightarrow> json_error
            | Some (l, r) \<Rightarrow> prepend (c # l) (drop_commas ch_quote depth r))
      else if c = ch_open_brace \<or> c = ch_open_bracket
      then (if 64 < depth + 1 then json_error else prepend [c] (drop_commas c (depth + 1) t))
      else if c = ch_close_brace \<or> c = ch_close_bracket
      then prepend [c] (drop_commas c (depth - 1) t)
      else if c = ch_comma
      then (let next = dropWhile json_space t in
            if next \<noteq> [] \<and> hd next \<in> {ch_close_brace, ch_close_bracket} \<and>
               prev \<notin> {ch_open_bracket, ch_open_brace, ch_comma, ch_colon}
            then prepend [ch_space] (drop_commas prev depth t)
            else prepend [c] (drop_commas c depth t))
      else prepend [c] (drop_commas (if json_space c then prev else c) depth t))"
  by (subst drop_commas.simps) simp

lemma strip_comment:
  assumes "comment_start c t" and "strip_comments (c # t) = Inr u"
  shows "\<exists>r v. length r < length (c # t) \<and> strip_comments r = Inr v \<and> u = ch_space # v"
proof -
  from assms(1) have c: "c = ch_slash" "t \<noteq> []" by (auto simp: comment_start_def)
  show ?thesis
  proof (cases "hd t = ch_slash")
    case True
    with assms c obtain r where "line_end (tl t) = Some r" "prepend [ch_space] (strip_comments r) = Inr u"
      by (auto simp: strip_comments_Cons simp del: strip_simps split: option.splits)
    moreover have "length r < length (c # t)"
      using line_end_shorter [OF calculation(1)] c by (cases t) auto
    ultimately show ?thesis by auto
  next
    case False
    with assms c obtain r where "block_end (tl t) = Some r" "prepend [ch_space] (strip_comments r) = Inr u"
      by (auto simp: strip_comments_Cons comment_start_def simp del: strip_simps split: option.splits)
    moreover have "length r < length (c # t)"
      using block_end_shorter [OF calculation(1)] c by (cases t) auto
    ultimately show ?thesis by auto
  qed
qed

lemma strip_hd:
  assumes "strip_comments s = Inr t" and "t \<noteq> []" and "hd t \<in> {ch_slash, ch_star}"
  shows "s \<noteq> [] \<and> hd s = hd t"
proof (cases s)
  case (Cons c s')
  show ?thesis
  proof (cases "comment_start c s'")
    case True
    with strip_comment [OF True] assms Cons show ?thesis by auto
  next
    case False
    with assms Cons show ?thesis by (cases "c = ch_quote") (auto split: option.splits prod.splits)
  qed
qed (use assms in simp)

lemma strip_idem: "strip_comments s = Inr t \<Longrightarrow> strip_comments t = Inr t \<and> length t \<le> length s"
proof (induction "length s" arbitrary: s t rule: less_induct)
  case less
  show ?case
  proof (cases s)
    case Nil
    with less.prems show ?thesis by simp
  next
    case (Cons c s')
    consider (quote) "c = ch_quote" | (comment) "comment_start c s'" | (other) "c \<noteq> ch_quote" "\<not> comment_start c s'"
      by blast
    then show ?thesis
    proof cases
      case quote
      with less.prems Cons obtain l r v where e: "string_end s' = Some (l, r)" "strip_comments r = Inr v"
        "t = ch_quote # l @ v"
        by (auto split: option.splits)
      from string_end_shorter [OF e(1)] have "length r < length s" using Cons by simp
      from less.hyps [OF this e(2)] string_end_append [OF e(1)] string_end_shorter [OF e(1)] e(3) Cons show ?thesis
        by simp
    next
      case comment
      with strip_comment [OF comment] less.prems Cons obtain r v where
        "length r < length s" "strip_comments r = Inr v" "t = ch_space # v"
        by auto
      with less.hyps [OF this(1,2)] show ?thesis by (simp add: comment_start_def)
    next
      case other
      with less.prems Cons obtain v where v: "strip_comments s' = Inr v" "t = c # v" by auto
      with less.hyps [of s' v] Cons have ih: "strip_comments v = Inr v" "length v \<le> length s'" by auto
      have "\<not> comment_start c v" using strip_hd [OF v(1)] other(2) by (auto simp: comment_start_def)
      with ih v(2) other(1) Cons show ?thesis by simp
    qed
  qed
qed

lemma drop_commas_Nil [simp]: "drop_commas p d [] = Inr []"
  by (simp add: drop_commas.simps)

lemma drop_commas_hd:
  assumes "drop_commas p d s = Inr t" and "t \<noteq> []" and "hd t \<in> {ch_slash, ch_star}"
  shows "s \<noteq> [] \<and> hd s = hd t"
  using assms
  by (cases s) (auto simp: drop_commas_Cons Let_def split: if_splits option.splits prod.splits)

lemma drop_commas_clean:
  assumes "drop_commas p d s = Inr t" and "strip_comments s = Inr s"
  shows "strip_comments t = Inr t \<and> length t = length s"
  using assms
proof (induction p d s arbitrary: t rule: drop_commas.induct)
  case (1 p d s)
  show ?case
  proof (cases s)
    case Nil
    with 1(7) show ?thesis by simp
  next
    case (Cons c s')
    show ?thesis
    proof (cases "c = ch_quote")
      case True
      with 1(7,8) Cons obtain l r v where e: "string_end s' = Some (l, r)" "drop_commas ch_quote d r = Inr v"
        "t = ch_quote # l @ v" "strip_comments r = Inr r"
        using string_end_shorter [of s']
        by (auto simp: drop_commas_Cons split: option.splits)
      from 1(1) [OF Cons True e(1) refl e(2,4)] string_end_append [OF e(1)] string_end_shorter [OF e(1)] e(3) Cons True
      show ?thesis by simp
    next
      case False
      have nc: "\<not> comment_start c s'"
        using strip_comment [of c s' "c # s'"] 1(8) Cons strip_idem by (auto simp: comment_start_def)
      with 1(8) Cons False have s': "strip_comments s' = Inr s'" by auto
      have step: "strip_comments (c' # v) = Inr (c' # v)"
        if "drop_commas p' d' s' = Inr v" "strip_comments v = Inr v" "c' = c \<or> c' = ch_space" for c' v p' d'
      proof -
        have "\<not> comment_start c' v" using drop_commas_hd [OF that(1)] nc that(3) by (auto simp: comment_start_def)
        with that(2,3) False show ?thesis by auto
      qed
      show ?thesis
        using 1(7) False Cons 1(2-6) [OF Cons False] s' step
        by (auto simp: drop_commas_Cons Let_def split: if_splits)
    qed
  qed
qed

lemma drop_commas_next:
  assumes "drop_commas ch_comma d s = Inr t"
  shows "(dropWhile json_space t = [] \<longleftrightarrow> dropWhile json_space s = []) \<and>
    (dropWhile json_space s \<noteq> [] \<longrightarrow> hd (dropWhile json_space t) = hd (dropWhile json_space s))"
  using assms
proof (induction s arbitrary: t)
  case (Cons c s)
  show ?case
  proof (cases "json_space c")
    case True
    then have "c \<notin> {ch_quote, ch_open_brace, ch_open_bracket, ch_close_brace, ch_close_bracket, ch_comma}"
      by (auto simp: json_space_def)
    with Cons True show ?thesis by (auto simp: drop_commas_Cons)
  next
    case False
    then show ?thesis
      using Cons.prems by (auto simp: drop_commas_Cons Let_def split: if_splits option.splits prod.splits)
  qed
qed simp

lemma drop_commas_idem:
  assumes "drop_commas p d s = Inr t"
  shows "drop_commas p d t = Inr t"
  using assms
proof (induction p d s arbitrary: t rule: drop_commas.induct)
  case (1 p d s)
  show ?case
  proof (cases s)
    case (Cons c s')
    note ih = 1(1-6) [OF Cons]
    consider (quote) "c = ch_quote" | (comma) "c = ch_comma" | (other) "c \<noteq> ch_quote" "c \<noteq> ch_comma" by blast
    then show ?thesis
    proof cases
      case quote
      with 1(7) Cons obtain l r v where e: "string_end s' = Some (l, r)" "drop_commas ch_quote d r = Inr v"
        "t = ch_quote # l @ v"
        by (auto simp: drop_commas_Cons split: option.splits)
      from ih(1) [OF quote e(1) refl e(2)] string_end_append [OF e(1)] e(3) quote show ?thesis
        by (simp add: drop_commas_Cons)
    next
      case comma
      show ?thesis
      proof (cases "dropWhile json_space s' \<noteq> [] \<and> hd (dropWhile json_space s') \<in> {ch_close_brace, ch_close_bracket} \<and>
          p \<notin> {ch_open_bracket, ch_open_brace, ch_comma, ch_colon}")
        case True
        with 1(7) Cons comma obtain v where v: "drop_commas p d s' = Inr v" "t = ch_space # v"
          by (auto simp: drop_commas_Cons Let_def)
        have "drop_commas p d v = Inr v"
          using ih(4) [OF _ _ _ comma refl True v(1)] comma by simp
        with v(2) show ?thesis by (simp add: drop_commas_Cons json_space_def)
      next
        case False
        with 1(7) Cons comma obtain v where v: "drop_commas ch_comma d s' = Inr v" "t = ch_comma # v"
          by (auto simp: drop_commas_Cons Let_def split: if_splits)
        have "drop_commas ch_comma d v = Inr v"
          using ih(5) [OF _ _ _ comma refl False] v(1) comma by simp
        with v(2) False drop_commas_next [OF v(1)] show ?thesis by (auto simp: drop_commas_Cons Let_def)
      qed
    next
      case other
      consider (opens) "c = ch_open_brace \<or> c = ch_open_bracket"
        | (closes) "\<not> (c = ch_open_brace \<or> c = ch_open_bracket)" "c = ch_close_brace \<or> c = ch_close_bracket"
        | (plain) "\<not> (c = ch_open_brace \<or> c = ch_open_bracket)" "\<not> (c = ch_close_brace \<or> c = ch_close_bracket)"
        by blast
      then show ?thesis
      proof cases
        case opens
        with 1(7) Cons other obtain v where v: "\<not> 64 < d + 1" "drop_commas c (d + 1) s' = Inr v" "t = c # v"
          by (auto simp: drop_commas_Cons split: if_splits)
        from ih(2) [OF other(1) opens v(1,2)] v other opens show ?thesis by (simp add: drop_commas_Cons)
      next
        case closes
        with 1(7) Cons other obtain v where v: "drop_commas c (d - 1) s' = Inr v" "t = c # v"
          by (auto simp: drop_commas_Cons)
        from ih(3) [OF other(1) closes v(1)] v other closes show ?thesis by (simp add: drop_commas_Cons)
      next
        case plain
        with 1(7) Cons other obtain v where v: "drop_commas (if json_space c then p else c) d s' = Inr v" "t = c # v"
          by (auto simp: drop_commas_Cons)
        from ih(6) [OF other(1) plain other(2) v(1)] v other plain show ?thesis by (simp add: drop_commas_Cons)
      qed
    qed
  qed (use 1(7) in simp)
qed

subsection \<open>Properties\<close>

text \<open>
  C19. A configuration file decodes to its text in UTF-8 whichever way it was written: plain or
  marked UTF-8, UTF-16 or UTF-32 in either byte order, with surrogate pairs put together; the marks
  are told apart unless the text itself begins with the mark's character or, in little-endian
  UTF-16, with a null character.
\<close>

theorem host_config_decodes:
  assumes "list_all scalar_value rs" and "length (utf8_encode_all rs) \<le> max_host_configuration_bytes"
    and "e = Plain_UTF8 \<Longrightarrow> rs = [] \<or> hd rs \<noteq> 0xFEFF" and "e = UTF16 False \<Longrightarrow> rs = [] \<or> hd rs \<noteq> 0"
  shows "decode_host_configuration False (encode_file e rs) = Inr (utf8_encode_all rs)"
proof -
  have "drop (length (mark_bytes e)) (encode_file e rs) = concat (map (scalar_bytes e) rs)"
    by (simp add: encode_file_def)
  with decode_loop_encoded [of rs "[]" e] bom_of_file [OF assms(1,3,4)] assms(1,2) show ?thesis
    by (simp add: decode_host_configuration_def)
qed

theorem host_config_decodes_witness:
  "decode_host_configuration False [0xFF, 0xFE, 0x7B, 0, 0x3D, 0xD8, 0, 0xDE] =
     Inr (utf8_encode_all [0x7B, 0x1F600])"
proof -
  have "decode_host_configuration False (encode_file (UTF16 False) [0x7B, 0x1F600]) = Inr (utf8_encode_all [0x7B, 0x1F600])"
    by (rule host_config_decodes)
      (simp_all add: scalar_value_def utf8_encode_all_def utf8_encode_def max_host_configuration_bytes_def)
  moreover have "encode_file (UTF16 False) [0x7B, 0x1F600] = [0xFF, 0xFE, 0x7B, 0, 0x3D, 0xD8, 0, 0xDE]"
    by (simp add: encode_file_def bytes16_def utf16_encode_def)
  ultimately show ?thesis by simp
qed

text \<open>
  Whatever bytes the file has, what decoding returns is well-formed UTF-8 of at most 64 KiB:
  malformed sequences, unpaired surrogates and truncated units are errors, never replacement
  characters.
\<close>

theorem host_config_decode_output:
  assumes "decode_host_configuration fails s = Inr out" and "list_all (\<lambda>b. b < 256) s"
  shows "length out \<le> 65536 \<and> (\<exists>rs. list_all scalar_value rs \<and> out = utf8_encode_all rs) \<and>
    utf8_decode_bytes out \<noteq> None"
proof -
  obtain width big skip where b: "bom_of s = (width, big, skip)" by (metis surj_pair)
  then have w: "width \<in> {1, 2, 4}" by (auto simp: bom_of_def split: if_splits)
  from assms(2) have l: "list_all (\<lambda>b. b < 256) (drop skip s)" by (auto simp: list_all_iff dest: in_set_dropD)
  from assms(1) b have d: "decode_loop fails big width [] (drop skip s) = Inr out"
    by (auto simp: decode_host_configuration_def split: if_splits)
  from decode_loop_output [OF d w l] obtain rs where "length out \<le> 65536" "list_all scalar_value rs" "out = utf8_encode_all rs"
    by (auto simp: max_host_configuration_bytes_def)
  with utf8_round_trip [of rs] show ?thesis by auto
qed

theorem host_config_decode_output_witness:
  "\<exists>rs. list_all scalar_value rs \<and> [0x7B, 0x7D] = utf8_encode_all rs"
proof -
  have "decode_host_configuration False [0xEF, 0xBB, 0xBF, 0x7B, 0x7D] = Inr [0x7B, 0x7D]"
    by (simp add: decode_host_configuration_def bom_of_def decode_loop.simps read_scalar_def read_rune_def
        utf8_encode_def max_host_configuration_bytes_def)
  from host_config_decode_output [OF this] show ?thesis by simp
qed

text \<open>
  What reaches the JSON parser has neither comments nor trailing commas left: both passes
  leave it as it is, it is no longer than the file, and a document without them is parsed
  unchanged; what is delivered is what the parser made of it, an object within the size limit.
\<close>

theorem host_config_normalized:
  "(normalize_host_configuration compact s = Inr out \<longrightarrow>
      length out \<le> 65536 \<and> out \<noteq> [] \<and> hd out = ch_open_brace \<and>
      (\<exists>text. compact text = Some out \<and> strip_comments text = Inr text \<and> drop_commas 0 0 text = Inr text \<and>
         length text \<le> length s)) \<and>
   (strip_comments s = Inr s \<longrightarrow> drop_commas 0 0 s = Inr s \<longrightarrow> normalize_host_configuration compact s = Inr out \<longrightarrow>
      compact s = Some out)"
proof (intro conjI impI)
  assume "normalize_host_configuration compact s = Inr out"
  then obtain t u where tu: "strip_comments s = Inr t" "drop_commas 0 0 t = Inr u" "compact u = Some out"
    and out: "length out \<le> 65536" "out \<noteq> []" "hd out = ch_open_brace"
    by (auto simp: normalize_host_configuration_def max_host_configuration_bytes_def
        split: if_splits sum.splits option.splits)
  from strip_idem [OF tu(1)] drop_commas_clean [OF tu(2)] drop_commas_idem [OF tu(2)] tu(3)
  show "\<exists>text. compact text = Some out \<and> strip_comments text = Inr text \<and> drop_commas 0 0 text = Inr text \<and>
      length text \<le> length s" by auto
  show "length out \<le> 65536" "out \<noteq> []" "hd out = ch_open_brace" by (fact out)+
next
  assume "strip_comments s = Inr s" "drop_commas 0 0 s = Inr s" "normalize_host_configuration compact s = Inr out"
  then show "compact s = Some out"
    by (auto simp: normalize_host_configuration_def split: if_splits sum.splits option.splits)
qed

text \<open>The document \<open>{/**/"a":1,}\<close>.\<close>

theorem host_config_normalized_witness:
  "normalize_host_configuration Some [123, 47, 42, 42, 47, 34, 97, 34, 58, 49, 44, 125] =
     Inr [123, 32, 34, 97, 34, 58, 49, 32, 125] \<and>
   strip_comments [123, 32, 34, 97, 34, 58, 49, 32, 125] = Inr [123, 32, 34, 97, 34, 58, 49, 32, 125]"
proof -
  have n: "normalize_host_configuration Some [123, 47, 42, 42, 47, 34, 97, 34, 58, 49, 44, 125] =
     Inr [123, 32, 34, 97, 34, 58, 49, 32, 125]"
    by (simp add: normalize_host_configuration_def strip_comments_Cons drop_commas_Cons json_space_def
        max_host_configuration_bytes_def)
  with host_config_normalized [of Some "[123, 47, 42, 42, 47, 34, 97, 34, 58, 49, 44, 125]"] show ?thesis by auto
qed

text \<open>
  The host configuration is a snapshot of the process: a host that does not ask gets nothing and
  the file is not touched; every host that asks gets the first answer, the file is read once
  whatever is in it by then, and a failure is warned about once.
\<close>

theorem host_config_snapshot:
  assumes "provide_host_configuration read req1 p = (a1, warned1, p1)"
    and "provide_host_configuration read req2 p1 = (a2, warned2, p2)"
  shows "(map_of (wir_capabilities req1) ''HostConfiguration'' \<noteq> Some ''1'' \<longrightarrow> a1 = None \<and> p1 = p) \<and>
    (map_of (wir_capabilities req1) ''HostConfiguration'' = Some ''1'' \<longrightarrow>
      (map_of (wir_capabilities req2) ''HostConfiguration'' = Some ''1'' \<longrightarrow> a2 = a1) \<and>
      warned2 = None \<and> hp_snapshot p2 = hp_snapshot p1 \<and>
      (a1 \<noteq> None) \<and> (once_value (hp_snapshot p) = None \<longrightarrow> \<not> hp_warned p \<longrightarrow>
         warned1 = hs_reason (capture (fst (read (once_world (hp_snapshot p)))))))"
proof -
  let ?force = "force_once (\<lambda>w. case read w of (r, w') \<Rightarrow> (capture r, w'))"
  show ?thesis
  proof (cases "map_of (wir_capabilities req1) ''HostConfiguration'' = Some ''1''")
    case False
    with assms show ?thesis by (simp add: provide_host_configuration_def)
  next
    case True
    obtain snap cell where f: "?force (hp_snapshot p) = (snap, cell)" by fastforce
    with True assms(1) have p1: "p1 = \<lparr>hp_snapshot = cell, hp_warned = True\<rparr>"
      "a1 = Some \<lparr>hc_status = hs_status snap,
         hc_content = (if hs_status snap = HC_Available then map char_of (hs_content snap) else '''')\<rparr>"
      "warned1 = (if hp_warned p then None else hs_reason snap)"
      by (auto simp: provide_host_configuration_def)
    have again: "?force cell = (snap, cell)" using oc.force_twice [of _ "hp_snapshot p"] f by (metis fst_conv snd_conv)
    with assms(2) p1 have "(map_of (wir_capabilities req2) ''HostConfiguration'' = Some ''1'' \<longrightarrow> a2 = a1) \<and>
        warned2 = None \<and> hp_snapshot p2 = hp_snapshot p1"
      by (auto simp: provide_host_configuration_def split: if_splits)
    moreover have "once_value (hp_snapshot p) = None \<Longrightarrow> snap = capture (fst (read (once_world (hp_snapshot p))))"
      using f by (auto simp: force_once_def split: prod.splits)
    ultimately show ?thesis using True p1 by auto
  qed
qed

theorem host_config_snapshot_witness:
  "let provide = provide_host_configuration (\<lambda>n. (Inl HC_Other, n + 1 :: nat))
         \<lparr>wir_capabilities = [(''HostConfiguration'', ''1'')], wir_log_categories = None\<rparr>;
       (a1, w1, p1) = provide \<lparr>hp_snapshot = \<lparr>once_value = None, once_world = 0\<rparr>, hp_warned = False\<rparr>;
       (a2, w2, p2) = provide p1
   in w1 = Some HC_Read \<and> w2 = None \<and> a2 = a1 \<and> once_world (hp_snapshot p2) = 1"
proof -
  let ?req = "\<lparr>wir_capabilities = [(''HostConfiguration'', ''1'')], wir_log_categories = None\<rparr>"
  let ?read = "\<lambda>n. (Inl HC_Other, n + 1 :: nat)"
  let ?p = "\<lparr>hp_snapshot = \<lparr>once_value = None, once_world = 0\<rparr>, hp_warned = False\<rparr>"
  obtain a1 w1 p1 where p1: "provide_host_configuration ?read ?req ?p = (a1, w1, p1)" by (metis surj_pair)
  obtain a2 w2 p2 where p2: "provide_host_configuration ?read ?req p1 = (a2, w2, p2)" by (metis surj_pair)
  have "w1 = Some HC_Read" "once_world (hp_snapshot p1) = 1"
    using p1 by (auto simp: provide_host_configuration_def force_once_def capture_def)
  moreover have "a2 = a1" "w2 = None" "hp_snapshot p2 = hp_snapshot p1"
    using host_config_snapshot [OF p1 p2] by simp_all
  ultimately show ?thesis using p1 p2 by (simp add: Let_def)
qed

end
