(* ===== verification/Http_Rendezvous.thy ===== *)
theory Http_Rendezvous
  imports Worker_Handlers Go_Runs
begin

text \<open>
  The HTTP streaming path: \<open>worker/http_proxy.go\<close>.  The host forwards an HTTP request to the
  worker's loopback server and sends the invocation over gRPC; the two goroutines meet in a slot
  keyed by the invocation id.  Slots live in a heap, because a goroutine keeps its slot after the
  slot has left the table.  One transition is one operation on shared state: the table under its
  mutex, one channel operation, one branch of a \<open>select\<close>, or a run of the user's handler.
\<close>

subsection \<open>The live connection\<close>

text \<open>
  \<open>http.ResponseWriter\<close> of \<open>net/http\<close>: the first status written stays, a write implies 200, and a
  hijacked connection takes nothing.
\<close>

record live_writer =
  lw_header :: "(string, string list) go_map"
  lw_status :: "int option"
  lw_body :: string
  lw_hijacked :: bool

definition fresh_writer :: live_writer where
  "fresh_writer = \<lparr>lw_header = [], lw_status = None, lw_body = '''', lw_hijacked = False\<rparr>"

definition lw_set :: "string \<Rightarrow> string \<Rightarrow> live_writer \<Rightarrow> live_writer" where
  "lw_set k v w = w\<lparr>lw_header := map_put k [v] (lw_header w)\<rparr>"

definition lw_write_header :: "int \<Rightarrow> live_writer \<Rightarrow> live_writer" where
  "lw_write_header code w =
     (if lw_hijacked w \<or> lw_status w \<noteq> None then w else w\<lparr>lw_status := Some code\<rparr>)"

definition lw_write :: "string \<Rightarrow> live_writer \<Rightarrow> live_writer" where
  "lw_write b w =
     (if lw_hijacked w then w else (let w = lw_write_header 200 w in w\<lparr>lw_body := lw_body w @ b\<rparr>))"

definition http_error :: "string \<Rightarrow> int \<Rightarrow> live_writer \<Rightarrow> live_writer" where
  "http_error msg code w =
     (let w = w\<lparr>lw_header := map_del ''Content-Length'' (lw_header w)\<rparr>;
          w = lw_set ''X-Content-Type-Options'' ''nosniff'' (lw_set ''Content-Type'' ''text/plain; charset=utf-8'' w)
      in lw_write (msg @ [CHR 0x0A]) (lw_write_header code w))"

definition try_write_error :: "string \<Rightarrow> live_writer \<Rightarrow> live_writer" where
  "try_write_error msg w =
     lw_write msg (lw_write_header 500 (lw_set ''Content-Type'' ''text/plain; charset=utf-8'' w))"

definition correlation_header :: string where
  "correlation_header = ''x-ms-invocation-id''"

definition header_get :: "codec \<Rightarrow> string \<Rightarrow> http_request \<Rightarrow> string" where
  "header_get C k r = (case map_of (rq_headers r) (cd_canonical C k) of Some (v # vs) \<Rightarrow> v | _ \<Rightarrow> '''')"

definition header_del :: "codec \<Rightarrow> string \<Rightarrow> http_request \<Rightarrow> http_request" where
  "header_del C k r = r\<lparr>rq_headers := map_del (cd_canonical C k) (rq_headers r)\<rparr>"

subsection \<open>Slots and the table of pending invocations\<close>

record 'cl grpc_arrival =
  ga_fn :: "'cl loaded_function"
  ga_req :: invocation_request

record http_result =
  hr_status :: status_result
  hr_mc :: "ret_value middleware_context option"

text \<open>
  A slot: its two channels, buffered with capacity one.  \<open>pi_key\<close> is the key the slot was created
  under; the code never reads it.
\<close>

record 'cl pending_invocation =
  pi_key :: string
  pi_grpc :: "'cl grpc_arrival list"
  pi_done :: "http_result list"

record 'cl http_proxy =
  px_pending :: "(string, nat) go_map"
  px_heap :: "'cl pending_invocation list"

definition get_or_create_pending :: "string \<Rightarrow> 'cl http_proxy \<Rightarrow> nat \<times> 'cl http_proxy" where
  "get_or_create_pending iid p =
     (case map_of (px_pending p) iid of
        Some k \<Rightarrow> (k, p)
      | None \<Rightarrow>
          (let k = length (px_heap p) in
           (k, \<lparr>px_pending = map_put iid k (px_pending p),
                px_heap = px_heap p @ [\<lparr>pi_key = iid, pi_grpc = [], pi_done = []\<rparr>]\<rparr>)))"

definition delete_pending :: "string \<Rightarrow> 'cl http_proxy \<Rightarrow> 'cl http_proxy" where
  "delete_pending iid p = p\<lparr>px_pending := map_del iid (px_pending p)\<rparr>"

text \<open>Channel operations on a slot; \<open>None\<close> is an operation that would block.\<close>

definition send_grpc :: "nat \<Rightarrow> 'cl grpc_arrival \<Rightarrow> 'cl http_proxy \<Rightarrow> 'cl http_proxy option" where
  "send_grpc k a p =
     (if length (pi_grpc (px_heap p ! k)) < 1
      then Some (p\<lparr>px_heap := (px_heap p)[k := (px_heap p ! k)\<lparr>pi_grpc := pi_grpc (px_heap p ! k) @ [a]\<rparr>]\<rparr>)
      else None)"

definition receive_grpc :: "nat \<Rightarrow> 'cl http_proxy \<Rightarrow> ('cl grpc_arrival \<times> 'cl http_proxy) option" where
  "receive_grpc k p =
     (case pi_grpc (px_heap p ! k) of
        [] \<Rightarrow> None
      | a # as \<Rightarrow> Some (a, p\<lparr>px_heap := (px_heap p)[k := (px_heap p ! k)\<lparr>pi_grpc := as\<rparr>]\<rparr>))"

definition send_done :: "nat \<Rightarrow> http_result \<Rightarrow> 'cl http_proxy \<Rightarrow> 'cl http_proxy option" where
  "send_done k r p =
     (if length (pi_done (px_heap p ! k)) < 1
      then Some (p\<lparr>px_heap := (px_heap p)[k := (px_heap p ! k)\<lparr>pi_done := pi_done (px_heap p ! k) @ [r]\<rparr>]\<rparr>)
      else None)"

definition receive_done :: "nat \<Rightarrow> 'cl http_proxy \<Rightarrow> (http_result \<times> 'cl http_proxy) option" where
  "receive_done k p =
     (case pi_done (px_heap p ! k) of
        [] \<Rightarrow> None
      | r # rs \<Rightarrow> Some (r, p\<lparr>px_heap := (px_heap p)[k := (px_heap p ! k)\<lparr>pi_done := rs\<rparr>]\<rparr>))"

subsection \<open>Serving a request\<close>

text \<open>
  What the HTTP side takes beyond \<open>inv_env\<close>: the context of a request with the carrier attached, and
  the user's \<open>net/http\<close> handler, which sees the live connection through the world it acts on.
\<close>

record ('c, 'cl, 'w, 's, 'f) http_env = "('c, 'cl, live_writer \<times> 'w, 's, 'f) inv_env" +
  he_context :: "http_request \<Rightarrow> ret_value middleware_context \<Rightarrow> 'c"
  he_handler :: "handler_value \<Rightarrow> http_request \<Rightarrow> 'c \<Rightarrow> (live_writer \<times> 'w) inv_state \<Rightarrow>
    (string, unit) outcome \<times> (live_writer \<times> 'w) inv_state"

definition http_inner ::
    "('c, 'cl, 'w, 's, 'f) http_env \<Rightarrow> handler_value \<Rightarrow> http_request \<Rightarrow> ('c, (live_writer \<times> 'w) inv_state) handler" where
  "http_inner X f r ctx s =
     (case he_handler X f r ctx s of (Panic p, s') \<Rightarrow> (Panic p, s') | (Ret u, s') \<Rightarrow> (Ret None, s'))"

definition invoke_http_handler ::
    "('c, 'cl, 'w, 's, 'f) http_env \<Rightarrow> 'cl loaded_function \<Rightarrow> ret_value middleware_context \<Rightarrow> http_request \<Rightarrow>
     live_writer \<Rightarrow> 'w \<Rightarrow> recovered_result \<times> (live_writer \<times> 'w) inv_state" where
  "invoke_http_handler X lf mc r conn w =
     (if \<not> is_http_handler (inv_env.truncate X) lf
      then (\<lparr>rr_recovered = None, rr_stack = '''', rr_error = None\<rparr>,
            \<lparr>is_mc = mc, is_rw = new_response_writer,
             is_world = (http_error ''registered handler is not an http.HandlerFunc'' 500 conn, w)\<rparr>)
      else run_user_invocation (ie_stack X) (ie_middlewares X) (http_inner X (rf_func (lf_function lf)) r)
        (he_context X r mc) \<lparr>is_mc = mc, is_rw = new_response_writer, is_world = (conn, w)\<rparr>)"

definition prepare_context :: "'cl grpc_arrival \<Rightarrow> ret_value middleware_context" where
  "prepare_context a =
     populate_binding_inputs (ga_req a) (ga_fn a)
       (extract_trigger_input (ga_req a) (ga_fn a) (build_middleware_context (ga_req a) (lf_function (ga_fn a))))"

text \<open>The part of \<open>handle\<close> between the receive and the send of the result.\<close>

definition serve_http ::
    "('c, 'cl, 'w, 's, 'f) http_env \<Rightarrow> 'cl grpc_arrival \<Rightarrow> http_request \<Rightarrow> live_writer \<Rightarrow> 'w \<Rightarrow>
     http_result \<times> live_writer \<times> 'w" where
  "serve_http X a r conn w =
     (case invoke_http_handler X (ga_fn a) (prepare_context a)
        (header_del (ie_codec X) correlation_header r) conn w of
        (res, s) \<Rightarrow>
          (\<lparr>hr_status = status_from_invocation res, hr_mc = Some (is_mc s)\<rparr>,
           (case rr_recovered res of Some p \<Rightarrow> try_write_error p (fst (is_world s)) | None \<Rightarrow> fst (is_world s)),
           snd (is_world s)))"

subsection \<open>The two goroutines of an invocation\<close>

datatype http_end = Bad_Request | Client_Left | Gateway_Timeout | Served

text \<open>Where an HTTP goroutine stands: the slot it holds is kept in the task.\<close>

datatype 'cl http_pc =
    H_Select
  | H_Disconnected
  | H_Serve "'cl grpc_arrival"
  | H_Deliver http_result
  | H_Delete http_end
  | H_End http_end

record 'cl http_task =
  ht_id :: string
  ht_slot :: nat
  ht_request :: http_request
  ht_conn :: live_writer
  ht_pc :: "'cl http_pc"

datatype grpc_pc =
    G_Send
  | G_Select
  | G_Expired
  | G_End "(status_result \<times> ret_value middleware_context option) result"

record 'cl grpc_task =
  gt_slot :: nat
  gt_arrival :: "'cl grpc_arrival"
  gt_pc :: grpc_pc

abbreviation arrival_id :: "'cl grpc_arrival \<Rightarrow> string" where
  "arrival_id a \<equiv> ireq_invocation_id (ga_req a)"

text \<open>
  All goroutines and what they share.  \<open>rv_runs\<close> records every run of a handler with its arrival and
  result; no operation reads it.
\<close>

record ('cl, 'w) rendezvous =
  rv_proxy :: "'cl http_proxy"
  rv_http :: "'cl http_task list"
  rv_grpc :: "'cl grpc_task list"
  rv_world :: 'w
  rv_runs :: "('cl grpc_arrival \<times> http_result) list"

definition rendezvous_start :: "'w \<Rightarrow> ('cl, 'w) rendezvous" where
  "rendezvous_start w =
     \<lparr>rv_proxy = \<lparr>px_pending = [], px_heap = []\<rparr>, rv_http = [], rv_grpc = [], rv_world = w, rv_runs = []\<rparr>"

datatype 'cl rv_event =
    Http_Arrives http_request
  | Grpc_Arrives "'cl grpc_arrival"
  | Http_Runs nat
  | Http_Client_Gone nat
  | Http_Timer nat
  | Grpc_Runs nat
  | Grpc_Timer nat

definition disconnected :: http_result where
  "disconnected = \<lparr>hr_status = status_failure (no_exception\<lparr>
     ex_message := ''client disconnected before invocation could start'', ex_source := ''HTTP proxy''\<rparr>),
     hr_mc = None\<rparr>"

definition rendezvous_timeout :: "string \<Rightarrow> go_error" where
  "rendezvous_timeout iid = ''timed out waiting for HTTP request for invocation '' @ iid"

definition put_http :: "nat \<Rightarrow> 'cl http_task \<Rightarrow> ('cl, 'w) rendezvous \<Rightarrow> ('cl, 'w) rendezvous" where
  "put_http i t s = s\<lparr>rv_http := (rv_http s)[i := t]\<rparr>"

definition put_grpc :: "nat \<Rightarrow> 'cl grpc_task \<Rightarrow> ('cl, 'w) rendezvous \<Rightarrow> ('cl, 'w) rendezvous" where
  "put_grpc j t s = s\<lparr>rv_grpc := (rv_grpc s)[j := t]\<rparr>"

text \<open>A new HTTP request, up to the \<open>select\<close>.\<close>

definition http_arrives ::
    "codec \<Rightarrow> http_request \<Rightarrow> ('cl, 'w) rendezvous \<Rightarrow> ('cl, 'w) rendezvous" where
  "http_arrives C r s =
     (let iid = header_get C correlation_header r in
      if iid = ''''
      then s\<lparr>rv_http := rv_http s @ [\<lparr>ht_id = iid, ht_slot = 0, ht_request = r,
        ht_conn = http_error (''missing '' @ correlation_header @ '' header'') 400 fresh_writer, ht_pc = H_End Bad_Request\<rparr>]\<rparr>
      else (case get_or_create_pending iid (rv_proxy s) of
        (k, p) \<Rightarrow> s\<lparr>rv_proxy := p, rv_http := rv_http s @ [\<lparr>ht_id = iid, ht_slot = k, ht_request = r,
          ht_conn = fresh_writer, ht_pc = H_Select\<rparr>]\<rparr>))"

definition grpc_arrives :: "'cl grpc_arrival \<Rightarrow> ('cl, 'w) rendezvous \<Rightarrow> ('cl, 'w) rendezvous" where
  "grpc_arrives a s =
     (case get_or_create_pending (arrival_id a) (rv_proxy s) of
        (k, p) \<Rightarrow> s\<lparr>rv_proxy := p,
          rv_grpc := rv_grpc s @ [\<lparr>gt_slot = k, gt_arrival = a, gt_pc = G_Send\<rparr>]\<rparr>)"

text \<open>The next operation of an HTTP goroutine; in the \<open>select\<close>, the receive.\<close>

definition http_runs ::
    "('c, 'cl, 'w, 's, 'f) http_env \<Rightarrow> nat \<Rightarrow> 'cl http_task \<Rightarrow> ('cl, 'w) rendezvous \<Rightarrow> ('cl, 'w) rendezvous option" where
  "http_runs X i t s =
     (case ht_pc t of
        H_Select \<Rightarrow>
          (case receive_grpc (ht_slot t) (rv_proxy s) of
             None \<Rightarrow> None
           | Some (a, p) \<Rightarrow> Some (put_http i (t\<lparr>ht_pc := H_Serve a\<rparr>) (s\<lparr>rv_proxy := p\<rparr>)))
      | H_Disconnected \<Rightarrow>
          (case send_done (ht_slot t) disconnected (rv_proxy s) of
             None \<Rightarrow> None
           | Some p \<Rightarrow> Some (put_http i (t\<lparr>ht_pc := H_Delete Client_Left\<rparr>) (s\<lparr>rv_proxy := p\<rparr>)))
      | H_Serve a \<Rightarrow>
          (case serve_http X a (ht_request t) (ht_conn t) (rv_world s) of
             (r, conn, w) \<Rightarrow> Some (put_http i (t\<lparr>ht_conn := conn, ht_pc := H_Deliver r\<rparr>)
               (s\<lparr>rv_world := w, rv_runs := rv_runs s @ [(a, r)]\<rparr>)))
      | H_Deliver r \<Rightarrow>
          (case send_done (ht_slot t) r (rv_proxy s) of
             None \<Rightarrow> None
           | Some p \<Rightarrow> Some (put_http i (t\<lparr>ht_pc := H_Delete Served\<rparr>) (s\<lparr>rv_proxy := p\<rparr>)))
      | H_Delete e \<Rightarrow>
          (let conn = (if e = Gateway_Timeout then http_error ''timed out waiting for gRPC trigger'' 504 (ht_conn t)
                       else ht_conn t)
           in Some (put_http i (t\<lparr>ht_conn := conn, ht_pc := H_End e\<rparr>)
             (s\<lparr>rv_proxy := delete_pending (ht_id t) (rv_proxy s)\<rparr>)))
      | H_End e \<Rightarrow> None)"

definition grpc_runs ::
    "nat \<Rightarrow> 'cl grpc_task \<Rightarrow> ('cl, 'w) rendezvous \<Rightarrow> ('cl, 'w) rendezvous option" where
  "grpc_runs j t s =
     (case gt_pc t of
        G_Send \<Rightarrow>
          (case send_grpc (gt_slot t) (gt_arrival t) (rv_proxy s) of
             None \<Rightarrow> None
           | Some p \<Rightarrow> Some (put_grpc j (t\<lparr>gt_pc := G_Select\<rparr>) (s\<lparr>rv_proxy := p\<rparr>)))
      | G_Select \<Rightarrow>
          (case receive_done (gt_slot t) (rv_proxy s) of
             None \<Rightarrow> None
           | Some (r, p) \<Rightarrow> Some (put_grpc j (t\<lparr>gt_pc := G_End (Inr (hr_status r, hr_mc r))\<rparr>) (s\<lparr>rv_proxy := p\<rparr>)))
      | G_Expired \<Rightarrow>
          Some (put_grpc j (t\<lparr>gt_pc := G_End (Inl (rendezvous_timeout (arrival_id (gt_arrival t))))\<rparr>)
            (s\<lparr>rv_proxy := delete_pending (arrival_id (gt_arrival t)) (rv_proxy s)\<rparr>))
      | G_End r \<Rightarrow> None)"

text \<open>One transition; \<open>None\<close> when the event cannot happen in the state.\<close>

definition rv_exec ::
    "('c, 'cl, 'w, 's, 'f) http_env \<Rightarrow> 'cl rv_event \<Rightarrow> ('cl, 'w) rendezvous \<Rightarrow> ('cl, 'w) rendezvous option" where
  "rv_exec X ev s =
     (case ev of
        Http_Arrives r \<Rightarrow> Some (http_arrives (ie_codec X) r s)
      | Grpc_Arrives a \<Rightarrow> Some (grpc_arrives a s)
      | Http_Runs i \<Rightarrow> if i < length (rv_http s) then http_runs X i (rv_http s ! i) s else None
      | Http_Client_Gone i \<Rightarrow>
          if i < length (rv_http s) \<and> ht_pc (rv_http s ! i) = H_Select
          then Some (put_http i ((rv_http s ! i)\<lparr>ht_pc := H_Disconnected\<rparr>) s) else None
      | Http_Timer i \<Rightarrow>
          if i < length (rv_http s) \<and> ht_pc (rv_http s ! i) = H_Select
          then Some (put_http i ((rv_http s ! i)\<lparr>ht_pc := H_Delete Gateway_Timeout\<rparr>) s) else None
      | Grpc_Runs j \<Rightarrow> if j < length (rv_grpc s) then grpc_runs j (rv_grpc s ! j) s else None
      | Grpc_Timer j \<Rightarrow>
          if j < length (rv_grpc s) \<and> gt_pc (rv_grpc s ! j) = G_Select
          then Some (put_grpc j ((rv_grpc s ! j)\<lparr>gt_pc := G_Expired\<rparr>) s) else None)"

abbreviation rv_reachable :: "('c, 'cl, 'w, 's, 'f) http_env \<Rightarrow> 'w \<Rightarrow> ('cl, 'w) rendezvous \<Rightarrow> bool" where
  "rv_reachable X w \<equiv> reaches (rv_exec X) (rendezvous_start w)"

subsection \<open>Whether there is a proxy\<close>

definition app_has_http :: "gtype list \<Rightarrow> (string, 'cl rfunction) go_map \<Rightarrow> bool" where
  "app_has_http http registered =
     list_ex (\<lambda>(k, rf). case hv_type (rf_func rf) of None \<Rightarrow> False | Some t \<Rightarrow> t \<in> set http) registered"

text \<open>
  \<open>startHTTPProxy\<close>: the URL of the proxy, from the environment variable and the address the listener
  got (\<open>None\<close>: it could not be opened).
\<close>

definition start_http_proxy ::
    "string \<Rightarrow> string option \<Rightarrow> gtype list \<Rightarrow> (string, 'cl rfunction) go_map \<Rightarrow> string option" where
  "start_http_proxy v listen http registered =
     (if v \<noteq> '''' \<and> v \<noteq> ''0'' \<and> \<not> equal_fold v ''false'' then None
      else if \<not> app_has_http http registered then None
      else map_option (\<lambda>a. ''http://'' @ a) listen)"

subsection \<open>Lemmas\<close>

abbreviation slot_keys :: "'cl http_proxy \<Rightarrow> string list" where
  "slot_keys p \<equiv> map pi_key (px_heap p)"

text \<open>A result that may be delivered under a key: the disconnect notice, or a recorded run of that key.\<close>

definition result_for :: "('cl grpc_arrival \<times> http_result) list \<Rightarrow> string \<Rightarrow> http_result \<Rightarrow> bool" where
  "result_for runs iid r \<longleftrightarrow> r = disconnected \<or> (\<exists>a. (a, r) \<in> set runs \<and> arrival_id a = iid)"

definition slot_ok :: "('cl grpc_arrival \<times> http_result) list \<Rightarrow> 'cl pending_invocation \<Rightarrow> bool" where
  "slot_ok runs sl \<longleftrightarrow>
     (\<forall>a \<in> set (pi_grpc sl). arrival_id a = pi_key sl) \<and> (\<forall>r \<in> set (pi_done sl). result_for runs (pi_key sl) r)"

definition table_ok :: "string list \<Rightarrow> (string, nat) go_map \<Rightarrow> bool" where
  "table_ok keys m \<longleftrightarrow> wf_map m \<and> (\<forall>iid k. map_of m iid = Some k \<longrightarrow> k < length keys \<and> keys ! k = iid)"

definition proxy_ok :: "('cl grpc_arrival \<times> http_result) list \<Rightarrow> 'cl http_proxy \<Rightarrow> bool" where
  "proxy_ok runs p \<longleftrightarrow> table_ok (slot_keys p) (px_pending p) \<and> (\<forall>sl \<in> set (px_heap p). slot_ok runs sl)"

definition http_ok :: "string list \<Rightarrow> ('cl grpc_arrival \<times> http_result) list \<Rightarrow> 'cl http_task \<Rightarrow> bool" where
  "http_ok keys runs t \<longleftrightarrow>
     (ht_pc t \<noteq> H_End Bad_Request \<longrightarrow> ht_slot t < length keys \<and> keys ! ht_slot t = ht_id t) \<and>
     (case ht_pc t of H_Serve a \<Rightarrow> arrival_id a = ht_id t | H_Deliver r \<Rightarrow> result_for runs (ht_id t) r | _ \<Rightarrow> True)"

definition grpc_ok :: "string list \<Rightarrow> ('cl grpc_arrival \<times> http_result) list \<Rightarrow> 'cl grpc_task \<Rightarrow> bool" where
  "grpc_ok keys runs t \<longleftrightarrow>
     gt_slot t < length keys \<and> keys ! gt_slot t = arrival_id (gt_arrival t) \<and>
     (case gt_pc t of
        G_End (Inr (st, mc)) \<Rightarrow> result_for runs (arrival_id (gt_arrival t)) \<lparr>hr_status = st, hr_mc = mc\<rparr>
      | G_End (Inl e) \<Rightarrow> e = rendezvous_timeout (arrival_id (gt_arrival t))
      | _ \<Rightarrow> True)"

definition rendezvous_ok :: "('cl, 'w) rendezvous \<Rightarrow> bool" where
  "rendezvous_ok s \<longleftrightarrow>
     proxy_ok (rv_runs s) (rv_proxy s) \<and>
     (\<forall>t \<in> set (rv_http s). http_ok (slot_keys (rv_proxy s)) (rv_runs s) t) \<and>
     (\<forall>t \<in> set (rv_grpc s). grpc_ok (slot_keys (rv_proxy s)) (rv_runs s) t)"

lemma keys_update [simp]: "pi_key x = pi_key (xs ! k) \<Longrightarrow> map pi_key (xs[k := x]) = map pi_key xs"
  by (metis list_update_id map_update)

lemma table_ok_del: "table_ok keys m \<Longrightarrow> table_ok keys (map_del iid m)"
  by (auto simp: table_ok_def map_of_del split: if_splits)

lemma table_ok_put: "table_ok keys m \<Longrightarrow> table_ok (keys @ [iid]) (map_put iid (length keys) m)"
  by (fastforce simp: table_ok_def map_of_put nth_append split: if_splits)

lemma table_ok_lookup: "table_ok keys m \<Longrightarrow> map_of m iid = Some k \<Longrightarrow> k < length keys \<and> keys ! k = iid"
  by (simp add: table_ok_def)

lemma proxy_ok_update:
  assumes "proxy_ok runs p" and "k < length (px_heap p)" and "pi_key x = pi_key (px_heap p ! k)"
    and "slot_ok runs (px_heap p ! k) \<Longrightarrow> slot_ok runs x"
  shows "proxy_ok runs (p\<lparr>px_heap := (px_heap p)[k := x]\<rparr>)"
proof -
  from assms have "slot_ok runs x" by (simp add: proxy_ok_def)
  then have "\<forall>sl \<in> set ((px_heap p)[k := x]). slot_ok runs sl"
    using assms(1) set_update_subset_insert [of "px_heap p" k x] by (auto simp: proxy_ok_def)
  with assms show ?thesis by (simp add: proxy_ok_def)
qed

lemma proxy_ok_slot: "proxy_ok runs p \<Longrightarrow> k < length (px_heap p) \<Longrightarrow> slot_ok runs (px_heap p ! k)"
  by (simp add: proxy_ok_def)

lemma result_for_mono: "result_for runs iid r \<Longrightarrow> result_for (runs @ xs) iid r"
  by (auto simp: result_for_def)

lemma proxy_ok_mono: "proxy_ok runs p \<Longrightarrow> proxy_ok (runs @ xs) p"
  by (auto simp: proxy_ok_def slot_ok_def intro: result_for_mono)

lemma http_ok_mono: "http_ok keys runs t \<Longrightarrow> http_ok (keys @ ks) (runs @ xs) t"
  by (auto simp: http_ok_def nth_append split: http_pc.splits intro: result_for_mono)

lemma grpc_ok_mono: "grpc_ok keys runs t \<Longrightarrow> grpc_ok (keys @ ks) (runs @ xs) t"
  by (auto simp: grpc_ok_def nth_append split: grpc_pc.splits sum.splits intro: result_for_mono)

lemmas ok_mono_keys = http_ok_mono [where xs = "[]", simplified] grpc_ok_mono [where xs = "[]", simplified]
lemmas ok_mono_runs = http_ok_mono [where ks = "[]", simplified] grpc_ok_mono [where ks = "[]", simplified]

lemma get_or_create_spec:
  assumes "get_or_create_pending iid p = (k, p')" and "proxy_ok runs p"
  shows "proxy_ok runs p'" and "k < length (px_heap p')" and "slot_keys p' ! k = iid"
    and "px_heap p' = px_heap p \<or> px_heap p' = px_heap p @ [\<lparr>pi_key = iid, pi_grpc = [], pi_done = []\<rparr>]"
proof -
  have "proxy_ok runs p' \<and> k < length (px_heap p') \<and> slot_keys p' ! k = iid \<and>
    (px_heap p' = px_heap p \<or> px_heap p' = px_heap p @ [\<lparr>pi_key = iid, pi_grpc = [], pi_done = []\<rparr>])"
  proof (cases "map_of (px_pending p) iid")
    case None
    with assms have "k = length (px_heap p)"
      and "p' = \<lparr>px_pending = map_put iid k (px_pending p),
        px_heap = px_heap p @ [\<lparr>pi_key = iid, pi_grpc = [], pi_done = []\<rparr>]\<rparr>"
      by (auto simp: get_or_create_pending_def Let_def)
    then show ?thesis
      using assms(2) table_ok_put [of "slot_keys p" "px_pending p" iid]
      by (auto simp: proxy_ok_def slot_ok_def nth_append)
  next
    case (Some k')
    with assms have "k = k'" "p' = p" by (auto simp: get_or_create_pending_def)
    then show ?thesis
      using assms(2) table_ok_lookup [OF _ Some, of "slot_keys p"] by (auto simp: proxy_ok_def)
  qed
  then show "proxy_ok runs p'" and "k < length (px_heap p')" and "slot_keys p' ! k = iid"
    and "px_heap p' = px_heap p \<or> px_heap p' = px_heap p @ [\<lparr>pi_key = iid, pi_grpc = [], pi_done = []\<rparr>]"
    by blast+
qed

lemma get_or_create_keys:
  assumes "get_or_create_pending iid p = (k, p')" and "proxy_ok runs p"
  shows "\<exists>ks. slot_keys p' = slot_keys p @ ks"
  using get_or_create_spec(4) [OF assms] by auto

lemma delete_pending_ok: "proxy_ok runs p \<Longrightarrow> proxy_ok runs (delete_pending iid p)"
  by (simp add: proxy_ok_def delete_pending_def table_ok_del)

lemma delete_pending_heap [simp]: "px_heap (delete_pending iid p) = px_heap p"
  by (simp add: delete_pending_def)

lemma send_grpc_ok:
  assumes "send_grpc k a p = Some p'" and "proxy_ok runs p" and "k < length (px_heap p)" and "slot_keys p ! k = arrival_id a"
  shows "proxy_ok runs p' \<and> slot_keys p' = slot_keys p \<and> length (px_heap p') = length (px_heap p)"
proof -
  from assms have "p' = p\<lparr>px_heap := (px_heap p)[k := (px_heap p ! k)\<lparr>pi_grpc := pi_grpc (px_heap p ! k) @ [a]\<rparr>]\<rparr>"
    by (auto simp: send_grpc_def split: if_splits)
  with assms(2-) show ?thesis by (auto simp: slot_ok_def intro!: proxy_ok_update)
qed

lemma send_done_ok:
  assumes "send_done k r p = Some p'" and "proxy_ok runs p" and "k < length (px_heap p)"
    and "result_for runs (slot_keys p ! k) r"
  shows "proxy_ok runs p' \<and> slot_keys p' = slot_keys p \<and> length (px_heap p') = length (px_heap p)"
proof -
  from assms have "p' = p\<lparr>px_heap := (px_heap p)[k := (px_heap p ! k)\<lparr>pi_done := pi_done (px_heap p ! k) @ [r]\<rparr>]\<rparr>"
    by (auto simp: send_done_def split: if_splits)
  with assms(2-) show ?thesis by (auto simp: slot_ok_def intro!: proxy_ok_update)
qed

lemma receive_grpc_ok:
  assumes "receive_grpc k p = Some (a, p')" and "proxy_ok runs p" and "k < length (px_heap p)"
  shows "proxy_ok runs p' \<and> slot_keys p' = slot_keys p \<and> length (px_heap p') = length (px_heap p) \<and> arrival_id a = slot_keys p ! k"
proof -
  from assms obtain as where as: "pi_grpc (px_heap p ! k) = a # as"
    and p': "p' = p\<lparr>px_heap := (px_heap p)[k := (px_heap p ! k)\<lparr>pi_grpc := as\<rparr>]\<rparr>"
    by (auto simp: receive_grpc_def split: list.splits)
  from proxy_ok_slot [OF assms(2,3)] assms as show ?thesis
    by (auto simp: p' slot_ok_def intro!: proxy_ok_update)
qed

lemma receive_done_ok:
  assumes "receive_done k p = Some (r, p')" and "proxy_ok runs p" and "k < length (px_heap p)"
  shows "proxy_ok runs p' \<and> slot_keys p' = slot_keys p \<and> length (px_heap p') = length (px_heap p) \<and> result_for runs (slot_keys p ! k) r"
proof -
  from assms obtain rs where rs: "pi_done (px_heap p ! k) = r # rs"
    and p': "p' = p\<lparr>px_heap := (px_heap p)[k := (px_heap p ! k)\<lparr>pi_done := rs\<rparr>]\<rparr>"
    by (auto simp: receive_done_def split: list.splits)
  from proxy_ok_slot [OF assms(2,3)] assms rs show ?thesis
    by (auto simp: p' slot_ok_def intro!: proxy_ok_update)
qed

lemma http_result_eta [simp]: "\<lparr>hr_status = hr_status r, hr_mc = hr_mc r\<rparr> = r"
  by simp

lemma rendezvous_ok_put_http:
  assumes "rendezvous_ok s" and "proxy_ok (rv_runs s) p" and "slot_keys p = slot_keys (rv_proxy s)"
    and "http_ok (slot_keys p) (rv_runs s) t"
  shows "rendezvous_ok (put_http i t (s\<lparr>rv_proxy := p\<rparr>))"
  using assms set_update_subset_insert [of "rv_http s" i t]
  by (auto simp: rendezvous_ok_def put_http_def)

lemma rendezvous_ok_put_grpc:
  assumes "rendezvous_ok s" and "proxy_ok (rv_runs s) p" and "slot_keys p = slot_keys (rv_proxy s)"
    and "grpc_ok (slot_keys p) (rv_runs s) t"
  shows "rendezvous_ok (put_grpc j t (s\<lparr>rv_proxy := p\<rparr>))"
  using assms set_update_subset_insert [of "rv_grpc s" j t]
  by (auto simp: rendezvous_ok_def put_grpc_def)

lemma rendezvous_ok_http_arrives:
  assumes "rendezvous_ok s"
  shows "rendezvous_ok (http_arrives C r s)"
proof (cases "header_get C correlation_header r = ''''")
  case True
  with assms show ?thesis by (auto simp: http_arrives_def rendezvous_ok_def http_ok_def)
next
  case False
  obtain k p where g: "get_or_create_pending (header_get C correlation_header r) (rv_proxy s) = (k, p)"
    by fastforce
  from assms have ok: "proxy_ok (rv_runs s) (rv_proxy s)" by (simp add: rendezvous_ok_def)
  note sp = get_or_create_spec [OF g ok]
  obtain ks where "slot_keys p = slot_keys (rv_proxy s) @ ks" using get_or_create_keys [OF g ok] by blast
  with assms g False sp show ?thesis
    by (auto simp: http_arrives_def rendezvous_ok_def intro: ok_mono_keys) (auto simp: http_ok_def)
qed

lemma rendezvous_ok_grpc_arrives:
  assumes "rendezvous_ok s"
  shows "rendezvous_ok (grpc_arrives a s)"
proof -
  obtain k p where g: "get_or_create_pending (arrival_id a) (rv_proxy s) = (k, p)"
    by fastforce
  from assms have ok: "proxy_ok (rv_runs s) (rv_proxy s)" by (simp add: rendezvous_ok_def)
  note sp = get_or_create_spec [OF g ok]
  obtain ks where "slot_keys p = slot_keys (rv_proxy s) @ ks" using get_or_create_keys [OF g ok] by blast
  with assms g sp show ?thesis
    by (auto simp: grpc_arrives_def rendezvous_ok_def intro: ok_mono_keys) (auto simp: grpc_ok_def)
qed

lemma rendezvous_ok_http_runs:
  assumes ok: "rendezvous_ok s" and t: "t \<in> set (rv_http s)" and run: "http_runs X i t s = Some s'"
  shows "rendezvous_ok s'"
proof -
  from ok have p: "proxy_ok (rv_runs s) (rv_proxy s)" by (simp add: rendezvous_ok_def)
  from ok t have h: "http_ok (slot_keys (rv_proxy s)) (rv_runs s) t" by (simp add: rendezvous_ok_def)
  show ?thesis
  proof (cases "ht_pc t")
    case H_Select
    with run obtain a q where q: "receive_grpc (ht_slot t) (rv_proxy s) = Some (a, q)"
      and s': "s' = put_http i (t\<lparr>ht_pc := H_Serve a\<rparr>) (s\<lparr>rv_proxy := q\<rparr>)"
      by (auto simp: http_runs_def split: option.splits)
    from receive_grpc_ok [OF q p] h H_Select show ?thesis
      unfolding s' by (intro rendezvous_ok_put_http ok) (auto simp: http_ok_def)
  next
    case H_Disconnected
    with run obtain q where q: "send_done (ht_slot t) disconnected (rv_proxy s) = Some q"
      and s': "s' = put_http i (t\<lparr>ht_pc := H_Delete Client_Left\<rparr>) (s\<lparr>rv_proxy := q\<rparr>)"
      by (auto simp: http_runs_def split: option.splits)
    from send_done_ok [OF q p] h H_Disconnected show ?thesis
      unfolding s' by (intro rendezvous_ok_put_http ok) (auto simp: http_ok_def result_for_def)
  next
    case (H_Serve a)
    obtain r conn w where "serve_http X a (ht_request t) (ht_conn t) (rv_world s) = (r, conn, w)"
      by (metis surj_pair)
    with run H_Serve have s': "s' = put_http i (t\<lparr>ht_conn := conn, ht_pc := H_Deliver r\<rparr>)
        (s\<lparr>rv_world := w, rv_runs := rv_runs s @ [(a, r)]\<rparr>)"
      by (simp add: http_runs_def)
    have "rendezvous_ok (s\<lparr>rv_world := w, rv_runs := rv_runs s @ [(a, r)]\<rparr>)"
      using ok by (auto simp: rendezvous_ok_def intro: proxy_ok_mono ok_mono_runs)
    moreover have "http_ok (slot_keys (rv_proxy s)) (rv_runs s @ [(a, r)]) (t\<lparr>ht_conn := conn, ht_pc := H_Deliver r\<rparr>)"
      using h H_Serve by (auto simp: http_ok_def result_for_def)
    ultimately show ?thesis
      unfolding s' using rendezvous_ok_put_http
        [of "s\<lparr>rv_world := w, rv_runs := rv_runs s @ [(a, r)]\<rparr>" "rv_proxy s" _ i] proxy_ok_mono [OF p]
      by simp
  next
    case (H_Deliver r)
    with run obtain q where q: "send_done (ht_slot t) r (rv_proxy s) = Some q"
      and s': "s' = put_http i (t\<lparr>ht_pc := H_Delete Served\<rparr>) (s\<lparr>rv_proxy := q\<rparr>)"
      by (auto simp: http_runs_def split: option.splits)
    from send_done_ok [OF q p] h H_Deliver show ?thesis
      unfolding s' by (intro rendezvous_ok_put_http ok) (auto simp: http_ok_def)
  next
    case (H_Delete e)
    with run h p show ?thesis
      by (auto simp: http_runs_def Let_def http_ok_def intro!: rendezvous_ok_put_http ok delete_pending_ok)
  next
    case (H_End e)
    with run show ?thesis by (simp add: http_runs_def)
  qed
qed

lemma rendezvous_ok_grpc_runs:
  assumes ok: "rendezvous_ok s" and t: "t \<in> set (rv_grpc s)" and run: "grpc_runs j t s = Some s'"
  shows "rendezvous_ok s'"
proof -
  from ok have p: "proxy_ok (rv_runs s) (rv_proxy s)" by (simp add: rendezvous_ok_def)
  from ok t have h: "grpc_ok (slot_keys (rv_proxy s)) (rv_runs s) t" by (simp add: rendezvous_ok_def)
  show ?thesis
  proof (cases "gt_pc t")
    case G_Send
    with run obtain q where q: "send_grpc (gt_slot t) (gt_arrival t) (rv_proxy s) = Some q"
      and s': "s' = put_grpc j (t\<lparr>gt_pc := G_Select\<rparr>) (s\<lparr>rv_proxy := q\<rparr>)"
      by (auto simp: grpc_runs_def split: option.splits)
    from send_grpc_ok [OF q p] h show ?thesis
      unfolding s' by (intro rendezvous_ok_put_grpc ok) (auto simp: grpc_ok_def)
  next
    case G_Select
    with run obtain r q where q: "receive_done (gt_slot t) (rv_proxy s) = Some (r, q)"
      and s': "s' = put_grpc j (t\<lparr>gt_pc := G_End (Inr (hr_status r, hr_mc r))\<rparr>) (s\<lparr>rv_proxy := q\<rparr>)"
      by (auto simp: grpc_runs_def split: option.splits)
    from receive_done_ok [OF q p] h show ?thesis
      unfolding s' by (intro rendezvous_ok_put_grpc ok) (auto simp: grpc_ok_def)
  next
    case G_Expired
    with run h p show ?thesis
      by (auto simp: grpc_runs_def grpc_ok_def intro!: rendezvous_ok_put_grpc ok delete_pending_ok)
  next
    case (G_End r)
    with run show ?thesis by (simp add: grpc_runs_def)
  qed
qed

lemma rendezvous_ok_exec:
  assumes ok: "rendezvous_ok s" and run: "rv_exec X ev s = Some s'"
  shows "rendezvous_ok s'"
proof -
  have p: "proxy_ok (rv_runs s) (rv_proxy s)" using ok by (simp add: rendezvous_ok_def)
  have h: "http_ok (slot_keys (rv_proxy s)) (rv_runs s) t" if "t \<in> set (rv_http s)" for t
    using ok that by (simp add: rendezvous_ok_def)
  have g: "grpc_ok (slot_keys (rv_proxy s)) (rv_runs s) t" if "t \<in> set (rv_grpc s)" for t
    using ok that by (simp add: rendezvous_ok_def)
  have ph: "rendezvous_ok (put_http i t s)" if "http_ok (slot_keys (rv_proxy s)) (rv_runs s) t" for i t
    using rendezvous_ok_put_http [OF ok p refl that] by simp
  have pg: "rendezvous_ok (put_grpc i t s)" if "grpc_ok (slot_keys (rv_proxy s)) (rv_runs s) t" for i t
    using rendezvous_ok_put_grpc [OF ok p refl that] by simp
  show ?thesis
  proof (cases ev)
    case (Http_Arrives r)
    with run ok show ?thesis by (auto simp: rv_exec_def rendezvous_ok_http_arrives)
  next
    case (Grpc_Arrives a)
    with run ok show ?thesis by (auto simp: rv_exec_def rendezvous_ok_grpc_arrives)
  next
    case (Http_Runs i)
    with run rendezvous_ok_http_runs [OF ok, of "rv_http s ! i"] show ?thesis
      by (auto simp: rv_exec_def split: if_splits)
  next
    case (Http_Client_Gone i)
    with run h [of "rv_http s ! i"] show ?thesis
      by (auto simp: rv_exec_def http_ok_def split: if_splits intro!: ph)
  next
    case (Http_Timer i)
    with run h [of "rv_http s ! i"] show ?thesis
      by (auto simp: rv_exec_def http_ok_def split: if_splits intro!: ph)
  next
    case (Grpc_Runs j)
    with run rendezvous_ok_grpc_runs [OF ok, of "rv_grpc s ! j"] show ?thesis
      by (auto simp: rv_exec_def split: if_splits)
  next
    case (Grpc_Timer j)
    with run g [of "rv_grpc s ! j"] show ?thesis
      by (auto simp: rv_exec_def grpc_ok_def split: if_splits intro!: pg)
  qed
qed

text \<open>
  Every arrival is in one place: not yet sent, in a channel, with the goroutine that runs its
  handler, or among the recorded runs.
\<close>

definition unsent :: "'cl grpc_task \<Rightarrow> 'cl grpc_arrival list" where
  "unsent t = (if gt_pc t = G_Send then [gt_arrival t] else [])"

definition serving :: "'cl http_task \<Rightarrow> 'cl grpc_arrival list" where
  "serving t = (case ht_pc t of H_Serve a \<Rightarrow> [a] | _ \<Rightarrow> [])"

definition accounted :: "('cl, 'w) rendezvous \<Rightarrow> 'cl grpc_arrival multiset" where
  "accounted s =
     mset (concat (map unsent (rv_grpc s))) + mset (concat (map pi_grpc (px_heap (rv_proxy s)))) +
     mset (concat (map serving (rv_http s))) + mset (map fst (rv_runs s))"

definition all_accounted :: "('cl, 'w) rendezvous \<Rightarrow> bool" where
  "all_accounted s \<longleftrightarrow> mset (map gt_arrival (rv_grpc s)) = accounted s"

lemma arrivals_update:
  "j < length xs \<Longrightarrow> gt_arrival y = gt_arrival (xs ! j) \<Longrightarrow> map gt_arrival (xs[j := y]) = map gt_arrival xs"
  by (metis list_update_id map_update)

lemma get_or_create_arrivals:
  "get_or_create_pending iid p = (k, p') \<Longrightarrow> concat (map pi_grpc (px_heap p')) = concat (map pi_grpc (px_heap p))"
  by (auto simp: get_or_create_pending_def Let_def split: option.splits)

lemma send_grpc_arrivals:
  "send_grpc k a p = Some p' \<Longrightarrow> k < length (px_heap p) \<Longrightarrow>
   mset (concat (map pi_grpc (px_heap p'))) = add_mset a (mset (concat (map pi_grpc (px_heap p))))"
  by (auto simp: send_grpc_def split: if_splits intro!: concat_update_add)

lemma receive_grpc_arrivals:
  "receive_grpc k p = Some (a, p') \<Longrightarrow> k < length (px_heap p) \<Longrightarrow>
   mset (concat (map pi_grpc (px_heap p))) = add_mset a (mset (concat (map pi_grpc (px_heap p'))))"
  by (auto simp: receive_grpc_def split: list.splits intro!: concat_update_drop)

lemma send_done_arrivals:
  "send_done k r p = Some p' \<Longrightarrow> k < length (px_heap p) \<Longrightarrow>
   mset (concat (map pi_grpc (px_heap p'))) = mset (concat (map pi_grpc (px_heap p)))"
  by (auto simp: send_done_def split: if_splits intro!: concat_update_same)

lemma receive_done_arrivals:
  "receive_done k p = Some (r, p') \<Longrightarrow> k < length (px_heap p) \<Longrightarrow>
   mset (concat (map pi_grpc (px_heap p'))) = mset (concat (map pi_grpc (px_heap p)))"
  by (auto simp: receive_done_def split: list.splits intro!: concat_update_same)

lemma accounted_http_same:
  assumes "all_accounted s" and "i < length (rv_http s)" and "serving t = serving (rv_http s ! i)"
    and "mset (concat (map pi_grpc (px_heap p))) = mset (concat (map pi_grpc (px_heap (rv_proxy s))))"
  shows "all_accounted (put_http i t (s\<lparr>rv_proxy := p\<rparr>))"
  using assms concat_update_same [of i "rv_http s" serving t]
  by (simp add: all_accounted_def accounted_def put_http_def)

lemma accounted_grpc_same:
  assumes "all_accounted s" and "j < length (rv_grpc s)" and "unsent t = unsent (rv_grpc s ! j)"
    and "gt_arrival t = gt_arrival (rv_grpc s ! j)"
    and "mset (concat (map pi_grpc (px_heap p))) = mset (concat (map pi_grpc (px_heap (rv_proxy s))))"
  shows "all_accounted (put_grpc j t (s\<lparr>rv_proxy := p\<rparr>))"
  using assms concat_update_same [of j "rv_grpc s" unsent t]
  by (simp add: all_accounted_def accounted_def put_grpc_def arrivals_update)

lemma accounted_http_runs:
  assumes acc: "all_accounted s" and i: "i < length (rv_http s)" and ok: "rendezvous_ok s"
    and run: "http_runs X i (rv_http s ! i) s = Some s'"
  shows "all_accounted s'"
proof -
  let ?t = "rv_http s ! i"
  have h: "http_ok (slot_keys (rv_proxy s)) (rv_runs s) ?t" using ok i by (simp add: rendezvous_ok_def)
  show ?thesis
  proof (cases "ht_pc ?t")
    case H_Select
    with run obtain a q where q: "receive_grpc (ht_slot ?t) (rv_proxy s) = Some (a, q)"
      and s': "s' = put_http i (?t\<lparr>ht_pc := H_Serve a\<rparr>) (s\<lparr>rv_proxy := q\<rparr>)"
      by (auto simp: http_runs_def split: option.splits)
    from acc receive_grpc_arrivals [OF q] h i H_Select
      concat_update_add [of i "rv_http s" serving "?t\<lparr>ht_pc := H_Serve a\<rparr>" a]
    show ?thesis
      by (simp add: s' all_accounted_def accounted_def put_http_def serving_def http_ok_def)
  next
    case H_Disconnected
    with run h i send_done_arrivals show ?thesis
      by (auto simp: http_runs_def http_ok_def serving_def split: option.splits intro!: accounted_http_same acc)
  next
    case (H_Serve a)
    obtain r conn w where "serve_http X a (ht_request ?t) (ht_conn ?t) (rv_world s) = (r, conn, w)"
      by (metis surj_pair)
    with run H_Serve have s': "s' = put_http i (?t\<lparr>ht_conn := conn, ht_pc := H_Deliver r\<rparr>)
        (s\<lparr>rv_world := w, rv_runs := rv_runs s @ [(a, r)]\<rparr>)"
      by (simp add: http_runs_def)
    from acc i H_Serve concat_update_drop [of i "rv_http s" serving a "?t\<lparr>ht_conn := conn, ht_pc := H_Deliver r\<rparr>"]
    show ?thesis by (simp add: s' all_accounted_def accounted_def put_http_def serving_def)
  next
    case (H_Deliver r)
    with run h i send_done_arrivals show ?thesis
      by (auto simp: http_runs_def http_ok_def serving_def split: option.splits intro!: accounted_http_same acc)
  next
    case (H_Delete e)
    with run i show ?thesis
      by (auto simp: http_runs_def Let_def serving_def intro!: accounted_http_same acc)
  next
    case (H_End e)
    with run show ?thesis by (simp add: http_runs_def)
  qed
qed

lemma accounted_grpc_runs:
  assumes acc: "all_accounted s" and j: "j < length (rv_grpc s)" and ok: "rendezvous_ok s"
    and run: "grpc_runs j (rv_grpc s ! j) s = Some s'"
  shows "all_accounted s'"
proof -
  let ?t = "rv_grpc s ! j"
  have h: "grpc_ok (slot_keys (rv_proxy s)) (rv_runs s) ?t" using ok j by (simp add: rendezvous_ok_def)
  then have k: "gt_slot ?t < length (px_heap (rv_proxy s))" by (simp add: grpc_ok_def)
  show ?thesis
  proof (cases "gt_pc ?t")
    case G_Send
    with run obtain q where q: "send_grpc (gt_slot ?t) (gt_arrival ?t) (rv_proxy s) = Some q"
      and s': "s' = put_grpc j (?t\<lparr>gt_pc := G_Select\<rparr>) (s\<lparr>rv_proxy := q\<rparr>)"
      by (auto simp: grpc_runs_def split: option.splits)
    from acc send_grpc_arrivals [OF q k] j G_Send
      concat_update_drop [of j "rv_grpc s" unsent "gt_arrival ?t" "?t\<lparr>gt_pc := G_Select\<rparr>"]
    show ?thesis
      by (simp add: s' all_accounted_def accounted_def put_grpc_def unsent_def arrivals_update)
  next
    case G_Select
    with run j k receive_done_arrivals show ?thesis
      by (auto simp: grpc_runs_def unsent_def split: option.splits intro!: accounted_grpc_same acc)
  next
    case G_Expired
    with run j show ?thesis
      by (auto simp: grpc_runs_def unsent_def intro!: accounted_grpc_same acc)
  next
    case (G_End r)
    with run show ?thesis by (simp add: grpc_runs_def)
  qed
qed

lemma accounted_exec:
  assumes acc: "all_accounted s" and ok: "rendezvous_ok s" and run: "rv_exec X ev s = Some s'"
  shows "all_accounted s'"
proof (cases ev)
  case (Http_Arrives r)
  with run acc show ?thesis
    by (auto simp: rv_exec_def http_arrives_def Let_def all_accounted_def accounted_def serving_def
        get_or_create_arrivals split: if_splits prod.splits)
next
  case (Grpc_Arrives a)
  with run acc show ?thesis
    by (auto simp: rv_exec_def grpc_arrives_def all_accounted_def accounted_def unsent_def
        get_or_create_arrivals split: prod.splits)
next
  case (Http_Runs i)
  with run show ?thesis by (auto simp: rv_exec_def split: if_splits intro: accounted_http_runs acc ok)
next
  case (Http_Client_Gone i)
  with run accounted_http_same [OF acc, of i _ "rv_proxy s"] show ?thesis
    by (auto simp: rv_exec_def serving_def split: if_splits)
next
  case (Http_Timer i)
  with run accounted_http_same [OF acc, of i _ "rv_proxy s"] show ?thesis
    by (auto simp: rv_exec_def serving_def split: if_splits)
next
  case (Grpc_Runs j)
  with run show ?thesis by (auto simp: rv_exec_def split: if_splits intro: accounted_grpc_runs acc ok)
next
  case (Grpc_Timer j)
  with run accounted_grpc_same [OF acc, of j _ "rv_proxy s"] show ?thesis
    by (auto simp: rv_exec_def unsent_def split: if_splits)
qed

text \<open>
  How full the channels can be: a result in a slot was delivered there by an HTTP goroutine, an
  arrival was sent there by a gRPC goroutine.
\<close>

definition delivered_to :: "'cl http_task \<Rightarrow> nat list" where
  "delivered_to t =
     (case ht_pc t of
        H_Delete e \<Rightarrow> if e \<in> {Served, Client_Left} then [ht_slot t] else []
      | H_End e \<Rightarrow> if e \<in> {Served, Client_Left} then [ht_slot t] else []
      | _ \<Rightarrow> [])"

definition sent_to :: "'cl grpc_task \<Rightarrow> nat list" where
  "sent_to t = (if gt_pc t = G_Send then [] else [gt_slot t])"

definition within :: "('cl pending_invocation \<Rightarrow> nat) \<Rightarrow> 'cl pending_invocation list \<Rightarrow> nat list \<Rightarrow> bool" where
  "within f heap ks \<longleftrightarrow> (\<forall>k < length heap. f (heap ! k) \<le> count (mset ks) k)"

definition channels_ok :: "('cl, 'w) rendezvous \<Rightarrow> bool" where
  "channels_ok s \<longleftrightarrow>
     within (\<lambda>sl. length (pi_done sl)) (px_heap (rv_proxy s)) (concat (map delivered_to (rv_http s))) \<and>
     within (\<lambda>sl. length (pi_grpc sl)) (px_heap (rv_proxy s)) (concat (map sent_to (rv_grpc s)))"

lemma within_mono: "within f heap ks \<Longrightarrow> mset ks \<subseteq># mset ks' \<Longrightarrow> within f heap ks'"
  by (auto simp: within_def intro: order_trans mset_subset_eq_count)

lemma within_zero:
  assumes "within f heap ks" and "k < length heap" and "count (mset ks) k = 0"
  shows "f (heap ! k) = 0"
  using assms by (metis le_zero_eq within_def)

lemma within_update:
  assumes "within f heap ks" and "f x \<le> f (heap ! k)"
  shows "within f (heap[k := x]) ks"
  unfolding within_def
proof (intro allI impI)
  fix i assume "i < length (heap[k := x])"
  with assms show "f (heap[k := x] ! i) \<le> count (mset ks) i"
    by (cases "i = k") (auto simp: within_def intro: order_trans)
qed

lemma within_update_Suc:
  assumes "within f heap ks" and "f x \<le> Suc (f (heap ! k))" and "mset ks' = add_mset k (mset ks)"
  shows "within f (heap[k := x]) ks'"
  unfolding within_def
proof (intro allI impI)
  fix i assume i: "i < length (heap[k := x])"
  then have "f (heap ! i) \<le> count (mset ks) i" using assms(1) by (simp add: within_def)
  with i assms(2,3) show "f (heap[k := x] ! i) \<le> count (mset ks') i"
    by (cases "i = k") auto
qed

lemma within_snoc: "within f heap ks \<Longrightarrow> f x = 0 \<Longrightarrow> within f (heap @ [x]) ks"
  by (auto simp: within_def nth_append less_Suc_eq)

lemma within_get_or_create:
  assumes "get_or_create_pending iid p = (k, p')" and "within f (px_heap p) ks"
    and "f \<lparr>pi_key = iid, pi_grpc = [], pi_done = []\<rparr> = 0"
  shows "within f (px_heap p') ks"
  using assms by (auto simp: get_or_create_pending_def Let_def within_snoc split: option.splits)

lemma send_done_within:
  assumes "send_done k r p = Some p'" and "within (\<lambda>sl. length (pi_done sl)) (px_heap p) ks"
    and "within (\<lambda>sl. length (pi_grpc sl)) (px_heap p) js" and "mset ks' = add_mset k (mset ks)"
  shows "within (\<lambda>sl. length (pi_done sl)) (px_heap p') ks' \<and> within (\<lambda>sl. length (pi_grpc sl)) (px_heap p') js"
proof -
  let ?x = "(px_heap p ! k)\<lparr>pi_done := pi_done (px_heap p ! k) @ [r]\<rparr>"
  from assms(1) have "px_heap p' = (px_heap p)[k := ?x]" by (auto simp: send_done_def split: if_splits)
  with within_update_Suc [OF assms(2) _ assms(4), of ?x] within_update [OF assms(3), of ?x k]
  show ?thesis by simp
qed

lemma send_grpc_within:
  assumes "send_grpc k a p = Some p'" and "within (\<lambda>sl. length (pi_done sl)) (px_heap p) ks"
    and "within (\<lambda>sl. length (pi_grpc sl)) (px_heap p) js" and "mset js' = add_mset k (mset js)"
  shows "within (\<lambda>sl. length (pi_done sl)) (px_heap p') ks \<and> within (\<lambda>sl. length (pi_grpc sl)) (px_heap p') js'"
proof -
  let ?x = "(px_heap p ! k)\<lparr>pi_grpc := pi_grpc (px_heap p ! k) @ [a]\<rparr>"
  from assms(1) have "px_heap p' = (px_heap p)[k := ?x]" by (auto simp: send_grpc_def split: if_splits)
  with within_update_Suc [OF assms(3) _ assms(4), of ?x] within_update [OF assms(2), of ?x k]
  show ?thesis by simp
qed

lemma receive_heap:
  assumes "receive_done k p = Some (r, p') \<or> receive_grpc k p = Some (a, p')"
  shows "\<exists>x. px_heap p' = (px_heap p)[k := x] \<and> length (pi_done x) \<le> length (pi_done (px_heap p ! k)) \<and>
    length (pi_grpc x) \<le> length (pi_grpc (px_heap p ! k))"
  using assms by (force simp: receive_done_def receive_grpc_def split: list.splits)

lemma receive_within:
  assumes "receive_done k p = Some (r, p') \<or> receive_grpc k p = Some (a, p')"
    and "within (\<lambda>sl. length (pi_done sl)) (px_heap p) ks" and "within (\<lambda>sl. length (pi_grpc sl)) (px_heap p) js"
  shows "within (\<lambda>sl. length (pi_done sl)) (px_heap p') ks \<and> within (\<lambda>sl. length (pi_grpc sl)) (px_heap p') js"
proof -
  obtain x where "px_heap p' = (px_heap p)[k := x]" "length (pi_done x) \<le> length (pi_done (px_heap p ! k))"
    "length (pi_grpc x) \<le> length (pi_grpc (px_heap p ! k))"
    using receive_heap [OF assms(1)] by blast
  with within_update [OF assms(2), of x k] within_update [OF assms(3), of x k] show ?thesis by simp
qed

lemma channels_http_runs:
  assumes ch: "channels_ok s" and i: "i < length (rv_http s)" and run: "http_runs X i (rv_http s ! i) s = Some s'"
  shows "channels_ok s'"
proof -
  let ?t = "rv_http s ! i"
  note upd = concat_update_same [OF i, of delivered_to] concat_update_add [OF i, of delivered_to _ "ht_slot ?t"]
  have same: "within f heap (concat (map delivered_to ((rv_http s)[i := t])))"
    if "within f heap (concat (map delivered_to (rv_http s)))" "delivered_to t = delivered_to ?t" for f heap t
    by (rule within_mono [OF that(1)]) (simp add: upd(1) that(2))
  from ch have ch1: "within (\<lambda>sl. length (pi_done sl)) (px_heap (rv_proxy s)) (concat (map delivered_to (rv_http s)))"
    and ch2: "within (\<lambda>sl. length (pi_grpc sl)) (px_heap (rv_proxy s)) (concat (map sent_to (rv_grpc s)))"
    by (simp_all add: channels_ok_def)
  show ?thesis
  proof (cases "ht_pc ?t")
    case H_Select
    with run obtain a q where q: "receive_grpc (ht_slot ?t) (rv_proxy s) = Some (a, q)"
      and s': "s' = put_http i (?t\<lparr>ht_pc := H_Serve a\<rparr>) (s\<lparr>rv_proxy := q\<rparr>)"
      by (auto simp: http_runs_def split: option.splits)
    from receive_within [OF disjI2 [OF q] ch1 ch2] H_Select show ?thesis
      by (simp add: s' channels_ok_def put_http_def same delivered_to_def)
  next
    case H_Disconnected
    with run obtain q where q: "send_done (ht_slot ?t) disconnected (rv_proxy s) = Some q"
      and s': "s' = put_http i (?t\<lparr>ht_pc := H_Delete Client_Left\<rparr>) (s\<lparr>rv_proxy := q\<rparr>)"
      by (auto simp: http_runs_def split: option.splits)
    have "mset (concat (map delivered_to ((rv_http s)[i := ?t\<lparr>ht_pc := H_Delete Client_Left\<rparr>]))) =
        add_mset (ht_slot ?t) (mset (concat (map delivered_to (rv_http s))))"
      by (rule upd(2)) (simp add: delivered_to_def H_Disconnected)
    from send_done_within [OF q ch1 ch2 this] show ?thesis
      by (simp add: s' channels_ok_def put_http_def)
  next
    case (H_Serve a)
    with run ch1 ch2 show ?thesis
      by (auto simp: http_runs_def channels_ok_def put_http_def same delivered_to_def split: prod.splits)
  next
    case (H_Deliver r)
    with run obtain q where q: "send_done (ht_slot ?t) r (rv_proxy s) = Some q"
      and s': "s' = put_http i (?t\<lparr>ht_pc := H_Delete Served\<rparr>) (s\<lparr>rv_proxy := q\<rparr>)"
      by (auto simp: http_runs_def split: option.splits)
    have "mset (concat (map delivered_to ((rv_http s)[i := ?t\<lparr>ht_pc := H_Delete Served\<rparr>]))) =
        add_mset (ht_slot ?t) (mset (concat (map delivered_to (rv_http s))))"
      by (rule upd(2)) (simp add: delivered_to_def H_Deliver)
    from send_done_within [OF q ch1 ch2 this] show ?thesis
      by (simp add: s' channels_ok_def put_http_def)
  next
    case (H_Delete e)
    with run ch1 ch2 show ?thesis
      by (auto simp: http_runs_def Let_def channels_ok_def put_http_def same delivered_to_def)
  next
    case (H_End e)
    with run show ?thesis by (simp add: http_runs_def)
  qed
qed

lemma channels_grpc_runs:
  assumes ch: "channels_ok s" and j: "j < length (rv_grpc s)" and run: "grpc_runs j (rv_grpc s ! j) s = Some s'"
  shows "channels_ok s'"
proof -
  let ?t = "rv_grpc s ! j"
  note upd = concat_update_same [OF j, of sent_to] concat_update_add [OF j, of sent_to _ "gt_slot ?t"]
  have same: "within f heap (concat (map sent_to ((rv_grpc s)[j := t])))"
    if "within f heap (concat (map sent_to (rv_grpc s)))" "sent_to t = sent_to ?t" for f heap t
    by (rule within_mono [OF that(1)]) (simp add: upd(1) that(2))
  from ch have ch1: "within (\<lambda>sl. length (pi_done sl)) (px_heap (rv_proxy s)) (concat (map delivered_to (rv_http s)))"
    and ch2: "within (\<lambda>sl. length (pi_grpc sl)) (px_heap (rv_proxy s)) (concat (map sent_to (rv_grpc s)))"
    by (simp_all add: channels_ok_def)
  show ?thesis
  proof (cases "gt_pc ?t")
    case G_Send
    with run obtain q where q: "send_grpc (gt_slot ?t) (gt_arrival ?t) (rv_proxy s) = Some q"
      and s': "s' = put_grpc j (?t\<lparr>gt_pc := G_Select\<rparr>) (s\<lparr>rv_proxy := q\<rparr>)"
      by (auto simp: grpc_runs_def split: option.splits)
    have "mset (concat (map sent_to ((rv_grpc s)[j := ?t\<lparr>gt_pc := G_Select\<rparr>]))) =
        add_mset (gt_slot ?t) (mset (concat (map sent_to (rv_grpc s))))"
      by (rule upd(2)) (simp add: sent_to_def G_Send)
    from send_grpc_within [OF q ch1 ch2 this] show ?thesis
      by (simp add: s' channels_ok_def put_grpc_def)
  next
    case G_Select
    with run obtain r q where q: "receive_done (gt_slot ?t) (rv_proxy s) = Some (r, q)"
      and s': "s' = put_grpc j (?t\<lparr>gt_pc := G_End (Inr (hr_status r, hr_mc r))\<rparr>) (s\<lparr>rv_proxy := q\<rparr>)"
      by (auto simp: grpc_runs_def split: option.splits)
    from receive_within [OF disjI1 [OF q] ch1 ch2] G_Select show ?thesis
      by (simp add: s' channels_ok_def put_grpc_def same sent_to_def)
  next
    case G_Expired
    with run ch1 ch2 show ?thesis
      by (auto simp: grpc_runs_def channels_ok_def put_grpc_def same sent_to_def)
  next
    case (G_End r)
    with run show ?thesis by (simp add: grpc_runs_def)
  qed
qed

lemma channels_put_http:
  assumes "channels_ok s" and "i < length (rv_http s)" and "delivered_to t = delivered_to (rv_http s ! i)"
  shows "channels_ok (put_http i t s)"
  using assms concat_update_same [of i "rv_http s" delivered_to t]
  by (auto simp: channels_ok_def put_http_def intro: within_mono)

lemma channels_put_grpc:
  assumes "channels_ok s" and "j < length (rv_grpc s)" and "sent_to t = sent_to (rv_grpc s ! j)"
  shows "channels_ok (put_grpc j t s)"
  using assms concat_update_same [of j "rv_grpc s" sent_to t]
  by (auto simp: channels_ok_def put_grpc_def intro: within_mono)

lemma channels_exec:
  assumes ch: "channels_ok s" and run: "rv_exec X ev s = Some s'"
  shows "channels_ok s'"
proof (cases ev)
  case (Http_Arrives r)
  with run ch show ?thesis
    by (auto simp: rv_exec_def http_arrives_def Let_def channels_ok_def delivered_to_def
        split: if_splits prod.splits intro: within_get_or_create)
next
  case (Grpc_Arrives a)
  with run ch show ?thesis
    by (auto simp: rv_exec_def grpc_arrives_def channels_ok_def sent_to_def
        split: prod.splits intro: within_get_or_create)
next
  case (Http_Runs i)
  with run show ?thesis by (auto simp: rv_exec_def split: if_splits intro: channels_http_runs ch)
next
  case (Http_Client_Gone i)
  with run show ?thesis
    by (auto simp: rv_exec_def delivered_to_def split: if_splits intro!: channels_put_http ch)
next
  case (Http_Timer i)
  with run show ?thesis
    by (auto simp: rv_exec_def delivered_to_def split: if_splits intro!: channels_put_http ch)
next
  case (Grpc_Runs j)
  with run show ?thesis by (auto simp: rv_exec_def split: if_splits intro: channels_grpc_runs ch)
next
  case (Grpc_Timer j)
  with run show ?thesis
    by (auto simp: rv_exec_def sent_to_def split: if_splits intro!: channels_put_grpc ch)
qed

text \<open>The recorded runs are runs of the handler on requests that carried the arrival's id.\<close>

definition served_ok :: "('c, 'cl, 'w, 's, 'f) http_env \<Rightarrow> ('cl, 'w) rendezvous \<Rightarrow> bool" where
  "served_ok X s \<longleftrightarrow>
     (\<forall>t \<in> set (rv_http s). ht_id t = header_get (ie_codec X) correlation_header (ht_request t)) \<and>
     (\<forall>(a, r) \<in> set (rv_runs s). \<exists>rq conn w.
        header_get (ie_codec X) correlation_header rq = arrival_id a \<and> r = fst (serve_http X a rq conn w))"

lemma served_put_http:
  assumes "served_ok X s" and "ht_id t = header_get (ie_codec X) correlation_header (ht_request t)"
  shows "served_ok X (put_http i t s)"
  using assms set_update_subset_insert [of "rv_http s" i t]
  by (auto simp: served_ok_def put_http_def)

lemma served_http_runs:
  assumes ok: "served_ok X s" and t: "t \<in> set (rv_http s)" and inv: "rendezvous_ok s"
    and run: "http_runs X i t s = Some s'"
  shows "served_ok X s'"
proof -
  from ok t have id: "ht_id t = header_get (ie_codec X) correlation_header (ht_request t)"
    by (simp add: served_ok_def)
  have px: "served_ok X (s\<lparr>rv_proxy := p\<rparr>)" for p using ok by (simp add: served_ok_def)
  show ?thesis
  proof (cases "ht_pc t")
    case (H_Serve a)
    obtain r conn w where sv: "serve_http X a (ht_request t) (ht_conn t) (rv_world s) = (r, conn, w)"
      by (metis surj_pair)
    with run H_Serve have s': "s' = put_http i (t\<lparr>ht_conn := conn, ht_pc := H_Deliver r\<rparr>)
        (s\<lparr>rv_world := w, rv_runs := rv_runs s @ [(a, r)]\<rparr>)"
      by (simp add: http_runs_def)
    from inv t have "http_ok (slot_keys (rv_proxy s)) (rv_runs s) t" by (simp add: rendezvous_ok_def)
    with H_Serve id have "header_get (ie_codec X) correlation_header (ht_request t) = arrival_id a"
      by (simp add: http_ok_def)
    moreover have "r = fst (serve_http X a (ht_request t) (ht_conn t) (rv_world s))" using sv by simp
    ultimately have "\<exists>rq conn w. header_get (ie_codec X) correlation_header rq = arrival_id a \<and>
        r = fst (serve_http X a rq conn w)" by blast
    with ok have "served_ok X (s\<lparr>rv_world := w, rv_runs := rv_runs s @ [(a, r)]\<rparr>)"
      by (auto simp: served_ok_def)
    then show ?thesis unfolding s' by (rule served_put_http) (simp add: id)
  qed (use run id px in \<open>auto simp: http_runs_def Let_def split: option.splits intro!: served_put_http\<close>)
qed

lemma served_exec:
  assumes ok: "served_ok X s" and inv: "rendezvous_ok s" and run: "rv_exec X ev s = Some s'"
  shows "served_ok X s'"
proof (cases ev)
  case (Http_Runs i)
  with run served_http_runs [OF ok _ inv, of "rv_http s ! i" i s'] show ?thesis
    by (auto simp: rv_exec_def split: if_splits)
next
  case (Grpc_Runs j)
  with run ok show ?thesis
    by (auto simp: rv_exec_def grpc_runs_def put_grpc_def served_ok_def split: if_splits grpc_pc.splits option.splits)
next
  case (Http_Client_Gone i)
  with run ok show ?thesis
    by (auto simp: rv_exec_def served_ok_def put_http_def split: if_splits dest!: set_update_subset_insert [THEN subsetD])
next
  case (Http_Timer i)
  with run ok show ?thesis
    by (auto simp: rv_exec_def served_ok_def put_http_def split: if_splits dest!: set_update_subset_insert [THEN subsetD])
qed (use run ok in \<open>auto simp: rv_exec_def http_arrives_def grpc_arrives_def put_grpc_def served_ok_def Let_def
    split: if_splits prod.splits\<close>)

definition rv_invariant :: "('c, 'cl, 'w, 's, 'f) http_env \<Rightarrow> ('cl, 'w) rendezvous \<Rightarrow> bool" where
  "rv_invariant X s \<longleftrightarrow> rendezvous_ok s \<and> all_accounted s \<and> channels_ok s \<and> served_ok X s"

interpretation rv: invariant_runs "rv_exec X" "rendezvous_start w" "rv_invariant X" for X w
proof
  show "rv_invariant X (rendezvous_start w)"
    by (simp add: rv_invariant_def rendezvous_ok_def proxy_ok_def table_ok_def all_accounted_def accounted_def
        channels_ok_def within_def served_ok_def rendezvous_start_def)
next
  fix s e t assume "rv_invariant X s" "rv_exec X e s = Some t"
  then show "rv_invariant X t"
    by (auto simp: rv_invariant_def intro: rendezvous_ok_exec accounted_exec channels_exec served_exec)
qed

subsection \<open>Progress\<close>

text \<open>How many operations a goroutine has left at most.\<close>

definition http_left :: "'cl http_task \<Rightarrow> nat" where
  "http_left t =
     (case ht_pc t of H_Select \<Rightarrow> 4 | H_Serve a \<Rightarrow> 3 | H_Deliver r \<Rightarrow> 2 | H_Disconnected \<Rightarrow> 2
      | H_Delete e \<Rightarrow> 1 | H_End e \<Rightarrow> 0)"

definition grpc_left :: "'cl grpc_task \<Rightarrow> nat" where
  "grpc_left t = (case gt_pc t of G_Send \<Rightarrow> 3 | G_Select \<Rightarrow> 2 | G_Expired \<Rightarrow> 1 | G_End r \<Rightarrow> 0)"

definition operations_left :: "('cl, 'w) rendezvous \<Rightarrow> nat" where
  "operations_left s = sum_list (map http_left (rv_http s)) + sum_list (map grpc_left (rv_grpc s))"

definition rv_internal :: "'cl rv_event \<Rightarrow> bool" where
  "rv_internal ev = (case ev of Http_Arrives r \<Rightarrow> False | Grpc_Arrives a \<Rightarrow> False | _ \<Rightarrow> True)"

lemma http_left_simps [simp]:
  "ht_pc t = H_Select \<Longrightarrow> http_left t = 4" "ht_pc t = H_Serve a \<Longrightarrow> http_left t = 3"
  "ht_pc t = H_Deliver r \<Longrightarrow> http_left t = 2" "ht_pc t = H_Disconnected \<Longrightarrow> http_left t = 2"
  "ht_pc t = H_Delete e \<Longrightarrow> http_left t = 1" "ht_pc t = H_End e \<Longrightarrow> http_left t = 0"
  by (simp_all add: http_left_def)

lemma grpc_left_simps [simp]:
  "gt_pc t = G_Send \<Longrightarrow> grpc_left t = 3" "gt_pc t = G_Select \<Longrightarrow> grpc_left t = 2"
  "gt_pc t = G_Expired \<Longrightarrow> grpc_left t = 1" "gt_pc t = G_End q \<Longrightarrow> grpc_left t = 0"
  by (simp_all add: grpc_left_def)

lemma http_left_0: "http_left t = 0 \<longleftrightarrow> (\<exists>e. ht_pc t = H_End e)"
  by (cases "ht_pc t") auto

lemma grpc_left_0: "grpc_left t = 0 \<longleftrightarrow> (\<exists>r. gt_pc t = G_End r)"
  by (cases "gt_pc t") auto

lemma http_runs_result:
  assumes "http_runs X i t s = Some s'"
  shows "\<exists>t'. rv_http s' = (rv_http s)[i := t'] \<and> http_left t' < http_left t \<and> rv_grpc s' = rv_grpc s \<and>
    ht_id t' = ht_id t \<and> (ht_pc t = H_End Bad_Request \<longrightarrow> ht_pc t' = H_End Bad_Request)"
  using assms
  by (cases "ht_pc t"; force simp: http_runs_def put_http_def Let_def split: option.splits prod.splits)

lemma grpc_runs_result:
  assumes "grpc_runs j t s = Some s'"
  shows "\<exists>t'. rv_grpc s' = (rv_grpc s)[j := t'] \<and> grpc_left t' < grpc_left t \<and> rv_http s' = rv_http s \<and>
    gt_arrival t' = gt_arrival t"
  using assms
  by (cases "gt_pc t"; force simp: grpc_runs_def put_grpc_def split: option.splits)

interpretation rvt: ranked_runs "rv_exec X" operations_left rv_internal for X
proof
  fix e s t assume run: "rv_exec X e s = Some t" and "rv_internal e"
  then show "operations_left t < operations_left s"
  proof (cases e)
    case (Http_Runs i)
    with run have i: "i < length (rv_http s)" and r: "http_runs X i (rv_http s ! i) s = Some t"
      by (auto simp: rv_exec_def split: if_splits)
    from http_runs_result [OF r] sum_list_decrease [OF i, of http_left] show ?thesis
      by (auto simp: operations_left_def)
  next
    case (Grpc_Runs j)
    with run have j: "j < length (rv_grpc s)" and r: "grpc_runs j (rv_grpc s ! j) s = Some t"
      by (auto simp: rv_exec_def split: if_splits)
    from grpc_runs_result [OF r] sum_list_decrease [OF j, of grpc_left] show ?thesis
      by (auto simp: operations_left_def)
  qed (auto simp: rv_exec_def rv_internal_def operations_left_def put_http_def put_grpc_def
      split: if_splits intro!: sum_list_decrease)
qed

text \<open>Correlation ids name one request and one invocation each.\<close>

definition unique_ids :: "('b \<Rightarrow> string) \<Rightarrow> ('b \<Rightarrow> bool) \<Rightarrow> 'b list \<Rightarrow> bool" where
  "unique_ids f P xs \<longleftrightarrow>
     (\<forall>i < length xs. \<forall>j < length xs. P (xs ! i) \<longrightarrow> P (xs ! j) \<longrightarrow> f (xs ! i) = f (xs ! j) \<longrightarrow> i = j)"

definition ids_distinct :: "('cl, 'w) rendezvous \<Rightarrow> bool" where
  "ids_distinct s \<longleftrightarrow>
     unique_ids ht_id (\<lambda>t. ht_pc t \<noteq> H_End Bad_Request) (rv_http s) \<and>
     unique_ids (\<lambda>t. arrival_id (gt_arrival t)) (\<lambda>t. True) (rv_grpc s)"

lemma unique_ids_update:
  assumes "unique_ids f P xs" and "f y = f (xs ! k)" and "P y \<Longrightarrow> P (xs ! k)"
  shows "unique_ids f P (xs[k := y])"
  unfolding unique_ids_def
proof (intro allI impI)
  fix i j assume ij: "i < length (xs[k := y])" "j < length (xs[k := y])"
    and p: "P (xs[k := y] ! i)" "P (xs[k := y] ! j)" "f (xs[k := y] ! i) = f (xs[k := y] ! j)"
  have old: "f (xs[k := y] ! m) = f (xs ! m)" "P (xs[k := y] ! m) \<Longrightarrow> P (xs ! m)" if "m < length xs" for m
    using assms(2,3) that by (cases "m = k"; simp)+
  from ij p old [of i] old [of j] assms(1) show "i = j" unfolding unique_ids_def by simp
qed

lemma unique_ids_eq:
  assumes "unique_ids f P xs" and "x \<in> set xs" "y \<in> set xs" "P x" "P y" "f x = f y"
  shows "x = y"
  using assms unfolding unique_ids_def by (metis in_set_conv_nth)

lemma ids_distinct_internal:
  assumes ids: "ids_distinct s" and run: "rv_exec X e s = Some s'" and "rv_internal e"
  shows "ids_distinct s'"
  using assms(3)
proof (cases e)
  case (Http_Runs i)
  with run have r: "http_runs X i (rv_http s ! i) s = Some s'" by (auto simp: rv_exec_def split: if_splits)
  from http_runs_result [OF r] ids show ?thesis by (auto simp: ids_distinct_def intro!: unique_ids_update)
next
  case (Grpc_Runs j)
  with run have r: "grpc_runs j (rv_grpc s ! j) s = Some s'" by (auto simp: rv_exec_def split: if_splits)
  from grpc_runs_result [OF r] ids show ?thesis by (auto simp: ids_distinct_def intro!: unique_ids_update)
qed (use run ids in \<open>auto simp: rv_exec_def rv_internal_def ids_distinct_def put_http_def put_grpc_def
    split: if_splits intro!: unique_ids_update\<close>)

lemma count_concat_0: "(\<forall>x \<in> set xs. k \<notin> set (f x)) \<Longrightarrow> count (mset (concat (map f xs))) k = 0"
  by (auto simp: not_in_iff [symmetric])

lemma delivery_possible:
  assumes inv: "rv_invariant X s" and ids: "ids_distinct s" and t: "t \<in> set (rv_http s)"
    and pc: "ht_pc t = H_Disconnected \<or> (\<exists>r. ht_pc t = H_Deliver r)"
  shows "pi_done (px_heap (rv_proxy s) ! ht_slot t) = []"
proof -
  let ?keys = "slot_keys (rv_proxy s)"
  from inv have ok: "http_ok ?keys (rv_runs s) u" if "u \<in> set (rv_http s)" for u
    using that by (simp add: rv_invariant_def rendezvous_ok_def)
  from ok [OF t] pc have slot: "ht_slot t < length ?keys" "?keys ! ht_slot t = ht_id t" by (auto simp: http_ok_def)
  have "count (mset (concat (map delivered_to (rv_http s)))) (ht_slot t) = 0"
  proof (rule count_concat_0, rule ballI, rule notI)
    fix u assume u: "u \<in> set (rv_http s)" "ht_slot t \<in> set (delivered_to u)"
    then have same: "ht_slot u = ht_slot t" and upc: "ht_pc u \<noteq> H_End Bad_Request" "u \<noteq> t"
      using pc by (auto simp: delivered_to_def split: http_pc.splits if_splits)
    with ok [OF u(1)] slot have "ht_id u = ht_id t" by (simp add: http_ok_def)
    with unique_ids_eq [of ht_id "\<lambda>t. ht_pc t \<noteq> H_End Bad_Request" "rv_http s" u t] ids u(1) t upc pc
    show False by (auto simp: ids_distinct_def)
  qed
  with within_zero [of "\<lambda>sl. length (pi_done sl)" "px_heap (rv_proxy s)" _ "ht_slot t"] inv slot
  show ?thesis by (auto simp: rv_invariant_def channels_ok_def)
qed

lemma sending_possible:
  assumes inv: "rv_invariant X s" and ids: "ids_distinct s" and t: "t \<in> set (rv_grpc s)" and pc: "gt_pc t = G_Send"
  shows "pi_grpc (px_heap (rv_proxy s) ! gt_slot t) = []"
proof -
  let ?keys = "slot_keys (rv_proxy s)"
  from inv have ok: "grpc_ok ?keys (rv_runs s) u" if "u \<in> set (rv_grpc s)" for u
    using that by (simp add: rv_invariant_def rendezvous_ok_def)
  from ok [OF t] have slot: "gt_slot t < length ?keys" "?keys ! gt_slot t = arrival_id (gt_arrival t)"
    by (auto simp: grpc_ok_def)
  have "count (mset (concat (map sent_to (rv_grpc s)))) (gt_slot t) = 0"
  proof (rule count_concat_0, rule ballI, rule notI)
    fix u assume u: "u \<in> set (rv_grpc s)" "gt_slot t \<in> set (sent_to u)"
    then have same: "gt_slot u = gt_slot t" and upc: "u \<noteq> t"
      using pc by (auto simp: sent_to_def split: if_splits)
    with ok [OF u(1)] slot have "arrival_id (gt_arrival u) = arrival_id (gt_arrival t)" by (simp add: grpc_ok_def)
    with unique_ids_eq [of "\<lambda>t. arrival_id (gt_arrival t)" "\<lambda>_. True" "rv_grpc s" u t] ids u(1) t upc
    show False by (auto simp: ids_distinct_def)
  qed
  with within_zero [of "\<lambda>sl. length (pi_grpc sl)" "px_heap (rv_proxy s)" _ "gt_slot t"] inv slot
  show ?thesis by (auto simp: rv_invariant_def channels_ok_def)
qed

definition all_ended :: "('cl, 'w) rendezvous \<Rightarrow> bool" where
  "all_ended s \<longleftrightarrow> operations_left s = 0"

lemma internal_event_possible:
  assumes inv: "rv_invariant X s" and ids: "ids_distinct s" and more: "\<not> all_ended s"
  shows "\<exists>e s'. rv_internal e \<and> rv_exec X e s = Some s'"
proof -
  from more consider (http) t where "t \<in> set (rv_http s)" "http_left t \<noteq> 0"
    | (grpc) t where "t \<in> set (rv_grpc s)" "grpc_left t \<noteq> 0"
    by (auto simp: all_ended_def operations_left_def)
  then show ?thesis
  proof cases
    case http
    then obtain i where i: "i < length (rv_http s)" "rv_http s ! i = t" by (auto simp: in_set_conv_nth)
    show ?thesis
    proof (cases "ht_pc t = H_Select")
      case True
      with i have "\<exists>e. e = Http_Timer i \<and> rv_internal e \<and> rv_exec X e s \<noteq> None"
        by (simp add: rv_internal_def rv_exec_def)
      then show ?thesis by blast
    next
      case False
      have "http_runs X i t s \<noteq> None"
        using delivery_possible [OF inv ids http(1)] http(2) False
        by (auto simp: http_runs_def http_left_def send_done_def Let_def split: http_pc.splits prod.splits)
      with i have "\<exists>e. e = Http_Runs i \<and> rv_internal e \<and> rv_exec X e s \<noteq> None"
        by (simp add: rv_internal_def rv_exec_def)
      then show ?thesis by blast
    qed
  next
    case grpc
    then obtain j where j: "j < length (rv_grpc s)" "rv_grpc s ! j = t" by (auto simp: in_set_conv_nth)
    show ?thesis
    proof (cases "gt_pc t = G_Select")
      case True
      with j have "\<exists>e. e = Grpc_Timer j \<and> rv_internal e \<and> rv_exec X e s \<noteq> None"
        by (simp add: rv_internal_def rv_exec_def)
      then show ?thesis by blast
    next
      case False
      have "grpc_runs j t s \<noteq> None"
        using sending_possible [OF inv ids grpc(1)] grpc(2) False
        by (auto simp: grpc_runs_def grpc_left_def send_grpc_def split: grpc_pc.splits)
      with j have "\<exists>e. e = Grpc_Runs j \<and> rv_internal e \<and> rv_exec X e s \<noteq> None"
        by (simp add: rv_internal_def rv_exec_def)
      then show ?thesis by blast
    qed
  qed
qed

text \<open>How the two goroutines meet, one transition at a time.\<close>

lemmas rv_step_defs = rv_exec_def http_arrives_def grpc_arrives_def get_or_create_pending_def Let_def
  http_runs_def grpc_runs_def send_grpc_def receive_grpc_def send_done_def receive_done_def
  put_http_def put_grpc_def delete_pending_def rendezvous_start_def

lemma map_put_single: "map_put k v [] = [(k, v)]"
  by (simp add: map_put_def)

text \<open>Sample data for the witnesses: a streaming handler that answers \<open>hi\<close>.\<close>

definition sample_http_env :: "(unit, unit, unit, unit, unit) http_env" where
  "sample_http_env = \<lparr>ie_types = handler_types, ie_codec = sample_codec, ie_marshal = (\<lambda>v. err ''unused''),
     ie_middlewares = [], ie_user = (\<lambda>f args s. (Panic ''boom'', s)), ie_stack = ''stack'',
     ie_context = (\<lambda>mc. ()), ie_proxy = None, ie_http_types = [0],
     he_context = (\<lambda>r mc. ()),
     he_handler = (\<lambda>f r c s. (Ret (), s\<lparr>is_world := (lw_write ''hi'' (fst (is_world s)), ())\<rparr>))\<rparr>"

definition sample_http_request :: http_request where
  "sample_http_request = \<lparr>rq_method = ''GET'', rq_url = ''/api/hello'', rq_query = [],
     rq_headers = [(correlation_header, [''i1''])], rq_body = ''''\<rparr>"

definition sample_arrival :: "unit grpc_arrival" where
  "sample_arrival = \<lparr>ga_fn = load_function handler_types sample_function, ga_req = sample_request\<rparr>"

lemma sample_ids:
  "header_get (ie_codec sample_http_env) correlation_header sample_http_request = arrival_id sample_arrival"
  "arrival_id sample_arrival = ''i1''"
  by code_simp+

lemma sample_header [simp]: "header_get sample_codec correlation_header sample_http_request = ''i1''"
  by code_simp

definition sample_run :: "unit rv_event list" where
  "sample_run = [Http_Arrives sample_http_request, Grpc_Arrives sample_arrival, Grpc_Runs 0, Http_Client_Gone 0,
     Http_Runs 0, Grpc_Runs 0]"

lemma sample_run_exec:
  "\<exists>s. exec_all (rv_exec sample_http_env) sample_run (rendezvous_start ()) = Some s \<and> ids_distinct s \<and>
     (\<exists>t. rv_grpc s = [t] \<and> gt_pc t = G_End (Inr (hr_status disconnected, None)) \<and> gt_arrival t = sample_arrival) \<and>
     operations_left s = 1"
  by (simp add: sample_run_def rv_step_defs map_put_single sample_http_env_def sample_ids(2) ids_distinct_def
      unique_ids_def operations_left_def http_left_def grpc_left_def disconnected_def)

subsection \<open>Properties\<close>

text \<open>
  C15. A gRPC goroutine is answered for its own invocation only: its result is the notice that the
  client left, or the result of running the function it handed over for its id on an HTTP request
  that carried the same id, whatever the interleaving of goroutines, timers and disconnects; the
  only error it can return is its own timeout.
\<close>

theorem rendezvous_correlates:
  assumes "rv_reachable X w s" and "t \<in> set (rv_grpc s)"
  shows "(gt_pc t = G_End (Inr (st, mc)) \<longrightarrow>
      (st = hr_status disconnected \<and> mc = None) \<or>
      (\<exists>a rq conn v r. arrival_id a = arrival_id (gt_arrival t) \<and>
         header_get (ie_codec X) correlation_header rq = arrival_id (gt_arrival t) \<and>
         r = fst (serve_http X a rq conn v) \<and> st = hr_status r \<and> mc = hr_mc r)) \<and>
    (gt_pc t = G_End (Inl e) \<longrightarrow> e = rendezvous_timeout (arrival_id (gt_arrival t)))"
proof -
  from rv.reaches_inv [OF assms(1)] have inv: "rendezvous_ok s" "served_ok X s"
    by (simp_all add: rv_invariant_def)
  from inv(1) assms(2) have ok: "grpc_ok (slot_keys (rv_proxy s)) (rv_runs s) t" by (simp add: rendezvous_ok_def)
  show ?thesis
  proof (intro conjI impI)
    assume "gt_pc t = G_End (Inr (st, mc))"
    with ok have "result_for (rv_runs s) (arrival_id (gt_arrival t)) \<lparr>hr_status = st, hr_mc = mc\<rparr>"
      by (simp add: grpc_ok_def)
    then consider "\<lparr>hr_status = st, hr_mc = mc\<rparr> = disconnected"
      | a where "(a, \<lparr>hr_status = st, hr_mc = mc\<rparr>) \<in> set (rv_runs s)" "arrival_id a = arrival_id (gt_arrival t)"
      by (auto simp: result_for_def)
    then show "(st = hr_status disconnected \<and> mc = None) \<or>
      (\<exists>a rq conn v r. arrival_id a = arrival_id (gt_arrival t) \<and>
         header_get (ie_codec X) correlation_header rq = arrival_id (gt_arrival t) \<and>
         r = fst (serve_http X a rq conn v) \<and> st = hr_status r \<and> mc = hr_mc r)"
    proof cases
      case 1
      then show ?thesis by (auto simp: disconnected_def)
    next
      case 2
      with inv(2) obtain rq conn v where "header_get (ie_codec X) correlation_header rq = arrival_id a"
        "\<lparr>hr_status = st, hr_mc = mc\<rparr> = fst (serve_http X a rq conn v)"
        by (fastforce simp: served_ok_def)
      with 2(2) show ?thesis by (metis http_result.select_convs)
    qed
  next
    assume "gt_pc t = G_End (Inl e)"
    with ok show "e = rendezvous_timeout (arrival_id (gt_arrival t))" by (simp add: grpc_ok_def)
  qed
qed

theorem rendezvous_correlates_witness:
  "\<exists>s t. rv_reachable sample_http_env () s \<and> rv_grpc s = [t] \<and>
     gt_pc t = G_End (Inr (hr_status disconnected, None)) \<and> gt_pc t \<noteq> G_End (Inl ''other'')"
proof -
  obtain s t where s: "exec_all (rv_exec sample_http_env) sample_run (rendezvous_start ()) = Some s"
    "rv_grpc s = [t]" "gt_pc t = G_End (Inr (hr_status disconnected, None))"
    using sample_run_exec by blast
  have r: "rv_reachable sample_http_env () s" by (rule reaches_exec_all [OF reaches.here s(1)])
  from rendezvous_correlates [OF r, of t _ _ "''other''"] s have "gt_pc t \<noteq> G_End (Inl ''other'')"
    by (auto simp: rendezvous_timeout_def)
  with r s show ?thesis by blast
qed

text \<open>
  User code runs at most once per invocation message: the runs of handlers, counted with
  repetition, are among the invocations that arrived over gRPC.
\<close>

theorem rendezvous_runs_once:
  assumes "rv_reachable X w s"
  shows "mset (map fst (rv_runs s)) \<subseteq># mset (map gt_arrival (rv_grpc s))"
proof -
  from rv.reaches_inv [OF assms] have "mset (map gt_arrival (rv_grpc s)) = accounted s"
    by (simp add: rv_invariant_def all_accounted_def)
  then show ?thesis by (simp add: accounted_def)
qed

theorem rendezvous_runs_once_witness:
  "\<exists>s. rv_reachable sample_http_env () s \<and> mset (map fst (rv_runs s)) \<subseteq># {#sample_arrival#}"
proof -
  obtain s t where s: "exec_all (rv_exec sample_http_env) sample_run (rendezvous_start ()) = Some s"
    "rv_grpc s = [t]" "gt_arrival t = sample_arrival"
    using sample_run_exec by blast
  have r: "rv_reachable sample_http_env () s" by (rule reaches_exec_all [OF reaches.here s(1)])
  from rendezvous_runs_once [OF r] s r show ?thesis by auto
qed



text \<open>
  The order of the two arrivals does not matter: whether the HTTP request or the invocation
  comes first, the handler runs on the live connection, the invocation is answered with its
  result, and the table of pending invocations is empty again.
\<close>

theorem rendezvous_either_order:
  assumes "header_get (ie_codec X) correlation_header r = arrival_id a" and "arrival_id a \<noteq> ''''"
    and "serve_http X a r fresh_writer w = (res, conn, w')"
    and "opening = [Http_Arrives r, Grpc_Arrives a, Grpc_Runs 0] \<or> opening = [Grpc_Arrives a, Http_Arrives r, Grpc_Runs 0] \<or>
      opening = [Grpc_Arrives a, Grpc_Runs 0, Http_Arrives r]"
    and "closing = [Grpc_Runs 0, Http_Runs 0] \<or> closing = [Http_Runs 0, Grpc_Runs 0]"
  shows "\<exists>s. exec_all (rv_exec X) (opening @ [Http_Runs 0, Http_Runs 0, Http_Runs 0] @ closing) (rendezvous_start w) = Some s \<and>
    map gt_pc (rv_grpc s) = [G_End (Inr (hr_status res, hr_mc res))] \<and>
    map ht_pc (rv_http s) = [H_End Served] \<and> map ht_conn (rv_http s) = [conn] \<and>
    px_pending (rv_proxy s) = [] \<and> rv_world s = w' \<and> rv_runs s = [(a, res)]"
  using assms(4,5) assms(1-3)
  by (elim disjE) (auto simp: rv_step_defs map_put_single map_del_def)

theorem rendezvous_either_order_witness:
  "\<exists>res conn s. serve_http sample_http_env sample_arrival sample_http_request fresh_writer () = (res, conn, ()) \<and>
     lw_body conn = ''hi'' \<and> lw_status conn = Some 200 \<and>
     exec_all (rv_exec sample_http_env) ([Grpc_Arrives sample_arrival, Http_Arrives sample_http_request, Grpc_Runs 0] @
       [Http_Runs 0, Http_Runs 0, Http_Runs 0] @ [Grpc_Runs 0, Http_Runs 0]) (rendezvous_start ()) = Some s \<and>
     map gt_pc (rv_grpc s) = [G_End (Inr (hr_status res, hr_mc res))]"
proof -
  obtain res conn u where sv: "serve_http sample_http_env sample_arrival sample_http_request fresh_writer () = (res, conn, u)"
    by (metis surj_pair)
  have "lw_body (fst (snd (serve_http sample_http_env sample_arrival sample_http_request fresh_writer ()))) = ''hi'' \<and>
    lw_status (fst (snd (serve_http sample_http_env sample_arrival sample_http_request fresh_writer ()))) = Some 200"
    by code_simp
  with sv have c: "lw_body conn = ''hi''" "lw_status conn = Some 200" by simp_all
  have ne: "arrival_id sample_arrival \<noteq> ''''" by (simp add: sample_ids(2))
  from rendezvous_either_order [OF sample_ids(1) ne sv disjI2 [OF disjI1 [OF refl]] disjI1 [OF refl]]
  obtain s where "exec_all (rv_exec sample_http_env) ([Grpc_Arrives sample_arrival, Http_Arrives sample_http_request, Grpc_Runs 0] @
       [Http_Runs 0, Http_Runs 0, Http_Runs 0] @ [Grpc_Runs 0, Http_Runs 0]) (rendezvous_start ()) = Some s"
    "map gt_pc (rv_grpc s) = [G_End (Inr (hr_status res, hr_mc res))]"
    by (elim exE conjE)
  with sv c show ?thesis by (intro exI [of _ res] exI [of _ conn] exI [of _ s] conjI) simp_all
qed

text \<open>
  A client that leaves before its invocation arrives: when the invocation had already taken its
  slot it is told at once, but when it arrives afterwards it finds a new slot, so the notice pushed
  for it is lost, it cannot be received, and its goroutine waits for the timeout.
\<close>

theorem client_gone_order:
  assumes "header_get (ie_codec X) correlation_header r = arrival_id a" and "arrival_id a \<noteq> ''''"
  shows "(\<exists>s. exec_all (rv_exec X) [Grpc_Arrives a, Http_Arrives r, Http_Client_Gone 0, Http_Runs 0, Http_Runs 0,
        Grpc_Runs 0, Grpc_Runs 0] (rendezvous_start w) = Some s \<and>
      map gt_pc (rv_grpc s) = [G_End (Inr (hr_status disconnected, None))]) \<and>
    (\<exists>s s'. exec_all (rv_exec X) [Http_Arrives r, Http_Client_Gone 0, Http_Runs 0, Http_Runs 0, Grpc_Arrives a,
        Grpc_Runs 0] (rendezvous_start w) = Some s \<and>
      (\<forall>i. rv_exec X (Grpc_Runs i) s = None \<and> rv_exec X (Http_Runs i) s = None) \<and>
      exec_all (rv_exec X) [Grpc_Timer 0, Grpc_Runs 0] s = Some s' \<and>
      map gt_pc (rv_grpc s') = [G_End (Inl (rendezvous_timeout (arrival_id a)))])"
  using assms
  by (auto simp: rv_step_defs map_put_single map_del_def disconnected_def)

theorem client_gone_order_witness:
  "\<exists>s. exec_all (rv_exec sample_http_env) [Http_Arrives sample_http_request, Http_Client_Gone 0, Http_Runs 0, Http_Runs 0,
      Grpc_Arrives sample_arrival, Grpc_Runs 0] (rendezvous_start ()) = Some s \<and>
     rv_exec sample_http_env (Grpc_Runs 0) s = None"
proof -
  have ne: "arrival_id sample_arrival \<noteq> ''''" by (simp add: sample_ids(2))
  from client_gone_order [OF sample_ids(1) ne] show ?thesis by blast
qed

end
