(* ===== verification/Worker_Stream.thy ===== *)
theory Worker_Stream
  imports Worker_Handlers Go_Runs
begin

text \<open>
  The worker's life on the stream: \<open>worker/config.go\<close>, \<open>internal/hostclient/hostclient.go\<close>,
  \<open>worker/grpc.go\<close> and \<open>worker/worker.go\<close>.  gRPC itself and \<open>url.Parse\<close> are parameters,
  the flags are in \<open>Process_Start\<close>; the outbound sender with its queue is a transition system.
\<close>

subsection \<open>Start-up configuration\<close>

record startup_config =
  sc_uri :: string
  sc_worker_id :: string
  sc_request_id :: string
  sc_max_message :: int

text \<open>What \<open>url.Parse\<close> says about an address: an error, or scheme and host.\<close>

type_synonym parse_url = "string \<Rightarrow> (string \<times> string) result"

definition clean_address :: "parse_url \<Rightarrow> string \<Rightarrow> string" where
  "clean_address parse a =
     (case parse a of
        Inr (scheme, host) \<Rightarrow> if scheme = ''http'' \<or> scheme = ''https'' then host else a
      | Inl e \<Rightarrow> a)"

definition validate_args :: "parse_url \<Rightarrow> startup_config \<Rightarrow> startup_config result" where
  "validate_args parse c =
     (if sc_uri c = '''' then Inl ''missing required argument: --functions-uri''
      else case parse (sc_uri c) of
        Inl e \<Rightarrow> Inl (''invalid --functions-uri provided ('' @ sc_uri c @ ''): '' @ e)
      | Inr u \<Rightarrow>
          (let c = c\<lparr>sc_uri := clean_address parse (sc_uri c)\<rparr> in
           if sc_worker_id c = '''' then Inl ''missing required argument: --functions-worker-id''
           else if sc_request_id c = '''' then Inl ''missing required argument: --functions-request-id''
           else Inr c))"

subsection \<open>Connecting\<close>

datatype conn_state = Conn_Idle | Conn_Connecting | Conn_Ready | Conn_Failure | Conn_Shutdown

fun conn_state_name :: "conn_state \<Rightarrow> string" where
  "conn_state_name Conn_Idle = ''IDLE''"
| "conn_state_name Conn_Connecting = ''CONNECTING''"
| "conn_state_name Conn_Ready = ''READY''"
| "conn_state_name Conn_Failure = ''TRANSIENT_FAILURE''"
| "conn_state_name Conn_Shutdown = ''SHUTDOWN''"

text \<open>
  \<open>waitForReady\<close> on the states \<open>GetState\<close> returns in turn: each but the last is followed by a change,
  after the last the context expires.
\<close>

fun wait_for_ready :: "string \<Rightarrow> conn_state \<Rightarrow> conn_state list \<Rightarrow> unit result" where
  "wait_for_ready timeout s later =
     (case s of
        Conn_Ready \<Rightarrow> Inr ()
      | Conn_Shutdown \<Rightarrow> Inl (''gRPC connection is in terminal state '' @ conn_state_name s @ '' and cannot become ready'')
      | _ \<Rightarrow>
          (case later of
             [] \<Rightarrow> Inl (''timed out after '' @ timeout @ '' waiting for gRPC connection to become ready (last state: '' @
                 conn_state_name s @ ''): context deadline exceeded'')
           | s' # rest \<Rightarrow> wait_for_ready timeout s' rest))"

text \<open>The stream, or the error and whether the connection was closed.\<close>

definition open_event_stream :: "string \<Rightarrow> conn_state \<Rightarrow> conn_state list \<Rightarrow> 'st result \<Rightarrow> 'st result \<times> bool" where
  "open_event_stream timeout s later stream =
     (case wait_for_ready timeout s later of
        Inl e \<Rightarrow> (Inl e, True)
      | Inr u \<Rightarrow>
          (case stream of
             Inl e \<Rightarrow> (Inl (''open gRPC EventStream: '' @ e), True)
           | Inr st \<Rightarrow> (Inr st, False)))"

definition connection_timeout :: string where
  "connection_timeout = ''50s''"

text \<open>
  \<open>OpenEventStream\<close> on what \<open>grpc.NewClient\<close> returned: the states of the connection and what its
  \<open>EventStream\<close> call returns are the library's.
\<close>

definition open_host_stream ::
    "'conn result \<Rightarrow> ('conn \<Rightarrow> conn_state \<times> conn_state list) \<Rightarrow> ('conn \<Rightarrow> 'st result) \<Rightarrow> 'st result \<times> bool" where
  "open_host_stream new_conn states stream =
     (case new_conn of
        Inl e \<Rightarrow> (Inl (''create gRPC client: '' @ e), False)
      | Inr c \<Rightarrow> open_event_stream connection_timeout (fst (states c)) (snd (states c)) (stream c))"

definition start_stream :: "string \<Rightarrow> streaming_message" where
  "start_stream worker_id = mk_msg '''' (C_StartStream worker_id)"

text \<open>\<open>connectToHostWith\<close>: the stream once the handshake message is on it.\<close>

definition connect_to_host ::
    "'st result \<Rightarrow> ('st \<Rightarrow> streaming_message \<Rightarrow> go_error option) \<Rightarrow> string \<Rightarrow> 'st result" where
  "connect_to_host opened send worker_id =
     (case opened of
        Inl e \<Rightarrow> Inl (''failed to connect to gRPC stream: '' @ e)
      | Inr st \<Rightarrow>
          (case send st (start_stream worker_id) of
             Some e \<Rightarrow> Inl (''failed to send start stream message: '' @ e)
           | None \<Rightarrow> Inr st))"

subsection \<open>The outbound sender\<close>

definition outbound_queue_size :: nat where
  "outbound_queue_size = 256"

text \<open>
  The goroutine that owns the stream.  After a failed send or a nil message it marks the sender
  closed, then its deferred function closes \<open>finished\<close>.
\<close>

datatype 'm sender_pc = SG_Loop | SG_Send 'm | SG_Closing | SG_Finishing | SG_Exited

text \<open>A call of \<open>send\<close>: the flag is read, then the stop channel polled, then the \<open>select\<close>.\<close>

datatype send_pc = SC_Flag | SC_Poll | SC_Select | SC_Returned "go_error option"

record 'm send_call =
  sd_message :: "'m option"
  sd_pc :: send_pc

record 'm sender =
  sn_queue :: "'m option list"
  sn_stop :: bool
  sn_closed :: bool
  sn_finished :: bool
  sn_pc :: "'m sender_pc"
  sn_calls :: "'m send_call list"
  sn_sent :: "'m list"
  sn_accepted :: "'m option list"
  sn_lost :: "'m option list"

text \<open>
  \<open>sn_sent\<close> is what \<open>Send\<close> accepted; \<open>sn_accepted\<close> and \<open>sn_lost\<close> (messages enqueued, and the one the
  goroutine took and could not send) are history that no operation reads.
\<close>

definition new_sender :: "'m sender" where
  "new_sender = \<lparr>sn_queue = [], sn_stop = False, sn_closed = False, sn_finished = False, sn_pc = SG_Loop,
     sn_calls = [], sn_sent = [], sn_accepted = [], sn_lost = []\<rparr>"

definition closed_pipe :: go_error where
  "closed_pipe = ''io: read/write on closed pipe''"

datatype 'm sender_event =
    Send_Called "'m option"
  | Send_Runs nat
  | Send_Stopped nat
  | Send_Finished nat
  | Stop_Called
  | Sender_Takes
  | Sender_Sees_Stop
  | Sender_Sends bool
  | Sender_Runs

definition put_call :: "nat \<Rightarrow> send_pc \<Rightarrow> 'm sender \<Rightarrow> 'm sender" where
  "put_call i pc s = s\<lparr>sn_calls := (sn_calls s)[i := (sn_calls s ! i)\<lparr>sd_pc := pc\<rparr>]\<rparr>"

text \<open>The next operation of a call; in the \<open>select\<close>, the enqueue.\<close>

definition send_runs :: "nat \<Rightarrow> 'm sender \<Rightarrow> 'm sender option" where
  "send_runs i s =
     (case sd_pc (sn_calls s ! i) of
        SC_Flag \<Rightarrow> Some (put_call i (if sn_closed s then SC_Returned (Some closed_pipe) else SC_Poll) s)
      | SC_Poll \<Rightarrow> Some (put_call i (if sn_stop s then SC_Returned (Some closed_pipe) else SC_Select) s)
      | SC_Select \<Rightarrow>
          if length (sn_queue s) < outbound_queue_size
          then (let m = sd_message (sn_calls s ! i) in
            Some (put_call i (SC_Returned None) (s\<lparr>sn_queue := sn_queue s @ [m], sn_accepted := sn_accepted s @ [m]\<rparr>)))
          else None
      | SC_Returned e \<Rightarrow> None)"

definition sender_takes :: "'m sender \<Rightarrow> 'm sender option" where
  "sender_takes s =
     (case (sn_pc s, sn_queue s) of
        (SG_Loop, Some m # q) \<Rightarrow> Some (s\<lparr>sn_queue := q, sn_pc := SG_Send m\<rparr>)
      | (SG_Loop, None # q) \<Rightarrow> Some (s\<lparr>sn_queue := q, sn_pc := SG_Closing, sn_lost := [None]\<rparr>)
      | _ \<Rightarrow> None)"

definition sender_sends :: "bool \<Rightarrow> 'm sender \<Rightarrow> 'm sender option" where
  "sender_sends success s =
     (case sn_pc s of
        SG_Send m \<Rightarrow>
          if success then Some (s\<lparr>sn_sent := sn_sent s @ [m], sn_pc := SG_Loop\<rparr>)
          else Some (s\<lparr>sn_pc := SG_Closing, sn_lost := [Some m]\<rparr>)
      | _ \<Rightarrow> None)"

definition sender_runs :: "'m sender \<Rightarrow> 'm sender option" where
  "sender_runs s =
     (case sn_pc s of
        SG_Closing \<Rightarrow> Some (s\<lparr>sn_closed := True, sn_pc := SG_Finishing\<rparr>)
      | SG_Finishing \<Rightarrow> Some (s\<lparr>sn_finished := True, sn_pc := SG_Exited\<rparr>)
      | _ \<Rightarrow> None)"

definition sender_exec :: "'m sender_event \<Rightarrow> 'm sender \<Rightarrow> 'm sender option" where
  "sender_exec ev s =
     (case ev of
        Send_Called m \<Rightarrow> Some (s\<lparr>sn_calls := sn_calls s @ [\<lparr>sd_message = m, sd_pc = SC_Flag\<rparr>]\<rparr>)
      | Send_Runs i \<Rightarrow> if i < length (sn_calls s) then send_runs i s else None
      | Send_Stopped i \<Rightarrow>
          if i < length (sn_calls s) \<and> sd_pc (sn_calls s ! i) = SC_Select \<and> sn_stop s
          then Some (put_call i (SC_Returned (Some closed_pipe)) s) else None
      | Send_Finished i \<Rightarrow>
          if i < length (sn_calls s) \<and> sd_pc (sn_calls s ! i) = SC_Select \<and> sn_finished s
          then Some (put_call i (SC_Returned (Some closed_pipe)) s) else None
      | Stop_Called \<Rightarrow> Some (s\<lparr>sn_closed := True, sn_stop := True\<rparr>)
      | Sender_Takes \<Rightarrow> sender_takes s
      | Sender_Sees_Stop \<Rightarrow> if sn_pc s = SG_Loop \<and> sn_stop s then Some (s\<lparr>sn_pc := SG_Closing\<rparr>) else None
      | Sender_Sends success \<Rightarrow> sender_sends success s
      | Sender_Runs \<Rightarrow> sender_runs s)"

subsection \<open>Lifecycle hooks\<close>

record 'w lifecycle_hook =
  lh_start :: "'w \<Rightarrow> go_error option \<times> 'w"
  lh_shutdown :: "'w \<Rightarrow> go_error option \<times> 'w"

text \<open>The options of \<open>worker.Start\<close> are applied in the order they are given.\<close>

definition configured :: "('h start_config \<Rightarrow> 'h start_config) list \<Rightarrow> 'h start_config" where
  "configured opts = fold (\<lambda>opt c. opt c) opts \<lparr>sc_hooks = []\<rparr>"

text \<open>\<open>shutdownLifecycleHooks\<close>: last hook first, errors only logged.\<close>

definition shutdown_hooks :: "'w lifecycle_hook list \<Rightarrow> 'w \<Rightarrow> 'w" where
  "shutdown_hooks hs w = fold (\<lambda>h w. snd (lh_shutdown h w)) (rev hs) w"

fun start_hooks_from :: "'w lifecycle_hook list \<Rightarrow> 'w lifecycle_hook list \<Rightarrow> 'w \<Rightarrow> go_error option \<times> 'w" where
  "start_hooks_from started [] w = (None, w)"
| "start_hooks_from started (h # hs) w =
     (case lh_start h w of
        (Some e, w') \<Rightarrow> (Some e, shutdown_hooks started w')
      | (None, w') \<Rightarrow> start_hooks_from (started @ [h]) hs w')"

definition start_hooks :: "'w lifecycle_hook list \<Rightarrow> 'w \<Rightarrow> go_error option \<times> 'w" where
  "start_hooks hs w = start_hooks_from [] hs w"

subsection \<open>The receive loop\<close>

datatype recv_result = Received streaming_message | Recv_EOF | Recv_Error go_error

text \<open>The messages that get a goroutine; the loop ends with the first error.\<close>

fun receive_loop :: "recv_result list \<Rightarrow> streaming_message list" where
  "receive_loop (Received m # rs) = m # receive_loop rs"
| "receive_loop _ = []"

text \<open>What one message's goroutine does: a response to send, or something to log.\<close>

datatype dispatched = Respond streaming_message | Silent | Logged_Error go_error | Logged_Panic string

definition dispatch_message ::
    "('c, 'cl, 'w, 's, 'f) inv_env \<Rightarrow> (worker_init_request \<Rightarrow> host_configuration option) \<Rightarrow> streaming_message \<Rightarrow>
     ('cl, 'w) dispatcher \<Rightarrow> dispatched \<times> ('cl, 'w) dispatcher" where
  "dispatch_message X host_config msg d =
     (case process_request X host_config msg d of
        (Panic p, d') \<Rightarrow> (Logged_Panic p, d')
      | (Ret (Inl e), d') \<Rightarrow> (Logged_Error e, d')
      | (Ret (Inr None), d') \<Rightarrow> (Silent, d')
      | (Ret (Inr (Some m)), d') \<Rightarrow> (Respond m, d'))"

text \<open>The dispatcher as a transition system over the messages; a load is atomic on the shared map.\<close>

definition dispatcher_exec ::
    "('c, 'cl, 'w, 's, 'f) inv_env \<Rightarrow> (worker_init_request \<Rightarrow> host_configuration option) \<Rightarrow> streaming_message \<Rightarrow>
     ('cl, 'w) dispatcher \<Rightarrow> ('cl, 'w) dispatcher option" where
  "dispatcher_exec X host_config msg d = Some (snd (dispatch_message X host_config msg d))"

subsection \<open>Start\<close>

datatype start_end = Exit_Config go_error | Exit_Connect go_error | Exit_Hooks go_error | Finished

text \<open>
  \<open>Start\<close>, from the results of its steps; \<open>serve\<close> is the receive loop, \<open>shutdowns\<close> the middlewares'
  shutdowns.  The state is the world the hooks, the loop and the shutdowns act on.
\<close>

definition start_worker ::
    "startup_config result \<Rightarrow> (startup_config \<Rightarrow> 'st result) \<Rightarrow> ('w lifecycle_hook start_config \<Rightarrow> 'w lifecycle_hook start_config) list \<Rightarrow>
     ('st \<Rightarrow> 'w \<Rightarrow> 'w) \<Rightarrow> ('w \<Rightarrow> 'w) \<Rightarrow> ('w \<Rightarrow> 'w) \<Rightarrow> 'w \<Rightarrow> start_end \<times> 'w" where
  "start_worker config connect opts serve stop_sender shutdowns w =
     (case config of
        Inl e \<Rightarrow> (Exit_Config e, w)
      | Inr c \<Rightarrow>
          (case connect c of
             Inl e \<Rightarrow> (Exit_Connect e, w)
           | Inr st \<Rightarrow>
               (case start_hooks (sc_hooks (configured opts)) w of
                  (Some e, w') \<Rightarrow> (Exit_Hooks e, w')
                | (None, w') \<Rightarrow> (Finished, shutdown_hooks (sc_hooks (configured opts)) (shutdowns (stop_sender (serve st w')))))))"

subsection \<open>Lemmas\<close>

text \<open>A connection is ready when it is so in a state before which it was neither ready nor shut down.\<close>

lemma wait_for_ready_ok:
  "wait_for_ready t s later = Inr () \<longleftrightarrow> (case dropWhile (\<lambda>c. c \<noteq> Conn_Ready \<and> c \<noteq> Conn_Shutdown) (s # later) of
     c # cs \<Rightarrow> c = Conn_Ready | [] \<Rightarrow> False)"
proof (induction later arbitrary: s)
  case Nil
  then show ?case by (cases s) auto
next
  case (Cons s' rest)
  then show ?case by (cases s) auto
qed

text \<open>The connection is closed on every failure after it was created, and only then.\<close>

lemma open_host_stream_closes:
  "snd (open_host_stream new_conn states stream) \<longleftrightarrow>
     (\<exists>c. new_conn = Inr c) \<and> (\<exists>e. fst (open_host_stream new_conn states stream) = Inl e)"
  by (auto simp: open_host_stream_def open_event_stream_def split: sum.splits)

lemma open_host_stream_ready:
  "fst (open_host_stream new_conn states stream) = Inr st \<longleftrightarrow>
     (\<exists>c. new_conn = Inr c \<and> stream c = Inr st \<and>
        wait_for_ready connection_timeout (fst (states c)) (snd (states c)) = Inr ())"
  by (auto simp: open_host_stream_def open_event_stream_def split: sum.splits)

definition in_hand :: "'m sender \<Rightarrow> 'm option list" where
  "in_hand s = (case sn_pc s of SG_Send m \<Rightarrow> [Some m] | _ \<Rightarrow> [])"

lemma in_hand_frame [simp]:
  "in_hand (s\<lparr>sn_queue := q\<rparr>) = in_hand s" "in_hand (s\<lparr>sn_calls := c\<rparr>) = in_hand s"
  "in_hand (s\<lparr>sn_accepted := a\<rparr>) = in_hand s" "in_hand (s\<lparr>sn_closed := b\<rparr>) = in_hand s"
  "in_hand (s\<lparr>sn_stop := b\<rparr>) = in_hand s" "in_hand (s\<lparr>sn_finished := b\<rparr>) = in_hand s"
  "in_hand (s\<lparr>sn_sent := ms\<rparr>) = in_hand s" "in_hand (s\<lparr>sn_lost := l\<rparr>) = in_hand s"
  by (simp_all add: in_hand_def)

lemma in_hand_pc [simp]:
  "in_hand (s\<lparr>sn_pc := SG_Send m\<rparr>) = [Some m]" "in_hand (s\<lparr>sn_pc := SG_Loop\<rparr>) = []"
  "in_hand (s\<lparr>sn_pc := SG_Closing\<rparr>) = []" "in_hand (s\<lparr>sn_pc := SG_Finishing\<rparr>) = []"
  "in_hand (s\<lparr>sn_pc := SG_Exited\<rparr>) = []"
  by (simp_all add: in_hand_def)

lemma in_hand_simps:
  "sn_pc s = SG_Send m \<Longrightarrow> in_hand s = [Some m]" "sn_pc s = SG_Loop \<Longrightarrow> in_hand s = []"
  "sn_pc s = SG_Closing \<Longrightarrow> in_hand s = []" "sn_pc s = SG_Finishing \<Longrightarrow> in_hand s = []"
  by (simp_all add: in_hand_def)

text \<open>The messages of the calls that returned without an error.\<close>

definition confirmed :: "'m send_call \<Rightarrow> 'm option list" where
  "confirmed c = (if sd_pc c = SC_Returned None then [sd_message c] else [])"

definition confirmed_all :: "'m send_call list \<Rightarrow> 'm option multiset" where
  "confirmed_all cs = mset (concat (map confirmed cs))"

definition sender_ok :: "'m sender \<Rightarrow> bool" where
  "sender_ok s \<longleftrightarrow>
     sn_accepted s = map Some (sn_sent s) @ in_hand s @ sn_lost s @ sn_queue s \<and>
     mset (sn_accepted s) = confirmed_all (sn_calls s) \<and>
     length (sn_queue s) \<le> outbound_queue_size \<and>
     length (sn_lost s) \<le> 1 \<and> (sn_lost s \<noteq> [] \<longrightarrow> sn_pc s \<in> {SG_Closing, SG_Finishing, SG_Exited}) \<and>
     (sn_stop s \<longrightarrow> sn_closed s) \<and> (sn_pc s \<in> {SG_Finishing, SG_Exited} \<longrightarrow> sn_closed s) \<and>
     (sn_finished s \<longleftrightarrow> sn_pc s = SG_Exited)"

lemma confirmed_all_called [simp]: "confirmed_all (cs @ [\<lparr>sd_message = m, sd_pc = SC_Flag\<rparr>]) = confirmed_all cs"
  by (simp add: confirmed_all_def confirmed_def)

lemma sender_ok_put:
  assumes "sender_ok s" and "i < length (sn_calls s)" and "sd_pc (sn_calls s ! i) \<noteq> SC_Returned None"
    and "pc \<noteq> SC_Returned None"
  shows "sender_ok (put_call i pc s)"
proof -
  have "confirmed_all ((sn_calls s)[i := (sn_calls s ! i)\<lparr>sd_pc := pc\<rparr>]) = confirmed_all (sn_calls s)"
    unfolding confirmed_all_def by (rule concat_update_same [OF assms(2)]) (use assms(3,4) in \<open>simp add: confirmed_def\<close>)
  with assms(1) show ?thesis by (auto simp: sender_ok_def in_hand_simps put_call_def)
qed

lemma sender_ok_send_runs:
  assumes ok: "sender_ok s" and i: "i < length (sn_calls s)" and run: "send_runs i s = Some s'"
  shows "sender_ok s'"
proof (cases "sd_pc (sn_calls s ! i)")
  case SC_Select
  let ?m = "sd_message (sn_calls s ! i)"
  from run SC_Select have s': "s' = put_call i (SC_Returned None)
      (s\<lparr>sn_queue := sn_queue s @ [?m], sn_accepted := sn_accepted s @ [?m]\<rparr>)"
    and room: "length (sn_queue s) < outbound_queue_size"
    by (auto simp: send_runs_def Let_def split: if_splits)
  have "confirmed_all ((sn_calls s)[i := (sn_calls s ! i)\<lparr>sd_pc := SC_Returned None\<rparr>]) =
      add_mset ?m (confirmed_all (sn_calls s))"
    unfolding confirmed_all_def by (rule concat_update_add [OF i]) (simp add: confirmed_def SC_Select)
  with ok room show ?thesis by (auto simp: s' sender_ok_def put_call_def in_hand_simps)
qed (use run ok i in \<open>auto simp: send_runs_def intro!: sender_ok_put split: if_splits\<close>)

lemma sender_takes_cases:
  assumes "sender_takes s = Some t"
  obtains (message) m q where "sn_pc s = SG_Loop" "sn_queue s = Some m # q" "t = s\<lparr>sn_queue := q, sn_pc := SG_Send m\<rparr>"
    | (nil) q where "sn_pc s = SG_Loop" "sn_queue s = None # q" "t = s\<lparr>sn_queue := q, sn_pc := SG_Closing, sn_lost := [None]\<rparr>"
proof (cases "sn_pc s")
  case SG_Loop
  with assms obtain m q where "sn_queue s = m # q" by (cases "sn_queue s") (auto simp: sender_takes_def)
  with assms SG_Loop that show ?thesis by (cases m) (auto simp: sender_takes_def)
qed (use assms in \<open>auto simp: sender_takes_def\<close>)

lemma sender_sends_cases:
  assumes "sender_sends success s = Some t"
  obtains m where "sn_pc s = SG_Send m"
    "t = (if success then s\<lparr>sn_sent := sn_sent s @ [m], sn_pc := SG_Loop\<rparr> else s\<lparr>sn_pc := SG_Closing, sn_lost := [Some m]\<rparr>)"
  using assms by (cases "sn_pc s") (auto simp: sender_sends_def split: if_splits)

lemma sender_runs_cases:
  assumes "sender_runs s = Some t"
  obtains (closing) "sn_pc s = SG_Closing" "t = s\<lparr>sn_closed := True, sn_pc := SG_Finishing\<rparr>"
    | (finishing) "sn_pc s = SG_Finishing" "t = s\<lparr>sn_finished := True, sn_pc := SG_Exited\<rparr>"
  using assms by (cases "sn_pc s") (auto simp: sender_runs_def)

interpretation sn: invariant_runs sender_exec new_sender sender_ok
proof
  show "sender_ok (new_sender :: 'm sender)"
    by (simp add: sender_ok_def new_sender_def in_hand_def confirmed_all_def)
next
  fix s t :: "'m sender" and e
  assume ok: "sender_ok s" and run: "sender_exec e s = Some t"
  show "sender_ok t"
  proof (cases e)
    case (Send_Called m)
    with run have "t = s\<lparr>sn_calls := sn_calls s @ [\<lparr>sd_message = m, sd_pc = SC_Flag\<rparr>]\<rparr>"
      by (simp add: sender_exec_def)
    with ok show ?thesis by (auto simp: sender_ok_def)
  next
    case (Send_Runs i)
    with run ok show ?thesis by (auto simp: sender_exec_def sender_ok_send_runs split: if_splits)
  next
    case (Send_Stopped i)
    with run ok show ?thesis by (auto simp: sender_exec_def intro!: sender_ok_put split: if_splits)
  next
    case (Send_Finished i)
    with run ok show ?thesis by (auto simp: sender_exec_def intro!: sender_ok_put split: if_splits)
  next
    case Stop_Called
    with run ok show ?thesis by (auto simp: sender_exec_def sender_ok_def in_hand_simps)
  next
    case Sender_Takes
    with run have "sender_takes s = Some t" by (simp add: sender_exec_def)
    then show ?thesis
      by (cases rule: sender_takes_cases) (use ok in \<open>auto simp: sender_ok_def in_hand_simps\<close>)
  next
    case Sender_Sees_Stop
    with run ok show ?thesis by (auto simp: sender_exec_def sender_ok_def in_hand_simps split: if_splits)
  next
    case (Sender_Sends success)
    with run have "sender_sends success s = Some t" by (simp add: sender_exec_def)
    then show ?thesis
      by (cases rule: sender_sends_cases) (use ok in \<open>auto simp: sender_ok_def in_hand_simps\<close>)
  next
    case Sender_Runs
    with run have "sender_runs s = Some t" by (simp add: sender_exec_def)
    then show ?thesis
      by (cases rule: sender_runs_cases) (use ok in \<open>auto simp: sender_ok_def in_hand_simps\<close>)
  qed
qed

text \<open>
  What the sender promises: a bounded pipe that delivers what it accepted in order until it breaks.
  Breaking may drop the message in hand; nothing is delivered after it.
\<close>

record 'm pipe =
  pp_pending :: "'m option list"
  pp_out :: "'m list"
  pp_broken :: bool

datatype 'm pipe_event = Pipe_Accept "'m option" | Pipe_Deliver | Pipe_Break bool

definition new_pipe :: "'m pipe" where
  "new_pipe = \<lparr>pp_pending = [], pp_out = [], pp_broken = False\<rparr>"

definition pipe_exec :: "'m pipe_event \<Rightarrow> 'm pipe \<Rightarrow> 'm pipe option" where
  "pipe_exec ev p =
     (case ev of
        Pipe_Accept m \<Rightarrow>
          if length (pp_pending p) \<le> outbound_queue_size then Some (p\<lparr>pp_pending := pp_pending p @ [m]\<rparr>) else None
      | Pipe_Deliver \<Rightarrow>
          (case pp_pending p of
             Some m # q \<Rightarrow> if pp_broken p then None else Some (p\<lparr>pp_pending := q, pp_out := pp_out p @ [m]\<rparr>)
           | _ \<Rightarrow> None)
      | Pipe_Break drops \<Rightarrow>
          if pp_broken p then None
          else Some (p\<lparr>pp_pending := (if drops then tl (pp_pending p) else pp_pending p), pp_broken := True\<rparr>))"

definition pipe_of :: "'m sender \<Rightarrow> 'm pipe" where
  "pipe_of s = \<lparr>pp_pending = in_hand s @ sn_queue s, pp_out = sn_sent s,
     pp_broken = (sn_pc s \<in> {SG_Closing, SG_Finishing, SG_Exited})\<rparr>"

definition pipe_view :: "'m sender_event \<Rightarrow> 'm sender \<Rightarrow> 'm pipe_event list" where
  "pipe_view ev s =
     (case ev of
        Send_Runs i \<Rightarrow> if sd_pc (sn_calls s ! i) = SC_Select then [Pipe_Accept (sd_message (sn_calls s ! i))] else []
      | Sender_Takes \<Rightarrow> if hd (sn_queue s) = None then [Pipe_Break True] else []
      | Sender_Sees_Stop \<Rightarrow> [Pipe_Break False]
      | Sender_Sends success \<Rightarrow> if success then [Pipe_Deliver] else [Pipe_Break True]
      | _ \<Rightarrow> [])"

lemma in_hand_le: "length (in_hand s) \<le> 1"
  by (simp add: in_hand_def split: sender_pc.split)

lemma pipe_of_put [simp]: "pipe_of (put_call i pc s) = pipe_of s"
  by (simp add: pipe_of_def put_call_def)

lemma send_runs_pipe:
  assumes "send_runs i s = Some t"
  shows "exec_all pipe_exec (pipe_view (Send_Runs i) s) (pipe_of s) = Some (pipe_of t)"
proof (cases "sd_pc (sn_calls s ! i)")
  case SC_Select
  let ?m = "sd_message (sn_calls s ! i)"
  from assms SC_Select have t: "t = put_call i (SC_Returned None)
      (s\<lparr>sn_queue := sn_queue s @ [?m], sn_accepted := sn_accepted s @ [?m]\<rparr>)"
    and room: "length (sn_queue s) < outbound_queue_size"
    by (auto simp: send_runs_def Let_def split: if_splits)
  from room in_hand_le [of s] have "length (in_hand s @ sn_queue s) \<le> outbound_queue_size" by simp
  then show ?thesis
    unfolding t pipe_of_put by (simp add: pipe_view_def SC_Select pipe_exec_def pipe_of_def)
qed (use assms in \<open>auto simp: send_runs_def pipe_view_def split: if_splits\<close>)

interpretation sp: simulation sender_exec new_sender sender_ok pipe_exec pipe_of pipe_view
proof
  fix s t :: "'m sender" and e
  assume run: "sender_exec e s = Some t"
  show "exec_all pipe_exec (pipe_view e s) (pipe_of s) = Some (pipe_of t)"
  proof (cases e)
    case (Send_Runs i)
    with run show ?thesis by (auto simp: sender_exec_def intro!: send_runs_pipe split: if_splits)
  next
    case Sender_Takes
    with run have "sender_takes s = Some t" by (simp add: sender_exec_def)
    then show ?thesis
      by (cases rule: sender_takes_cases)
        (simp_all add: Sender_Takes pipe_view_def pipe_exec_def pipe_of_def in_hand_simps)
  next
    case (Sender_Sends success)
    with run have "sender_sends success s = Some t" by (simp add: sender_exec_def)
    then show ?thesis
      by (cases rule: sender_sends_cases)
        (simp_all add: Sender_Sends pipe_view_def pipe_exec_def pipe_of_def in_hand_simps)
  next
    case Sender_Runs
    with run have "sender_runs s = Some t" by (simp add: sender_exec_def)
    then show ?thesis
      by (cases rule: sender_runs_cases)
        (simp_all add: Sender_Runs pipe_view_def pipe_of_def in_hand_simps)
  next
    case Sender_Sees_Stop
    with run have "sn_pc s = SG_Loop" "t = s\<lparr>sn_pc := SG_Closing\<rparr>" by (auto simp: sender_exec_def split: if_splits)
    then show ?thesis by (simp add: Sender_Sees_Stop pipe_view_def pipe_exec_def pipe_of_def in_hand_simps)
  qed (use run in \<open>auto simp: sender_exec_def pipe_view_def pipe_of_def put_call_def split: if_splits\<close>)
qed

text \<open>Operations the goroutine and the calls have left, until all of them are at rest.\<close>

fun send_left :: "send_pc \<Rightarrow> nat" where
  "send_left SC_Flag = 5"
| "send_left SC_Poll = 4"
| "send_left SC_Select = 3"
| "send_left (SC_Returned e) = 0"

fun sender_left :: "'m sender_pc \<Rightarrow> nat" where
  "sender_left (SG_Send m) = 4"
| "sender_left SG_Loop = 3"
| "sender_left SG_Closing = 2"
| "sender_left SG_Finishing = 1"
| "sender_left SG_Exited = 0"

definition sender_rank :: "'m sender \<Rightarrow> nat" where
  "sender_rank s = sum_list (map (\<lambda>c. send_left (sd_pc c)) (sn_calls s)) + 2 * length (sn_queue s) + sender_left (sn_pc s)"

fun sender_internal :: "'m sender_event \<Rightarrow> bool" where
  "sender_internal (Send_Called m) = False"
| "sender_internal Stop_Called = False"
| "sender_internal _ = True"

lemma put_call_rank:
  assumes "i < length (sn_calls s)"
  shows "sender_rank (put_call i pc s) + send_left (sd_pc (sn_calls s ! i)) = sender_rank s + send_left pc"
  using sum_list_update_left [OF assms, of "\<lambda>c. send_left (sd_pc c)" "(sn_calls s ! i)\<lparr>sd_pc := pc\<rparr>"]
  by (simp add: sender_rank_def put_call_def)

lemma send_runs_rank:
  assumes i: "i < length (sn_calls s)" and run: "send_runs i s = Some t"
  shows "sender_rank t < sender_rank s"
proof (cases "sd_pc (sn_calls s ! i)")
  case SC_Select
  let ?s = "s\<lparr>sn_queue := sn_queue s @ [sd_message (sn_calls s ! i)],
      sn_accepted := sn_accepted s @ [sd_message (sn_calls s ! i)]\<rparr>"
  from run SC_Select have t: "t = put_call i (SC_Returned None) ?s"
    by (auto simp: send_runs_def Let_def split: if_splits)
  have "sender_rank ?s = sender_rank s + 2" by (simp add: sender_rank_def)
  with put_call_rank [of i ?s "SC_Returned None"] i SC_Select t show ?thesis by simp
next
  case SC_Flag
  with run put_call_rank [OF i, of SC_Poll] put_call_rank [OF i, of "SC_Returned (Some closed_pipe)"]
  show ?thesis by (auto simp: send_runs_def split: if_splits)
next
  case SC_Poll
  with run put_call_rank [OF i, of SC_Select] put_call_rank [OF i, of "SC_Returned (Some closed_pipe)"]
  show ?thesis by (auto simp: send_runs_def split: if_splits)
qed (use run in \<open>simp add: send_runs_def\<close>)

interpretation snt: ranked_runs sender_exec sender_rank sender_internal
proof
  fix e and s t :: "'m sender"
  assume run: "sender_exec e s = Some t" and "sender_internal e"
  then show "sender_rank t < sender_rank s"
  proof (cases e)
    case (Send_Runs i)
    with run show ?thesis by (auto simp: sender_exec_def intro: send_runs_rank split: if_splits)
  next
    case (Send_Stopped i)
    with run put_call_rank [of i s "SC_Returned (Some closed_pipe)"] show ?thesis
      by (auto simp: sender_exec_def split: if_splits)
  next
    case (Send_Finished i)
    with run put_call_rank [of i s "SC_Returned (Some closed_pipe)"] show ?thesis
      by (auto simp: sender_exec_def split: if_splits)
  next
    case Sender_Takes
    with run have "sender_takes s = Some t" by (simp add: sender_exec_def)
    then show ?thesis by (cases rule: sender_takes_cases) (simp_all add: sender_rank_def)
  next
    case (Sender_Sends success)
    with run have "sender_sends success s = Some t" by (simp add: sender_exec_def)
    then show ?thesis by (cases rule: sender_sends_cases) (simp_all add: sender_rank_def)
  next
    case Sender_Runs
    with run have "sender_runs s = Some t" by (simp add: sender_exec_def)
    then show ?thesis by (cases rule: sender_runs_cases) (simp_all add: sender_rank_def)
  qed (auto simp: sender_exec_def sender_rank_def split: if_splits)
qed

lemma waiting_event:
  assumes ok: "sender_ok s" and i: "i < length (sn_calls s)" and pc: "sd_pc (sn_calls s ! i) = SC_Select"
  shows "\<exists>e t. sender_internal e \<and> sender_exec e s = Some t"
proof (cases "sn_pc s")
  case SG_Loop
  show ?thesis
  proof (cases "sn_queue s")
    case Nil
    then have "sender_exec (Send_Runs i) s \<noteq> None"
      by (simp add: sender_exec_def send_runs_def i pc outbound_queue_size_def Let_def)
    then show ?thesis by (auto intro: exI [of _ "Send_Runs i"])
  next
    case (Cons m q)
    with SG_Loop have "sender_exec Sender_Takes s \<noteq> None"
      by (cases m) (simp_all add: sender_exec_def sender_takes_def)
    then show ?thesis by (auto intro: exI [of _ Sender_Takes])
  qed
next
  case (SG_Send m)
  then have "sender_exec (Sender_Sends True) s \<noteq> None" by (simp add: sender_exec_def sender_sends_def)
  then show ?thesis by (auto intro: exI [of _ "Sender_Sends True"])
next
  case SG_Exited
  with ok i pc have "sender_exec (Send_Finished i) s \<noteq> None" by (simp add: sender_exec_def sender_ok_def)
  then show ?thesis by (auto intro: exI [of _ "Send_Finished i"])
next
  case SG_Closing
  then have "sender_exec Sender_Runs s \<noteq> None" by (simp add: sender_exec_def sender_runs_def)
  then show ?thesis by (auto intro: exI [of _ Sender_Runs])
next
  case SG_Finishing
  then have "sender_exec Sender_Runs s \<noteq> None" by (simp add: sender_exec_def sender_runs_def)
  then show ?thesis by (auto intro: exI [of _ Sender_Runs])
qed

text \<open>A goroutine that has exited sends nothing more.\<close>

lemma send_runs_frame: "send_runs i s = Some t \<Longrightarrow> sn_sent t = sn_sent s \<and> sn_pc t = sn_pc s"
  by (cases "sd_pc (sn_calls s ! i)") (auto simp: send_runs_def put_call_def Let_def split: if_splits)

lemma sender_exited:
  assumes pc: "sn_pc s = SG_Exited" and run: "sender_exec e s = Some t"
  shows "sn_sent t = sn_sent s \<and> sn_pc t = SG_Exited"
proof (cases e)
  case (Send_Runs i)
  with run pc send_runs_frame [of i s t] show ?thesis by (auto simp: sender_exec_def split: if_splits)
qed (use run pc in \<open>auto simp: sender_exec_def put_call_def sender_takes_def sender_sends_def sender_runs_def split: if_splits\<close>)

lemma sender_exited_reaches:
  "reaches sender_exec s t \<Longrightarrow> sn_pc s = SG_Exited \<Longrightarrow> sn_sent t = sn_sent s \<and> sn_pc t = SG_Exited"
  by (induction rule: reaches.induct) (auto dest: sender_exited)

definition calls_returned :: "'m sender \<Rightarrow> bool" where
  "calls_returned s \<longleftrightarrow> list_all (\<lambda>c. send_left (sd_pc c) = 0) (sn_calls s)"

lemma call_event:
  assumes ok: "sender_ok s" and "\<not> calls_returned s"
  shows "\<exists>e t. sender_internal e \<and> sender_exec e s = Some t"
proof -
  from assms(2) obtain i where i: "i < length (sn_calls s)" and left: "send_left (sd_pc (sn_calls s ! i)) \<noteq> 0"
    by (auto simp: calls_returned_def list_all_length)
  show ?thesis
  proof (cases "sd_pc (sn_calls s ! i) = SC_Select")
    case True
    with ok i show ?thesis by (rule waiting_event)
  next
    case False
    with left have "sender_exec (Send_Runs i) s \<noteq> None"
      by (cases "sd_pc (sn_calls s ! i)") (simp_all add: sender_exec_def send_runs_def i)
    then show ?thesis by (auto intro: exI [of _ "Send_Runs i"])
  qed
qed

lemma shutdown_hooks_snoc: "shutdown_hooks (hs @ [h]) w = shutdown_hooks hs (snd (lh_shutdown h w))"
  by (simp add: shutdown_hooks_def)

lemma start_hooks_from_append:
  "start_hooks_from started (hs @ hs') w =
     (case start_hooks_from started hs w of
        (Some e, w') \<Rightarrow> (Some e, w') | (None, w') \<Rightarrow> start_hooks_from (started @ hs) hs' w')"
  by (induction started hs w rule: start_hooks_from.induct) (auto split: prod.split option.split)

lemma start_hooks_from_error:
  assumes "start_hooks_from started hs w = (Some e, w')"
  shows "\<exists>good h rest v v'. hs = good @ h # rest \<and> start_hooks_from started good w = (None, v) \<and>
    lh_start h v = (Some e, v') \<and> w' = shutdown_hooks (started @ good) v'"
  using assms
proof (induction started hs w rule: start_hooks_from.induct)
  case (2 started h hs w)
  show ?case
  proof (cases "lh_start h w")
    case (Pair r v)
    show ?thesis
    proof (cases r)
      case (Some x)
      with 2(2) Pair have "w' = shutdown_hooks started v" "x = e" by simp_all
      with Pair Some show ?thesis by (intro exI [of _ "[]"]) auto
    next
      case None
      with 2(2) Pair have "start_hooks_from (started @ [h]) hs v = (Some e, w')" by simp
      from 2(1) [OF Pair [symmetric] None this] obtain good h' rest u v' where
        "hs = good @ h' # rest" "start_hooks_from (started @ [h]) good v = (None, u)" "lh_start h' u = (Some e, v')"
        "w' = shutdown_hooks ((started @ [h]) @ good) v'" by blast
      with Pair None show ?thesis by (intro exI [of _ "h # good"]) auto
    qed
  qed
qed simp

text \<open>Loading is the only request that changes what the dispatcher knows of functions.\<close>

lemma process_request_registered: "d_registered (snd (process_request X hc msg d)) = d_registered d"
  by (auto simp: process_request_def Let_def split: option.splits content.splits prod.splits)

lemma process_request_load:
  assumes "sm_content msg = Some (C_FunctionLoadRequest fid)"
  shows "d_loaded (snd (process_request X hc msg d)) =
    (case map_of (d_registered d) fid of
       None \<Rightarrow> d_loaded d | Some rf \<Rightarrow> map_put fid (load_function (ie_types X) rf) (d_loaded d))"
  using assms by (auto simp: process_request_def Let_def handle_load_def sm_load_def split: option.splits)

lemma process_request_loaded:
  assumes "\<And>fid. sm_content msg \<noteq> Some (C_FunctionLoadRequest fid)"
  shows "d_loaded (snd (process_request X hc msg d)) = d_loaded d"
  using assms by (auto simp: process_request_def Let_def split: option.splits content.splits prod.splits)

lemma dispatch_message_state: "snd (dispatch_message X hc msg d) = snd (process_request X hc msg d)"
  by (auto simp: dispatch_message_def split: prod.splits outcome.splits sum.splits option.splits)

definition loaded_ok :: "tenv \<Rightarrow> (string, 'cl rfunction) go_map \<Rightarrow> ('cl, 'w) dispatcher \<Rightarrow> bool" where
  "loaded_ok E registered d \<longleftrightarrow>
     d_registered d = registered \<and> wf_map (d_loaded d) \<and>
     (\<forall>fid lf. map_of (d_loaded d) fid = Some lf \<longrightarrow>
        (\<exists>rf. map_of registered fid = Some rf \<and> lf = load_function E rf))"

definition is_load :: "string \<Rightarrow> streaming_message \<Rightarrow> bool" where
  "is_load fid msg \<longleftrightarrow> sm_content msg = Some (C_FunctionLoadRequest fid)"

lemma process_request_entry:
  assumes "loaded_ok E m d" and "E = ie_types X"
  shows "map_of (d_loaded (snd (process_request X hc msg d))) fid =
    (if is_load fid msg \<and> map_of m fid \<noteq> None then map_option (load_function E) (map_of m fid)
     else map_of (d_loaded d) fid)"
proof (cases "\<exists>fid'. sm_content msg = Some (C_FunctionLoadRequest fid')")
  case True
  then obtain fid' where "sm_content msg = Some (C_FunctionLoadRequest fid')" by blast
  from process_request_load [OF this, of X hc d] assms this show ?thesis
    by (auto simp: is_load_def loaded_ok_def map_of_put split: option.splits)
next
  case False
  with process_request_loaded [of msg X hc d] show ?thesis by (auto simp: is_load_def)
qed

lemma loaded_ok_step:
  assumes "loaded_ok (ie_types X) m d"
  shows "loaded_ok (ie_types X) m (snd (process_request X hc msg d))"
proof -
  have "wf_map (d_loaded (snd (process_request X hc msg d)))"
  proof (cases "\<exists>fid'. sm_content msg = Some (C_FunctionLoadRequest fid')")
    case True
    with assms process_request_load [of msg _ X hc d] show ?thesis
      by (auto simp: loaded_ok_def wf_map_put split: option.splits)
  next
    case False
    with assms process_request_loaded [of msg X hc d] show ?thesis by (auto simp: loaded_ok_def)
  qed
  with assms process_request_entry [OF assms refl] show ?thesis
    by (auto simp: loaded_ok_def process_request_registered split: if_splits)
qed

definition started :: "('cl, 'w) dispatcher \<Rightarrow> ('cl, 'w) dispatcher" where
  "started d = d\<lparr>d_loaded := []\<rparr>"

interpretation dp: invariant_runs "dispatcher_exec X hc" "started d" "loaded_ok (ie_types X) (d_registered d)" for X hc d
  by unfold_locales
    (auto simp: dispatcher_exec_def dispatch_message_state loaded_ok_step, simp add: loaded_ok_def started_def)

lemma loaded_after:
  assumes "loaded_ok (ie_types X) m d" and "exec_all (dispatcher_exec X hc) msgs d = Some d'"
  shows "map_of (d_loaded d') fid =
    (if list_ex (is_load fid) msgs \<and> map_of m fid \<noteq> None then map_option (load_function (ie_types X)) (map_of m fid)
     else map_of (d_loaded d) fid)"
  using assms
proof (induction msgs arbitrary: d)
  case (Cons msg msgs)
  let ?u = "snd (process_request X hc msg d)"
  have "dispatcher_exec X hc msg d = Some ?u" by (simp add: dispatcher_exec_def dispatch_message_state)
  with Cons.prems have rest: "exec_all (dispatcher_exec X hc) msgs ?u = Some d'" by simp
  from Cons.IH [OF loaded_ok_step [OF Cons.prems(1)] rest] process_request_entry [OF Cons.prems(1) refl, of hc msg fid]
  show ?case by auto
qed simp

text \<open>A message is accepted, the sender is stopped, and the goroutine sees the stop first.\<close>

definition stopping_run :: "'m \<Rightarrow> 'm sender_event list" where
  "stopping_run m = [Send_Called (Some m), Send_Runs 0, Send_Runs 0, Send_Runs 0, Stop_Called, Sender_Sees_Stop,
     Sender_Runs, Sender_Runs]"

definition stopped_sender :: "'m \<Rightarrow> 'm sender" where
  "stopped_sender m = \<lparr>sn_queue = [Some m], sn_stop = True, sn_closed = True, sn_finished = True, sn_pc = SG_Exited,
     sn_calls = [\<lparr>sd_message = Some m, sd_pc = SC_Returned None\<rparr>], sn_sent = [], sn_accepted = [Some m], sn_lost = []\<rparr>"

lemma stopping_run_exec: "exec_all sender_exec (stopping_run m) new_sender = Some (stopped_sender m)"
  by (simp add: stopping_run_def stopped_sender_def new_sender_def sender_exec_def send_runs_def put_call_def
      sender_runs_def outbound_queue_size_def Let_def)

subsection \<open>Properties\<close>

text \<open>
  C18. The host gets the messages in the order they were accepted, each at most once: what was sent is
  a prefix of what was accepted, and behind it come at most one message in hand or lost to a failed
  send and at most 256 queued ones.  A call that returned without an error had its message accepted,
  once, and no other message was.
\<close>

theorem sender_fifo:
  assumes "exec_all sender_exec es new_sender = Some s"
  shows "sn_accepted s = map Some (sn_sent s) @ in_hand s @ sn_lost s @ sn_queue s \<and>
    length (in_hand s @ sn_lost s) \<le> 1 \<and> length (sn_queue s) \<le> 256 \<and>
    mset (sn_accepted s) = mset (map sd_message (filter (\<lambda>c. sd_pc c = SC_Returned None) (sn_calls s)))"
proof -
  have ok: "sender_ok s" by (rule sn.exec_all_inv [OF assms])
  have "concat (map confirmed cs) = map sd_message (filter (\<lambda>c. sd_pc c = SC_Returned None) cs)" for cs :: "'a send_call list"
    by (induction cs) (simp_all add: confirmed_def)
  moreover have "length (in_hand s @ sn_lost s) \<le> 1"
    using ok by (cases "sn_pc s") (auto simp: sender_ok_def in_hand_def)
  moreover from ok have "mset (sn_accepted s) = confirmed_all (sn_calls s)" "length (sn_queue s) \<le> outbound_queue_size"
    "sn_accepted s = map Some (sn_sent s) @ in_hand s @ sn_lost s @ sn_queue s" unfolding sender_ok_def by blast+
  ultimately show ?thesis unfolding confirmed_all_def outbound_queue_size_def by metis
qed

definition sample_sending :: "nat sender_event list" where
  "sample_sending = [Send_Called (Some 7), Send_Runs 0, Send_Runs 0, Send_Runs 0, Send_Called (Some 8),
     Sender_Takes, Send_Runs 1, Sender_Sends True, Send_Runs 1, Send_Runs 1]"

definition sample_sender :: "nat sender" where
  "sample_sender = \<lparr>sn_queue = [Some 8], sn_stop = False, sn_closed = False, sn_finished = False, sn_pc = SG_Loop,
     sn_calls = [\<lparr>sd_message = Some 7, sd_pc = SC_Returned None\<rparr>, \<lparr>sd_message = Some 8, sd_pc = SC_Returned None\<rparr>],
     sn_sent = [7], sn_accepted = [Some 7, Some 8], sn_lost = []\<rparr>"

lemma sample_sending_exec: "exec_all sender_exec sample_sending new_sender = Some sample_sender"
  by (simp add: sample_sending_def sample_sender_def new_sender_def sender_exec_def send_runs_def put_call_def
      sender_takes_def sender_sends_def outbound_queue_size_def Let_def)

theorem sender_fifo_witness:
  "exec_all sender_exec sample_sending new_sender = Some sample_sender \<and>
   [Some 7, Some 8] = map Some (sn_sent sample_sender) @ in_hand sample_sender @ sn_lost sample_sender @ sn_queue sample_sender"
  using sender_fifo [OF sample_sending_exec] sample_sending_exec
  by (simp add: sample_sender_def)

text \<open>
  C17. The sender with its goroutine, flags and channels refines the bounded pipe: every run of it is,
  operation by operation, a run of the pipe that accepts, delivers and at most once breaks.
\<close>

theorem sender_refines_pipe:
  assumes "exec_all sender_exec es new_sender = Some s"
  shows "exec_all pipe_exec (spec_trace sender_exec pipe_view es new_sender) new_pipe = Some (pipe_of s)"
proof -
  have "pipe_of new_sender = (new_pipe :: 'a pipe)" by (simp add: pipe_of_def new_sender_def new_pipe_def in_hand_def)
  with sp.simulates [OF assms] show ?thesis by simp
qed

theorem sender_refines_pipe_witness:
  "exec_all pipe_exec [Pipe_Accept (Some 7), Pipe_Deliver, Pipe_Accept (Some 8)] new_pipe =
     Some (\<lparr>pp_pending = [Some 8], pp_out = [7 :: nat], pp_broken = False\<rparr>)"
proof -
  have "spec_trace sender_exec pipe_view sample_sending new_sender =
      [Pipe_Accept (Some 7), Pipe_Deliver, Pipe_Accept (Some 8)]"
    by (simp add: sample_sending_def new_sender_def sender_exec_def send_runs_def put_call_def pipe_view_def
        sender_takes_def sender_sends_def outbound_queue_size_def Let_def)
  moreover have "pipe_of sample_sender = \<lparr>pp_pending = [Some 8], pp_out = [7], pp_broken = False\<rparr>"
    by (simp add: sample_sender_def pipe_of_def in_hand_def)
  ultimately show ?thesis using sender_refines_pipe [OF sample_sending_exec] by simp
qed

text \<open>
  No caller of \<open>send\<close> is stuck, even when the queue is full and the goroutine has exited: from
  every reachable state the operations already begun can bring all calls to their return, and
  however they are scheduled there are at most \<open>sender_rank\<close> of them.
\<close>

theorem sender_calls_return:
  assumes "exec_all sender_exec es new_sender = Some s"
  shows "(\<exists>fs t. list_all sender_internal fs \<and> exec_all sender_exec fs s = Some t \<and>
      (\<forall>c \<in> set (sn_calls t). \<exists>r. sd_pc c = SC_Returned r)) \<and>
    (exec_all sender_exec fs s = Some t \<longrightarrow> list_all sender_internal fs \<longrightarrow> length fs \<le> sender_rank s)"
proof
  have "\<exists>fs t. list_all sender_internal fs \<and> exec_all sender_exec fs s = Some t \<and> calls_returned t \<and> sender_ok t"
  proof (rule snt.run_completes)
    show "sender_ok s" by (rule sn.exec_all_inv [OF assms])
  next
    fix u v :: "'a sender" and e assume "sender_ok u" "sender_exec e u = Some v"
    then show "sender_ok v" by (rule sn.inv_step)
  next
    fix u :: "'a sender" assume "sender_ok u" "\<not> calls_returned u"
    then show "\<exists>e v. sender_internal e \<and> sender_exec e u = Some v" by (rule call_event)
  qed
  moreover have "\<exists>r. pc = SC_Returned r" if "send_left pc = 0" for pc
    using that by (cases pc) simp_all
  ultimately show "\<exists>fs t. list_all sender_internal fs \<and> exec_all sender_exec fs s = Some t \<and>
      (\<forall>c \<in> set (sn_calls t). \<exists>r. sd_pc c = SC_Returned r)"
    by (fastforce simp: calls_returned_def list_all_iff)
next
  show "exec_all sender_exec fs s = Some t \<longrightarrow> list_all sender_internal fs \<longrightarrow> length fs \<le> sender_rank s"
    using snt.run_bound [of fs s t] by auto
qed

theorem sender_calls_return_witness:
  "\<exists>fs t. list_all sender_internal fs \<and> exec_all sender_exec fs sample_sender = Some t \<and>
     (\<forall>c \<in> set (sn_calls t). \<exists>r. sd_pc c = SC_Returned r)"
  using sender_calls_return [OF sample_sending_exec] by blast

text \<open>
  Stopping does not drain the queue: a call can return without an error and its message never
  reach the host, because the goroutine may choose the stop channel while messages are queued, and
  once it has exited nothing more is sent.
\<close>

theorem sender_stop_loses:
  "\<exists>es s. exec_all sender_exec es new_sender = Some s \<and> sn_finished s \<and> sn_queue s = [Some m] \<and>
     map sd_pc (sn_calls s) = [SC_Returned None] \<and>
     (\<forall>t. reaches sender_exec s t \<longrightarrow> sn_sent t = [])"
proof -
  have "sn_sent t = []" if "reaches sender_exec (stopped_sender m) t" for t
    using sender_exited_reaches [OF that] by (simp add: stopped_sender_def)
  with stopping_run_exec [of m] show ?thesis
    by (intro exI [of _ "stopping_run m"] exI [of _ "stopped_sender m"]) (auto simp: stopped_sender_def)
qed

theorem sender_stop_loses_witness:
  "\<exists>es s. exec_all sender_exec es new_sender = Some s \<and> sn_queue s = [Some (3 :: nat)] \<and> sn_sent s = []"
  using sender_stop_loses [of "3 :: nat"] reaches.here [of sender_exec] by blast


definition logging_hook :: "nat \<Rightarrow> go_error option \<Rightarrow> nat list lifecycle_hook" where
  "logging_hook n r = \<lparr>lh_start = (\<lambda>w. (r, w @ [n])), lh_shutdown = (\<lambda>w. (None, w @ [n + 100]))\<rparr>"


text \<open>
  Whatever the host sends, and in whatever order, a function is loaded exactly when a load
  request for it came and it was registered; what invocations then find is that registration's own
  binding of arguments.
\<close>

theorem loaded_exactly:
  assumes "exec_all (dispatcher_exec X hc) msgs (started d) = Some d'"
  shows "d_registered d' = d_registered d \<and>
    map_of (d_loaded d') fid =
      (if \<exists>msg \<in> set msgs. sm_content msg = Some (C_FunctionLoadRequest fid)
       then map_option (load_function (ie_types X)) (map_of (d_registered d) fid) else None)"
  using loaded_after [OF dp.inv_init [of X d] assms, of fid] dp.exec_all_inv [OF assms]
  by (auto simp: loaded_ok_def started_def list_ex_iff is_load_def)

theorem loaded_exactly_witness:
  "\<exists>d'. exec_all (dispatcher_exec sample_env (\<lambda>r. None))
       [mk_msg ''m1'' C_WorkerStatusRequest, mk_msg ''m2'' (C_FunctionLoadRequest ''f1'')] (started sample_dispatcher) = Some d' \<and>
     map_of (d_loaded d') ''f1'' = Some (load_function handler_types sample_function) \<and> map_of (d_loaded d') ''f2'' = None"
proof -
  let ?msgs = "[mk_msg ''m1'' C_WorkerStatusRequest, mk_msg ''m2'' (C_FunctionLoadRequest ''f1'')]"
  have "\<exists>d'. exec_all (dispatcher_exec sample_env (\<lambda>r. None)) ?msgs (started sample_dispatcher) = Some d'"
    by (simp add: dispatcher_exec_def)
  then obtain d' where d': "exec_all (dispatcher_exec sample_env (\<lambda>r. None)) ?msgs (started sample_dispatcher) = Some d'" by blast
  from loaded_exactly [OF d', of "''f1''"] loaded_exactly [OF d', of "''f2''"] d' show ?thesis
    by (simp add: mk_msg_def sample_dispatcher_def sample_env_def)
qed

end
