(* ===== verification/Worker_System.thy ===== *)
theory Worker_System
  imports Worker_Stream
begin

text \<open>
  The worker as a whole: the receive loop of \<open>handleBidiStream\<close>, one goroutine per message that runs the
  dispatcher and sends its response, the log writer's sends, and the outbound sender they share.
  Every operation on shared state is a step of its own, so the steps interleave as goroutines do.
\<close>

subsection \<open>Goroutines\<close>

text \<open>
  How a message's goroutine ends: its response was accepted by the sender (call \<open>k\<close> of it) or
  refused, there was none, or there is something to log.
\<close>

datatype task_end =
    TE_Answered nat streaming_message
  | TE_Unsent nat streaming_message go_error
  | TE_Silent
  | TE_Error go_error
  | TE_Panic string

text \<open>
  An invocation first looks its function up in the shared map (\<open>TP_Invoking\<close> keeps what it saw), then
  runs; the other requests are one access to shared state each.
\<close>

datatype 'cl task_pc =
    TP_Received
  | TP_Invoking "(string, 'cl loaded_function) go_map"
  | TP_Responding streaming_message
  | TP_Sending nat streaming_message
  | TP_Ended task_end

record 'cl task =
  tk_message :: streaming_message
  tk_pc :: "'cl task_pc"

record ('cl, 'w) worker =
  wk_dispatcher :: "('cl, 'w) dispatcher"
  wk_receiving :: bool
  wk_tasks :: "'cl task list"
  wk_sender :: "streaming_message sender"

definition new_worker :: "('cl, 'w) dispatcher \<Rightarrow> ('cl, 'w) worker" where
  "new_worker d = \<lparr>wk_dispatcher = started d, wk_receiving = True, wk_tasks = [], wk_sender = new_sender\<rparr>"

definition is_invocation :: "streaming_message \<Rightarrow> bool" where
  "is_invocation msg = (case sm_content msg of Some (C_InvocationRequest req) \<Rightarrow> True | _ \<Rightarrow> False)"

fun after_dispatch :: "dispatched \<Rightarrow> 'cl task_pc" where
  "after_dispatch (Respond m) = TP_Responding m"
| "after_dispatch Silent = TP_Ended TE_Silent"
| "after_dispatch (Logged_Error e) = TP_Ended (TE_Error e)"
| "after_dispatch (Logged_Panic p) = TP_Ended (TE_Panic p)"

definition put_task :: "nat \<Rightarrow> 'cl task_pc \<Rightarrow> ('cl, 'w) worker \<Rightarrow> ('cl, 'w) worker" where
  "put_task i pc s = s\<lparr>wk_tasks := (wk_tasks s)[i := (wk_tasks s ! i)\<lparr>tk_pc := pc\<rparr>]\<rparr>"

text \<open>A goroutine's next operation.  The user's code runs within one step on the world.\<close>

definition task_runs ::
    "('c, 'cl, 'w, 's, 'f) inv_env \<Rightarrow> (worker_init_request \<Rightarrow> host_configuration option) \<Rightarrow> nat \<Rightarrow>
     ('cl, 'w) worker \<Rightarrow> ('cl, 'w) worker option" where
  "task_runs X hc i s =
     (let msg = tk_message (wk_tasks s ! i); d = wk_dispatcher s in
      case tk_pc (wk_tasks s ! i) of
        TP_Received \<Rightarrow>
          if is_invocation msg then Some (put_task i (TP_Invoking (d_loaded d)) s)
          else (case dispatch_message X hc msg d of
                  (r, d') \<Rightarrow> Some (put_task i (after_dispatch r) (s\<lparr>wk_dispatcher := d'\<rparr>)))
      | TP_Invoking loaded \<Rightarrow>
          (case dispatch_message X hc msg (d\<lparr>d_loaded := loaded\<rparr>) of
             (r, d') \<Rightarrow> Some (put_task i (after_dispatch r) (s\<lparr>wk_dispatcher := d\<lparr>d_world := d_world d'\<rparr>\<rparr>)))
      | TP_Responding m \<Rightarrow>
          (case sender_exec (Send_Called (Some m)) (wk_sender s) of
             None \<Rightarrow> None
           | Some sn \<Rightarrow> Some (put_task i (TP_Sending (length (sn_calls (wk_sender s))) m) (s\<lparr>wk_sender := sn\<rparr>)))
      | TP_Sending k m \<Rightarrow>
          (case sd_pc (sn_calls (wk_sender s) ! k) of
             SC_Returned None \<Rightarrow> Some (put_task i (TP_Ended (TE_Answered k m)) s)
           | SC_Returned (Some e) \<Rightarrow> Some (put_task i (TP_Ended (TE_Unsent k m e)) s)
           | _ \<Rightarrow> None)
      | TP_Ended e \<Rightarrow> None)"

subsection \<open>Steps\<close>

text \<open>\<open>Worker_Sender\<close> is an operation of a call or of the sender's goroutine; \<open>Worker_Stops\<close> is \<open>Start\<close>
  stopping the sender, after the receive loop.\<close>

datatype worker_event =
    Worker_Receives recv_result
  | Worker_Logs rpc_log
  | Worker_Task nat
  | Worker_Sender "streaming_message sender_event"
  | Worker_Stops

definition worker_exec ::
    "('c, 'cl, 'w, 's, 'f) inv_env \<Rightarrow> (worker_init_request \<Rightarrow> host_configuration option) \<Rightarrow> worker_event \<Rightarrow>
     ('cl, 'w) worker \<Rightarrow> ('cl, 'w) worker option" where
  "worker_exec X hc ev s =
     (case ev of
        Worker_Receives r \<Rightarrow>
          if \<not> wk_receiving s then None
          else (case r of
            Received m \<Rightarrow> Some (s\<lparr>wk_tasks := wk_tasks s @ [\<lparr>tk_message = m, tk_pc = TP_Received\<rparr>]\<rparr>)
          | _ \<Rightarrow> Some (s\<lparr>wk_receiving := False\<rparr>))
      | Worker_Logs l \<Rightarrow>
          map_option (\<lambda>sn. s\<lparr>wk_sender := sn\<rparr>) (sender_exec (Send_Called (Some (mk_msg '''' (C_RpcLog l)))) (wk_sender s))
      | Worker_Task i \<Rightarrow> if i < length (wk_tasks s) then task_runs X hc i s else None
      | Worker_Sender e \<Rightarrow>
          if sender_internal e then map_option (\<lambda>sn. s\<lparr>wk_sender := sn\<rparr>) (sender_exec e (wk_sender s)) else None
      | Worker_Stops \<Rightarrow>
          if wk_receiving s then None
          else map_option (\<lambda>sn. s\<lparr>wk_sender := sn\<rparr>) (sender_exec Stop_Called (wk_sender s)))"

subsection \<open>What the host is owed\<close>

text \<open>
  \<open>answers wid msg r\<close>: \<open>r\<close> is a response to \<open>msg\<close> from a worker started with request id \<open>wid\<close>.
\<close>

definition answers :: "string \<Rightarrow> streaming_message \<Rightarrow> streaming_message \<Rightarrow> bool" where
  "answers wid msg r =
     (case sm_content msg of
        Some (C_InvocationRequest req) \<Rightarrow> is_response_for (sm_request_id msg) (ireq_invocation_id req) r
      | Some (C_FunctionLoadRequest fid) \<Rightarrow> \<exists>st. r = mk_msg wid (C_FunctionLoadResponse fid st)
      | Some (C_WorkerInitRequest req) \<Rightarrow> \<exists>x. r = mk_msg wid (C_WorkerInitResponse x)
      | Some C_FunctionsMetadataRequest \<Rightarrow> \<exists>fs st. r = mk_msg wid (C_FunctionMetadataResponse fs st)
      | Some C_WorkerStatusRequest \<Rightarrow> r = mk_msg wid C_WorkerStatusResponse
      | Some (C_EnvReloadRequest req) \<Rightarrow> \<exists>x. r = mk_msg wid (C_EnvReloadResponse x)
      | _ \<Rightarrow> False)"

text \<open>The response a goroutine has made, and the one it called \<open>send\<close> with.\<close>

fun response_of :: "'cl task_pc \<Rightarrow> streaming_message option" where
  "response_of (TP_Responding m) = Some m"
| "response_of (TP_Sending k m) = Some m"
| "response_of (TP_Ended (TE_Answered k m)) = Some m"
| "response_of (TP_Ended (TE_Unsent k m e)) = Some m"
| "response_of _ = None"

fun sent_by :: "'cl task_pc \<Rightarrow> streaming_message list" where
  "sent_by (TP_Sending k m) = [m]"
| "sent_by (TP_Ended (TE_Answered k m)) = [m]"
| "sent_by (TP_Ended (TE_Unsent k m e)) = [m]"
| "sent_by _ = []"

definition is_log :: "streaming_message \<Rightarrow> bool" where
  "is_log m \<longleftrightarrow> (\<exists>l. sm_content m = Some (C_RpcLog l))"

definition reply_called :: "streaming_message send_call \<Rightarrow> streaming_message list" where
  "reply_called c = (case sd_message c of Some m \<Rightarrow> if is_log m then [] else [m] | None \<Rightarrow> [])"

text \<open>The call a goroutine waits for or ended with, as the sender has it.\<close>

fun call_ok :: "streaming_message send_call list \<Rightarrow> 'cl task_pc \<Rightarrow> bool" where
  "call_ok cs (TP_Sending k m) \<longleftrightarrow> k < length cs \<and> sd_message (cs ! k) = Some m"
| "call_ok cs (TP_Ended (TE_Answered k m)) \<longleftrightarrow>
     k < length cs \<and> sd_message (cs ! k) = Some m \<and> sd_pc (cs ! k) = SC_Returned None"
| "call_ok cs (TP_Ended (TE_Unsent k m e)) \<longleftrightarrow>
     k < length cs \<and> sd_message (cs ! k) = Some m \<and> sd_pc (cs ! k) = SC_Returned (Some e)"
| "call_ok cs _ \<longleftrightarrow> True"

definition load_reply :: "string \<Rightarrow> string \<Rightarrow> streaming_message" where
  "load_reply wid fid = mk_msg wid (C_FunctionLoadResponse fid status_success_text)"

definition task_ok :: "('c, 'cl, 'w, 's, 'f) inv_env \<Rightarrow> ('cl, 'w) dispatcher \<Rightarrow> 'cl task \<Rightarrow> bool" where
  "task_ok X d t \<longleftrightarrow>
     (\<forall>m. response_of (tk_pc t) = Some m \<longrightarrow> answers (d_request_id d) (tk_message t) m \<and>
        (\<forall>fid. m = load_reply (d_request_id d) fid \<longrightarrow> map_of (d_loaded d) fid \<noteq> None)) \<and>
     (\<forall>l. tk_pc t = TP_Invoking l \<longrightarrow> is_invocation (tk_message t)) \<and>
     (\<forall>e. tk_pc t = TP_Ended (TE_Error e) \<longrightarrow> is_invocation (tk_message t))"

definition worker_ok ::
    "('c, 'cl, 'w, 's, 'f) inv_env \<Rightarrow> (string, 'cl rfunction) go_map \<Rightarrow> string \<Rightarrow> ('cl, 'w) worker \<Rightarrow> bool" where
  "worker_ok X registered wid s \<longleftrightarrow>
     sender_ok (wk_sender s) \<and> loaded_ok (ie_types X) registered (wk_dispatcher s) \<and>
     d_request_id (wk_dispatcher s) = wid \<and>
     list_all (task_ok X (wk_dispatcher s)) (wk_tasks s) \<and>
     list_all (\<lambda>t. call_ok (sn_calls (wk_sender s)) (tk_pc t)) (wk_tasks s) \<and>
     mset (concat (map reply_called (sn_calls (wk_sender s)))) = mset (concat (map (\<lambda>t. sent_by (tk_pc t)) (wk_tasks s)))"

subsection \<open>Lemmas\<close>

lemma process_request_id_kept: "d_request_id (snd (process_request X hc msg d)) = d_request_id d"
  by (auto simp: process_request_def Let_def split: option.splits content.splits prod.splits)

lemma dispatch_frame:
  assumes "dispatch_message X hc msg d = (r, d')"
  shows "d' = snd (process_request X hc msg d)" "d_request_id d' = d_request_id d"
  using dispatch_message_state [of X hc msg d] assms process_request_id_kept [of X hc msg d] by simp_all

lemma dispatch_answers:
  assumes "dispatch_message X hc msg d = (Respond r, d')"
  shows "answers (d_request_id d) msg r"
proof -
  have "process_request X hc msg d = (ok (Some r), d')"
    using assms by (auto simp: dispatch_message_def ok_def split: prod.splits outcome.splits sum.splits option.splits)
  then show ?thesis
    by (auto simp: process_request_def answers_def handle_init_def handle_metadata_def handle_load_def Let_def bind_step_ok_iff
        split: option.splits content.splits prod.splits sum.splits dest!: handle_invocation_ok)
qed

lemma dispatch_load_reply:
  assumes "dispatch_message X hc msg d = (Respond (load_reply wid fid), d')"
  shows "map_of (d_loaded d') fid \<noteq> None"
proof -
  from dispatch_answers [OF assms] have "sm_content msg = Some (C_FunctionLoadRequest fid)"
    by (auto simp: answers_def load_reply_def mk_msg_def is_response_for_def split: option.splits content.splits)
  with assms show ?thesis
    by (auto simp: dispatch_message_def process_request_def Let_def handle_load_def load_reply_def not_found_def
        status_failure_def status_success_text_def mk_msg_def ok_def split: option.splits prod.splits)
qed

lemma dispatch_error:
  assumes "dispatch_message X hc msg d = (Logged_Error e, d')"
  shows "is_invocation msg"
  using assms
  by (auto simp: dispatch_message_def process_request_def Let_def ok_def is_invocation_def
      split: option.splits content.splits prod.splits)

text \<open>What the sender keeps of its calls.\<close>

lemma put_call_nth:
  "k < length (sn_calls s) \<Longrightarrow> sn_calls (put_call i pc s) ! k =
     (if k = i then (sn_calls s ! k)\<lparr>sd_pc := pc\<rparr> else sn_calls s ! k)"
  by (simp add: put_call_def nth_list_update)

lemma length_put_call [simp]: "length (sn_calls (put_call i pc s)) = length (sn_calls s)"
  by (simp add: put_call_def)

lemma sender_calls_kept:
  assumes run: "sender_exec e s = Some t" and k: "k < length (sn_calls s)"
  shows "k < length (sn_calls t) \<and> sd_message (sn_calls t ! k) = sd_message (sn_calls s ! k) \<and>
    (sd_pc (sn_calls s ! k) = SC_Returned r \<longrightarrow> sd_pc (sn_calls t ! k) = SC_Returned r)"
proof (cases e)
  case (Send_Runs i)
  with run have "send_runs i s = Some t" by (simp add: sender_exec_def split: if_splits)
  with k show ?thesis
    by (cases "sd_pc (sn_calls s ! i)") (auto simp: send_runs_def Let_def put_call_nth split: if_splits)
qed (use run k in \<open>auto simp: sender_exec_def put_call_nth nth_append sender_takes_def sender_sends_def sender_runs_def
    split: if_splits sender_pc.splits list.splits option.splits\<close>)

lemma sender_calls_length:
  assumes run: "sender_exec e s = Some t" and "\<forall>m. e \<noteq> Send_Called m"
  shows "length (sn_calls t) = length (sn_calls s)"
proof (cases e)
  case (Send_Runs i)
  with run have "send_runs i s = Some t" by (simp add: sender_exec_def split: if_splits)
  then show ?thesis
    by (cases "sd_pc (sn_calls s ! i)") (auto simp: send_runs_def Let_def split: if_splits)
qed (use assms in \<open>auto simp: sender_exec_def sender_takes_def sender_sends_def sender_runs_def
    split: if_splits sender_pc.splits list.splits option.splits\<close>)

lemma sender_replies_kept:
  assumes "sender_exec e s = Some t" and "\<forall>m. e \<noteq> Send_Called m"
  shows "map reply_called (sn_calls t) = map reply_called (sn_calls s)"
  using sender_calls_length [OF assms] sender_calls_kept [OF assms(1)]
  by (auto intro!: nth_equalityI simp: reply_called_def)

lemma call_ok_kept:
  assumes "sender_exec e s = Some t" and "call_ok (sn_calls s) pc"
  shows "call_ok (sn_calls t) pc"
  using assms sender_calls_kept [OF assms(1)]
  by (cases "(sn_calls s, pc)" rule: call_ok.cases) auto

text \<open>How a step of the worker changes its parts: one lemma per kind of step.\<close>

lemma task_ok_loaded_mono:
  assumes "task_ok X d t" and "d_request_id d' = d_request_id d"
    and "\<And>fid. map_of (d_loaded d) fid \<noteq> None \<Longrightarrow> map_of (d_loaded d') fid \<noteq> None"
  shows "task_ok X d' t"
  using assms by (auto simp: task_ok_def)

lemma task_ok_kept:
  assumes "loaded_ok (ie_types X) reg d" and "task_ok X d t" and "dispatch_message X hc msg d = (r, d')"
  shows "task_ok X d' t"
proof (rule task_ok_loaded_mono [OF assms(2)])
  show "d_request_id d' = d_request_id d" by (rule dispatch_frame [OF assms(3)])
next
  fix fid assume "map_of (d_loaded d) fid \<noteq> None"
  with process_request_entry [OF assms(1) refl, of hc msg fid] dispatch_frame(1) [OF assms(3)] assms(1)
  show "map_of (d_loaded d') fid \<noteq> None" by (auto split: if_splits)
qed

lemma worker_ok_sender:
  assumes "worker_ok X reg wid s" and "sender_exec e (wk_sender s) = Some sn" and "\<forall>m. e \<noteq> Send_Called m"
  shows "worker_ok X reg wid (s\<lparr>wk_sender := sn\<rparr>)"
  using assms sn.inv_step [OF _ assms(2)] sender_replies_kept [OF assms(2,3)] call_ok_kept [OF assms(2)]
  by (auto simp: worker_ok_def list_all_iff)

lemma worker_ok_log:
  assumes "worker_ok X reg wid s" and "sender_exec (Send_Called (Some m)) (wk_sender s) = Some sn" and "is_log m"
  shows "worker_ok X reg wid (s\<lparr>wk_sender := sn\<rparr>)"
proof -
  have "sn_calls sn = sn_calls (wk_sender s) @ [\<lparr>sd_message = Some m, sd_pc = SC_Flag\<rparr>]"
    using assms(2) by (auto simp: sender_exec_def)
  with assms sn.inv_step [OF _ assms(2)] call_ok_kept [OF assms(2)] show ?thesis
    by (auto simp: worker_ok_def list_all_iff reply_called_def)
qed

text \<open>A goroutine that moves without calling \<open>send\<close>.\<close>

lemma worker_ok_move:
  assumes "worker_ok X reg wid s" and i: "i < length (wk_tasks s)"
    and "loaded_ok (ie_types X) reg d" "d_request_id d = wid"
    and "\<And>t. task_ok X (wk_dispatcher s) t \<Longrightarrow> task_ok X d t"
    and "task_ok X d ((wk_tasks s ! i)\<lparr>tk_pc := pc\<rparr>)" and "call_ok (sn_calls (wk_sender s)) pc"
    and "sent_by pc = sent_by (tk_pc (wk_tasks s ! i))"
  shows "worker_ok X reg wid (put_task i pc (s\<lparr>wk_dispatcher := d\<rparr>))"
proof -
  have "mset (concat (map (\<lambda>t. sent_by (tk_pc t)) ((wk_tasks s)[i := (wk_tasks s ! i)\<lparr>tk_pc := pc\<rparr>]))) =
      mset (concat (map (\<lambda>t. sent_by (tk_pc t)) (wk_tasks s)))"
    by (rule concat_update_same [OF i]) (simp add: assms(8))
  with assms show ?thesis
    by (auto simp: worker_ok_def put_task_def list_all_iff dest!: set_update_subset_insert [THEN subsetD])
qed

lemma after_dispatch_simps [simp]:
  "sent_by (after_dispatch r) = []" "call_ok cs (after_dispatch r)"
  "after_dispatch r \<noteq> TP_Invoking l"
  "response_of (after_dispatch r) = Some m \<longleftrightarrow> r = Respond m"
  "after_dispatch r = TP_Ended (TE_Error e) \<longleftrightarrow> r = Logged_Error e"
  by (cases r; simp)+

lemma after_dispatch_ok:
  assumes "dispatch_message X hc (tk_message t) d = (r, d')" and "d_request_id u = d_request_id d" and "d_loaded u = d_loaded d'"
  shows "task_ok X u (t\<lparr>tk_pc := after_dispatch r\<rparr>)"
  using assms dispatch_answers [of X hc "tk_message t" d _ d'] dispatch_load_reply [of X hc "tk_message t" d "d_request_id d" _ d']
    dispatch_error [of X hc "tk_message t" d _ d']
  by (auto simp: task_ok_def)

lemma after_invocation_ok:
  assumes "dispatch_message X hc (tk_message t) d = (r, d')" and "is_invocation (tk_message t)"
    and "d_request_id u = d_request_id d"
  shows "task_ok X u (t\<lparr>tk_pc := after_dispatch r\<rparr>)"
proof -
  have "answers (d_request_id d) (tk_message t) m \<and> m \<noteq> load_reply wid fid" if "r = Respond m" for m wid fid
    using dispatch_answers [of X hc "tk_message t" d m d'] assms(1,2) that
    by (auto simp: answers_def load_reply_def is_invocation_def is_response_for_def mk_msg_def split: option.splits content.splits)
  with assms show ?thesis by (auto simp: task_ok_def)
qed

lemma answers_not_log: "answers wid msg m \<Longrightarrow> \<not> is_log m"
  by (auto simp: answers_def is_log_def is_response_for_def split: option.splits content.splits)

lemma worker_ok_call:
  assumes ok: "worker_ok X reg wid s" and i: "i < length (wk_tasks s)" and pc: "tk_pc (wk_tasks s ! i) = TP_Responding m"
    and call: "sender_exec (Send_Called (Some m)) (wk_sender s) = Some sn"
  shows "worker_ok X reg wid (put_task i (TP_Sending (length (sn_calls (wk_sender s))) m) (s\<lparr>wk_sender := sn\<rparr>))"
proof -
  let ?k = "length (sn_calls (wk_sender s))"
  let ?ts = "(wk_tasks s)[i := (wk_tasks s ! i)\<lparr>tk_pc := TP_Sending ?k m\<rparr>]"
  have cs: "sn_calls sn = sn_calls (wk_sender s) @ [\<lparr>sd_message = Some m, sd_pc = SC_Flag\<rparr>]"
    using call by (auto simp: sender_exec_def)
  have t: "task_ok X (wk_dispatcher s) (wk_tasks s ! i)" using ok i by (simp add: worker_ok_def list_all_length)
  with pc have "\<not> is_log m" by (auto simp: task_ok_def dest: answers_not_log)
  moreover have "mset (concat (map (\<lambda>t. sent_by (tk_pc t)) ?ts)) =
      add_mset m (mset (concat (map (\<lambda>t. sent_by (tk_pc t)) (wk_tasks s))))"
    by (rule concat_update_add [OF i]) (simp add: pc)
  moreover have "task_ok X (wk_dispatcher s) ((wk_tasks s ! i)\<lparr>tk_pc := TP_Sending ?k m\<rparr>)"
    using t pc by (auto simp: task_ok_def)
  ultimately show ?thesis
    using ok cs sn.inv_step [OF _ call] call_ok_kept [OF call]
    by (auto simp: worker_ok_def put_task_def list_all_iff reply_called_def dest!: set_update_subset_insert [THEN subsetD])
qed

lemma worker_ok_dispatched:
  assumes "worker_ok X reg wid s" and i: "i < length (wk_tasks s)" and pc: "tk_pc (wk_tasks s ! i) = TP_Received"
    and run: "dispatch_message X hc (tk_message (wk_tasks s ! i)) (wk_dispatcher s) = (r, d')"
  shows "worker_ok X reg wid (put_task i (after_dispatch r) (s\<lparr>wk_dispatcher := d'\<rparr>))"
proof (rule worker_ok_move [OF assms(1,2)])
  note ok = assms(1)
  from ok have loaded: "loaded_ok (ie_types X) reg (wk_dispatcher s)" by (simp add: worker_ok_def)
  then show "loaded_ok (ie_types X) reg d'" using loaded_ok_step dispatch_frame(1) [OF run] by blast
  show "d_request_id d' = wid" using ok dispatch_frame(2) [OF run] by (simp add: worker_ok_def)
  show "task_ok X d' t" if "task_ok X (wk_dispatcher s) t" for t
    using task_ok_kept [OF loaded that run] .
  show "task_ok X d' ((wk_tasks s ! i)\<lparr>tk_pc := after_dispatch r\<rparr>)"
    using after_dispatch_ok [OF run] dispatch_frame(2) [OF run] by blast
qed (use pc in simp_all)

lemma worker_ok_invoked:
  assumes "worker_ok X reg wid s" and i: "i < length (wk_tasks s)" and pc: "tk_pc (wk_tasks s ! i) = TP_Invoking l"
    and run: "dispatch_message X hc (tk_message (wk_tasks s ! i)) ((wk_dispatcher s)\<lparr>d_loaded := l\<rparr>) = (r, d')"
  shows "worker_ok X reg wid (put_task i (after_dispatch r) (s\<lparr>wk_dispatcher := (wk_dispatcher s)\<lparr>d_world := w\<rparr>\<rparr>))"
proof (rule worker_ok_move [OF assms(1,2)])
  note ok = assms(1)
  show "loaded_ok (ie_types X) reg ((wk_dispatcher s)\<lparr>d_world := w\<rparr>)" "d_request_id ((wk_dispatcher s)\<lparr>d_world := w\<rparr>) = wid"
    using ok by (auto simp: worker_ok_def loaded_ok_def)
  show "task_ok X ((wk_dispatcher s)\<lparr>d_world := w\<rparr>) t" if "task_ok X (wk_dispatcher s) t" for t
    by (rule task_ok_loaded_mono [OF that]) simp_all
  have "is_invocation (tk_message (wk_tasks s ! i))" using ok i pc by (auto simp: worker_ok_def list_all_length task_ok_def)
  then show "task_ok X ((wk_dispatcher s)\<lparr>d_world := w\<rparr>) ((wk_tasks s ! i)\<lparr>tk_pc := after_dispatch r\<rparr>)"
    by (rule after_invocation_ok [OF run]) simp
qed (use pc in simp_all)

lemma sender_internal_call: "sender_internal e \<Longrightarrow> \<forall>m. e \<noteq> Send_Called m"
  by (cases e) auto

text \<open>The operations of a goroutine, one case per kind.\<close>

lemma task_runs_cases:
  assumes "task_runs X hc i s = Some t"
  obtains (lookup) "tk_pc (wk_tasks s ! i) = TP_Received" "is_invocation (tk_message (wk_tasks s ! i))"
      "t = put_task i (TP_Invoking (d_loaded (wk_dispatcher s))) s"
    | (dispatch) r d' where "tk_pc (wk_tasks s ! i) = TP_Received" "\<not> is_invocation (tk_message (wk_tasks s ! i))"
      "dispatch_message X hc (tk_message (wk_tasks s ! i)) (wk_dispatcher s) = (r, d')"
      "t = put_task i (after_dispatch r) (s\<lparr>wk_dispatcher := d'\<rparr>)"
    | (invoke) l r d' where "tk_pc (wk_tasks s ! i) = TP_Invoking l"
      "dispatch_message X hc (tk_message (wk_tasks s ! i)) ((wk_dispatcher s)\<lparr>d_loaded := l\<rparr>) = (r, d')"
      "t = put_task i (after_dispatch r) (s\<lparr>wk_dispatcher := (wk_dispatcher s)\<lparr>d_world := d_world d'\<rparr>\<rparr>)"
    | (call) m sn where "tk_pc (wk_tasks s ! i) = TP_Responding m"
      "sender_exec (Send_Called (Some m)) (wk_sender s) = Some sn"
      "t = put_task i (TP_Sending (length (sn_calls (wk_sender s))) m) (s\<lparr>wk_sender := sn\<rparr>)"
    | (finish) k m r where "tk_pc (wk_tasks s ! i) = TP_Sending k m" "sd_pc (sn_calls (wk_sender s) ! k) = SC_Returned r"
      "t = put_task i (TP_Ended (case r of None \<Rightarrow> TE_Answered k m | Some e \<Rightarrow> TE_Unsent k m e)) s"
  using assms
  by (cases "tk_pc (wk_tasks s ! i)") (auto simp: task_runs_def Let_def split: prod.splits if_splits option.splits send_pc.splits)

lemma worker_ok_task:
  assumes ok: "worker_ok X reg wid s" and i: "i < length (wk_tasks s)" and run: "task_runs X hc i s = Some t"
  shows "worker_ok X reg wid t"
  using run
proof (cases rule: task_runs_cases)
  case lookup
  have "worker_ok X reg wid (put_task i (TP_Invoking (d_loaded (wk_dispatcher s))) (s\<lparr>wk_dispatcher := wk_dispatcher s\<rparr>))"
    by (rule worker_ok_move [OF ok i]) (use ok lookup i in \<open>auto simp: worker_ok_def task_ok_def\<close>)
  with lookup show ?thesis by simp
next
  case (dispatch r d')
  with worker_ok_dispatched [OF ok i] show ?thesis by blast
next
  case (invoke l r d')
  with worker_ok_invoked [OF ok i] show ?thesis by blast
next
  case (call m sn)
  with worker_ok_call [OF ok i] show ?thesis by blast
next
  case (finish k m r)
  let ?pc = "TP_Ended (case r of None \<Rightarrow> TE_Answered k m | Some e \<Rightarrow> TE_Unsent k m e)"
  have "task_ok X (wk_dispatcher s) (wk_tasks s ! i)" "call_ok (sn_calls (wk_sender s)) (TP_Sending k m)"
    using ok i finish(1) by (auto simp: worker_ok_def list_all_length)
  then have "worker_ok X reg wid (put_task i ?pc (s\<lparr>wk_dispatcher := wk_dispatcher s\<rparr>))"
    by (intro worker_ok_move [OF ok i]) (use ok finish in \<open>auto simp: worker_ok_def task_ok_def split: option.split\<close>)
  with finish show ?thesis by simp
qed

interpretation wk: invariant_runs "worker_exec X hc" "new_worker d" "worker_ok X (d_registered d) (d_request_id d)" for X hc d
proof
  show "worker_ok X (d_registered d) (d_request_id d) (new_worker d)"
    using dp.inv_init [of X d] sn.inv_init by (simp add: worker_ok_def new_worker_def started_def new_sender_def)
next
  fix s t e
  assume ok: "worker_ok X (d_registered d) (d_request_id d) s" and run: "worker_exec X hc e s = Some t"
  show "worker_ok X (d_registered d) (d_request_id d) t"
  proof (cases e)
    case (Worker_Receives r)
    with ok run show ?thesis
      by (auto simp: worker_exec_def worker_ok_def task_ok_def split: if_splits recv_result.splits)
  next
    case (Worker_Logs l)
    with run worker_ok_log [OF ok] show ?thesis by (auto simp: worker_exec_def is_log_def)
  next
    case (Worker_Task i)
    with run worker_ok_task [OF ok] show ?thesis by (auto simp: worker_exec_def split: if_splits)
  next
    case (Worker_Sender f)
    with run sender_internal_call [of f] worker_ok_sender [OF ok, of f] show ?thesis by (auto simp: worker_exec_def split: if_splits)
  next
    case Worker_Stops
    with run worker_ok_sender [OF ok, of Stop_Called] show ?thesis by (auto simp: worker_exec_def split: if_splits)
  qed
qed

text \<open>
  Operations left until every goroutine has ended; a call of \<open>send\<close> adds its own to those of the
  sender.
\<close>

fun task_left :: "'cl task_pc \<Rightarrow> nat" where
  "task_left TP_Received = 9"
| "task_left (TP_Invoking l) = 8"
| "task_left (TP_Responding m) = 7"
| "task_left (TP_Sending k m) = 1"
| "task_left (TP_Ended e) = 0"

definition worker_rank :: "('cl, 'w) worker \<Rightarrow> nat" where
  "worker_rank s = sum_list (map (\<lambda>t. task_left (tk_pc t)) (wk_tasks s)) + sender_rank (wk_sender s)"

fun worker_internal :: "worker_event \<Rightarrow> bool" where
  "worker_internal (Worker_Task i) = True"
| "worker_internal (Worker_Sender e) = True"
| "worker_internal e = False"

lemma put_task_rank:
  assumes "i < length (wk_tasks s)"
  shows "worker_rank (put_task i pc s) + task_left (tk_pc (wk_tasks s ! i)) = worker_rank s + task_left pc"
  using sum_list_update_left [OF assms, of "\<lambda>t. task_left (tk_pc t)" "(wk_tasks s ! i)\<lparr>tk_pc := pc\<rparr>"]
  by (simp add: worker_rank_def put_task_def)

lemma put_dispatched_rank:
  assumes "i < length (wk_tasks s)" and "task_left (tk_pc (wk_tasks s ! i)) \<ge> 8"
  shows "worker_rank (put_task i (after_dispatch r) s) < worker_rank s"
  by (cases r) (use assms put_task_rank [OF assms(1), of "after_dispatch r"] in simp_all)

lemma worker_rank_dispatcher [simp]: "worker_rank (s\<lparr>wk_dispatcher := d\<rparr>) = worker_rank s"
  by (simp add: worker_rank_def)

lemma call_rank: "sender_exec (Send_Called m) s = Some t \<Longrightarrow> sender_rank t = sender_rank s + 5"
  by (auto simp: sender_exec_def sender_rank_def)

lemma task_runs_rank:
  assumes i: "i < length (wk_tasks s)" and run: "task_runs X hc i s = Some t"
  shows "worker_rank t < worker_rank s"
  using run
proof (cases rule: task_runs_cases)
  case lookup
  with put_task_rank [OF i, of "TP_Invoking (d_loaded (wk_dispatcher s))"] show ?thesis by simp
next
  case (dispatch r d')
  with put_dispatched_rank [of i "s\<lparr>wk_dispatcher := d'\<rparr>" r] i show ?thesis by simp
next
  case (invoke l r d')
  with put_dispatched_rank [of i "s\<lparr>wk_dispatcher := (wk_dispatcher s)\<lparr>d_world := d_world d'\<rparr>\<rparr>" r] i show ?thesis by simp
next
  case (call m sn)
  let ?s = "s\<lparr>wk_sender := sn\<rparr>"
  have "worker_rank ?s = worker_rank s + 5" using call_rank [OF call(2)] by (simp add: worker_rank_def)
  with call put_task_rank [of i ?s "TP_Sending (length (sn_calls (wk_sender s))) m"] i show ?thesis by simp
next
  case (finish k m r)
  with put_task_rank [OF i, of "TP_Ended (case r of None \<Rightarrow> TE_Answered k m | Some e \<Rightarrow> TE_Unsent k m e)"] show ?thesis by simp
qed

interpretation wkt: ranked_runs "worker_exec X hc" worker_rank worker_internal for X hc
proof
  fix s t e
  assume run: "worker_exec X hc e s = Some t" and int: "worker_internal e"
  show "worker_rank t < worker_rank s"
  proof (cases e)
    case (Worker_Task i)
    with run task_runs_rank [of i s X hc t] show ?thesis by (simp add: worker_exec_def split: if_splits)
  next
    case (Worker_Sender f)
    with run snt.rank_step [of f "wk_sender s"] show ?thesis by (auto simp: worker_exec_def worker_rank_def split: if_splits)
  qed (use int in simp_all)
qed

definition all_tasks_ended :: "('cl, 'w) worker \<Rightarrow> bool" where
  "all_tasks_ended s \<longleftrightarrow> list_all (\<lambda>t. \<exists>e. tk_pc t = TP_Ended e) (wk_tasks s)"

lemma sender_event_lifted:
  "\<exists>e t. sender_internal e \<and> sender_exec e (wk_sender s) = Some t \<Longrightarrow>
   \<exists>e t. worker_internal e \<and> worker_exec X hc e s = Some t"
  by (auto simp: worker_exec_def intro!: exI [of _ "Worker_Sender _"])

lemma task_event:
  assumes ok: "worker_ok X reg wid s" and "\<not> all_tasks_ended s"
  shows "\<exists>e t. worker_internal e \<and> worker_exec X hc e s = Some t"
proof -
  from assms(2) obtain i where i: "i < length (wk_tasks s)" and pc: "\<And>e. tk_pc (wk_tasks s ! i) \<noteq> TP_Ended e"
    by (auto simp: all_tasks_ended_def list_all_length)
  show ?thesis
  proof (cases "task_runs X hc i s")
    case (Some t)
    with i have "worker_exec X hc (Worker_Task i) s = Some t" by (simp add: worker_exec_def)
    then show ?thesis by (auto intro: exI [of _ "Worker_Task i"])
  next
    case None
    with pc obtain k m where k: "tk_pc (wk_tasks s ! i) = TP_Sending k m"
      and busy: "\<And>r. sd_pc (sn_calls (wk_sender s) ! k) \<noteq> SC_Returned r"
      by (cases "tk_pc (wk_tasks s ! i)")
        (auto simp: task_runs_def Let_def sender_exec_def split: prod.splits if_splits option.splits send_pc.splits)
    from ok i have "call_ok (sn_calls (wk_sender s)) (tk_pc (wk_tasks s ! i))" by (simp add: worker_ok_def list_all_length)
    with k busy have "\<not> calls_returned (wk_sender s)"
      by (cases "sd_pc (sn_calls (wk_sender s) ! k)") (auto simp: calls_returned_def list_all_length)
    with ok show ?thesis by (intro sender_event_lifted call_event) (auto simp: worker_ok_def)
  qed
qed

text \<open>What reached the host came from a call, and each call from one goroutine.\<close>

definition non_log :: "streaming_message option \<Rightarrow> streaming_message option" where
  "non_log x = (case x of Some m \<Rightarrow> if is_log m then None else Some m | None \<Rightarrow> None)"

lemma mset_map_filter: "mset (List.map_filter f xs) = image_mset (the \<circ> f) {#x \<in># mset xs. f x \<noteq> None#}"
  by (simp add: List.map_filter_def)

lemma map_filter_subset:
  "mset xs \<subseteq># mset ys \<Longrightarrow> mset (List.map_filter f xs) \<subseteq># mset (List.map_filter f ys)"
  unfolding mset_map_filter by (intro image_mset_subseteq_mono multiset_filter_mono)

lemma confirmed_subset: "confirmed_all cs \<subseteq># mset (map sd_message cs)"
  unfolding confirmed_all_def
proof (induction cs)
  case (Cons c cs)
  have "mset (confirmed c) \<subseteq># {#sd_message c#}" by (simp add: confirmed_def)
  from subset_mset.add_mono [OF this Cons] show ?case by simp
qed simp

lemma map_filter_non_log:
  "List.map_filter non_log (map Some ms) = filter (\<lambda>m. \<not> is_log m) ms"
  "List.map_filter non_log (map sd_message cs) = concat (map reply_called cs)"
  by (induction ms, simp_all add: List.map_filter_def non_log_def)
    (induction cs, auto simp: reply_called_def non_log_def List.map_filter_def split: option.splits)

lemma sent_by_subset:
  "mset (concat (map (\<lambda>t. sent_by (tk_pc t)) ts)) \<subseteq># mset (List.map_filter (\<lambda>t. response_of (tk_pc t)) ts)"
proof (induction ts)
  case (Cons t ts)
  have "mset (sent_by (tk_pc t)) \<subseteq># (case response_of (tk_pc t) of None \<Rightarrow> {#} | Some m \<Rightarrow> {#m#})"
    by (cases "tk_pc t" rule: sent_by.cases) simp_all
  from subset_mset.add_mono [OF this Cons] show ?case
    by (cases "response_of (tk_pc t)") (simp_all add: List.map_filter_def)
qed (simp add: List.map_filter_def)

lemma sent_replies:
  assumes "worker_ok X reg wid s"
  shows "mset (filter (\<lambda>m. \<not> is_log m) (sn_sent (wk_sender s))) \<subseteq># mset (List.map_filter (\<lambda>t. response_of (tk_pc t)) (wk_tasks s))"
proof -
  let ?sn = "wk_sender s"
  have ok: "sn_accepted ?sn = map Some (sn_sent ?sn) @ in_hand ?sn @ sn_lost ?sn @ sn_queue ?sn"
    "mset (sn_accepted ?sn) = confirmed_all (sn_calls ?sn)"
    using assms unfolding worker_ok_def sender_ok_def by blast+
  have "mset (map Some (sn_sent ?sn)) \<subseteq># mset (sn_accepted ?sn)" unfolding ok(1) mset_append by (rule mset_subset_eq_add_left)
  also have "\<dots> \<subseteq># mset (map sd_message (sn_calls ?sn))" unfolding ok(2) by (rule confirmed_subset)
  finally have "mset (List.map_filter non_log (map Some (sn_sent ?sn))) \<subseteq># mset (List.map_filter non_log (map sd_message (sn_calls ?sn)))"
    by (rule map_filter_subset)
  then have "mset (filter (\<lambda>m. \<not> is_log m) (sn_sent ?sn)) \<subseteq># mset (concat (map reply_called (sn_calls ?sn)))"
    unfolding map_filter_non_log .
  also have "\<dots> = mset (concat (map (\<lambda>t. sent_by (tk_pc t)) (wk_tasks s)))" using assms unfolding worker_ok_def by blast
  also have "\<dots> \<subseteq># mset (List.map_filter (\<lambda>t. response_of (tk_pc t)) (wk_tasks s))" by (rule sent_by_subset)
  finally show ?thesis .
qed

text \<open>Every message the loop read has a goroutine, in order.\<close>

definition recv_results :: "worker_event list \<Rightarrow> recv_result list" where
  "recv_results es = List.map_filter (\<lambda>e. case e of Worker_Receives r \<Rightarrow> Some r | _ \<Rightarrow> None) es"

lemma map_update_same: "f y = f (xs ! i) \<Longrightarrow> map f (xs[i := y]) = map f xs"
  by (metis list_update_id map_update)

lemma put_task_messages [simp]:
  "map tk_message (wk_tasks (put_task i pc s)) = map tk_message (wk_tasks s)" "wk_receiving (put_task i pc s) = wk_receiving s"
  by (simp_all add: put_task_def map_update_same)

lemma task_runs_messages:
  "task_runs X hc i s = Some t \<Longrightarrow> map tk_message (wk_tasks t) = map tk_message (wk_tasks s) \<and> wk_receiving t = wk_receiving s"
  by (erule task_runs_cases) simp_all

lemma worker_exec_messages:
  assumes "worker_exec X hc e s = Some t"
  shows "case e of
      Worker_Receives r \<Rightarrow> wk_receiving s \<and>
        (case r of Received m \<Rightarrow> wk_receiving t \<and> map tk_message (wk_tasks t) = map tk_message (wk_tasks s) @ [m]
         | _ \<Rightarrow> \<not> wk_receiving t \<and> wk_tasks t = wk_tasks s)
    | _ \<Rightarrow> wk_receiving t = wk_receiving s \<and> map tk_message (wk_tasks t) = map tk_message (wk_tasks s)"
  using assms task_runs_messages [of X hc _ s t]
  by (cases e) (auto simp: worker_exec_def split: if_splits recv_result.splits)

lemma recv_results_Cons:
  "recv_results (e # es) = (case e of Worker_Receives r \<Rightarrow> [r] | _ \<Rightarrow> []) @ recv_results es"
  by (cases e) (simp_all add: recv_results_def List.map_filter_def)

lemma worker_messages:
  "exec_all (worker_exec X hc) es s = Some t \<Longrightarrow>
   map tk_message (wk_tasks t) = map tk_message (wk_tasks s) @ (if wk_receiving s then receive_loop (recv_results es) else [])"
proof (induction es arbitrary: s)
  case Nil
  then show ?case by (simp add: recv_results_def List.map_filter_def)
next
  case (Cons e es)
  then obtain u where u: "worker_exec X hc e s = Some u" "exec_all (worker_exec X hc) es u = Some t"
    by (auto split: option.splits)
  from Cons.IH [OF u(2)] worker_exec_messages [OF u(1)] show ?case
    by (cases e) (auto simp: recv_results_Cons split: recv_result.splits)
qed

lemma dispatch_loaded:
  assumes "dispatch_message X hc msg d = (r, d')" and "sm_content msg = Some (C_InvocationRequest req)"
    and "map_of (d_loaded d) (ireq_function_id req) = Some lf"
  shows "r \<noteq> Silent \<and> (\<forall>e. r = Logged_Error e \<longrightarrow>
    rf_client_factory (lf_function lf) \<noteq> None \<and> (\<exists>x. e = ''client factory error: '' @ x))"
  using assms
  by (auto simp: dispatch_message_def process_request_def handle_invocation_def sm_load_def Let_def ok_def err_def
      client_args_def split: option.splits outcome.splits sum.splits prod.splits)

text \<open>An invocation of a function that was loaded before it came.\<close>

fun late_pc :: "'cl rfunction \<Rightarrow> 'cl loaded_function \<Rightarrow> string \<Rightarrow> 'cl task_pc \<Rightarrow> bool" where
  "late_pc rf lf fid (TP_Invoking l) \<longleftrightarrow> map_of l fid = Some lf"
| "late_pc rf lf fid (TP_Ended (TE_Error e)) \<longleftrightarrow> rf_client_factory rf \<noteq> None \<and> (\<exists>x. e = ''client factory error: '' @ x)"
| "late_pc rf lf fid (TP_Ended TE_Silent) \<longleftrightarrow> False"
| "late_pc rf lf fid _ \<longleftrightarrow> True"

definition invokes :: "string \<Rightarrow> streaming_message \<Rightarrow> bool" where
  "invokes fid msg = (case sm_content msg of Some (C_InvocationRequest req) \<Rightarrow> ireq_function_id req = fid | _ \<Rightarrow> False)"

definition late_ok ::
    "('c, 'cl, 'w, 's, 'f) inv_env \<Rightarrow> 'cl rfunction \<Rightarrow> string \<Rightarrow> nat \<Rightarrow> ('cl, 'w) worker \<Rightarrow> bool" where
  "late_ok X rf fid n s \<longleftrightarrow>
     map_of (d_loaded (wk_dispatcher s)) fid = Some (load_function (ie_types X) rf) \<and> n \<le> length (wk_tasks s) \<and>
     (\<forall>i. n \<le> i \<longrightarrow> i < length (wk_tasks s) \<longrightarrow> invokes fid (tk_message (wk_tasks s ! i)) \<longrightarrow>
        late_pc rf (load_function (ie_types X) rf) fid (tk_pc (wk_tasks s ! i)))"

lemma late_ok_put:
  assumes "late_ok X rf fid n s" and "invokes fid (tk_message (wk_tasks s ! i)) \<Longrightarrow> n \<le> i \<Longrightarrow> i < length (wk_tasks s) \<Longrightarrow>
      late_pc rf (load_function (ie_types X) rf) fid pc"
  shows "late_ok X rf fid n (put_task i pc s)"
  using assms by (cases "i < length (wk_tasks s)") (auto simp: late_ok_def put_task_def nth_list_update split: if_splits)

lemma late_ok_frame:
  assumes "late_ok X rf fid n s" and "wk_tasks t = wk_tasks s"
    and "map_of (d_loaded (wk_dispatcher t)) fid = Some (load_function (ie_types X) rf)"
  shows "late_ok X rf fid n t"
  using assms by (simp add: late_ok_def)

lemma lf_function_load [simp]: "lf_function (load_function E rf) = rf"
  by (simp add: load_function_def Let_def)

lemma late_dispatched:
  assumes "dispatch_message X hc msg d = (r, d')" and "invokes fid msg" and "map_of (d_loaded d) fid = Some (load_function E rf)"
  shows "late_pc rf lf fid (after_dispatch r)"
proof -
  from assms(2) obtain req where req: "sm_content msg = Some (C_InvocationRequest req)" "ireq_function_id req = fid"
    by (auto simp: invokes_def split: option.splits content.splits)
  have "r \<noteq> Silent \<and> (\<forall>e. r = Logged_Error e \<longrightarrow> rf_client_factory rf \<noteq> None \<and> (\<exists>x. e = ''client factory error: '' @ x))"
    using dispatch_loaded [OF assms(1) req(1), of "load_function E rf"] assms(3) req(2) by simp
  then show ?thesis by (cases r) auto
qed

lemma late_ok_task:
  assumes late: "late_ok X rf fid n s" and ok: "worker_ok X reg wid s" and reg: "map_of reg fid = Some rf"
    and i: "i < length (wk_tasks s)" and run: "task_runs X hc i s = Some t"
  shows "late_ok X rf fid n t"
  using run
proof (cases rule: task_runs_cases)
  case lookup
  from late have "map_of (d_loaded (wk_dispatcher s)) fid = Some (load_function (ie_types X) rf)" by (simp add: late_ok_def)
  with late lookup show ?thesis by (auto intro!: late_ok_put)
next
  case (dispatch r d')
  have "loaded_ok (ie_types X) reg (wk_dispatcher s)" using ok by (simp add: worker_ok_def)
  from process_request_entry [OF this refl, of hc "tk_message (wk_tasks s ! i)" fid] late reg dispatch_frame(1) [OF dispatch(3)]
  have "map_of (d_loaded d') fid = Some (load_function (ie_types X) rf)" by (auto simp: late_ok_def)
  with late have "late_ok X rf fid n (s\<lparr>wk_dispatcher := d'\<rparr>)" by (auto intro: late_ok_frame)
  with dispatch show ?thesis
    by (auto intro!: late_ok_put simp: invokes_def is_invocation_def split: option.splits content.splits)
next
  case (invoke l r d')
  let ?s = "s\<lparr>wk_dispatcher := (wk_dispatcher s)\<lparr>d_world := d_world d'\<rparr>\<rparr>"
  have "late_pc rf (load_function (ie_types X) rf) fid (after_dispatch r)"
    if a: "invokes fid (tk_message (wk_tasks s ! i))" "n \<le> i"
  proof (rule late_dispatched [OF invoke(2) a(1)])
    from late a i invoke(1) have "late_pc rf (load_function (ie_types X) rf) fid (TP_Invoking l)" by (auto simp: late_ok_def)
    then show "map_of (d_loaded ((wk_dispatcher s)\<lparr>d_loaded := l\<rparr>)) fid = Some (load_function (ie_types X) rf)" by simp
  qed
  moreover have "late_ok X rf fid n ?s" using late by (auto simp: late_ok_def)
  ultimately show ?thesis unfolding invoke(3) by (intro late_ok_put) auto
next
  case (call m sn)
  have "late_ok X rf fid n (s\<lparr>wk_sender := sn\<rparr>)" using late by (auto simp: late_ok_def)
  with call show ?thesis by (auto intro!: late_ok_put)
next
  case (finish k m r)
  with late show ?thesis by (auto intro!: late_ok_put split: option.splits)
qed

lemma late_ok_step:
  assumes late: "late_ok X rf fid n s" and ok: "worker_ok X reg wid s" and reg: "map_of reg fid = Some rf"
    and run: "worker_exec X hc e s = Some t"
  shows "late_ok X rf fid n t"
proof (cases e)
  case (Worker_Receives r)
  with run late show ?thesis
    by (auto simp: worker_exec_def late_ok_def nth_append less_Suc_eq split: if_splits recv_result.splits)
next
  case (Worker_Task i)
  with run late_ok_task [OF late ok reg] show ?thesis by (auto simp: worker_exec_def split: if_splits)
qed (use run late in \<open>auto simp: worker_exec_def late_ok_def split: if_splits\<close>)

lemma sent_load_reply:
  assumes ok: "worker_ok X reg wid s" and sent: "load_reply wid fid \<in> set (sn_sent (wk_sender s))"
  obtains rf where "map_of reg fid = Some rf" "map_of (d_loaded (wk_dispatcher s)) fid = Some (load_function (ie_types X) rf)"
proof -
  have "\<not> is_log (load_reply wid fid)" by (simp add: is_log_def load_reply_def)
  with sent have "load_reply wid fid \<in># mset (filter (\<lambda>m. \<not> is_log m) (sn_sent (wk_sender s)))" by simp
  from mset_subset_eqD [OF sent_replies [OF ok] this]
  obtain t where t: "t \<in> set (wk_tasks s)" "response_of (tk_pc t) = Some (load_reply wid fid)"
    by (auto simp: List.map_filter_def)
  with ok have "task_ok X (wk_dispatcher s) t" "d_request_id (wk_dispatcher s) = wid"
    "loaded_ok (ie_types X) reg (wk_dispatcher s)" by (auto simp: worker_ok_def list_all_iff)
  with t have "map_of (d_loaded (wk_dispatcher s)) fid \<noteq> None" "loaded_ok (ie_types X) reg (wk_dispatcher s)"
    unfolding task_ok_def by blast+
  then show thesis using that unfolding loaded_ok_def by blast
qed

lemma late_ok_run:
  fixes s :: "('cl, 'w) worker" and d :: "('cl, 'w) dispatcher"
  assumes "late_ok X rf fid n s" and "worker_ok X (d_registered d) (d_request_id d) s" and "map_of (d_registered d) fid = Some rf"
    and "exec_all (worker_exec X hc) es s = Some t"
  shows "late_ok X rf fid n t"
  using assms
proof (induction es arbitrary: s)
  case (Cons e es)
  then obtain u where u: "worker_exec X hc e s = Some u" "exec_all (worker_exec X hc) es u = Some t"
    by (auto split: option.splits)
  show ?case
    by (rule Cons.IH [OF late_ok_step [OF Cons.prems(1-3) u(1)] wk.inv_step [OF Cons.prems(2) u(1)] Cons.prems(3) u(2)])
qed simp

definition sample_load :: streaming_message where
  "sample_load = mk_msg ''m1'' (C_FunctionLoadRequest ''f1'')"

definition sample_invoke :: streaming_message where
  "sample_invoke = mk_msg ''m2'' (C_InvocationRequest (sample_request\<lparr>ireq_function_id := ''f1'', ireq_invocation_id := ''i1''\<rparr>))"

text \<open>A load that is answered and sent, then an invocation of the function; the user's code panics.\<close>

definition load_run :: "worker_event list" where
  "load_run = [Worker_Receives (Received sample_load), Worker_Task 0, Worker_Task 0, Worker_Sender (Send_Runs 0),
     Worker_Sender (Send_Runs 0), Worker_Sender (Send_Runs 0), Worker_Sender Sender_Takes, Worker_Sender (Sender_Sends True),
     Worker_Task 0]"

definition invoke_run :: "worker_event list" where
  "invoke_run = [Worker_Receives (Received sample_invoke), Worker_Task 1, Worker_Task 1, Worker_Task 1,
     Worker_Sender (Send_Runs 1), Worker_Sender (Send_Runs 1), Worker_Sender (Send_Runs 1), Worker_Task 1]"

lemma load_run_exec:
  "\<exists>s. exec_all (worker_exec sample_env (\<lambda>r. None)) load_run (new_worker sample_dispatcher) = Some s \<and>
     sn_sent (wk_sender s) = [load_reply ''r0'' ''f1''] \<and> length (wk_tasks s) = 1 \<and> sn_accepted (wk_sender s) = [Some (load_reply ''r0'' ''f1'')]"
proof -
  have "case exec_all (worker_exec sample_env (\<lambda>r. None)) load_run (new_worker sample_dispatcher) of
      None \<Rightarrow> False
    | Some s \<Rightarrow> sn_sent (wk_sender s) = [load_reply ''r0'' ''f1''] \<and> length (wk_tasks s) = 1 \<and>
        sn_accepted (wk_sender s) = [Some (load_reply ''r0'' ''f1'')]"
    by code_simp
  then show ?thesis by (simp split: option.splits)
qed

lemma invoke_run_exec:
  "\<exists>s t k m. exec_all (worker_exec sample_env (\<lambda>r. None)) load_run (new_worker sample_dispatcher) = Some s \<and>
     exec_all (worker_exec sample_env (\<lambda>r. None)) invoke_run s = Some t \<and>
     map tk_message (wk_tasks t) = [sample_load, sample_invoke] \<and> tk_pc (wk_tasks t ! 1) = TP_Ended (TE_Answered k m)"
proof -
  have "case exec_all (worker_exec sample_env (\<lambda>r. None)) load_run (new_worker sample_dispatcher) of
      None \<Rightarrow> False
    | Some s \<Rightarrow>
        (case exec_all (worker_exec sample_env (\<lambda>r. None)) invoke_run s of
          None \<Rightarrow> False
        | Some t \<Rightarrow> map tk_message (wk_tasks t) = [sample_load, sample_invoke] \<and>
            (case tk_pc (wk_tasks t ! 1) of TP_Ended (TE_Answered k m) \<Rightarrow> True | _ \<Rightarrow> False))"
    by code_simp
  then show ?thesis by (auto split: option.splits task_pc.splits task_end.splits)
qed

subsection \<open>Properties\<close>

text \<open>
  C1. However the goroutines interleave, every message the receive loop reads gets its own goroutine,
  what a goroutine responds is a response to its own message (its request, function and invocation
  ids), and apart from logs the host is sent only those responses, each at most once; a goroutine that
  ended as answered had its response accepted for sending.
\<close>

theorem worker_answers_once:
  assumes "exec_all (worker_exec X hc) es (new_worker d) = Some s"
  shows "map tk_message (wk_tasks s) = receive_loop (recv_results es) \<and>
    mset (filter (\<lambda>m. \<not> is_log m) (sn_sent (wk_sender s))) \<subseteq># mset (List.map_filter (\<lambda>t. response_of (tk_pc t)) (wk_tasks s)) \<and>
    (\<forall>t \<in> set (wk_tasks s). \<forall>m. response_of (tk_pc t) = Some m \<longrightarrow> answers (d_request_id d) (tk_message t) m) \<and>
    (\<forall>t \<in> set (wk_tasks s). \<forall>k m. tk_pc t = TP_Ended (TE_Answered k m) \<longrightarrow> Some m \<in> set (sn_accepted (wk_sender s)))"
proof (intro conjI)
  have ok: "worker_ok X (d_registered d) (d_request_id d) s" by (rule wk.exec_all_inv [OF assms])
  show "map tk_message (wk_tasks s) = receive_loop (recv_results es)"
    using worker_messages [OF assms] by (simp add: new_worker_def)
  show "mset (filter (\<lambda>m. \<not> is_log m) (sn_sent (wk_sender s))) \<subseteq># mset (List.map_filter (\<lambda>t. response_of (tk_pc t)) (wk_tasks s))"
    by (rule sent_replies [OF ok])
  show "\<forall>t \<in> set (wk_tasks s). \<forall>m. response_of (tk_pc t) = Some m \<longrightarrow> answers (d_request_id d) (tk_message t) m"
    using ok by (auto simp: worker_ok_def task_ok_def list_all_iff)
  have "Some m \<in># confirmed_all (sn_calls (wk_sender s))" if "t \<in> set (wk_tasks s)" "tk_pc t = TP_Ended (TE_Answered k m)" for t k m
  proof -
    from ok that(1) have "call_ok (sn_calls (wk_sender s)) (tk_pc t)" by (simp add: worker_ok_def list_all_iff)
    with that(2) have "k < length (sn_calls (wk_sender s))" "Some m \<in> set (confirmed (sn_calls (wk_sender s) ! k))"
      by (simp_all add: confirmed_def)
    then show ?thesis by (auto simp: confirmed_all_def)
  qed
  moreover have "set (sn_accepted (wk_sender s)) = set_mset (confirmed_all (sn_calls (wk_sender s)))"
    using ok by (metis set_mset_mset sender_ok_def worker_ok_def)
  ultimately show "\<forall>t \<in> set (wk_tasks s). \<forall>k m. tk_pc t = TP_Ended (TE_Answered k m) \<longrightarrow> Some m \<in> set (sn_accepted (wk_sender s))"
    by blast
qed

theorem worker_answers_once_witness:
  "\<exists>s. exec_all (worker_exec sample_env (\<lambda>r. None)) (load_run @ invoke_run) (new_worker sample_dispatcher) = Some s \<and>
     map tk_message (wk_tasks s) = [sample_load, sample_invoke] \<and>
     (\<exists>k m. tk_pc (wk_tasks s ! 1) = TP_Ended (TE_Answered k m) \<and> is_response_for ''m2'' ''i1'' m \<and>
        Some m \<in> set (sn_accepted (wk_sender s)))"
proof -
  obtain s t k m where run: "exec_all (worker_exec sample_env (\<lambda>r. None)) load_run (new_worker sample_dispatcher) = Some s"
      "exec_all (worker_exec sample_env (\<lambda>r. None)) invoke_run s = Some t"
    and t: "map tk_message (wk_tasks t) = [sample_load, sample_invoke]" "tk_pc (wk_tasks t ! 1) = TP_Ended (TE_Answered k m)"
    using invoke_run_exec by (elim exE conjE)
  then have all: "exec_all (worker_exec sample_env (\<lambda>r. None)) (load_run @ invoke_run) (new_worker sample_dispatcher) = Some t"
    by (simp add: exec_all_append)
  obtain a b where ts: "wk_tasks t = [a, b]" using t(1) by auto
  with t have b: "tk_message b = sample_invoke" "tk_pc b = TP_Ended (TE_Answered k m)" by simp_all
  from worker_answers_once [OF all] ts b have "answers (d_request_id sample_dispatcher) sample_invoke m"
    "Some m \<in> set (sn_accepted (wk_sender t))" by simp_all
  with all t show ?thesis by (auto simp: answers_def sample_invoke_def sample_request_def)
qed

text \<open>
  C3. No goroutine of the worker is ever stuck, even behind a full queue, a broken stream or a stopped
  sender: from every reachable state the operations already begun can bring each of them to its end,
  and however they are scheduled there are at most \<open>worker_rank\<close> of them.
\<close>

theorem worker_settles:
  assumes "exec_all (worker_exec X hc) es (new_worker d) = Some s"
  shows "(\<exists>fs t. list_all worker_internal fs \<and> exec_all (worker_exec X hc) fs s = Some t \<and>
      (\<forall>tk \<in> set (wk_tasks t). \<exists>e. tk_pc tk = TP_Ended e)) \<and>
    (exec_all (worker_exec X hc) fs s = Some t \<longrightarrow> list_all worker_internal fs \<longrightarrow> length fs \<le> worker_rank s)"
proof
  have "\<exists>fs t. list_all worker_internal fs \<and> exec_all (worker_exec X hc) fs s = Some t \<and> all_tasks_ended t \<and>
      worker_ok X (d_registered d) (d_request_id d) t"
    by (rule wkt.run_completes [where I = "worker_ok X (d_registered d) (d_request_id d)"])
      (blast intro: wk.inv_step task_event wk.exec_all_inv [OF assms])+
  then show "\<exists>fs t. list_all worker_internal fs \<and> exec_all (worker_exec X hc) fs s = Some t \<and>
      (\<forall>tk \<in> set (wk_tasks t). \<exists>e. tk_pc tk = TP_Ended e)"
    by (auto simp: all_tasks_ended_def list_all_iff)
next
  show "exec_all (worker_exec X hc) fs s = Some t \<longrightarrow> list_all worker_internal fs \<longrightarrow> length fs \<le> worker_rank s"
    using wkt.run_bound [of X hc fs s t] by auto
qed

theorem worker_settles_witness:
  "\<exists>s fs t. exec_all (worker_exec sample_env (\<lambda>r. None)) load_run (new_worker sample_dispatcher) = Some s \<and>
     list_all worker_internal fs \<and> exec_all (worker_exec sample_env (\<lambda>r. None)) fs s = Some t \<and>
     (\<forall>tk \<in> set (wk_tasks t). \<exists>e. tk_pc tk = TP_Ended e)"
proof -
  obtain s where s: "exec_all (worker_exec sample_env (\<lambda>r. None)) load_run (new_worker sample_dispatcher) = Some s"
    using load_run_exec by (elim exE conjE)
  from worker_settles [OF s] s show ?thesis by blast
qed

text \<open>
  C2. Once the host has the success response to a load of a function, every invocation of it that
  the worker receives from then on finds it, whatever the goroutines' interleaving: it ends with its
  response handed to the sender, unless the binding of its arguments panics or its client factory fails.
\<close>

theorem loaded_before_invoked:
  assumes "exec_all (worker_exec X hc) es (new_worker d) = Some s"
    and "mk_msg (d_request_id d) (C_FunctionLoadResponse fid status_success_text) \<in> set (sn_sent (wk_sender s))"
    and "exec_all (worker_exec X hc) fs s = Some t"
    and "length (wk_tasks s) \<le> i" and "i < length (wk_tasks t)"
    and "sm_content (tk_message (wk_tasks t ! i)) = Some (C_InvocationRequest req)" and "ireq_function_id req = fid"
    and "tk_pc (wk_tasks t ! i) = TP_Ended r"
  shows "(\<exists>k m. is_response_for (sm_request_id (tk_message (wk_tasks t ! i))) (ireq_invocation_id req) m \<and>
      (r = TE_Answered k m \<or> (\<exists>e. r = TE_Unsent k m e))) \<or>
    (\<exists>p. r = TE_Panic p) \<or>
    (\<exists>rf x. map_of (d_registered d) fid = Some rf \<and> rf_client_factory rf \<noteq> None \<and>
      r = TE_Error (''client factory error: '' @ x))"
proof -
  have ok: "worker_ok X (d_registered d) (d_request_id d) s" by (rule wk.exec_all_inv [OF assms(1)])
  obtain rf where rf: "map_of (d_registered d) fid = Some rf"
    "map_of (d_loaded (wk_dispatcher s)) fid = Some (load_function (ie_types X) rf)"
    using sent_load_reply [OF ok] assms(2) unfolding load_reply_def by blast
  then have "late_ok X rf fid (length (wk_tasks s)) s" by (simp add: late_ok_def)
  from late_ok_run [OF this ok rf(1) assms(3)] assms(4-8)
  have pc: "late_pc rf (load_function (ie_types X) rf) fid (TP_Ended r)" by (auto simp: late_ok_def invokes_def)
  have "worker_ok X (d_registered d) (d_request_id d) t"
    using wk.exec_all_inv [of X hc "es @ fs" d t] assms(1,3) by (simp add: exec_all_append)
  with assms(5) have "task_ok X (wk_dispatcher t) (wk_tasks t ! i)" by (simp add: worker_ok_def list_all_length)
  with assms(6,8) have "is_response_for (sm_request_id (tk_message (wk_tasks t ! i))) (ireq_invocation_id req) m"
    if "response_of (TP_Ended r :: 'b task_pc) = Some m" for m using that by (cases r) (auto simp: task_ok_def answers_def)
  with pc rf(1) show ?thesis by (cases r) auto
qed

theorem loaded_before_invoked_witness:
  "\<exists>s t k m. exec_all (worker_exec sample_env (\<lambda>r. None)) load_run (new_worker sample_dispatcher) = Some s \<and>
     exec_all (worker_exec sample_env (\<lambda>r. None)) invoke_run s = Some t \<and>
     tk_pc (wk_tasks t ! 1) = TP_Ended (TE_Answered k m) \<and> is_response_for ''m2'' ''i1'' m"
proof -
  obtain s t k m where run: "exec_all (worker_exec sample_env (\<lambda>r. None)) load_run (new_worker sample_dispatcher) = Some s"
      "exec_all (worker_exec sample_env (\<lambda>r. None)) invoke_run s = Some t"
    and t: "map tk_message (wk_tasks t) = [sample_load, sample_invoke]" "tk_pc (wk_tasks t ! 1) = TP_Ended (TE_Answered k m)"
    using invoke_run_exec by (elim exE conjE)
  obtain s' where s': "exec_all (worker_exec sample_env (\<lambda>r. None)) load_run (new_worker sample_dispatcher) = Some s'"
    "sn_sent (wk_sender s') = [load_reply ''r0'' ''f1'']" "length (wk_tasks s') = 1" using load_run_exec by blast
  with run have sent: "mk_msg (d_request_id sample_dispatcher) (C_FunctionLoadResponse ''f1'' status_success_text) \<in> set (sn_sent (wk_sender s))"
    "length (wk_tasks s) \<le> 1" by (simp_all add: load_reply_def sample_dispatcher_def)
  obtain a b where ts: "wk_tasks t = [a, b]" using t(1) by auto
  with t have b: "sm_content (tk_message (wk_tasks t ! 1)) =
      Some (C_InvocationRequest (sample_request\<lparr>ireq_function_id := ''f1'', ireq_invocation_id := ''i1''\<rparr>))"
    "sm_request_id (tk_message (wk_tasks t ! 1)) = ''m2''" "1 < length (wk_tasks t)"
    by (simp_all add: sample_invoke_def)
  from loaded_before_invoked [OF run(1) sent(1) run(2) sent(2) b(3,1) _ t(2)] b(2) run t(2) show ?thesis
    by (auto simp: sample_request_def)
qed

end
