(* ===== verification/Log_Pipeline.thy ===== *)
theory Log_Pipeline
  imports Sdk_Middleware
begin

text \<open>
  The logging pipeline: the handler the SDK installs (\<open>sdk/log.go\<close>) and the worker's handlers, writer,
  observers and bootstrap lines (\<open>worker/log\<close>).  \<open>log/slog\<close>'s values and records are data; the
  standard library's own handler, float formatting and the outbound stream are parameters.
\<close>

subsection \<open>Values, attributes and records of slog\<close>

text \<open>
  A value by its kind; times, durations, groups and other values by what \<open>String\<close> makes of them, a
  \<open>LogValuer\<close> also by the value it resolves to.
\<close>

datatype slog_value =
    SV_String string
  | SV_Int64 int64
  | SV_Uint64 "64 word"
  | SV_Float64 float64
  | SV_Bool bool
  | SV_Empty_Group
  | SV_Other string
  | SV_Valuer string slog_value

record log_attr =
  la_key :: string
  la_value :: slog_value

text \<open>Levels are ints: Debug -4, Info 0, Warn 4, Error 8.  The time is rendered, \<open>None\<close> the zero time.\<close>

record log_record =
  lr_level :: int
  lr_message :: string
  lr_time :: "string option"
  lr_attrs :: "log_attr list"

record 'w log_env =
  le_float :: "float64 \<Rightarrow> string"
  le_print :: "slog_value \<Rightarrow> string"
  le_now :: string
  le_send :: "streaming_message \<Rightarrow> 'w \<Rightarrow> go_error option \<times> 'w"
  le_stderr :: "string \<Rightarrow> 'w \<Rightarrow> 'w"

definition mk_attr :: "string \<Rightarrow> slog_value \<Rightarrow> log_attr" where
  "mk_attr k v = \<lparr>la_key = k, la_value = v\<rparr>"

fun resolve_value :: "slog_value \<Rightarrow> slog_value" where
  "resolve_value (SV_Valuer s v) = resolve_value v"
| "resolve_value v = v"

definition bool_string :: "bool \<Rightarrow> string" where
  "bool_string b = (if b then ''true'' else ''false'')"

fun value_string :: "(float64 \<Rightarrow> string) \<Rightarrow> slog_value \<Rightarrow> string" where
  "value_string ff (SV_String s) = s"
| "value_string ff (SV_Int64 i) = string_of_int (sint i)"
| "value_string ff (SV_Uint64 u) = string_of_int (uint u)"
| "value_string ff (SV_Float64 f) = ff f"
| "value_string ff (SV_Bool b) = bool_string b"
| "value_string ff SV_Empty_Group = ''[]''"
| "value_string ff (SV_Other s) = s"
| "value_string ff (SV_Valuer s v) = s"

text \<open>\<open>Record.AddAttrs\<close> leaves out empty groups.\<close>

definition add_attrs :: "log_attr list \<Rightarrow> log_record \<Rightarrow> log_record" where
  "add_attrs as r = r\<lparr>lr_attrs := lr_attrs r @ filter (\<lambda>a. la_value a \<noteq> SV_Empty_Group) as\<rparr>"

subsection \<open>The composer\<close>

record bound_attr =
  ba_attr :: log_attr
  ba_groups :: "string list"

record log_composer =
  lc_bound :: "bound_attr list"
  lc_groups :: "string list"

definition new_composer :: log_composer where
  "new_composer = \<lparr>lc_bound = [], lc_groups = []\<rparr>"

definition with_attrs :: "log_attr list \<Rightarrow> log_composer \<Rightarrow> log_composer" where
  "with_attrs as c =
     (if as = [] then c
      else c\<lparr>lc_bound := lc_bound c @ map (\<lambda>a. \<lparr>ba_attr = a, ba_groups = lc_groups c\<rparr>) as\<rparr>)"

definition with_group :: "string \<Rightarrow> log_composer \<Rightarrow> log_composer" where
  "with_group name c = (if name = '''' then c else c\<lparr>lc_groups := lc_groups c @ [name]\<rparr>)"

definition qualify :: "string list \<Rightarrow> string \<Rightarrow> string" where
  "qualify groups key = concat (map (\<lambda>g. g @ ''.'') groups) @ key"

subsection \<open>Levels and rendering\<close>

fun rpc_level_to_slog :: "log_level \<Rightarrow> int" where
  "rpc_level_to_slog Log_Trace = -4"
| "rpc_level_to_slog Log_Debug = -4"
| "rpc_level_to_slog Log_Information = 0"
| "rpc_level_to_slog Log_Warning = 4"
| "rpc_level_to_slog Log_Error = 8"
| "rpc_level_to_slog Log_Critical = 8"
| "rpc_level_to_slog Log_None = 0"

definition slog_level_to_rpc :: "int \<Rightarrow> log_level" where
  "slog_level_to_rpc l =
     (if l \<le> -4 - 4 then Log_Trace
      else if l \<le> -4 then Log_Debug
      else if l \<le> 0 then Log_Information
      else if l \<le> 4 then Log_Warning
      else if l \<le> 8 then Log_Error
      else Log_Critical)"

definition level_tag :: "int \<Rightarrow> string" where
  "level_tag l =
     (if l \<le> -4 then ''DEBUG'' else if l \<le> 0 then ''INFO'' else if l \<le> 4 then ''WARN'' else ''ERROR'')"

definition slog_value_to_typed_data :: "(float64 \<Rightarrow> string) \<Rightarrow> slog_value \<Rightarrow> typed_data" where
  "slog_value_to_typed_data ff v =
     (case resolve_value v of
        SV_String s \<Rightarrow> TD_String s
      | SV_Int64 i \<Rightarrow> TD_Int i
      | SV_Uint64 u \<Rightarrow>
          if uint u \<le> 9223372036854775807 then TD_Int (ucast u) else TD_String (string_of_int (uint u))
      | SV_Float64 f \<Rightarrow> TD_Double f
      | SV_Bool b \<Rightarrow> TD_String (if b then ''true'' else ''false'')
      | w \<Rightarrow> TD_String (value_string ff w))"

definition string_render :: "(float64 \<Rightarrow> string) \<Rightarrow> slog_value \<Rightarrow> string" where
  "string_render ff v =
     (case resolve_value v of
        SV_String s \<Rightarrow> s
      | SV_Int64 i \<Rightarrow> string_of_int (sint i)
      | SV_Uint64 u \<Rightarrow> string_of_int (uint u)
      | SV_Float64 f \<Rightarrow> ff f
      | SV_Bool b \<Rightarrow> bool_string b
      | w \<Rightarrow> value_string ff w)"

definition needs_quote :: "char \<Rightarrow> bool" where
  "needs_quote c \<longleftrightarrow> (of_char c :: nat) \<le> 32 \<or> c = CHR ''='' \<or> c = CHR 0x22"

definition quote_if_needed :: "string \<Rightarrow> string" where
  "quote_if_needed s =
     (if s = '''' then [CHR 0x22, CHR 0x22]
      else if list_ex needs_quote s then go_quote s
      else s)"

text \<open>\<open>renderAttrsAsLogfmt\<close>: a space before every attribute once something has been written.\<close>

fun render_attrs_from :: "(float64 \<Rightarrow> string) \<Rightarrow> log_attr list \<Rightarrow> string \<Rightarrow> string" where
  "render_attrs_from ff [] sb = sb"
| "render_attrs_from ff (a # as) sb =
     render_attrs_from ff as
       ((if sb \<noteq> '''' then sb @ '' '' else sb) @ la_key a @ ''='' @ quote_if_needed (string_render ff (la_value a)))"

definition render_attrs_as_logfmt :: "(float64 \<Rightarrow> string) \<Rightarrow> log_attr list \<Rightarrow> string" where
  "render_attrs_as_logfmt ff as = render_attrs_from ff as ''''"

subsection \<open>Building an RpcLog\<close>

text \<open>The closure \<open>walk\<close>: the message being built, the properties, the attributes to render.\<close>

type_synonym walk_state = "rpc_log \<times> (string, typed_data) go_map \<times> log_attr list"

definition walk_attr :: "(float64 \<Rightarrow> string) \<Rightarrow> string \<Rightarrow> slog_value \<Rightarrow> walk_state \<Rightarrow> walk_state" where
  "walk_attr ff key v st =
     (case st of (rl, props, renderable) \<Rightarrow>
        if key = ''invocation_id''
        then (if rl_invocation_id rl = '''' then rl\<lparr>rl_invocation_id := value_string ff v\<rparr> else rl, props, renderable)
        else if key = ''function_name''
        then (if rl_category rl = '''' then rl\<lparr>rl_category := ''Function.'' @ value_string ff v\<rparr> else rl, props, renderable)
        else if key = ''category'' then (rl\<lparr>rl_category := value_string ff v\<rparr>, props, renderable)
        else if key = ''event_id'' then (rl\<lparr>rl_event_id := value_string ff v\<rparr>, props, renderable)
        else (rl, map_put key (slog_value_to_typed_data ff v) props, renderable @ [mk_attr key v]))"

definition build_rpc_log ::
    "(float64 \<Rightarrow> string) \<Rightarrow> invocation_context option \<Rightarrow> log_record \<Rightarrow> log_category \<Rightarrow> log_composer \<Rightarrow> rpc_log" where
  "build_rpc_log ff ctx r cat c =
     (let rl = \<lparr>rl_invocation_id = '''', rl_category = '''', rl_level = slog_level_to_rpc (lr_level r),
                rl_message = lr_message r, rl_event_id = '''', rl_log_category = cat, rl_properties = []\<rparr>;
          rl = (case ctx of
                  None \<Rightarrow> rl
                | Some ic \<Rightarrow>
                    (let rl = rl\<lparr>rl_invocation_id := ic_invocation_id ic\<rparr> in
                     if ic_function_name ic \<noteq> '''' then rl\<lparr>rl_category := ''Function.'' @ ic_function_name ic\<rparr> else rl));
          st = fold (\<lambda>b. walk_attr ff (qualify (ba_groups b) (la_key (ba_attr b))) (la_value (ba_attr b)))
                 (lc_bound c) (rl, [], []);
          (rl, props, renderable) =
            fold (\<lambda>a. walk_attr ff (qualify (lc_groups c) (la_key a)) (la_value a)) (lr_attrs r) st;
          rl = (if props \<noteq> [] then rl\<lparr>rl_properties := props\<rparr> else rl);
          suffix = render_attrs_as_logfmt ff renderable
      in if suffix = '''' then rl
         else rl\<lparr>rl_message := (if rl_message rl \<noteq> '''' then rl_message rl @ '' '' @ suffix else suffix)\<rparr>)"

subsection \<open>The writer\<close>

text \<open>The loop over the categories in the order the map yields them: the best key so far and its level.\<close>

fun best_category ::
    "string \<Rightarrow> (string \<times> log_level) list \<Rightarrow> (string \<times> log_level) option \<Rightarrow> (string \<times> log_level) option" where
  "best_category category [] best = best"
| "best_category category ((k, v) # cats) best =
     (if k = '''' \<or> k = ''Worker'' \<or> k = category then best_category category cats best
      else if \<not> has_prefix category (k @ ''.'') then best_category category cats best
      else best_category category cats
        (case best of
           None \<Rightarrow> Some (k, v)
         | Some (bk, bv) \<Rightarrow> if length k > length bk then Some (k, v) else Some (bk, bv)))"

definition match_category_threshold :: "(string, log_level) go_map \<Rightarrow> string \<Rightarrow> log_level" where
  "match_category_threshold cats category =
     (if cats = [] then Log_Information
      else case map_of cats category of
        Some v \<Rightarrow> v
      | None \<Rightarrow>
          (case best_category category cats None of
             Some (k, v) \<Rightarrow> v
           | None \<Rightarrow>
               (case map_of cats ''Worker'' of
                  Some v \<Rightarrow> v
                | None \<Rightarrow> (case map_of cats '''' of Some v \<Rightarrow> v | None \<Rightarrow> Log_Information))))"

text \<open>The fallback is the bootstrap handler or nothing.\<close>

record log_writer =
  wr_categories :: "(string, log_level) go_map option"
  wr_fallback :: bool

definition new_writer :: "bool \<Rightarrow> log_writer" where
  "new_writer fallback = \<lparr>wr_categories = None, wr_fallback = fallback\<rparr>"

definition set_categories :: "(string, log_level) go_map option \<Rightarrow> log_writer \<Rightarrow> log_writer" where
  "set_categories cats w =
     (case cats of None \<Rightarrow> w\<lparr>wr_categories := None\<rparr> | Some m \<Rightarrow> w\<lparr>wr_categories := Some (map_merge [] m)\<rparr>)"

definition allowed :: "log_writer \<Rightarrow> rpc_log \<Rightarrow> bool" where
  "allowed w rl =
     (case wr_categories w of
        None \<Rightarrow> True
      | Some cats \<Rightarrow> cats = [] \<or> rl_level rl \<ge> match_category_threshold cats (rl_category rl))"

text \<open>One line of the bootstrap handler.\<close>

definition bootstrap_line :: "'w log_env \<Rightarrow> log_record \<Rightarrow> string" where
  "bootstrap_line E r =
     ''LanguageWorkerConsoleLog['' @ (case lr_time r of None \<Rightarrow> le_now E | Some t \<Rightarrow> t) @ ''][''
       @ level_tag (lr_level r) @ ''] '' @ lr_message r
       @ concat (map (\<lambda>a. '' '' @ la_key a @ ''='' @ le_print E (la_value a)) (lr_attrs r)) @ [CHR 0x0A]"

definition fallback_record :: "'w log_env \<Rightarrow> rpc_log \<Rightarrow> go_error \<Rightarrow> log_record" where
  "fallback_record E rl e =
     (let r = \<lparr>lr_level = rpc_level_to_slog (rl_level rl), lr_message = rl_message rl @ '' [send-failed: '' @ e @ '']'',
               lr_time = Some (le_now E), lr_attrs = []\<rparr>;
          r = (if rl_category rl \<noteq> '''' then add_attrs [mk_attr ''category'' (SV_String (rl_category rl))] r else r)
      in if rl_invocation_id rl \<noteq> '''' then add_attrs [mk_attr ''invocation_id'' (SV_String (rl_invocation_id rl))] r
         else r)"

definition log_fallback :: "'w log_env \<Rightarrow> log_writer \<Rightarrow> rpc_log \<Rightarrow> go_error \<Rightarrow> 'w \<Rightarrow> 'w" where
  "log_fallback E w rl e s = (if wr_fallback w then le_stderr E (bootstrap_line E (fallback_record E rl e)) s else s)"

definition log_write :: "'w log_env \<Rightarrow> log_writer \<Rightarrow> rpc_log \<Rightarrow> 'w \<Rightarrow> 'w" where
  "log_write E w rl s =
     (if \<not> allowed w rl then s
      else case le_send E (mk_msg '''' (C_RpcLog rl)) s of
        (None, s') \<Rightarrow> s'
      | (Some e, s') \<Rightarrow> log_fallback E w rl e s')"

subsection \<open>Observers\<close>

type_synonym 'w observer = "invocation_context option \<Rightarrow> log_record \<Rightarrow> 'w \<Rightarrow> 'w"

definition register_observer :: "'w observer option \<Rightarrow> 'w observer list option \<Rightarrow> 'w observer list option" where
  "register_observer fn obs =
     (case fn of
        None \<Rightarrow> obs
      | Some f \<Rightarrow> Some ((case obs of None \<Rightarrow> [] | Some fs \<Rightarrow> fs) @ [f]))"

definition observed_record :: "log_composer \<Rightarrow> log_record \<Rightarrow> log_record" where
  "observed_record c r =
     fold (\<lambda>b. add_attrs [mk_attr (qualify (ba_groups b) (la_key (ba_attr b))) (la_value (ba_attr b))]) (lc_bound c) r"

subsection \<open>Handlers\<close>

text \<open>The \<open>With\<close> and \<open>WithGroup\<close> calls made on a handler.\<close>

datatype log_op = Op_Group string | Op_Attrs "log_attr list"

text \<open>
  The handlers a record can end at: the two of the worker, the bootstrap handler, which ignores
  \<open>With\<close>, and the standard library's, which is known by the calls made on it.
\<close>

datatype log_handler = LH_User log_composer | LH_System log_composer | LH_Bootstrap | LH_Std "log_op list"

fun handler_with_attrs :: "log_attr list \<Rightarrow> log_handler \<Rightarrow> log_handler" where
  "handler_with_attrs as (LH_User c) = LH_User (with_attrs as c)"
| "handler_with_attrs as (LH_System c) = LH_System (with_attrs as c)"
| "handler_with_attrs as LH_Bootstrap = LH_Bootstrap"
| "handler_with_attrs as (LH_Std ops) = LH_Std (ops @ [Op_Attrs as])"

fun handler_with_group :: "string \<Rightarrow> log_handler \<Rightarrow> log_handler" where
  "handler_with_group g (LH_User c) = LH_User (with_group g c)"
| "handler_with_group g (LH_System c) = LH_System (with_group g c)"
| "handler_with_group g LH_Bootstrap = LH_Bootstrap"
| "handler_with_group g (LH_Std ops) = LH_Std (ops @ [Op_Group g])"

definition user_handle ::
    "'w log_env \<Rightarrow> log_writer \<Rightarrow> 'w observer list option \<Rightarrow> invocation_context option \<Rightarrow> log_record \<Rightarrow>
     log_composer \<Rightarrow> 'w \<Rightarrow> 'w" where
  "user_handle E w obs ctx r c s =
     (let s = log_write E w (build_rpc_log (le_float E) ctx r LogCat_User c) s in
      case obs of
        None \<Rightarrow> s
      | Some fs \<Rightarrow> fold (\<lambda>f. f ctx (observed_record c r)) fs s)"

definition system_handle ::
    "'w log_env \<Rightarrow> log_writer \<Rightarrow> invocation_context option \<Rightarrow> log_record \<Rightarrow> log_composer \<Rightarrow> 'w \<Rightarrow> 'w" where
  "system_handle E w ctx r c s =
     (let rl = build_rpc_log (le_float E) ctx r LogCat_System c;
          rl = (if rl_category rl = '''' then rl\<lparr>rl_category := ''Worker''\<rparr> else rl)
      in log_write E w rl s)"

definition log_handle ::
    "'w log_env \<Rightarrow> log_writer \<Rightarrow> 'w observer list option \<Rightarrow> (log_op list \<Rightarrow> log_record \<Rightarrow> 'w \<Rightarrow> 'w) \<Rightarrow>
     invocation_context option \<Rightarrow> log_record \<Rightarrow> log_handler \<Rightarrow> 'w \<Rightarrow> 'w" where
  "log_handle E w obs std ctx r h s =
     (case h of
        LH_User c \<Rightarrow> user_handle E w obs ctx r c s
      | LH_System c \<Rightarrow> system_handle E w ctx r c s
      | LH_Bootstrap \<Rightarrow> le_stderr E (bootstrap_line E r) s
      | LH_Std ops \<Rightarrow> std ops r s)"

subsection \<open>The SDK's handler\<close>

record sdk_log_handler =
  sl_base :: "log_handler option"
  sl_ops :: "log_op list"

definition new_log_handler :: "log_handler option \<Rightarrow> sdk_log_handler" where
  "new_log_handler base = \<lparr>sl_base = base, sl_ops = []\<rparr>"

definition default_base :: "log_handler option \<Rightarrow> log_handler" where
  "default_base installed = (case installed of Some h \<Rightarrow> h | None \<Rightarrow> LH_Std [])"

definition resolve_base :: "log_handler option \<Rightarrow> sdk_log_handler \<Rightarrow> log_handler" where
  "resolve_base installed h = (case sl_base h of Some b \<Rightarrow> b | None \<Rightarrow> default_base installed)"

definition invocation_attrs :: "invocation_context \<Rightarrow> log_attr list" where
  "invocation_attrs ic =
     (if ic_invocation_id ic \<noteq> '''' then [mk_attr ''invocation_id'' (SV_String (ic_invocation_id ic))] else [])
     @ (if ic_function_name ic \<noteq> '''' then [mk_attr ''function_name'' (SV_String (ic_function_name ic))] else [])
     @ (if ic_trigger_type ic \<noteq> '''' then [mk_attr ''trigger_type'' (SV_String (ic_trigger_type ic))] else [])"

definition apply_op :: "log_op \<Rightarrow> log_handler \<Rightarrow> log_handler" where
  "apply_op op b = (case op of Op_Group g \<Rightarrow> handler_with_group g b | Op_Attrs as \<Rightarrow> handler_with_attrs as b)"

definition effective :: "log_handler option \<Rightarrow> invocation_context option \<Rightarrow> sdk_log_handler \<Rightarrow> log_handler" where
  "effective installed ctx h =
     (let b = resolve_base installed h;
          b = (case ctx of
                 None \<Rightarrow> b
               | Some ic \<Rightarrow> (if invocation_attrs ic \<noteq> [] then handler_with_attrs (invocation_attrs ic) b else b))
      in fold apply_op (sl_ops h) b)"

definition sdk_with_attrs :: "log_attr list \<Rightarrow> sdk_log_handler \<Rightarrow> sdk_log_handler" where
  "sdk_with_attrs as h = (if as = [] then h else h\<lparr>sl_ops := sl_ops h @ [Op_Attrs as]\<rparr>)"

definition sdk_with_group :: "string \<Rightarrow> sdk_log_handler \<Rightarrow> sdk_log_handler" where
  "sdk_with_group name h = (if name = '''' then h else h\<lparr>sl_ops := sl_ops h @ [Op_Group name]\<rparr>)"

definition sdk_handle ::
    "'w log_env \<Rightarrow> log_writer \<Rightarrow> 'w observer list option \<Rightarrow> (log_op list \<Rightarrow> log_record \<Rightarrow> 'w \<Rightarrow> 'w) \<Rightarrow>
     log_handler option \<Rightarrow> invocation_context option \<Rightarrow> log_record \<Rightarrow> sdk_log_handler \<Rightarrow> 'w \<Rightarrow> 'w" where
  "sdk_handle E w obs std installed ctx r h s = log_handle E w obs std ctx r (effective installed ctx h) s"

subsection \<open>The interface of a handler that nests attributes in groups\<close>

text \<open>
  What \<open>slog\<close> asks of a handler: \<open>WithAttrs\<close> adds attributes under the groups open at that moment,
  \<open>WithGroup\<close> opens one for what comes later, and an empty name is ignored.
\<close>

fun attached :: "log_op list \<Rightarrow> string list \<Rightarrow> (string \<times> slog_value) list" where
  "attached [] groups = []"
| "attached (Op_Attrs as # ops) groups = map (\<lambda>a. (qualify groups (la_key a), la_value a)) as @ attached ops groups"
| "attached (Op_Group g # ops) groups = attached ops (if g = '''' then groups else groups @ [g])"

fun opened :: "log_op list \<Rightarrow> string list" where
  "opened [] = []"
| "opened (Op_Attrs as # ops) = opened ops"
| "opened (Op_Group g # ops) = (if g = '''' then opened ops else g # opened ops)"

locale grouping_handler =
  fixes attrs_op :: "log_attr list \<Rightarrow> 'h \<Rightarrow> 'h" and group_op :: "string \<Rightarrow> 'h \<Rightarrow> 'h"
    and contents :: "'h \<Rightarrow> (string \<times> slog_value) list" and groups :: "'h \<Rightarrow> string list"
  assumes contents_attrs: "contents (attrs_op as h) = contents h @ map (\<lambda>a. (qualify (groups h) (la_key a), la_value a)) as"
    and groups_attrs: "groups (attrs_op as h) = groups h"
    and contents_group: "contents (group_op g h) = contents h"
    and groups_group: "groups (group_op g h) = (if g = '''' then groups h else groups h @ [g])"
begin

lemma replay:
  "contents (fold (\<lambda>op. case op of Op_Group g \<Rightarrow> group_op g | Op_Attrs as \<Rightarrow> attrs_op as) ops h) =
     contents h @ attached ops (groups h) \<and>
   groups (fold (\<lambda>op. case op of Op_Group g \<Rightarrow> group_op g | Op_Attrs as \<Rightarrow> attrs_op as) ops h) = groups h @ opened ops"
proof (induction ops arbitrary: h)
  case (Cons op ops)
  show ?case
    by (cases op) (simp_all add: Cons.IH contents_attrs groups_attrs contents_group groups_group)
qed simp

end

definition composed :: "log_composer \<Rightarrow> (string \<times> slog_value) list" where
  "composed c = map (\<lambda>b. (qualify (ba_groups b) (la_key (ba_attr b)), la_value (ba_attr b))) (lc_bound c)"

interpretation lc: grouping_handler with_attrs with_group composed lc_groups
  by unfold_locales (auto simp: composed_def with_attrs_def with_group_def)

subsection \<open>Lemmas on categories\<close>

definition dotted_prefixes :: "string \<Rightarrow> string list" where
  "dotted_prefixes s = map (\<lambda>i. take i s) (filter (\<lambda>i. s ! i = CHR ''.'') (rev [0..<length s]))"

fun first_hit :: "('k, 'v) go_map \<Rightarrow> 'k list \<Rightarrow> 'v option" where
  "first_hit m [] = None"
| "first_hit m (k # ks) = (case map_of m k of Some v \<Rightarrow> Some v | None \<Rightarrow> first_hit m ks)"

definition catch_all :: "string \<Rightarrow> bool" where
  "catch_all k \<longleftrightarrow> k = '''' \<or> k = ''Worker''"

text \<open>The keys that can decide a category, the most specific first.\<close>

definition category_keys :: "string \<Rightarrow> string list" where
  "category_keys category = category # filter (\<lambda>k. \<not> catch_all k) (dotted_prefixes category) @ [''Worker'', '''']"

lemma dotted_prefixes_mem: "k \<in> set (dotted_prefixes s) \<longleftrightarrow> has_prefix s (k @ ''.'')"
proof
  assume "k \<in> set (dotted_prefixes s)"
  then obtain i where i: "i < length s" "s ! i = CHR ''.''" "k = take i s" by (auto simp: dotted_prefixes_def)
  then have "s = (k @ ''.'') @ drop (Suc i) s" using id_take_nth_drop [OF i(1)] by simp
  then show "has_prefix s (k @ ''.'')" by (metis has_prefix_append)
next
  assume "has_prefix s (k @ ''.'')"
  then obtain t where "s = k @ CHR ''.'' # t" by (auto simp: has_prefix_def prefix_def)
  then show "k \<in> set (dotted_prefixes s)"
    by (auto simp: dotted_prefixes_def intro!: image_eqI [of _ _ "length k"])
qed

lemma dotted_prefixes_descending: "sorted_wrt (\<lambda>a b. length b < length a) (dotted_prefixes s)"
proof -
  have "sorted_wrt (>) (filter (\<lambda>i. s ! i = CHR ''.'') (rev [0..<length s]))"
    by (rule sorted_wrt_filter) (simp add: sorted_wrt_rev)
  then have "sorted_wrt (\<lambda>i j. length (take j s) < length (take i s)) (filter (\<lambda>i. s ! i = CHR ''.'') (rev [0..<length s]))"
    by (rule sorted_wrt_mono_rel [rotated]) auto
  then show ?thesis by (simp add: dotted_prefixes_def sorted_wrt_map)
qed

lemma first_hit_append: "first_hit m (ks @ ls) = (case first_hit m ks of Some v \<Rightarrow> Some v | None \<Rightarrow> first_hit m ls)"
  by (induction ks) (auto split: option.split)

lemma first_hit_None: "first_hit m ks = None \<longleftrightarrow> (\<forall>k \<in> set ks. map_of m k = None)"
  by (induction ks) (auto split: option.split)

lemma first_hit_longest:
  assumes "sorted_wrt (\<lambda>a b. length b < length a) ks" and "k \<in> set ks" and "map_of m k = Some v"
    and "\<And>k'. k' \<in> set ks \<Longrightarrow> map_of m k' \<noteq> None \<Longrightarrow> length k' \<le> length k"
  shows "first_hit m ks = Some v"
  using assms
proof (induction ks)
  case (Cons l ks)
  show ?case
  proof (cases "l = k")
    case False
    with Cons.prems have k: "k \<in> set ks" by simp
    with Cons.prems(1) have "length k < length l" by simp
    with Cons.prems(4) [of l] have "map_of m l = None" by fastforce
    with Cons.IH [OF _ k Cons.prems(3)] Cons.prems show ?thesis by simp
  qed (use Cons.prems in simp)
qed simp

definition candidate :: "string \<Rightarrow> string \<Rightarrow> bool" where
  "candidate category k \<longleftrightarrow> \<not> catch_all k \<and> k \<noteq> category \<and> has_prefix category (k @ ''.'')"

lemma best_category_spec:
  assumes "\<And>k v. best = Some (k, v) \<Longrightarrow> candidate category k"
  shows "(case best_category category cats best of
      None \<Rightarrow> best = None \<and> (\<forall>(k, v) \<in> set cats. \<not> candidate category k)
    | Some (k, v) \<Rightarrow> candidate category k \<and> ((k, v) \<in> set cats \<or> best = Some (k, v)) \<and>
        (\<forall>(k', v') \<in> set cats. candidate category k' \<longrightarrow> length k' \<le> length k) \<and>
        (\<forall>k' v'. best = Some (k', v') \<longrightarrow> length k' \<le> length k))"
  using assms
proof (induction cats arbitrary: best)
  case (Cons kv cats)
  obtain k v where kv: "kv = (k, v)" by fastforce
  show ?case
  proof (cases "candidate category k")
    case False
    then have "best_category category (kv # cats) best = best_category category cats best"
      by (auto simp: kv candidate_def catch_all_def)
    with Cons.IH [of best] Cons.prems False show ?thesis by (auto simp: kv split: option.splits)
  next
    case True
    define next_best where "next_best = (case best of None \<Rightarrow> (k, v)
      | Some (bk, bv) \<Rightarrow> if length k > length bk then (k, v) else (bk, bv))"
    have step: "best_category category (kv # cats) best = best_category category cats (Some next_best)"
      using True by (auto simp: kv candidate_def catch_all_def next_best_def split: option.split)
    have next_best: "candidate category (fst next_best)" "next_best = (k, v) \<or> best = Some next_best"
      "length k \<le> length (fst next_best)" "\<forall>k' v'. best = Some (k', v') \<longrightarrow> length k' \<le> length (fst next_best)"
      using True Cons.prems by (auto simp: next_best_def split: option.split)
    obtain nk nv where n: "next_best = (nk, nv)" by fastforce
    from Cons.IH [of "Some next_best"] next_best obtain rk rv
      where r: "best_category category cats (Some next_best) = Some (rk, rv)" "candidate category rk"
        "(rk, rv) \<in> set cats \<or> next_best = (rk, rv)" "length nk \<le> length rk"
        "\<forall>(k', v') \<in> set cats. candidate category k' \<longrightarrow> length k' \<le> length rk"
      by (auto simp: n split: option.splits)
    from r next_best show ?thesis
      unfolding step by (auto simp: n kv intro: order_trans)
  qed
qed (auto split: option.split)

lemma best_category_first_hit:
  assumes wf: "wf_map cats" and new: "map_of cats category = None"
  shows "map_option snd (best_category category cats None) =
    first_hit cats (filter (\<lambda>k. \<not> catch_all k) (dotted_prefixes category))"
proof -
  let ?ks = "filter (\<lambda>k. \<not> catch_all k) (dotted_prefixes category)"
  have mem: "k \<in> set ?ks \<longleftrightarrow> candidate category k" if "map_of cats k \<noteq> None" for k
    using that new by (auto simp: candidate_def dotted_prefixes_mem)
  have entry: "(k, v) \<in> set cats \<longleftrightarrow> map_of cats k = Some v" for k v by (rule map_of_wf_mem [OF wf])
  show ?thesis
  proof (cases "best_category category cats None")
    case None
    with best_category_spec [of None category cats] have none: "\<forall>(k, v) \<in> set cats. \<not> candidate category k" by simp
    have "map_of cats k = None" if "k \<in> set ?ks" for k
    proof (rule ccontr)
      assume some: "map_of cats k \<noteq> None"
      then obtain v where "(k, v) \<in> set cats" using entry by blast
      with none mem [OF some] that show False by fast
    qed
    then have "first_hit cats ?ks = None" unfolding first_hit_None by blast
    with None show ?thesis by simp
  next
    case (Some kv)
    obtain k v where kv: "kv = (k, v)" by fastforce
    from best_category_spec [of None category cats] Some kv
    have k: "candidate category k" "(k, v) \<in> set cats"
      and longest: "\<forall>(k', v') \<in> set cats. candidate category k' \<longrightarrow> length k' \<le> length k" by auto
    from k(2) have v: "map_of cats k = Some v" by (simp add: entry)
    have "first_hit cats ?ks = Some v"
    proof (rule first_hit_longest [OF _ _ v])
      show "sorted_wrt (\<lambda>a b. length b < length a) ?ks"
        by (rule sorted_wrt_filter [OF dotted_prefixes_descending])
      show "k \<in> set ?ks" using mem [of k] v k(1) by simp
      fix k' assume k': "k' \<in> set ?ks" "map_of cats k' \<noteq> None"
      then obtain v' where "(k', v') \<in> set cats" using entry by blast
      with longest mem k' show "length k' \<le> length k" by fastforce
    qed
    with Some kv show ?thesis by simp
  qed
qed

subsection \<open>Lemmas on the rendered text\<close>

text \<open>Reading the text back: Go's quoted strings, then \<open>key=value\<close> pairs separated by a space.\<close>

definition unescape_char :: "char \<Rightarrow> char" where
  "unescape_char c =
     (if c = CHR ''a'' then char_of (7 :: nat) else if c = CHR ''b'' then char_of (8 :: nat)
      else if c = CHR ''t'' then char_of (9 :: nat) else if c = CHR ''n'' then char_of (10 :: nat)
      else if c = CHR ''v'' then char_of (11 :: nat) else if c = CHR ''f'' then char_of (12 :: nat)
      else if c = CHR ''r'' then char_of (13 :: nat) else c)"

fun unquote :: "string \<Rightarrow> (string \<times> string) option" where
  "unquote [] = None"
| "unquote [c] = (if c = CHR 0x22 then Some ([], []) else None)"
| "unquote [c, d] =
     (if c = CHR 0x22 then Some ([], [d])
      else if c = CHR 0x5C then None
      else map_option (apfst (Cons c)) (unquote [d]))"
| "unquote [c, d, e] =
     (if c = CHR 0x22 then Some ([], [d, e])
      else if c = CHR 0x5C then
        (if d = CHR ''x'' then None else map_option (apfst (Cons (unescape_char d))) (unquote [e]))
      else map_option (apfst (Cons c)) (unquote [d, e]))"
| "unquote (c # d # e # f # s) =
     (if c = CHR 0x22 then Some ([], d # e # f # s)
      else if c = CHR 0x5C then
        (if d = CHR ''x'' then map_option (apfst (Cons (char_of (16 * hex_value e + hex_value f)))) (unquote s)
         else map_option (apfst (Cons (unescape_char d))) (unquote (e # f # s)))
      else map_option (apfst (Cons c)) (unquote (d # e # f # s)))"

definition logfmt_value :: "string \<Rightarrow> (string \<times> string) option" where
  "logfmt_value s =
     (if s \<noteq> [] \<and> hd s = CHR 0x22 then unquote (tl s)
      else Some (takeWhile (\<lambda>c. c \<noteq> CHR '' '') s, dropWhile (\<lambda>c. c \<noteq> CHR '' '') s))"

fun parse_logfmt :: "nat \<Rightarrow> string \<Rightarrow> (string \<times> string) list option" where
  "parse_logfmt 0 s = (if s = [] then Some [] else None)"
| "parse_logfmt (Suc n) s =
     (if s = [] then Some []
      else case cut_at CHR ''='' s of
        (k, rest, found) \<Rightarrow>
          if \<not> found then None
          else (case logfmt_value rest of
                  None \<Rightarrow> None
                | Some (v, after) \<Rightarrow>
                    map_option (Cons (k, v)) (parse_logfmt n (case after of c # t \<Rightarrow> t | [] \<Rightarrow> []))))"

lemma char_of_eq: "of_char c = (n :: nat) \<Longrightarrow> char_of n = c"
  by auto

lemma unquote_plain:
  "c \<noteq> CHR 0x22 \<Longrightarrow> c \<noteq> CHR 0x5C \<Longrightarrow> unquote (c # s) = map_option (apfst (Cons c)) (unquote s)"
  by (cases "c # s" rule: unquote.cases) simp_all

lemma unquote_escape:
  "d \<noteq> CHR ''x'' \<Longrightarrow> unquote (CHR 0x5C # d # s) =
     (if s = [] then None else map_option (apfst (Cons (unescape_char d))) (unquote s))"
  by (cases "CHR 0x5C # d # s" rule: unquote.cases) simp_all

lemma unquote_hex:
  "unquote (CHR 0x5C # CHR ''x'' # e # f # s) = map_option (apfst (Cons (char_of (16 * hex_value e + hex_value f)))) (unquote s)"
  by simp

lemma unquote_quote_char:
  assumes "s \<noteq> []"
  shows "unquote (quote_char c @ s) = map_option (apfst (Cons c)) (unquote s)"
proof -
  let ?n = "of_char c :: nat"
  have n: "char_of ?n = c" by simp
  consider "c = CHR 0x22" | "c = CHR 0x5C" | "7 \<le> ?n" "?n \<le> 13" | "?n < 7 \<or> (13 < ?n \<and> ?n < 32) \<or> ?n = 127"
    | "c \<noteq> CHR 0x22" "c \<noteq> CHR 0x5C" "32 \<le> ?n" "?n \<noteq> 127" by linarith
  then show ?thesis
  proof cases
    case 3
    then have "?n \<in> {7, 8, 9, 10, 11, 12, 13}" by auto
    moreover from 3 have "c \<noteq> CHR 0x22" "c \<noteq> CHR 0x5C" by auto
    ultimately show ?thesis
      using assms by (auto simp: quote_char_def Let_def unquote_escape unescape_char_def dest: char_of_eq)
  next
    case 4
    then have "c \<noteq> CHR 0x22" "c \<noteq> CHR 0x5C" "?n < 256" by auto
    moreover from 4 have "?n div 16 < 16" "?n mod 16 < 16" by auto
    ultimately have "quote_char c = [CHR 0x5C, CHR ''x'', hex_char (?n div 16), hex_char (?n mod 16)]"
      using 4 by (auto simp: quote_char_def Let_def)
    with \<open>?n div 16 < 16\<close> \<open>?n mod 16 < 16\<close> n show ?thesis
      by (simp add: hex_value_hex_char del: unquote.simps add: unquote_hex)
  qed (use assms in \<open>auto simp: quote_char_def Let_def unquote_escape unescape_char_def unquote_plain\<close>)
qed

lemma unquote_quoted: "unquote (concat (map quote_char s) @ CHR 0x22 # t) = Some (s, t)"
proof (induction s)
  case Nil
  show ?case by (cases "CHR 0x22 # t" rule: unquote.cases) simp_all
next
  case (Cons c s)
  then show ?case by (simp add: unquote_quote_char)
qed

lemma needs_quote_space: "needs_quote CHR '' ''" "needs_quote CHR 0x22"
  by (simp_all add: needs_quote_def)

lemma logfmt_value_quoted:
  assumes "t = [] \<or> (\<exists>u. t = CHR '' '' # u)"
  shows "logfmt_value (quote_if_needed s @ t) = Some (s, t)"
proof (cases "s = '''' \<or> list_ex needs_quote s")
  case True
  then have "quote_if_needed s = go_quote s" by (auto simp: quote_if_needed_def go_quote_def)
  then show ?thesis using unquote_quoted [of s t] by (simp add: logfmt_value_def go_quote_def)
next
  case False
  then obtain c r where s: "s = c # r" by (cases s) auto
  from False have plain: "\<forall>x \<in> set s. x \<noteq> CHR '' '' \<and> x \<noteq> CHR 0x22"
    using needs_quote_space unfolding list_ex_iff by blast
  from s plain have "hd (s @ t) \<noteq> CHR 0x22" by auto
  then have "logfmt_value (s @ t) = Some (takeWhile (\<lambda>c. c \<noteq> CHR '' '') (s @ t), dropWhile (\<lambda>c. c \<noteq> CHR '' '') (s @ t))"
    by (simp only: logfmt_value_def if_False simp_thms)
  moreover have "takeWhile (\<lambda>c. c \<noteq> CHR '' '') (s @ t) = s @ takeWhile (\<lambda>c. c \<noteq> CHR '' '') t"
    "dropWhile (\<lambda>c. c \<noteq> CHR '' '') (s @ t) = dropWhile (\<lambda>c. c \<noteq> CHR '' '') t"
    by (simp_all add: plain takeWhile_append2 dropWhile_append2)
  moreover have "takeWhile (\<lambda>c. c \<noteq> CHR '' '') t = []" "dropWhile (\<lambda>c. c \<noteq> CHR '' '') t = t"
    using assms by auto
  ultimately show ?thesis using False by (simp add: quote_if_needed_def)
qed

definition rendered :: "(float64 \<Rightarrow> string) \<Rightarrow> log_attr \<Rightarrow> string" where
  "rendered ff a = la_key a @ ''='' @ quote_if_needed (string_render ff (la_value a))"

lemma rendered_nonempty [simp]: "rendered ff a \<noteq> []"
  by (simp add: rendered_def)

lemma render_attrs_from_append:
  "sb \<noteq> '''' \<Longrightarrow> render_attrs_from ff as sb = sb @ concat (map (\<lambda>a. CHR '' '' # rendered ff a) as)"
  by (induction as arbitrary: sb) (simp_all add: rendered_def)

lemma parse_logfmt_rendered:
  assumes "list_all (\<lambda>a. CHR ''='' \<notin> set (la_key a)) (a # as)"
  shows "parse_logfmt (Suc (length as)) (rendered ff a @ concat (map (\<lambda>a. CHR '' '' # rendered ff a) as)) =
    Some (map (\<lambda>a. (la_key a, string_render ff (la_value a))) (a # as))"
  using assms
proof (induction as arbitrary: a)
  case Nil
  then have "cut_at CHR ''='' (rendered ff a) = (la_key a, quote_if_needed (string_render ff (la_value a)), True)"
    by (simp add: rendered_def cut_at_append)
  then show ?case
    using logfmt_value_quoted [of "[]" "string_render ff (la_value a)"] by simp
next
  case (Cons b as)
  let ?t = "concat (map (\<lambda>a. CHR '' '' # rendered ff a) (b # as))"
  have "cut_at CHR ''='' (rendered ff a @ ?t) = (la_key a, quote_if_needed (string_render ff (la_value a)) @ ?t, True)"
    using Cons.prems by (simp add: rendered_def cut_at_append)
  moreover have "logfmt_value (quote_if_needed (string_render ff (la_value a)) @ ?t) = Some (string_render ff (la_value a), ?t)"
    by (rule logfmt_value_quoted) simp
  moreover have "parse_logfmt (Suc (length as)) (rendered ff b @ concat (map (\<lambda>a. CHR '' '' # rendered ff a) as)) =
      Some (map (\<lambda>a. (la_key a, string_render ff (la_value a))) (b # as))"
    using Cons.IH [of b] Cons.prems by simp
  ultimately show ?case
    by (simp del: parse_logfmt.simps add: parse_logfmt.simps(2) [of "Suc (length as)"])
qed

subsection \<open>Lemmas on records\<close>

text \<open>Keys that become fields of the message instead of properties.\<close>

definition special_key :: "string \<Rightarrow> bool" where
  "special_key k \<longleftrightarrow> k = ''invocation_id'' \<or> k = ''function_name'' \<or> k = ''category'' \<or> k = ''event_id''"

definition walk_all :: "(float64 \<Rightarrow> string) \<Rightarrow> (string \<times> slog_value) list \<Rightarrow> walk_state \<Rightarrow> walk_state" where
  "walk_all ff kvs st = fold (\<lambda>(k, v). walk_attr ff k v) kvs st"

lemma walk_all_spec:
  assumes "walk_all ff kvs (rl, props, as) = (rl', props', as')"
  shows "rl_message rl' = rl_message rl \<and> rl_properties rl' = rl_properties rl \<and>
    (rl_invocation_id rl \<noteq> '''' \<longrightarrow> rl_invocation_id rl' = rl_invocation_id rl) \<and>
    (rl_category rl \<noteq> '''' \<longrightarrow> ''category'' \<notin> fst ` set kvs \<longrightarrow> rl_category rl' = rl_category rl) \<and>
    as' = as @ map (\<lambda>(k, v). mk_attr k v) (filter (\<lambda>(k, v). \<not> special_key k) kvs) \<and>
    (\<forall>k. \<not> special_key k \<longrightarrow> map_of props' k =
       (case map_of (rev kvs) k of Some v \<Rightarrow> Some (slog_value_to_typed_data ff v) | None \<Rightarrow> map_of props k))"
  using assms
proof (induction kvs arbitrary: rl props as)
  case (Cons kv kvs)
  obtain k v where kv: "kv = (k, v)" by fastforce
  obtain rl1 props1 as1 where step: "walk_attr ff k v (rl, props, as) = (rl1, props1, as1)" by (metis prod_cases3)
  with Cons.prems have rest: "walk_all ff kvs (rl1, props1, as1) = (rl', props', as')" by (simp add: walk_all_def kv)
  have s: "rl_message rl1 = rl_message rl" "rl_properties rl1 = rl_properties rl"
    "rl_invocation_id rl \<noteq> '''' \<Longrightarrow> rl_invocation_id rl1 = rl_invocation_id rl"
    "rl_category rl \<noteq> '''' \<Longrightarrow> k \<noteq> ''category'' \<Longrightarrow> rl_category rl1 = rl_category rl"
    "as1 = as @ (if special_key k then [] else [mk_attr k v])"
    "props1 = (if special_key k then props else map_put k (slog_value_to_typed_data ff v) props)"
    using step by (auto simp: walk_attr_def special_key_def split: if_splits)
  from Cons.IH [OF rest] s show ?case
    by (auto simp: kv map_add_def split: option.split)
qed (simp add: walk_all_def)

lemma build_rpc_log_walk:
  "build_rpc_log ff ctx r cat c =
     (let rl = \<lparr>rl_invocation_id = '''', rl_category = '''', rl_level = slog_level_to_rpc (lr_level r),
                rl_message = lr_message r, rl_event_id = '''', rl_log_category = cat, rl_properties = []\<rparr>;
          rl = (case ctx of
                  None \<Rightarrow> rl
                | Some ic \<Rightarrow>
                    (let rl = rl\<lparr>rl_invocation_id := ic_invocation_id ic\<rparr> in
                     if ic_function_name ic \<noteq> '''' then rl\<lparr>rl_category := ''Function.'' @ ic_function_name ic\<rparr> else rl));
          (rl, props, as) =
            walk_all ff (composed c @ map (\<lambda>a. (qualify (lc_groups c) (la_key a), la_value a)) (lr_attrs r)) (rl, [], []);
          rl = (if props \<noteq> [] then rl\<lparr>rl_properties := props\<rparr> else rl);
          suffix = render_attrs_as_logfmt ff as
      in if suffix = '''' then rl
         else rl\<lparr>rl_message := (if rl_message rl \<noteq> '''' then rl_message rl @ '' '' @ suffix else suffix)\<rparr>)"
  by (simp add: build_rpc_log_def walk_all_def composed_def fold_map comp_def Let_def)

lemma build_rpc_log_spec:
  assumes ic: "ic_invocation_id ic \<noteq> ''''" "ic_function_name ic \<noteq> ''''"
    and kvs: "kvs = composed c @ map (\<lambda>a. (qualify (lc_groups c) (la_key a), la_value a)) (lr_attrs r)"
  shows "rl_invocation_id (build_rpc_log ff (Some ic) r cat c) = ic_invocation_id ic \<and>
    (''category'' \<notin> fst ` set kvs \<longrightarrow> rl_category (build_rpc_log ff (Some ic) r cat c) = ''Function.'' @ ic_function_name ic) \<and>
    (\<forall>k. \<not> special_key k \<longrightarrow> map_of (rl_properties (build_rpc_log ff (Some ic) r cat c)) k =
       map_option (slog_value_to_typed_data ff) (map_of (rev kvs) k)) \<and>
    rl_message (build_rpc_log ff (Some ic) r cat c) =
      (let suffix = render_attrs_as_logfmt ff (map (\<lambda>(k, v). mk_attr k v) (filter (\<lambda>(k, v). \<not> special_key k) kvs)) in
       if suffix = '''' then lr_message r else if lr_message r = '''' then suffix else lr_message r @ '' '' @ suffix)"
proof -
  let ?rl = "\<lparr>rl_invocation_id = ic_invocation_id ic, rl_category = ''Function.'' @ ic_function_name ic,
     rl_level = slog_level_to_rpc (lr_level r), rl_message = lr_message r, rl_event_id = '''', rl_log_category = cat,
     rl_properties = []\<rparr>"
  obtain rl' props as where w: "walk_all ff kvs (?rl, [], []) = (rl', props, as)" by (metis prod_cases3)
  let ?suffix = "render_attrs_as_logfmt ff as"
  let ?rl' = "if props \<noteq> [] then rl'\<lparr>rl_properties := props\<rparr> else rl'"
  have b: "build_rpc_log ff (Some ic) r cat c =
      (if ?suffix = '''' then ?rl'
       else ?rl'\<lparr>rl_message := (if rl_message ?rl' \<noteq> '''' then rl_message ?rl' @ '' '' @ ?suffix else ?suffix)\<rparr>)"
    using w ic by (simp add: build_rpc_log_walk kvs Let_def)
  from walk_all_spec [OF w] have s: "rl_message rl' = lr_message r" "rl_properties rl' = []"
    "rl_invocation_id rl' = ic_invocation_id ic"
    "''category'' \<notin> fst ` set kvs \<longrightarrow> rl_category rl' = ''Function.'' @ ic_function_name ic"
    "as = map (\<lambda>(k, v). mk_attr k v) (filter (\<lambda>(k, v). \<not> special_key k) kvs)"
    "\<forall>k. \<not> special_key k \<longrightarrow> map_of props k = map_option (slog_value_to_typed_data ff) (map_of (rev kvs) k)"
    using ic by (auto split: option.splits)
  show ?thesis
    unfolding b Let_def s(5) [symmetric] using s(1,2,3,4,6) by auto
qed

text \<open>A logger with the calls \<open>With\<close> and \<open>WithGroup\<close> made on it, and the handler it ends at.\<close>

definition logger :: "log_op list \<Rightarrow> sdk_log_handler" where
  "logger ops = fold (\<lambda>op. case op of Op_Group g \<Rightarrow> sdk_with_group g | Op_Attrs as \<Rightarrow> sdk_with_attrs as) ops
     (new_log_handler None)"

definition trivial_op :: "log_op \<Rightarrow> bool" where
  "trivial_op op \<longleftrightarrow> op = Op_Group '''' \<or> op = Op_Attrs []"

lemma logger_from:
  "fold (\<lambda>op. case op of Op_Group g \<Rightarrow> sdk_with_group g | Op_Attrs as \<Rightarrow> sdk_with_attrs as) ops h =
     h\<lparr>sl_ops := sl_ops h @ filter (\<lambda>op. \<not> trivial_op op) ops\<rparr>"
  by (induction ops arbitrary: h)
    (auto simp: sdk_with_group_def sdk_with_attrs_def trivial_op_def split: log_op.split)

lemma apply_ops_user:
  "fold apply_op (filter (\<lambda>op. \<not> trivial_op op) ops) (LH_User c) =
     LH_User (fold (\<lambda>op. case op of Op_Group g \<Rightarrow> with_group g | Op_Attrs as \<Rightarrow> with_attrs as) ops c)"
  by (induction ops arbitrary: c)
    (auto simp: apply_op_def trivial_op_def with_group_def with_attrs_def split: log_op.split)

definition logged_attrs :: "invocation_context \<Rightarrow> log_op list \<Rightarrow> log_record \<Rightarrow> (string \<times> slog_value) list" where
  "logged_attrs ic ops r =
     map (\<lambda>a. (la_key a, la_value a)) (invocation_attrs ic) @ attached ops []
     @ map (\<lambda>a. (qualify (opened ops) (la_key a), la_value a)) (lr_attrs r)"

lemma effective_user:
  "\<exists>c. effective (Some (LH_User new_composer)) (Some ic) (logger ops) = LH_User c \<and>
     composed c = map (\<lambda>a. (la_key a, la_value a)) (invocation_attrs ic) @ attached ops [] \<and> lc_groups c = opened ops"
proof -
  let ?c = "with_attrs (invocation_attrs ic) new_composer"
  let ?d = "fold (\<lambda>op. case op of Op_Group g \<Rightarrow> with_group g | Op_Attrs as \<Rightarrow> with_attrs as) ops ?c"
  have "effective (Some (LH_User new_composer)) (Some ic) (logger ops) = LH_User ?d"
    by (simp add: effective_def resolve_base_def default_base_def logger_def logger_from new_log_handler_def apply_ops_user
        with_attrs_def)
  moreover have "composed ?c = map (\<lambda>a. (la_key a, la_value a)) (invocation_attrs ic)" "lc_groups ?c = []"
    by (simp_all add: lc.contents_attrs lc.groups_attrs) (simp_all add: composed_def new_composer_def qualify_def)
  ultimately show ?thesis using lc.replay [of ops ?c] by simp
qed

lemma observed_record_attrs:
  "lr_attrs (observed_record c r) =
     lr_attrs r @ map (\<lambda>(k, v). mk_attr k v) (filter (\<lambda>(k, v). v \<noteq> SV_Empty_Group) (composed c))"
proof -
  have "lr_attrs (fold (\<lambda>b. add_attrs [mk_attr (qualify (ba_groups b) (la_key (ba_attr b))) (la_value (ba_attr b))]) bs r) =
      lr_attrs r @ map (\<lambda>(k, v). mk_attr k v) (filter (\<lambda>(k, v). v \<noteq> SV_Empty_Group)
        (map (\<lambda>b. (qualify (ba_groups b) (la_key (ba_attr b)), la_value (ba_attr b))) bs))" for bs
    by (induction bs arbitrary: r) (auto simp: add_attrs_def mk_attr_def)
  then show ?thesis by (simp add: observed_record_def composed_def)
qed

lemma qualify_Cons: "qualify (g # gs) k = g @ ''.'' @ qualify gs k"
  by (simp add: qualify_def)

lemma length_qualify: "length (qualify gs k) \<ge> length k + length gs"
  by (induction gs) (auto simp: qualify_def)

lemma qualify_not_special: "gs \<noteq> [] \<Longrightarrow> \<not> special_key (qualify gs k)"
proof -
  assume "gs \<noteq> []"
  then have "CHR ''.'' \<in> set (qualify gs k)" by (cases gs) (auto simp: qualify_def)
  then show ?thesis by (auto simp: special_key_def)
qed

subsection \<open>Properties\<close>

text \<open>
  C27. The host's filter: the level a category needs is the one set for the category itself, else for
  its longest dotted prefix, else for \<open>Worker\<close>, else for the empty key, else Information.  The order
  in which the map is traversed does not matter.
\<close>

theorem category_threshold:
  assumes "wf_map cats"
  shows "match_category_threshold cats category =
    (case first_hit cats (category_keys category) of Some v \<Rightarrow> v | None \<Rightarrow> Log_Information)"
proof (cases "map_of cats category")
  case None
  from best_category_first_hit [OF assms None] None show ?thesis
    by (auto simp: match_category_threshold_def category_keys_def first_hit_append split: option.splits)
qed (auto simp: match_category_threshold_def category_keys_def)

theorem category_threshold_witness:
  "match_category_threshold
     [(''Function'', Log_Error), (''Worker'', Log_Trace), (''Function.Hello'', Log_Debug)] ''Function.Hello.User'' = Log_Debug"
  by (subst category_threshold)
    (simp_all add: wf_map_def category_keys_def dotted_prefixes_def catch_all_def upt_rec)



text \<open>
  What a user's log call becomes: through the SDK's handler and any chain of \<open>With\<close> and
  \<open>WithGroup\<close>, the record carries the invocation's id and function at the top, each attribute as a
  property under the groups that were open when it was attached, the last of a key winning, and all
  of them rendered behind the message.
\<close>

theorem user_log_record:
  assumes "ic_invocation_id ic \<noteq> ''''" and "ic_function_name ic \<noteq> ''''"
  shows "\<exists>c. effective (Some (LH_User new_composer)) (Some ic) (logger ops) = LH_User c \<and>
    (let rl = build_rpc_log ff (Some ic) r LogCat_User c; kvs = logged_attrs ic ops r;
         suffix = render_attrs_as_logfmt ff (map (\<lambda>(k, v). mk_attr k v) (filter (\<lambda>(k, v). \<not> special_key k) kvs)) in
     rl_invocation_id rl = ic_invocation_id ic \<and>
     (''category'' \<notin> fst ` set kvs \<longrightarrow> rl_category rl = ''Function.'' @ ic_function_name ic) \<and>
     (\<forall>k. \<not> special_key k \<longrightarrow>
        map_of (rl_properties rl) k = map_option (slog_value_to_typed_data ff) (map_of (rev kvs) k)) \<and>
     rl_message rl = (if suffix = '''' then lr_message r else if lr_message r = '''' then suffix
        else lr_message r @ '' '' @ suffix))"
proof -
  obtain c where c: "effective (Some (LH_User new_composer)) (Some ic) (logger ops) = LH_User c"
    "composed c = map (\<lambda>a. (la_key a, la_value a)) (invocation_attrs ic) @ attached ops []" "lc_groups c = opened ops"
    using effective_user by blast
  then have "logged_attrs ic ops r = composed c @ map (\<lambda>a. (qualify (lc_groups c) (la_key a), la_value a)) (lr_attrs r)"
    by (simp add: logged_attrs_def)
  from build_rpc_log_spec [OF assms this] c(1) show ?thesis by (simp add: Let_def)
qed

definition sample_invocation :: invocation_context where
  "sample_invocation = \<lparr>ic_invocation_id = ''i1'', ic_function_id = ''f1'', ic_function_name = ''Hello'',
     ic_trigger_type = '''', ic_trace = \<lparr>tc_parent = '''', tc_state = '''', tc_attributes = [], tc_baggage = []\<rparr>,
     ic_retry = \<lparr>rc_count = 0, rc_max = 0\<rparr>, ic_metadata = None, ic_metadata_values = None\<rparr>"

definition sample_log_ops :: "log_op list" where
  "sample_log_ops = [Op_Attrs [mk_attr ''tenant'' (SV_String ''t'')], Op_Group ''http'', Op_Attrs [mk_attr ''method'' (SV_String ''GET'')]]"

definition sample_record :: log_record where
  "sample_record = \<lparr>lr_level = 0, lr_message = ''hi'', lr_time = None, lr_attrs = [mk_attr ''path'' (SV_String ''/'')]\<rparr>"

theorem user_log_record_witness:
  "\<exists>c. effective (Some (LH_User new_composer)) (Some sample_invocation) (logger sample_log_ops) = LH_User c \<and>
     rl_category (build_rpc_log (\<lambda>f. ''0'') (Some sample_invocation) sample_record LogCat_User c) = ''Function.Hello'' \<and>
     rl_message (build_rpc_log (\<lambda>f. ''0'') (Some sample_invocation) sample_record LogCat_User c) =
       ''hi tenant=t http.method=GET http.path=/''"
proof -
  have ic: "ic_invocation_id sample_invocation \<noteq> ''''" "ic_function_name sample_invocation \<noteq> ''''"
    by (simp_all add: sample_invocation_def)
  have kvs: "logged_attrs sample_invocation sample_log_ops sample_record =
      [(''invocation_id'', SV_String ''i1''), (''function_name'', SV_String ''Hello''), (''tenant'', SV_String ''t''),
       (''http.method'', SV_String ''GET''), (''http.path'', SV_String ''/'')]"
    by (simp add: logged_attrs_def sample_invocation_def sample_log_ops_def sample_record_def invocation_attrs_def
        mk_attr_def qualify_def)
  have suffix: "render_attrs_as_logfmt (\<lambda>f. ''0'') (map (\<lambda>(k, v). mk_attr k v)
      (filter (\<lambda>(k, v). \<not> special_key k) (logged_attrs sample_invocation sample_log_ops sample_record))) =
      ''tenant=t http.method=GET http.path=/''"
    by (simp add: kvs special_key_def render_attrs_as_logfmt_def mk_attr_def string_render_def quote_if_needed_def needs_quote_def)
  have facts: "''category'' \<notin> fst ` set (logged_attrs sample_invocation sample_log_ops sample_record)"
    "ic_function_name sample_invocation = ''Hello''" "lr_message sample_record = ''hi''"
    by (simp add: kvs) (simp_all add: sample_invocation_def sample_record_def)
  obtain c where "effective (Some (LH_User new_composer)) (Some sample_invocation) (logger sample_log_ops) = LH_User c"
    "rl_category (build_rpc_log (\<lambda>f. ''0'') (Some sample_invocation) sample_record LogCat_User c) =
       ''Function.'' @ ic_function_name sample_invocation"
    "rl_message (build_rpc_log (\<lambda>f. ''0'') (Some sample_invocation) sample_record LogCat_User c) =
       lr_message sample_record @ '' tenant=t http.method=GET http.path=/''"
    using user_log_record [OF ic, of sample_log_ops "\<lambda>f. ''0''" sample_record] facts(1,3)
    unfolding Let_def suffix by auto
  then show ?thesis unfolding facts by auto
qed

text \<open>
  An attribute logged inside a group reaches the host under its qualified key, but an observer is
  handed the record with the bare key: only the attributes bound earlier are qualified for it.
\<close>

theorem observer_bare_keys:
  assumes "a \<in> set (lr_attrs r)" and "lc_groups c \<noteq> []" and "ic_invocation_id ic \<noteq> ''''" and "ic_function_name ic \<noteq> ''''"
  shows "map_of (rl_properties (build_rpc_log ff (Some ic) r LogCat_User c)) (qualify (lc_groups c) (la_key a)) \<noteq> None \<and>
    qualify (lc_groups c) (la_key a) \<noteq> la_key a \<and>
    lr_attrs (observed_record c r) =
      lr_attrs r @ map (\<lambda>(k, v). mk_attr k v) (filter (\<lambda>(k, v). v \<noteq> SV_Empty_Group) (composed c))"
proof -
  let ?kvs = "composed c @ map (\<lambda>a. (qualify (lc_groups c) (la_key a), la_value a)) (lr_attrs r)"
  have "qualify (lc_groups c) (la_key a) \<in> fst ` set ?kvs" using assms(1) by force
  then have "map_of (rev ?kvs) (qualify (lc_groups c) (la_key a)) \<noteq> None"
    unfolding map_of_eq_None_iff set_rev by blast
  moreover have "length (qualify (lc_groups c) (la_key a)) > length (la_key a)"
    using length_qualify [of "la_key a" "lc_groups c"] assms(2) by (cases "lc_groups c") auto
  ultimately show ?thesis
    using build_rpc_log_spec [OF assms(3,4) refl, of ff r LogCat_User c] qualify_not_special [OF assms(2)]
    by (fastforce simp: observed_record_attrs)
qed

theorem observer_bare_keys_witness:
  "map_of (rl_properties (build_rpc_log (\<lambda>f. ''0'') (Some sample_invocation) sample_record LogCat_User
       (with_group ''http'' new_composer))) ''http.path'' \<noteq> None \<and>
   lr_attrs (observed_record (with_group ''http'' new_composer) sample_record) = [mk_attr ''path'' (SV_String ''/'')]"
proof -
  let ?a = "mk_attr ''path'' (SV_String ''/'')" and ?c = "with_group ''http'' new_composer"
  have h: "?a \<in> set (lr_attrs sample_record)" "lc_groups ?c \<noteq> []" "ic_invocation_id sample_invocation \<noteq> ''''"
    "ic_function_name sample_invocation \<noteq> ''''"
    by (simp_all add: sample_record_def with_group_def new_composer_def sample_invocation_def)
  have "qualify (lc_groups ?c) (la_key ?a) = ''http.path''"
    by (simp add: qualify_def with_group_def new_composer_def mk_attr_def)
  with observer_bare_keys [OF h, of "\<lambda>f. ''0''"] show ?thesis
    by (simp add: composed_def with_group_def new_composer_def sample_record_def)
qed

end
