(* ===== verification/Placeholder_Proxy.thy ===== *)
theory Placeholder_Proxy
  imports Worker_Stream
begin

text \<open>
  The placeholder proxy (\<open>proxy/main.go\<close>): it answers the host before an application is assigned, and
  on \<open>FunctionEnvironmentReloadRequest\<close> starts the application as a child and bridges the two streams.
  The main loop, the specialization goroutines and the child's side are a transition system.  The
  file system's answers, the processes and the streams' errors are events.
\<close>

subsection \<open>Paths and arguments\<close>

definition default_app_dir :: string where
  "default_app_dir = ''/home/site/wwwroot''"

definition default_app_name :: string where
  "default_app_name = ''app''"

text \<open>The environment is a map; an unset variable reads as the empty string.  \<open>join\<close> is \<open>filepath.Join\<close>.\<close>

definition getenv :: "(string, string) go_map \<Rightarrow> string \<Rightarrow> string" where
  "getenv env k = get_or '''' env k"

definition app_binary_path :: "(string \<Rightarrow> string \<Rightarrow> string) \<Rightarrow> (string, string) go_map \<Rightarrow> string \<Rightarrow> string" where
  "app_binary_path join env dir =
     (let name = getenv env ''FUNCTIONS_APP_BINARY_NAME'';
          name = (if name = '''' then default_app_name else name)
      in join dir name)"

text \<open>What \<open>os.Stat\<close> says of a path; the mode is rendered.\<close>

datatype file_stat = FS_Missing | FS_Not_Executable string | FS_Executable

datatype proxy_start = Start_Exec string | Start_Fatal string | Start_Proxy

definition not_executable :: "string \<Rightarrow> string \<Rightarrow> string" where
  "not_executable path mode = ''App binary at '' @ path @ '' is not executable (mode '' @ mode @
     ''). Ensure the binary has execute permissions (chmod +x).''"

definition proxy_main :: "(string \<Rightarrow> string \<Rightarrow> string) \<Rightarrow> (string, string) go_map \<Rightarrow> (string \<Rightarrow> file_stat) \<Rightarrow> proxy_start" where
  "proxy_main join env stat =
     (let path = app_binary_path join env default_app_dir in
      case stat path of
        FS_Not_Executable mode \<Rightarrow> Start_Fatal (not_executable path mode)
      | FS_Executable \<Rightarrow> Start_Exec path
      | FS_Missing \<Rightarrow> Start_Proxy)"

definition start_stream_message :: "startup_config \<Rightarrow> streaming_message" where
  "start_stream_message cfg = mk_msg (sc_request_id cfg) (C_StartStream (sc_worker_id cfg))"

definition child_args :: "startup_config \<Rightarrow> string \<Rightarrow> string list" where
  "child_args cfg port =
     [''--functions-uri'', ''http://127.0.0.1:'' @ port,
      ''--functions-worker-id'', sc_worker_id cfg,
      ''--functions-request-id'', sc_request_id cfg,
      ''--functions-grpc-max-message-length'', string_of_int (sc_max_message cfg)]"

subsection \<open>The state\<close>

text \<open>Where a specialization goroutine is; the binary's path and the request's directory are kept for the child.\<close>

datatype spec_pc =
    SP_Start env_reload_request
  | SP_Respond status_result
  | SP_Close
  | SP_Reset
  | SP_Launch string string
  | SP_Connecting
  | SP_Replay
  | SP_Initializing
  | SP_Reload
  | SP_Done

text \<open>The main loop reads the next message or waits in the \<open>select\<close> with one.\<close>

datatype main_pc = MP_Reading | MP_Waiting streaming_message

text \<open>
  Who put a message on a stream: the proxy itself or the other side; and what the child is sent, the
  saved init request (nil if it never came) or a message of the host.
\<close>

datatype to_host = Own streaming_message | Relayed streaming_message

datatype to_child = Replayed "streaming_message option" | Forwarded streaming_message

datatype proxy_exit = Exit_Code int | Exit_Panic string

record child_process =
  cp_path :: string
  cp_args :: "string list"
  cp_env :: "(string, string) go_map"
  cp_dir :: string

record proxy =
  px_child :: bool
  px_init_done :: bool
  px_no_child :: bool
  px_specializing :: bool
  px_saved_init :: "streaming_message option"
  px_saved_reload :: string
  px_capabilities :: "(string, string) go_map"
  px_metadata :: "worker_metadata option"
  px_env :: "(string, string) go_map"
  px_main :: main_pc
  px_specs :: "spec_pc list"
  px_bridges :: nat
  px_processes :: "child_process list"
  px_exit :: "proxy_exit option"
  px_to_host :: "to_host list"
  px_to_child :: "to_child list"
  px_received :: "(streaming_message \<times> bool) list"

text \<open>
  \<open>px_child\<close> is \<open>childStream != nil\<close>, which also means \<open>childConnected\<close> is closed; \<open>px_bridges\<close> counts
  the goroutines that read from the child.  \<open>px_received\<close> is history: the host's messages in order, and whether they went to the
  child.
\<close>

definition new_proxy :: "(string, string) go_map \<Rightarrow> proxy" where
  "new_proxy env = \<lparr>px_child = False, px_init_done = False, px_no_child = False, px_specializing = False,
     px_saved_init = None, px_saved_reload = '''', px_capabilities = [], px_metadata = None, px_env = env,
     px_main = MP_Reading, px_specs = [], px_bridges = 0, px_processes = [], px_exit = None,
     px_to_host = [], px_to_child = [], px_received = []\<rparr>"

definition send_to_host :: "to_host \<Rightarrow> proxy \<Rightarrow> proxy" where
  "send_to_host m s = s\<lparr>px_to_host := px_to_host s @ [m]\<rparr>"

definition send_to_child :: "to_child \<Rightarrow> proxy \<Rightarrow> proxy" where
  "send_to_child m s = s\<lparr>px_to_child := px_to_child s @ [m]\<rparr>"

subsection \<open>Host messages\<close>

definition placeholder_capabilities :: "(string, string) go_map" where
  "placeholder_capabilities =
     [(''TypedDataCollection'', ''true''), (''WorkerStatus'', ''true''), (''RpcHttpBodyOnly'', ''true''),
      (''RawHttpBodyBytes'', ''true''), (''RpcHttpTriggerMetadataRemoved'', ''true''),
      (''UseNullableValueDictionaryForHttp'', ''true''), (''HandlesWorkerTerminateMessage'', ''true'')]"

definition placeholder_init_response :: worker_init_response where
  "placeholder_init_response = \<lparr>wis_result = Some status_success, wis_worker_version = ''1.0.0'',
     wis_capabilities = placeholder_capabilities, wis_metadata = None, wis_host_config = None\<rparr>"

definition received :: "streaming_message \<Rightarrow> bool \<Rightarrow> proxy \<Rightarrow> proxy" where
  "received m forwarded s = s\<lparr>px_received := px_received s @ [(m, forwarded)], px_main := MP_Reading\<rparr>"

text \<open>The switch of placeholder mode.\<close>

definition placeholder_message :: "streaming_message \<Rightarrow> proxy \<Rightarrow> proxy" where
  "placeholder_message m s =
     (let rid = sm_request_id m; s = received m False s in
      case sm_content m of
        Some (C_WorkerInitRequest req) \<Rightarrow>
          send_to_host (Own (mk_msg rid (C_WorkerInitResponse placeholder_init_response))) (s\<lparr>px_saved_init := Some m\<rparr>)
      | Some C_WorkerHeartbeat \<Rightarrow> send_to_host (Own (mk_msg rid C_WorkerHeartbeat)) s
      | Some (C_EnvReloadRequest req) \<Rightarrow>
          s\<lparr>px_specializing := True, px_saved_reload := rid, px_specs := px_specs s @ [SP_Start req]\<rparr>
      | Some C_FunctionsMetadataRequest \<Rightarrow> send_to_host (Own (mk_msg rid (C_FunctionMetadataResponse [] status_success))) s
      | Some C_WorkerStatusRequest \<Rightarrow> send_to_host (Own (mk_msg rid C_WorkerStatusResponse)) s
      | Some C_WorkerTerminate \<Rightarrow> s\<lparr>px_exit := Some (Exit_Code 0)\<rparr>
      | _ \<Rightarrow> s)"

definition forward_message :: "streaming_message \<Rightarrow> proxy \<Rightarrow> proxy" where
  "forward_message m s = send_to_child (Forwarded m) (received m True s)"

definition handle_host_message :: "streaming_message \<Rightarrow> proxy \<Rightarrow> proxy" where
  "handle_host_message m s =
     (if px_child s then forward_message m s
      else if px_specializing s then s\<lparr>px_main := MP_Waiting m\<rparr>
      else placeholder_message m s)"

subsection \<open>Specialization\<close>

definition put_spec :: "nat \<Rightarrow> spec_pc \<Rightarrow> proxy \<Rightarrow> proxy" where
  "put_spec i pc s = s\<lparr>px_specs := (px_specs s)[i := pc]\<rparr>"

definition reload_reply :: "string \<Rightarrow> status_result \<Rightarrow> streaming_message" where
  "reload_reply rid st = mk_msg rid (C_EnvReloadResponse \<lparr>ers_result = Some st, ers_capabilities = [],
     ers_strategy = Caps_merge, ers_metadata = None\<rparr>)"

definition reload_bridged :: "proxy \<Rightarrow> streaming_message" where
  "reload_bridged s = mk_msg (px_saved_reload s) (C_EnvReloadResponse \<lparr>ers_result = Some status_success,
     ers_capabilities = px_capabilities s, ers_strategy = Caps_replace, ers_metadata = px_metadata s\<rparr>)"

text \<open>The environment is applied and the binary looked up.\<close>

definition spec_start :: "(string \<Rightarrow> string \<Rightarrow> string) \<Rightarrow> nat \<Rightarrow> env_reload_request \<Rightarrow> file_stat \<Rightarrow> proxy \<Rightarrow> proxy" where
  "spec_start join i req stat s =
     (let s = s\<lparr>px_env := map_merge (px_env s) (err_env req)\<rparr>;
          path = app_binary_path join (px_env s) (err_app_dir req)
      in case stat of
           FS_Missing \<Rightarrow> put_spec i (SP_Respond status_success) s
         | FS_Not_Executable mode \<Rightarrow>
             put_spec i (SP_Respond (status_failure (no_exception\<lparr>ex_message := not_executable path mode\<rparr>))) s
         | FS_Executable \<Rightarrow> put_spec i (SP_Launch path (err_app_dir req)) s)"

text \<open>Closing a closed channel panics, which ends the process.\<close>

definition close_no_child :: "proxy \<Rightarrow> proxy" where
  "close_no_child s =
     (if px_no_child s then s\<lparr>px_exit := Some (Exit_Panic ''close of closed channel'')\<rparr> else s\<lparr>px_no_child := True\<rparr>)"

definition close_init_done :: "proxy \<Rightarrow> proxy" where
  "close_init_done s =
     (if px_init_done s then s\<lparr>px_exit := Some (Exit_Panic ''close of closed channel'')\<rparr> else s\<lparr>px_init_done := True\<rparr>)"

text \<open>\<open>cwd\<close> is the proxy's own directory, used when the request names none.\<close>

definition launch_child ::
    "startup_config \<Rightarrow> string \<Rightarrow> string \<Rightarrow> nat \<Rightarrow> string \<Rightarrow> string \<Rightarrow> bool \<Rightarrow> proxy \<Rightarrow> proxy" where
  "launch_child cfg port cwd i path dir success s =
     (if \<not> success then s\<lparr>px_exit := Some (Exit_Code 1)\<rparr>
      else put_spec i SP_Connecting (s\<lparr>px_processes := px_processes s @
        [\<lparr>cp_path = path, cp_args = child_args cfg port, cp_env = px_env s,
          cp_dir = (if dir = '''' then cwd else dir)\<rparr>]\<rparr>))"

text \<open>What the bridge does with a message of the child.\<close>

definition child_message :: "streaming_message \<Rightarrow> proxy \<Rightarrow> proxy" where
  "child_message m s =
     (case sm_content m of
        Some (C_StartStream w) \<Rightarrow> s
      | Some (C_WorkerInitResponse r) \<Rightarrow>
          close_init_done (s\<lparr>px_capabilities := wis_capabilities r, px_metadata := wis_metadata r\<rparr>)
      | _ \<Rightarrow> send_to_host (Relayed m) s)"

text \<open>The local server's handler: it publishes the child's stream and signals the connection.\<close>

definition child_connects :: "proxy \<Rightarrow> proxy" where
  [simp]: "child_connects s = s\<lparr>px_child := True\<rparr>"

text \<open>How the child process ended, and the code the proxy exits with: the child's own, or \<open>1\<close>.\<close>

datatype child_wait = Wait_Clean | Wait_Exit_Error int | Wait_Failed

definition child_exit_code :: "child_wait \<Rightarrow> int" where
  "child_exit_code w = (case w of Wait_Clean \<Rightarrow> 0 | Wait_Exit_Error code \<Rightarrow> code | Wait_Failed \<Rightarrow> 1)"

subsection \<open>Steps\<close>

datatype proxy_event =
    Host_Message streaming_message
  | Host_Closed
  | Host_Failed
  | Main_Child_Ready
  | Main_No_Child
  | Spec_Stat nat file_stat
  | Spec_Launch nat bool
  | Spec_Runs nat
  | Child_Connects
  | Child_Message streaming_message
  | Bridge_Ends
  | Child_Exits child_wait

record proxy_setup =
  ps_join :: "string \<Rightarrow> string \<Rightarrow> string"
  ps_config :: startup_config
  ps_port :: string
  ps_cwd :: string

definition spec_runs :: "nat \<Rightarrow> proxy \<Rightarrow> proxy option" where
  "spec_runs i s =
     (case px_specs s ! i of
        SP_Respond st \<Rightarrow> Some (put_spec i SP_Close (send_to_host (Own (reload_reply (px_saved_reload s) st)) s))
      | SP_Close \<Rightarrow> Some (put_spec i SP_Reset (close_no_child s))
      | SP_Reset \<Rightarrow> Some (put_spec i SP_Done (s\<lparr>px_specializing := False\<rparr>))
      | SP_Connecting \<Rightarrow> if px_child s then Some (put_spec i SP_Replay s) else None
      | SP_Replay \<Rightarrow> Some (put_spec i SP_Initializing (send_to_child (Replayed (px_saved_init s)) (s\<lparr>px_bridges := px_bridges s + 1\<rparr>)))
      | SP_Initializing \<Rightarrow> if px_init_done s then Some (put_spec i SP_Reload s) else None
      | SP_Reload \<Rightarrow> Some (put_spec i SP_Done (send_to_host (Own (reload_bridged s)) s))
      | _ \<Rightarrow> None)"

definition proxy_exec :: "proxy_setup \<Rightarrow> proxy_event \<Rightarrow> proxy \<Rightarrow> proxy option" where
  "proxy_exec P ev s =
     (if px_exit s \<noteq> None then None
      else case ev of
        Host_Message m \<Rightarrow> if px_main s = MP_Reading then Some (handle_host_message m s) else None
      | Host_Closed \<Rightarrow> if px_main s = MP_Reading then Some (s\<lparr>px_exit := Some (Exit_Code 0)\<rparr>) else None
      | Host_Failed \<Rightarrow> if px_main s = MP_Reading then Some (s\<lparr>px_exit := Some (Exit_Code 1)\<rparr>) else None
      | Main_Child_Ready \<Rightarrow>
          (case px_main s of
             MP_Waiting m \<Rightarrow> if px_init_done s then Some (forward_message m s) else None
           | MP_Reading \<Rightarrow> None)
      | Main_No_Child \<Rightarrow>
          (case px_main s of
             MP_Waiting m \<Rightarrow> if px_no_child s then Some (placeholder_message m s) else None
           | MP_Reading \<Rightarrow> None)
      | Spec_Stat i stat \<Rightarrow>
          if i < length (px_specs s) then
            (case px_specs s ! i of SP_Start req \<Rightarrow> Some (spec_start (ps_join P) i req stat s) | _ \<Rightarrow> None)
          else None
      | Spec_Launch i success \<Rightarrow>
          if i < length (px_specs s) then
            (case px_specs s ! i of
               SP_Launch path dir \<Rightarrow> Some (launch_child (ps_config P) (ps_port P) (ps_cwd P) i path dir success s)
             | _ \<Rightarrow> None)
          else None
      | Spec_Runs i \<Rightarrow> if i < length (px_specs s) then spec_runs i s else None
      | Child_Connects \<Rightarrow> if px_processes s \<noteq> [] then Some (child_connects s) else None
      | Child_Message m \<Rightarrow> if px_bridges s > 0 then Some (child_message m s) else None
      | Bridge_Ends \<Rightarrow> if px_bridges s > 0 then Some (s\<lparr>px_bridges := px_bridges s - 1\<rparr>) else None
      | Child_Exits w \<Rightarrow> if px_processes s \<noteq> [] then Some (s\<lparr>px_exit := Some (Exit_Code (child_exit_code w))\<rparr>) else None)"

subsection \<open>Lemmas\<close>

definition forwarded :: "to_child list \<Rightarrow> streaming_message list" where
  "forwarded ms = List.map_filter (\<lambda>m. case m of Forwarded x \<Rightarrow> Some x | Replayed y \<Rightarrow> None) ms"

definition is_reload :: "streaming_message \<Rightarrow> bool" where
  "is_reload m \<longleftrightarrow> (\<exists>req. sm_content m = Some (C_EnvReloadRequest req))"

text \<open>A reply of the proxy's own to a reload request.\<close>

definition reload_answer :: "to_host \<Rightarrow> bool" where
  "reload_answer h \<longleftrightarrow> (\<exists>m r. h = Own m \<and> sm_content m = Some (C_EnvReloadResponse r))"

definition unanswered :: "spec_pc \<Rightarrow> bool" where
  "unanswered pc \<longleftrightarrow> pc \<notin> {SP_Close, SP_Reset, SP_Done}"

definition count_list_if :: "('b \<Rightarrow> bool) \<Rightarrow> 'b list \<Rightarrow> nat" where
  "count_list_if P xs = length (filter P xs)"

lemma count_list_if_simps [simp]:
  "count_list_if P [] = 0" "count_list_if P (xs @ [x]) = count_list_if P xs + (if P x then 1 else 0)"
  by (simp_all add: count_list_if_def)

lemma count_list_if_update:
  "i < length xs \<Longrightarrow>
   count_list_if P (xs[i := y]) + (if P (xs ! i) then 1 else 0) = count_list_if P xs + (if P y then 1 else 0)"
proof (induction xs arbitrary: i)
  case (Cons x xs)
  then show ?case by (cases i) (auto simp: count_list_if_def)
qed simp

text \<open>
  Every reload request the proxy took has a goroutine, which answers it once; what the child got
  from the host is what was passed on, in the host's order.
\<close>

definition bridge_ok :: "proxy \<Rightarrow> bool" where
  "bridge_ok s \<longleftrightarrow>
     forwarded (px_to_child s) = map fst (filter snd (px_received s)) \<and>
     count_list_if reload_answer (px_to_host s) + count_list_if unanswered (px_specs s) = length (px_specs s) \<and>
     length (px_specs s) = count_list_if (\<lambda>(m, passed). is_reload m \<and> \<not> passed) (px_received s)"

lemma forwarded_simps [simp]:
  "forwarded [] = []" "forwarded (ms @ [Forwarded x]) = forwarded ms @ [x]" "forwarded (ms @ [Replayed y]) = forwarded ms"
  by (simp_all add: forwarded_def map_filter_def)

lemma reload_answer_simps [simp]:
  "\<not> reload_answer (Relayed m)" "reload_answer (Own (mk_msg rid (C_EnvReloadResponse r)))"
  "\<not> reload_answer (Own (mk_msg rid (C_WorkerInitResponse w)))" "\<not> reload_answer (Own (mk_msg rid C_WorkerHeartbeat))"
  "\<not> reload_answer (Own (mk_msg rid (C_FunctionMetadataResponse fs st)))"
  "\<not> reload_answer (Own (mk_msg rid C_WorkerStatusResponse))"
  "reload_answer (Own (reload_reply rid st))" "reload_answer (Own (reload_bridged s))"
  by (simp_all add: reload_answer_def reload_reply_def reload_bridged_def)

lemma unanswered_simps [simp]:
  "unanswered (SP_Start req)" "unanswered (SP_Respond st)" "\<not> unanswered SP_Close" "\<not> unanswered SP_Reset"
  "unanswered (SP_Launch path dir)" "unanswered SP_Connecting" "unanswered SP_Replay" "unanswered SP_Initializing"
  "unanswered SP_Reload" "\<not> unanswered SP_Done"
  by (simp_all add: unanswered_def)

lemma bridge_ok_placeholder:
  assumes "bridge_ok s"
  shows "bridge_ok (placeholder_message m s)"
proof (cases "sm_content m")
  case (Some c)
  with assms show ?thesis
    by (cases c) (auto simp: placeholder_message_def bridge_ok_def received_def send_to_host_def is_reload_def Let_def)
qed (use assms in \<open>auto simp: placeholder_message_def bridge_ok_def received_def is_reload_def Let_def\<close>)

lemma bridge_ok_forward: "bridge_ok s \<Longrightarrow> bridge_ok (forward_message m s)"
  by (simp add: forward_message_def bridge_ok_def received_def send_to_child_def)

lemma bridge_ok_host: "bridge_ok s \<Longrightarrow> bridge_ok (handle_host_message m s)"
  by (simp add: handle_host_message_def bridge_ok_forward bridge_ok_placeholder) (simp add: bridge_ok_def)

text \<open>A goroutine's step that neither answers nor sends; one that answers.\<close>

lemma bridge_ok_put:
  assumes "bridge_ok s" and "i < length (px_specs s)" and "unanswered (px_specs s ! i) = unanswered pc"
  shows "bridge_ok (put_spec i pc s)"
  using assms count_list_if_update [OF assms(2), of unanswered pc] by (simp add: bridge_ok_def put_spec_def)

lemma bridge_ok_answer:
  assumes "bridge_ok s" and "i < length (px_specs s)" and "unanswered (px_specs s ! i)" "\<not> unanswered pc"
    and "reload_answer m"
  shows "bridge_ok (put_spec i pc (send_to_host m s))"
  using assms count_list_if_update [OF assms(2), of unanswered pc]
  by (simp add: bridge_ok_def put_spec_def send_to_host_def)

lemma bridge_ok_frame [simp]:
  "bridge_ok (s\<lparr>px_exit := e\<rparr>) = bridge_ok s" "bridge_ok (s\<lparr>px_no_child := b\<rparr>) = bridge_ok s"
  "bridge_ok (s\<lparr>px_init_done := b\<rparr>) = bridge_ok s" "bridge_ok (s\<lparr>px_specializing := b\<rparr>) = bridge_ok s"
  "bridge_ok (s\<lparr>px_child := b\<rparr>) = bridge_ok s" "bridge_ok (s\<lparr>px_env := env\<rparr>) = bridge_ok s"
  "bridge_ok (s\<lparr>px_processes := ps\<rparr>) = bridge_ok s" "bridge_ok (s\<lparr>px_bridges := n\<rparr>) = bridge_ok s"
  "bridge_ok (s\<lparr>px_capabilities := c\<rparr>) = bridge_ok s" "bridge_ok (s\<lparr>px_metadata := md\<rparr>) = bridge_ok s"
  "bridge_ok (s\<lparr>px_main := pc\<rparr>) = bridge_ok s"
  by (simp_all add: bridge_ok_def)

lemma bridge_ok_replay [simp]: "bridge_ok (send_to_child (Replayed m) s) = bridge_ok s"
  by (simp add: bridge_ok_def send_to_child_def)

lemma specs_frame [simp]:
  "px_specs (s\<lparr>px_no_child := b\<rparr>) = px_specs s" "px_specs (send_to_child c s) = px_specs s"
  "px_specs (close_no_child s) = px_specs s" "px_no_child (send_to_host h s) = px_no_child s"
  "px_no_child (send_to_child c s) = px_no_child s"
  by (simp_all add: send_to_host_def send_to_child_def close_no_child_def)

lemma bridge_ok_close [simp]: "bridge_ok (close_no_child s) = bridge_ok s" "bridge_ok (close_init_done s) = bridge_ok s"
  by (simp_all add: close_no_child_def close_init_done_def)

lemma bridge_ok_child: "bridge_ok s \<Longrightarrow> bridge_ok (child_message m s)"
proof (cases "sm_content m")
  case (Some c)
  moreover assume "bridge_ok s"
  ultimately show ?thesis
    by (cases c) (simp_all add: child_message_def, simp_all add: bridge_ok_def send_to_host_def)
qed (simp add: child_message_def bridge_ok_def send_to_host_def)

lemma bridge_ok_spec:
  assumes "bridge_ok s" and "i < length (px_specs s)" and "spec_runs i s = Some t"
  shows "bridge_ok t"
proof (cases "px_specs s ! i")
  case (SP_Respond st)
  with assms show ?thesis by (auto simp: spec_runs_def intro: bridge_ok_answer)
next
  case SP_Reload
  with assms show ?thesis by (auto simp: spec_runs_def intro: bridge_ok_answer)
qed (use assms in \<open>auto simp: spec_runs_def intro!: bridge_ok_put split: if_splits\<close>)

text \<open>A step taken apart: what each event does when the proxy is alive.\<close>

lemma proxy_exec_cases:
  assumes "proxy_exec P e s = Some t"
  obtains (host) m where "e = Host_Message m" "px_main s = MP_Reading" "t = handle_host_message m s"
    | (ready) m where "e = Main_Child_Ready" "px_main s = MP_Waiting m" "px_init_done s" "t = forward_message m s"
    | (no_child) m where "e = Main_No_Child" "px_main s = MP_Waiting m" "px_no_child s" "t = placeholder_message m s"
    | (stat) i stat req where "e = Spec_Stat i stat" "i < length (px_specs s)" "px_specs s ! i = SP_Start req"
        "t = spec_start (ps_join P) i req stat s"
    | (launch) i success path dir where "e = Spec_Launch i success" "i < length (px_specs s)" "px_specs s ! i = SP_Launch path dir"
        "t = launch_child (ps_config P) (ps_port P) (ps_cwd P) i path dir success s"
    | (runs) i where "e = Spec_Runs i" "i < length (px_specs s)" "spec_runs i s = Some t"
    | (child) m where "e = Child_Message m" "t = child_message m s"
    | (connects) "e = Child_Connects" "t = s\<lparr>px_child := True\<rparr>"
    | (bridge) "e = Bridge_Ends" "t = s\<lparr>px_bridges := px_bridges s - 1\<rparr>"
    | (exits) code where "t = s\<lparr>px_exit := Some (Exit_Code code)\<rparr>" "e = Host_Closed \<or> e = Host_Failed \<or> (\<exists>c. e = Child_Exits c)"
proof -
  from assms have live: "px_exit s = None" by (auto simp: proxy_exec_def split: if_splits)
  show ?thesis
  proof (cases e)
    case (Host_Message m)
    with assms live show ?thesis by (intro host [of m]) (auto simp: proxy_exec_def split: if_splits)
  next
    case Main_Child_Ready
    with assms live show ?thesis by (cases "px_main s") (auto simp: proxy_exec_def intro: ready split: if_splits)
  next
    case Main_No_Child
    with assms live show ?thesis by (cases "px_main s") (auto simp: proxy_exec_def intro: no_child split: if_splits)
  next
    case (Spec_Stat i stat)
    with assms live show ?thesis
      by (cases "px_specs s ! i") (auto simp: proxy_exec_def intro: stat split: if_splits)
  next
    case (Spec_Launch i success)
    with assms live show ?thesis
      by (cases "px_specs s ! i") (auto simp: proxy_exec_def intro: launch split: if_splits)
  next
    case (Spec_Runs i)
    with assms live show ?thesis by (intro runs [of i]) (auto simp: proxy_exec_def split: if_splits)
  next
    case (Child_Message m)
    with assms live show ?thesis by (intro child [of m]) (auto simp: proxy_exec_def split: if_splits)
  next
    case Child_Connects
    with assms live show ?thesis by (intro connects) (auto simp: proxy_exec_def split: if_splits)
  next
    case Bridge_Ends
    with assms live show ?thesis by (intro bridge) (auto simp: proxy_exec_def split: if_splits)
  next
    case Host_Closed
    with assms live show ?thesis by (intro exits [of 0]) (auto simp: proxy_exec_def split: if_splits)
  next
    case Host_Failed
    with assms live show ?thesis by (intro exits [of 1]) (auto simp: proxy_exec_def split: if_splits)
  next
    case (Child_Exits w)
    with assms live show ?thesis by (intro exits [of "child_exit_code w"]) (auto simp: proxy_exec_def split: if_splits)
  qed
qed

interpretation px: invariant_runs "proxy_exec P" "new_proxy env" bridge_ok for P env
proof
  show "bridge_ok (new_proxy env)" by (simp add: bridge_ok_def new_proxy_def)
next
  fix s t e assume ok: "bridge_ok s" and "proxy_exec P e s = Some t"
  from this(2) show "bridge_ok t"
  proof (cases rule: proxy_exec_cases)
    case (stat i stat req)
    with ok show ?thesis by (cases stat) (auto simp: spec_start_def Let_def intro!: bridge_ok_put)
  next
    case (launch i success path dir)
    with ok show ?thesis by (auto simp: launch_child_def intro!: bridge_ok_put)
  qed (use ok in \<open>auto intro: bridge_ok_host bridge_ok_forward bridge_ok_placeholder bridge_ok_child bridge_ok_spec\<close>)
qed

definition init_responses :: "proxy_event \<Rightarrow> worker_init_response set" where
  "init_responses e = {r. \<exists>m. e = Child_Message m \<and> sm_content m = Some (C_WorkerInitResponse r)}"

text \<open>The capabilities in hand, and in every bridged reply, are those of an init response of the child.\<close>

definition bridged_from :: "worker_init_response set \<Rightarrow> proxy \<Rightarrow> bool" where
  "bridged_from R s \<longleftrightarrow>
     (px_init_done s \<longrightarrow> (\<exists>r \<in> R. px_capabilities s = wis_capabilities r \<and> px_metadata s = wis_metadata r)) \<and>
     (SP_Reload \<in> set (px_specs s) \<longrightarrow> px_init_done s) \<and>
     (\<forall>m er. Own m \<in> set (px_to_host s) \<longrightarrow> sm_content m = Some (C_EnvReloadResponse er) \<longrightarrow> ers_strategy er = Caps_replace \<longrightarrow>
        (\<exists>r \<in> R. ers_capabilities er = wis_capabilities r \<and> ers_metadata er = wis_metadata r))"

lemma bridged_from_mono: "bridged_from R s \<Longrightarrow> R \<subseteq> R' \<Longrightarrow> bridged_from R' s"
  unfolding bridged_from_def by (meson subset_iff)

lemma bridged_from_frame [simp]:
  "bridged_from R (s\<lparr>px_exit := e\<rparr>) = bridged_from R s" "bridged_from R (s\<lparr>px_no_child := b\<rparr>) = bridged_from R s"
  "bridged_from R (s\<lparr>px_specializing := b\<rparr>) = bridged_from R s" "bridged_from R (s\<lparr>px_child := b\<rparr>) = bridged_from R s"
  "bridged_from R (s\<lparr>px_env := env\<rparr>) = bridged_from R s" "bridged_from R (s\<lparr>px_processes := ps\<rparr>) = bridged_from R s"
  "bridged_from R (s\<lparr>px_bridges := n\<rparr>) = bridged_from R s" "bridged_from R (s\<lparr>px_main := pc\<rparr>) = bridged_from R s"
  "bridged_from R (send_to_child c s) = bridged_from R s" "bridged_from R (received m b s) = bridged_from R s"
  "bridged_from R (close_no_child s) = bridged_from R s" "bridged_from R (s\<lparr>px_saved_init := x\<rparr>) = bridged_from R s"
  by (simp_all add: bridged_from_def send_to_child_def received_def close_no_child_def)

lemma bridged_from_put:
  "bridged_from R s \<Longrightarrow> pc \<noteq> SP_Reload \<or> px_init_done s \<Longrightarrow> bridged_from R (put_spec i pc s)"
  using set_update_subset_insert [of "px_specs s" i pc] by (auto simp: bridged_from_def put_spec_def)

lemma bridged_from_send:
  "bridged_from R s \<Longrightarrow> (\<And>m r. h = Own m \<Longrightarrow> sm_content m = Some (C_EnvReloadResponse r) \<Longrightarrow> ers_strategy r = Caps_merge) \<Longrightarrow>
   bridged_from R (send_to_host h s)"
  by (fastforce simp: bridged_from_def send_to_host_def)

lemma bridged_from_placeholder: "bridged_from R s \<Longrightarrow> bridged_from R (placeholder_message m s)"
proof (cases "sm_content m")
  case (Some c)
  assume ok: "bridged_from R s"
  show ?thesis
  proof (cases c)
    case (C_EnvReloadRequest req)
    with ok Some show ?thesis
      by (simp add: placeholder_message_def Let_def) (auto simp: bridged_from_def received_def)
  qed (use ok Some in \<open>auto simp: placeholder_message_def Let_def intro!: bridged_from_send\<close>)
qed (simp add: placeholder_message_def Let_def)

lemma bridged_from_child:
  assumes "bridged_from R s"
  shows "bridged_from (R \<union> init_responses (Child_Message m)) (child_message m s)"
proof (cases "\<exists>r. sm_content m = Some (C_WorkerInitResponse r)")
  case True
  then obtain r where "sm_content m = Some (C_WorkerInitResponse r)" by blast
  moreover from this have "r \<in> init_responses (Child_Message m)" by (simp add: init_responses_def)
  ultimately show ?thesis
    using assms unfolding bridged_from_def
    by (auto simp: child_message_def close_init_done_def)
next
  case False
  then have "child_message m s = s \<or> child_message m s = send_to_host (Relayed m) s"
    by (cases "sm_content m") (auto simp: child_message_def split: content.split)
  moreover have "bridged_from R (send_to_host (Relayed m) s)" using assms by (intro bridged_from_send) auto
  ultimately show ?thesis using assms bridged_from_mono [of R _ "R \<union> init_responses (Child_Message m)"] by auto
qed

lemma bridged_from_reload:
  assumes "bridged_from R s" and "px_init_done s"
  shows "bridged_from R (send_to_host (Own (reload_bridged s)) s)"
  using assms by (auto simp: bridged_from_def send_to_host_def reload_bridged_def)

lemma bridged_from_spec:
  assumes "bridged_from R s" and "i < length (px_specs s)" and "spec_runs i s = Some t"
  shows "bridged_from R t"
proof (cases "px_specs s ! i")
  case SP_Reload
  with assms have "px_init_done s" by (auto simp: bridged_from_def in_set_conv_nth)
  with SP_Reload assms show ?thesis by (auto simp: spec_runs_def intro!: bridged_from_put bridged_from_reload)
next
  case (SP_Respond st)
  with assms show ?thesis by (auto simp: spec_runs_def reload_reply_def intro!: bridged_from_put bridged_from_send)
qed (use assms in \<open>auto simp: spec_runs_def intro!: bridged_from_put split: if_splits\<close>)

lemma bridged_from_step:
  assumes ok: "bridged_from R s" and "proxy_exec P e s = Some t"
  shows "bridged_from (R \<union> init_responses e) t"
proof -
  note more = bridged_from_mono [of R t "R \<union> init_responses e"]
  from assms(2) show ?thesis
  proof (cases rule: proxy_exec_cases)
    case (host m)
    with ok show ?thesis
      by (intro more) (auto simp: handle_host_message_def forward_message_def intro!: bridged_from_placeholder)
  next
    case (ready m)
    with ok show ?thesis by (intro more) (auto simp: forward_message_def)
  next
    case (no_child m)
    with ok show ?thesis by (intro more) (auto intro!: bridged_from_placeholder)
  next
    case (stat i stat req)
    with ok show ?thesis by (intro more) (auto simp: spec_start_def Let_def intro!: bridged_from_put split: file_stat.split)
  next
    case (launch i success path dir)
    with ok show ?thesis by (intro more) (auto simp: launch_child_def intro!: bridged_from_put)
  next
    case (runs i)
    with ok show ?thesis by (intro more) (auto intro: bridged_from_spec)
  next
    case (child m)
    with bridged_from_child [OF ok] show ?thesis by simp
  next
    case connects
    with ok show ?thesis by (intro more) auto
  next
    case bridge
    with ok show ?thesis by (intro more) auto
  next
    case (exits code)
    with ok show ?thesis by (intro more) auto
  qed
qed

lemma bridged_from_run:
  "exec_all (proxy_exec P) es (new_proxy env) = Some s \<Longrightarrow> bridged_from (\<Union>e \<in> set es. init_responses e) s"
proof (induction es arbitrary: s rule: rev_induct)
  case Nil
  then show ?case by (auto simp: bridged_from_def new_proxy_def)
next
  case (snoc e es)
  then obtain u where "exec_all (proxy_exec P) es (new_proxy env) = Some u" "proxy_exec P e u = Some s"
    by (auto simp: exec_all_append split: option.splits)
  with snoc.IH bridged_from_step show ?case by (fastforce simp: Un_commute)
qed

text \<open>How many reload requests and init responses a run has.\<close>

definition reloads :: "proxy_event list \<Rightarrow> nat" where
  "reloads es = count_list_if (\<lambda>e. \<exists>m. e = Host_Message m \<and> is_reload m) es"

definition init_answers :: "proxy_event list \<Rightarrow> nat" where
  "init_answers es = count_list_if (\<lambda>e. init_responses e \<noteq> {}) es"

definition is_panic :: "proxy_exit option \<Rightarrow> bool" where
  "is_panic x \<longleftrightarrow> (\<exists>p. x = Some (Exit_Panic p))"

text \<open>
  With one reload request and one init response no channel is closed twice: \<open>r\<close> and \<open>n\<close> count them.
\<close>

definition waiting_reload :: "proxy \<Rightarrow> nat" where
  "waiting_reload s = (case px_main s of MP_Waiting m \<Rightarrow> if is_reload m then 1 else 0 | MP_Reading \<Rightarrow> 0)"

definition closing_ok :: "nat \<Rightarrow> nat \<Rightarrow> proxy \<Rightarrow> bool" where
  "closing_ok r n s \<longleftrightarrow>
     length (px_specs s) + waiting_reload s \<le> r \<and>
     (px_init_done s \<longrightarrow> 1 \<le> n) \<and> (px_no_child s \<longrightarrow> px_specs s \<noteq> []) \<and>
     (r \<le> 1 \<longrightarrow> px_no_child s \<longrightarrow> (\<forall>pc \<in> set (px_specs s). pc = SP_Reset \<or> pc = SP_Done)) \<and>
     (r \<le> 1 \<longrightarrow> n \<le> 1 \<longrightarrow> \<not> is_panic (px_exit s))"

lemma placeholder_specs:
  "px_specs (placeholder_message m s) = px_specs s \<or>
   (is_reload m \<and> (\<exists>req. px_specs (placeholder_message m s) = px_specs s @ [SP_Start req]))"
proof (cases "sm_content m")
  case (Some c)
  then show ?thesis
    by (cases c) (auto simp: placeholder_message_def received_def send_to_host_def is_reload_def Let_def)
qed (simp add: placeholder_message_def received_def Let_def)

lemma placeholder_frame:
  "px_main (placeholder_message m s) = MP_Reading \<and> px_init_done (placeholder_message m s) = px_init_done s \<and>
   px_no_child (placeholder_message m s) = px_no_child s \<and>
   (is_panic (px_exit (placeholder_message m s)) \<longrightarrow> is_panic (px_exit s))"
proof (cases "sm_content m")
  case (Some c)
  then show ?thesis
    by (cases c) (auto simp: placeholder_message_def received_def send_to_host_def is_panic_def Let_def)
qed (simp add: placeholder_message_def received_def Let_def)

text \<open>A reload request that is switched in placeholder mode was not counted as waiting or is no longer.\<close>

lemma closing_ok_placeholder:
  assumes ok: "closing_ok r n s" and room: "is_reload m \<longrightarrow> length (px_specs s) < r"
  shows "closing_ok r n (placeholder_message m s)"
proof -
  from placeholder_frame [of m s] have f: "px_main (placeholder_message m s) = MP_Reading"
    "px_init_done (placeholder_message m s) = px_init_done s" "px_no_child (placeholder_message m s) = px_no_child s"
    "is_panic (px_exit (placeholder_message m s)) \<longrightarrow> is_panic (px_exit s)" by simp_all
  from placeholder_specs [of m s] show ?thesis
  proof
    assume "px_specs (placeholder_message m s) = px_specs s"
    with ok f show ?thesis by (auto simp: closing_ok_def waiting_reload_def)
  next
    assume "is_reload m \<and> (\<exists>req. px_specs (placeholder_message m s) = px_specs s @ [SP_Start req])"
    then obtain req where "is_reload m" "px_specs (placeholder_message m s) = px_specs s @ [SP_Start req]" by blast
    moreover from this ok room have "px_no_child s \<Longrightarrow> r > 1"
      by (cases "px_specs s") (auto simp: closing_ok_def)
    ultimately show ?thesis using ok f room by (auto simp: closing_ok_def waiting_reload_def)
  qed
qed

lemma closing_ok_frame [simp]:
  "closing_ok r n (s\<lparr>px_specializing := b\<rparr>) = closing_ok r n s" "closing_ok r n (s\<lparr>px_child := b\<rparr>) = closing_ok r n s"
  "closing_ok r n (s\<lparr>px_env := env\<rparr>) = closing_ok r n s" "closing_ok r n (s\<lparr>px_processes := ps\<rparr>) = closing_ok r n s"
  "closing_ok r n (s\<lparr>px_bridges := k\<rparr>) = closing_ok r n s" "closing_ok r n (send_to_child c s) = closing_ok r n s"
  "closing_ok r n (send_to_host h s) = closing_ok r n s" "closing_ok r n (s\<lparr>px_capabilities := cs\<rparr>) = closing_ok r n s"
  "closing_ok r n (s\<lparr>px_metadata := md\<rparr>) = closing_ok r n s"
  by (simp_all add: closing_ok_def waiting_reload_def send_to_child_def send_to_host_def)

lemma closing_ok_put:
  assumes "closing_ok r n s" and "r \<le> 1 \<longrightarrow> px_no_child s \<longrightarrow> pc = SP_Reset \<or> pc = SP_Done"
  shows "closing_ok r n (put_spec i pc s)"
  using assms set_update_subset_insert [of "px_specs s" i pc]
  by (auto simp: closing_ok_def put_spec_def waiting_reload_def list_update_nonempty)

text \<open>While some goroutine is before its close, the channel is open.\<close>

lemma closing_ok_early:
  assumes "closing_ok r n s" "r \<le> 1" "i < length (px_specs s)" "px_specs s ! i \<noteq> SP_Reset" "px_specs s ! i \<noteq> SP_Done"
  shows "\<not> px_no_child s"
  using assms by (auto simp: closing_ok_def dest: nth_mem)

lemma closing_ok_mono: "closing_ok r n s \<Longrightarrow> r \<le> r' \<Longrightarrow> n \<le> n' \<Longrightarrow> closing_ok r' n' s"
  by (auto simp: closing_ok_def)

lemma closing_ok_received: "closing_ok r n s \<Longrightarrow> closing_ok r n (received m b s)"
  by (auto simp: closing_ok_def received_def waiting_reload_def)

lemma closing_ok_host:
  assumes ok: "closing_ok r n s" and reading: "px_main s = MP_Reading"
  shows "closing_ok (r + (if is_reload m then 1 else 0)) n (handle_host_message m s)"
proof -
  let ?r = "r + (if is_reload m then 1 else 0)"
  from ok have more: "closing_ok ?r n s" by (rule closing_ok_mono) simp_all
  have length: "length (px_specs s) \<le> r" using ok by (simp add: closing_ok_def)
  show ?thesis
  proof (cases "px_child s")
    case True
    with more show ?thesis by (simp add: handle_host_message_def forward_message_def closing_ok_received)
  next
    case False
    show ?thesis
    proof (cases "px_specializing s")
      case True
      with False more reading length show ?thesis
        by (auto simp: handle_host_message_def closing_ok_def waiting_reload_def)
    next
      case placeholder: False
      have "is_reload m \<longrightarrow> length (px_specs s) < ?r" using length by simp
      from closing_ok_placeholder [OF more this] False placeholder show ?thesis
        by (simp add: handle_host_message_def)
    qed
  qed
qed

lemma closing_ok_spec:
  assumes ok: "closing_ok r n s" and i: "i < length (px_specs s)" and run: "spec_runs i s = Some t"
  shows "closing_ok r n t"
proof (cases "px_specs s ! i")
  case SP_Close
  with run have t: "t = put_spec i SP_Reset (close_no_child s)" by (simp add: spec_runs_def)
  show ?thesis
  proof (cases "r \<le> 1")
    case True
    from closing_ok_early [OF ok True i] SP_Close have open_channel: "\<not> px_no_child s" by simp
    have one: "length (px_specs s) = 1" using ok i True by (auto simp: closing_ok_def)
    with i have "(px_specs s)[i := SP_Reset] = [SP_Reset]" by (cases "px_specs s") auto
    with ok open_channel one show ?thesis
      by (auto simp: t close_no_child_def put_spec_def closing_ok_def waiting_reload_def)
  next
    case False
    with ok i show ?thesis
      by (auto simp: t close_no_child_def put_spec_def closing_ok_def waiting_reload_def list_update_nonempty)
  qed
next
  case (SP_Respond st)
  with run closing_ok_early [OF ok _ i] ok show ?thesis by (auto simp: spec_runs_def intro!: closing_ok_put)
next
  case SP_Connecting
  with run closing_ok_early [OF ok _ i] ok show ?thesis by (auto simp: spec_runs_def intro!: closing_ok_put split: if_splits)
next
  case SP_Replay
  with run closing_ok_early [OF ok _ i] ok show ?thesis by (auto simp: spec_runs_def intro!: closing_ok_put)
next
  case SP_Initializing
  with run closing_ok_early [OF ok _ i] ok show ?thesis by (auto simp: spec_runs_def intro!: closing_ok_put split: if_splits)
qed (use run ok in \<open>auto simp: spec_runs_def intro!: closing_ok_put\<close>)

lemma closing_ok_exit: "closing_ok r n s \<Longrightarrow> closing_ok r n (s\<lparr>px_exit := Some (Exit_Code c)\<rparr>)"
  by (auto simp: closing_ok_def waiting_reload_def is_panic_def)

lemma closing_ok_close_init: "closing_ok r n s \<Longrightarrow> closing_ok r (n + 1) (close_init_done s)"
  by (cases "px_init_done s") (auto simp: close_init_done_def closing_ok_def waiting_reload_def)

lemma closing_ok_child:
  assumes "closing_ok r n s"
  shows "closing_ok r (n + (if init_responses (Child_Message m) \<noteq> {} then 1 else 0)) (child_message m s)"
proof (cases "\<exists>w. sm_content m = Some (C_WorkerInitResponse w)")
  case True
  then obtain w where w: "sm_content m = Some (C_WorkerInitResponse w)" by blast
  then have "init_responses (Child_Message m) = {w}" by (auto simp: init_responses_def)
  with closing_ok_close_init [of r n "s\<lparr>px_capabilities := wis_capabilities w, px_metadata := wis_metadata w\<rparr>"] assms w
  show ?thesis by (simp add: child_message_def)
next
  case False
  then have "child_message m s = s \<or> child_message m s = send_to_host (Relayed m) s"
    by (cases "sm_content m") (auto simp: child_message_def split: content.split)
  moreover from False have "init_responses (Child_Message m) = {}" by (auto simp: init_responses_def)
  ultimately show ?thesis using assms by auto
qed

lemma closing_ok_step:
  assumes ok: "closing_ok r n s" and "proxy_exec P e s = Some t"
  shows "closing_ok (r + reloads [e]) (n + init_answers [e]) t"
proof -
  note more = closing_ok_mono [of r n t "r + reloads [e]" "n + init_answers [e]", OF _ le_add1 le_add1]
  from assms(2) show ?thesis
  proof (cases rule: proxy_exec_cases)
    case (host m)
    then have "reloads [e] = (if is_reload m then 1 else 0)" by (auto simp: reloads_def count_list_if_def)
    with closing_ok_host [OF ok host(2), of m] host(3) show ?thesis
      by (auto intro: closing_ok_mono)
  next
    case (ready m)
    with ok show ?thesis by (intro more) (simp add: forward_message_def closing_ok_received)
  next
    case (no_child m)
    from no_child(2) ok have "is_reload m \<longrightarrow> length (px_specs s) < r" by (auto simp: closing_ok_def waiting_reload_def)
    with no_child ok show ?thesis by (intro more) (simp add: closing_ok_placeholder)
  next
    case (stat i stat req)
    with closing_ok_early [OF ok _ stat(2)] ok show ?thesis
      by (intro more) (auto simp: spec_start_def Let_def intro!: closing_ok_put split: file_stat.split)
  next
    case (launch i success path dir)
    with closing_ok_early [OF ok _ launch(2)] ok show ?thesis
      by (intro more) (auto simp: launch_child_def intro!: closing_ok_put closing_ok_exit)
  next
    case (runs i)
    with ok show ?thesis by (intro more) (auto intro: closing_ok_spec)
  next
    case (child m)
    have "init_answers [e] = (if init_responses (Child_Message m) \<noteq> {} then 1 else 0)"
      by (simp add: child init_answers_def count_list_if_def)
    with closing_ok_child [OF ok, of m] child show ?thesis by (auto intro: closing_ok_mono)
  next
    case connects
    with ok show ?thesis by (intro more) simp
  next
    case bridge
    with ok show ?thesis by (intro more) simp
  next
    case (exits code)
    with ok show ?thesis by (intro more) (simp add: closing_ok_exit)
  qed
qed

lemma closing_ok_run:
  "exec_all (proxy_exec P) es (new_proxy env) = Some s \<Longrightarrow> closing_ok (reloads es) (init_answers es) s"
proof (induction es arbitrary: s rule: rev_induct)
  case Nil
  then show ?case by (auto simp: closing_ok_def new_proxy_def reloads_def init_answers_def waiting_reload_def is_panic_def)
next
  case (snoc e es)
  then obtain u where "exec_all (proxy_exec P) es (new_proxy env) = Some u" "proxy_exec P e u = Some s"
    by (auto simp: exec_all_append split: option.splits)
  with snoc.IH [of u] closing_ok_step [of "reloads es" "init_answers es" u P e s] show ?case
    by (simp add: reloads_def init_answers_def count_list_if_def)
qed

subsection \<open>Properties\<close>


definition sample_setup :: proxy_setup where
  "sample_setup = \<lparr>ps_join = (\<lambda>d f. d @ ''/'' @ f),
     ps_config = \<lparr>sc_uri = ''localhost:1'', sc_worker_id = ''w1'', sc_request_id = ''r1'', sc_max_message = 100\<rparr>,
     ps_port = ''4000'', ps_cwd = ''/''\<rparr>"

definition reload_message :: streaming_message where
  "reload_message = mk_msg ''m2'' (C_EnvReloadRequest \<lparr>err_env = [], err_app_dir = ''/app''\<rparr>)"

definition init_message :: streaming_message where
  "init_message = mk_msg ''m1'' (C_WorkerInitRequest \<lparr>wir_capabilities = [], wir_log_categories = None\<rparr>)"

definition child_init :: streaming_message where
  "child_init = mk_msg ''c1'' (C_WorkerInitResponse \<lparr>wis_result = Some status_success, wis_worker_version = ''1'',
     wis_capabilities = [(''HttpUri'', ''x'')], wis_metadata = None, wis_host_config = None\<rparr>)"

text \<open>The host initializes the placeholder, assigns an application, and the child takes over.\<close>

definition bridging_run :: "proxy_event list" where
  "bridging_run = [Host_Message init_message, Host_Message reload_message, Spec_Stat 0 FS_Executable, Spec_Launch 0 True,
     Host_Message (mk_msg ''m3'' C_FunctionsMetadataRequest), Child_Connects, Spec_Runs 0, Spec_Runs 0,
     Child_Message child_init, Spec_Runs 0, Main_Child_Ready, Spec_Runs 0]"

lemma bridging_run_exec:
  "\<exists>s. exec_all (proxy_exec sample_setup) bridging_run (new_proxy []) = Some s \<and>
     px_to_child s = [Replayed (Some init_message), Forwarded (mk_msg ''m3'' C_FunctionsMetadataRequest)] \<and>
     px_received s = [(init_message, False), (reload_message, False), (mk_msg ''m3'' C_FunctionsMetadataRequest, True)] \<and>
     px_specs s = [SP_Done] \<and> px_exit s = None \<and>
     Own (mk_msg ''m2'' (C_EnvReloadResponse \<lparr>ers_result = Some status_success, ers_capabilities = [(''HttpUri'', ''x'')],
       ers_strategy = Caps_replace, ers_metadata = None\<rparr>)) \<in> set (px_to_host s)"
  by (simp add: bridging_run_def proxy_exec_def new_proxy_def handle_host_message_def placeholder_message_def received_def
      send_to_host_def send_to_child_def spec_start_def put_spec_def launch_child_def spec_runs_def child_message_def
      close_init_done_def forward_message_def reload_bridged_def init_message_def reload_message_def child_init_def Let_def)


text \<open>
  The capabilities and metadata that replace the placeholder's are those a child sent in an init
  response: no reply with the replacing strategy leaves before one came.
\<close>

theorem bridged_capabilities:
  assumes "exec_all (proxy_exec P) es (new_proxy env) = Some s"
    and "Own m \<in> set (px_to_host s)" and "sm_content m = Some (C_EnvReloadResponse er)" and "ers_strategy er = Caps_replace"
  shows "\<exists>cm r. Child_Message cm \<in> set es \<and> sm_content cm = Some (C_WorkerInitResponse r) \<and>
    ers_capabilities er = wis_capabilities r \<and> ers_metadata er = wis_metadata r"
  using bridged_from_run [OF assms(1)] assms(2-4) unfolding bridged_from_def init_responses_def by blast

theorem bridged_capabilities_witness:
  "\<exists>cm r. Child_Message cm \<in> set bridging_run \<and> sm_content cm = Some (C_WorkerInitResponse r) \<and>
     wis_capabilities r = [(''HttpUri'', ''x'')]"
proof -
  obtain s where "exec_all (proxy_exec sample_setup) bridging_run (new_proxy []) = Some s"
    "Own (mk_msg ''m2'' (C_EnvReloadResponse \<lparr>ers_result = Some status_success, ers_capabilities = [(''HttpUri'', ''x'')],
       ers_strategy = Caps_replace, ers_metadata = None\<rparr>)) \<in> set (px_to_host s)"
    using bridging_run_exec by blast
  from bridged_capabilities [OF this] show ?thesis by fastforce
qed

text \<open>
  C21. With one reload request of the host and one init response of the child the proxy never panics,
  however its goroutines, the child and the host interleave.
\<close>

theorem single_reload_safe:
  assumes "exec_all (proxy_exec P) es (new_proxy env) = Some s" and "reloads es \<le> 1" and "init_answers es \<le> 1"
  shows "px_exit s \<noteq> Some (Exit_Panic p)"
  using closing_ok_run [OF assms(1)] assms(2,3) by (auto simp: closing_ok_def is_panic_def)

theorem single_reload_safe_witness:
  "\<exists>s. exec_all (proxy_exec sample_setup) bridging_run (new_proxy []) = Some s \<and>
     px_exit s \<noteq> Some (Exit_Panic ''close of closed channel'')"
proof -
  obtain s where s: "exec_all (proxy_exec sample_setup) bridging_run (new_proxy []) = Some s"
    using bridging_run_exec by blast
  have "reloads bridging_run \<le> 1" "init_answers bridging_run \<le> 1"
    by (simp_all add: reloads_def init_answers_def init_responses_def count_list_if_def bridging_run_def is_reload_def
        init_message_def reload_message_def child_init_def)
  from single_reload_safe [OF s this] s show ?thesis by blast
qed


text \<open>
  A host message can overtake the init request: once the child has connected, the main loop passes
  messages on at once, without waiting until the child was initialized.
\<close>

theorem message_overtakes_init:
  "\<exists>es s. exec_all (proxy_exec P) es (new_proxy env) = Some s \<and> \<not> px_init_done s \<and>
     px_to_child s = [Forwarded m, Replayed (Some init_message)]"
proof -
  let ?es = "[Host_Message init_message, Host_Message reload_message, Spec_Stat 0 FS_Executable, Spec_Launch 0 True,
     Child_Connects, Host_Message m, Spec_Runs 0, Spec_Runs 0]"
  have "\<exists>s. exec_all (proxy_exec P) ?es (new_proxy env) = Some s \<and> \<not> px_init_done s \<and>
      px_to_child s = [Forwarded m, Replayed (Some init_message)]"
    by (simp add: proxy_exec_def new_proxy_def handle_host_message_def placeholder_message_def received_def
        send_to_host_def send_to_child_def spec_start_def put_spec_def launch_child_def spec_runs_def
        forward_message_def init_message_def reload_message_def Let_def)
  then show ?thesis by blast
qed

end
