(* ===== verification/Durable_Runner.thy ===== *)
theory Durable_Runner
  imports Go_Utf8 "HOL-Library.Word"
begin

text \<open>
  Orchestrator replay (\<open>middleware/durabletask/runner.go\<close>): decoding the request the host sends, the
  check that history came with it, the turn, and the identifiers of sub-orchestrations.  Package
  \<open>protowire\<close> and the Durable Task engine are parameters; base64 is the standard library's.
\<close>

subsection \<open>Decoding base64\<close>

definition base64_value :: "char \<Rightarrow> nat option" where
  "base64_value c =
     (let n = byte c in
      if 65 \<le> n \<and> n \<le> 90 then Some (n - 65)
      else if 97 \<le> n \<and> n \<le> 122 then Some (n - 71)
      else if 48 \<le> n \<and> n \<le> 57 then Some (n + 4)
      else if n = 43 then Some 62 else if n = 47 then Some 63 else None)"

definition base64_quad :: "char \<Rightarrow> char \<Rightarrow> char \<Rightarrow> char \<Rightarrow> nat option" where
  "base64_quad a b c d =
     (case (base64_value a, base64_value b, base64_value c, base64_value d) of
        (Some w, Some x, Some y, Some z) \<Rightarrow> Some (w * 262144 + x * 4096 + y * 64 + z)
      | _ \<Rightarrow> None)"

text \<open>Padding only at the end; the bits a padded quantum leaves over are ignored.\<close>

fun base64_decode_chars :: "string \<Rightarrow> string option" where
  "base64_decode_chars [] = Some []"
| "base64_decode_chars (a # b # c # d # s) =
     (if d = CHR ''='' \<and> s = [] then
        (if c = CHR ''=''
         then map_option (\<lambda>n. [char_of (n div 65536)]) (base64_quad a b CHR ''A'' CHR ''A'')
         else map_option (\<lambda>n. [char_of (n div 65536), char_of (n div 256 mod 256)]) (base64_quad a b c CHR ''A''))
      else (case base64_quad a b c d of
              None \<Rightarrow> None
            | Some n \<Rightarrow>
                map_option (\<lambda>t. [char_of (n div 65536), char_of (n div 256 mod 256), char_of (n mod 256)] @ t)
                  (base64_decode_chars s)))"
| "base64_decode_chars _ = None"

text \<open>\<open>StdEncoding.DecodeString\<close>; newlines are skipped, the offset in the error is left out.\<close>

definition base64_decode :: "string \<Rightarrow> string result" where
  "base64_decode s =
     (case base64_decode_chars (filter (\<lambda>c. c \<noteq> CHR 0x0A \<and> c \<noteq> CHR 0x0D) s) of
        None \<Rightarrow> Inl ''illegal base64 data''
      | Some t \<Rightarrow> Inr t)"

subsection \<open>The wire format\<close>

text \<open>
  \<open>protowire\<close>'s functions: a tag with its field number, wire type and length; a length-delimited value
  and its length; the length of a value to skip.
\<close>

record wire =
  wi_tag :: "string \<Rightarrow> (nat \<times> nat \<times> nat) result"
  wi_bytes :: "string \<Rightarrow> (string \<times> nat) result"
  wi_skip :: "nat \<Rightarrow> nat \<Rightarrow> string \<Rightarrow> nat result"

definition field_instance_id :: nat where "field_instance_id = 1"
definition field_past_events :: nat where "field_past_events = 3"
definition field_new_events :: nat where "field_new_events = 4"
definition bytes_type :: nat where "bytes_type = 2"

text \<open>
  The loop of \<open>decodeOrchestratorRequest\<close>.  A tag takes at least a byte, so the length of the input is
  enough fuel; \<open>None\<close> is no fuel left.
\<close>

fun request_loop ::
    "wire \<Rightarrow> nat \<Rightarrow> string \<Rightarrow> string \<Rightarrow> string list \<Rightarrow> string list \<Rightarrow> (string \<times> string list \<times> string list) result option" where
  "request_loop W fuel b iid past new =
     (if b = [] then Some (Inr (iid, past, new))
      else case fuel of
        0 \<Rightarrow> None
      | Suc fuel \<Rightarrow>
          (case wi_tag W b of
             Inl e \<Rightarrow> Some (Inl e)
           | Inr (num, wt, n) \<Rightarrow>
               (let b = drop n b in
                if wt = bytes_type \<and> num \<in> {field_instance_id, field_past_events, field_new_events} then
                  (case wi_bytes W b of
                     Inl e \<Rightarrow> Some (Inl e)
                   | Inr (v, m) \<Rightarrow>
                       if num = field_instance_id then request_loop W fuel (drop m b) v past new
                       else if num = field_past_events then request_loop W fuel (drop m b) iid (past @ [v]) new
                       else request_loop W fuel (drop m b) iid past (new @ [v]))
                else
                  (case wi_skip W num wt b of
                     Inl e \<Rightarrow> Some (Inl e)
                   | Inr m \<Rightarrow> request_loop W fuel (drop m b) iid past new))))"

declare request_loop.simps [simp del]

definition decode_orchestrator_request :: "wire \<Rightarrow> string \<Rightarrow> (string \<times> string list \<times> string list) result option" where
  "decode_orchestrator_request W b = request_loop W (length b) b '''' [] []"

subsection \<open>A turn\<close>

text \<open>An action of the response: its id, and the child's instance id if it starts a sub-orchestration.\<close>

record 'x action =
  ac_id :: "32 word"
  ac_create :: "string option"
  ac_rest :: 'x

text \<open>
  The engine: unmarshalling an event, whether it is an \<open>ExecutionStarted\<close>, the replay, and
  marshalling the response.  The results may have no response.
\<close>

record ('e, 'x) engine =
  en_unmarshal :: "string \<Rightarrow> 'e result"
  en_started :: "'e \<Rightarrow> bool"
  en_execute :: "string \<Rightarrow> 'e list \<Rightarrow> 'e list \<Rightarrow> 'x action list option result"
  en_marshal :: "'x action list option \<Rightarrow> string result"

definition wrap_error :: "string \<Rightarrow> 'a result \<Rightarrow> 'a result" where
  "wrap_error what r = (case r of Inl e \<Rightarrow> Inl (what @ e) | Inr x \<Rightarrow> Inr x)"

definition unmarshal_events :: "('e, 'x) engine \<Rightarrow> string list \<Rightarrow> 'e list result" where
  "unmarshal_events En raw = traverse (\<lambda>r. wrap_error ''unmarshal history event: '' (en_unmarshal En r)) raw"

definition check_history_present :: "('e, 'x) engine \<Rightarrow> string \<Rightarrow> 'e list \<Rightarrow> 'e list \<Rightarrow> unit result" where
  "check_history_present En iid past new =
     (if past \<noteq> [] \<or> list_ex (en_started En) new then Inr ()
      else Inl (''durabletask: orchestration '' @ go_quote iid @
        '' was dispatched without history and without an ExecutionStarted event; the host withheld the history, '' @
        ''which happens only with extended sessions. This worker does not cache orchestration sessions, and '' @
        ''replaying an empty history would re-run completed work. Set extendedSessionsEnabled to false in host.json''))"

definition execute_orchestrator ::
    "('e, 'x) engine \<Rightarrow> string \<Rightarrow> string list \<Rightarrow> string list \<Rightarrow> 'x action list option result" where
  "execute_orchestrator En iid past new =
     bind_result (unmarshal_events En past) (\<lambda>p.
     bind_result (unmarshal_events En new) (\<lambda>n.
     bind_result (check_history_present En iid p n) (\<lambda>u.
       en_execute En iid p n)))"

text \<open>\<open>%04x\<close> of an int32: hexadecimal, padded with zeros to four characters, a minus sign among them.\<close>

fun hex_digits :: "nat \<Rightarrow> string" where
  "hex_digits n = (if n < 16 then [hex_char n] else hex_digits (n div 16) @ [hex_char (n mod 16)])"

declare hex_digits.simps [simp del]

definition pad_zeros :: "nat \<Rightarrow> string \<Rightarrow> string" where
  "pad_zeros w s = replicate (w - length s) CHR ''0'' @ s"

definition format_04x :: "32 word \<Rightarrow> string" where
  "format_04x i =
     (let n = sint i in
      if n < 0 then CHR ''-'' # pad_zeros 3 (hex_digits (nat (- n))) else pad_zeros 4 (hex_digits (nat n)))"

definition assign_action_id :: "string \<Rightarrow> 'x action \<Rightarrow> 'x action" where
  "assign_action_id iid a =
     (if ac_create a = Some '''' then a\<lparr>ac_create := Some (iid @ '':'' @ format_04x (ac_id a))\<rparr> else a)"

definition assign_sub_orchestration_ids :: "string \<Rightarrow> 'x action list option \<Rightarrow> 'x action list option" where
  "assign_sub_orchestration_ids iid results = map_option (map (assign_action_id iid)) results"

text \<open>The attributes of the turn's span, when it is recording.\<close>

definition turn_attributes ::
    "string \<Rightarrow> string list \<Rightarrow> string list \<Rightarrow> 'x action list option \<Rightarrow> (string \<times> (string + nat)) list" where
  "turn_attributes iid past new results =
     [(''durabletask.task.instance_id'', Inl iid),
      (''durabletask.history_event_count'', Inr (length past)),
      (''durabletask.new_events_count'', Inr (length new)),
      (''durabletask.action_count'', Inr (case results of None \<Rightarrow> 0 | Some as \<Rightarrow> length as))]"

definition run_turn :: "('e, 'x) engine \<Rightarrow> string \<Rightarrow> string list \<Rightarrow> string list \<Rightarrow> string result" where
  "run_turn En iid past new =
     bind_result (wrap_error ''durabletask: execute orchestrator: '' (execute_orchestrator En iid past new)) (\<lambda>results.
     bind_result (wrap_error ''durabletask: marshal orchestrator response: ''
         (en_marshal En (assign_sub_orchestration_ids iid results))) (\<lambda>resp.
       Inr (base64_encode resp)))"

definition load_and_run :: "wire \<Rightarrow> ('e, 'x) engine \<Rightarrow> string \<Rightarrow> string result option" where
  "load_and_run W En encoded =
     (case wrap_error ''durabletask: decode base64 request: '' (base64_decode encoded) of
        Inl e \<Rightarrow> Some (Inl e)
      | Inr req \<Rightarrow>
          map_option (\<lambda>r. bind_result (wrap_error ''durabletask: parse orchestrator request: '' r)
            (\<lambda>(iid, past, new). run_turn En iid past new)) (decode_orchestrator_request W req))"

subsection \<open>Base64 round trip\<close>

lemma base64_value_char: "n < 64 \<Longrightarrow> base64_value (base64_char n) = Some n"
  by (auto simp: base64_value_def base64_char_def byte_def of_char_of Let_def)

lemma base64_char_neq: "n < 64 \<Longrightarrow> base64_char n \<noteq> CHR ''='' \<and> base64_char n \<noteq> CHR 0x0A \<and> base64_char n \<noteq> CHR 0x0D"
proof -
  assume "n < 64"
  then have "base64_value (base64_char n) = Some n" by (rule base64_value_char)
  moreover have "base64_value CHR ''='' = None" "base64_value CHR 0x0A = None" "base64_value CHR 0x0D = None"
    by (simp_all add: base64_value_def byte_def)
  ultimately show ?thesis by fastforce
qed

lemma base64_quad_chars:
  assumes "n < 16777216"
  shows "base64_quad (base64_char (n div 262144)) (base64_char (n div 4096 mod 64)) (base64_char (n div 64 mod 64))
    (base64_char (n mod 64)) = Some n"
proof -
  from assms have "n div 262144 < 64" by simp
  then show ?thesis
    using sextets(3) [of n] by (simp add: base64_quad_def base64_value_char del: mult_div_mod_eq div_mult_mod_eq)
qed

lemma base64_zero: "base64_char 0 = CHR ''A''"
  by code_simp

lemma shifted_sextets:
  fixes m :: nat
  shows "m * 64 div 262144 = m div 4096" "m * 64 div 4096 = m div 64" "m * 64 div 64 = m" "m * 64 mod 64 = 0"
    "m * 4096 div 262144 = m div 64" "m * 4096 div 4096 = m" "m * 4096 div 64 mod 64 = 0" "m * 4096 mod 64 = 0"
proof -
  have a: "m * 64 div 262144 = m * 64 div 64 div 4096" "m * 64 div 4096 = m * 64 div 64 div 64"
    "m * 4096 div 262144 = m * 4096 div 4096 div 64"
    by (simp_all only: div_mult2_eq [symmetric]) simp_all
  have b: "m * 4096 = (m * 64) * 64" by simp
  show "m * 64 div 64 = m" "m * 64 mod 64 = 0" "m * 4096 div 4096 = m" by simp_all
  with a show "m * 64 div 262144 = m div 4096" "m * 64 div 4096 = m div 64" "m * 4096 div 262144 = m div 64" by simp_all
  show "m * 4096 div 64 mod 64 = 0" "m * 4096 mod 64 = 0" unfolding b by simp_all
qed

lemma byte_less: "byte c < 256" and byte_le: "byte c \<le> 255" and char_of_byte [simp]: "char_of (byte c) = c"
proof -
  show "byte c < 256" by (simp add: byte_def)
  then show "byte c \<le> 255" by simp
  show "char_of (byte c) = c" by (simp add: byte_def)
qed

lemma bytes_of_triple:
  fixes a b c :: nat
  assumes "a < 256" "b < 256" "c < 256"
  shows "(a * 65536 + b * 256 + c) div 65536 = a" "(a * 65536 + b * 256 + c) div 256 mod 256 = b"
    "(a * 65536 + b * 256 + c) mod 256 = c" "a * 65536 + b * 256 + c < 16777216"
proof -
  have n: "a * 65536 + b * 256 + c = (a * 256 + b) * 256 + c" by simp
  have d: "(a * 65536 + b * 256 + c) div 256 = a * 256 + b" unfolding n using assms by simp
  then show "(a * 65536 + b * 256 + c) div 256 mod 256 = b" using assms by simp
  have "(a * 65536 + b * 256 + c) div 65536 = (a * 65536 + b * 256 + c) div 256 div 256"
    by (simp add: div_mult2_eq [symmetric])
  then show "(a * 65536 + b * 256 + c) div 65536 = a" unfolding d using assms by simp
  have "(c + (a * 256 + b) * 256) mod 256 = c" using assms(3) by (simp only: mod_mult_self1 mod_less)
  then show "(a * 65536 + b * 256 + c) mod 256 = c" unfolding n by (simp only: add.commute)
  show "a * 65536 + b * 256 + c < 16777216" using assms by linarith
qed

lemma base64_decode_encode: "base64_decode_chars (base64_encode s) = Some s"
proof (induction s rule: base64_encode.induct)
  case (2 a)
  let ?m = "byte a * 16"
  have n: "byte a * 65536 = ?m * 4096" by simp
  have "byte a * 65536 < 16777216" using byte_less [of a] by linarith
  from base64_quad_chars [OF this]
  have "base64_quad (base64_char (?m div 64)) (base64_char (?m mod 64)) CHR ''A'' CHR ''A'' = Some (byte a * 65536)"
    by (simp only: n shifted_sextets base64_zero)
  then show ?case by (simp add: byte_def Let_def)
next
  case (3 a b)
  let ?n = "byte a * 65536 + byte b * 256" and ?m = "(byte a * 256 + byte b) * 4"
  have b: "byte a < 256" "byte b < 256" by (rule byte_less)+
  have n: "?n = ?m * 64" by simp
  have "?n < 16777216" using b by linarith
  from base64_quad_chars [OF this]
  have q: "base64_quad (base64_char (?m div 4096)) (base64_char (?m div 64 mod 64)) (base64_char (?m mod 64)) CHR ''A'' = Some ?n"
    by (simp only: n shifted_sextets base64_zero)
  define n w x y where defs: "n = ?n" "w = base64_char (?m div 4096)" "x = base64_char (?m div 64 mod 64)"
    "y = base64_char (?m mod 64)"
  have "?m mod 64 < 64" by simp
  then have "y \<noteq> CHR ''=''" unfolding defs using base64_char_neq by blast
  moreover have "base64_encode [a, b] = [w, x, y, CHR ''='']" by (simp only: defs base64_encode.simps Let_def)
  moreover have "base64_quad w x y CHR ''A'' = Some n" unfolding defs by (rule q)
  moreover have "n div 65536 = byte a" and nb: "n div 256 mod 256 = byte b"
    using bytes_of_triple [OF b, of 0] unfolding defs by simp_all
  moreover have "char_of (n div 256) = (char_of (n div 256 mod 256) :: char)" by simp
  then have "char_of (n div 256) = b" by (simp only: nb char_of_byte)
  ultimately show ?case by simp
next
  case (4 a b c s)
  let ?n = "byte a * 65536 + byte b * 256 + byte c"
  note t = bytes_of_triple [OF byte_less byte_less byte_less, of a b c]
  have "?n mod 64 < 64" by simp
  then have "base64_char (?n mod 64) \<noteq> CHR ''=''" using base64_char_neq by blast
  moreover have "[char_of (?n div 65536), char_of (?n div 256 mod 256), char_of (?n mod 256)] = [a, b, c]"
    unfolding t(1-3) by simp
  ultimately show ?case
    using base64_quad_chars [OF t(4)] 4 by (simp add: Let_def)
qed simp

lemma base64_encode_plain: "c \<in> set (base64_encode s) \<Longrightarrow> c \<noteq> CHR 0x0A \<and> c \<noteq> CHR 0x0D"
proof (induction s rule: base64_encode.induct)
  case (2 a)
  have "byte a * 16 div 64 < 64" by (rule less_mult_imp_div_less) (use byte_less [of a] in linarith)
  with 2 base64_char_neq show ?case by (auto simp: Let_def)
next
  case (3 a b)
  have "(byte a * 256 + byte b) * 4 div 4096 < 64"
    by (rule less_mult_imp_div_less) (use byte_le [of a] byte_le [of b] in simp)
  with 3 base64_char_neq show ?case by (auto simp: Let_def)
next
  case (4 a b c s)
  have "(byte a * 65536 + byte b * 256 + byte c) div 262144 < 64"
    by (rule less_mult_imp_div_less) (use byte_less [of a] byte_less [of b] byte_less [of c] in linarith)
  with 4 base64_char_neq show ?case by (auto simp: Let_def)
qed simp

lemma base64_round_trip: "base64_decode (base64_encode s) = Inr s"
proof -
  have "filter (\<lambda>c. c \<noteq> CHR 0x0A \<and> c \<noteq> CHR 0x0D) (base64_encode s) = base64_encode s"
    unfolding filter_id_conv using base64_encode_plain by blast
  then show ?thesis by (simp add: base64_decode_def base64_decode_encode)
qed

subsection \<open>The interface of the wire format\<close>

text \<open>
  What \<open>protowire\<close> promises on well-formed input: it reads back what the encoder of its format wrote, and
  says how long that was.  \<open>skippable\<close> are the values of fields the loop does not know.
\<close>

datatype request_field = F_Instance string | F_Past string | F_New string | F_Other nat nat string

definition fits :: "string \<Rightarrow> bool" where
  "fits v \<longleftrightarrow> length v < 2147483648"

definition known_field :: "nat \<Rightarrow> nat \<Rightarrow> bool" where
  "known_field num wt \<longleftrightarrow> wt = bytes_type \<and> num \<in> {field_instance_id, field_past_events, field_new_events}"

lemma field_numbers [simp]:
  "0 < field_instance_id" "0 < field_past_events" "0 < field_new_events" "field_instance_id < 536870912"
  "field_past_events < 536870912" "field_new_events < 536870912" "field_past_events \<noteq> field_instance_id"
  "field_new_events \<noteq> field_instance_id" "field_new_events \<noteq> field_past_events" "bytes_type < 8"
  by (simp_all add: field_instance_id_def field_past_events_def field_new_events_def bytes_type_def)

definition field_bytes :: "(nat \<Rightarrow> nat \<Rightarrow> string) \<Rightarrow> (string \<Rightarrow> string) \<Rightarrow> request_field \<Rightarrow> string" where
  "field_bytes tg bs f =
     (case f of
        F_Instance v \<Rightarrow> tg field_instance_id bytes_type @ bs v
      | F_Past v \<Rightarrow> tg field_past_events bytes_type @ bs v
      | F_New v \<Rightarrow> tg field_new_events bytes_type @ bs v
      | F_Other num wt v \<Rightarrow> tg num wt @ v)"

definition field_fits :: "(nat \<Rightarrow> nat \<Rightarrow> string \<Rightarrow> bool) \<Rightarrow> request_field \<Rightarrow> bool" where
  "field_fits sk f \<longleftrightarrow>
     (case f of
        F_Instance v \<Rightarrow> fits v | F_Past v \<Rightarrow> fits v | F_New v \<Rightarrow> fits v
      | F_Other num wt v \<Rightarrow> 0 < num \<and> num < 536870912 \<and> wt < 8 \<and> \<not> known_field num wt \<and> sk num wt v)"

definition request_bytes :: "(nat \<Rightarrow> nat \<Rightarrow> string) \<Rightarrow> (string \<Rightarrow> string) \<Rightarrow> request_field list \<Rightarrow> string" where
  "request_bytes tg bs fs = concat (map (field_bytes tg bs) fs)"

locale wire_format =
  fixes W :: wire and enc_tag :: "nat \<Rightarrow> nat \<Rightarrow> string" and enc_bytes :: "string \<Rightarrow> string"
    and skippable :: "nat \<Rightarrow> nat \<Rightarrow> string \<Rightarrow> bool"
  assumes tag_nonempty: "enc_tag num wt \<noteq> []"
    and tag: "0 < num \<Longrightarrow> num < 536870912 \<Longrightarrow> wt < 8 \<Longrightarrow> wi_tag W (enc_tag num wt @ s) = Inr (num, wt, length (enc_tag num wt))"
    and bytes: "fits v \<Longrightarrow> wi_bytes W (enc_bytes v @ s) = Inr (v, length (enc_bytes v))"
    and skip: "skippable num wt v \<Longrightarrow> wi_skip W num wt (v @ s) = Inr (length v)"
begin

abbreviation enc_field :: "request_field \<Rightarrow> string" where
  "enc_field \<equiv> field_bytes enc_tag enc_bytes"

abbreviation field_ok :: "request_field \<Rightarrow> bool" where
  "field_ok \<equiv> field_fits skippable"

lemma enc_field_nonempty: "enc_field f \<noteq> []"
  by (cases f) (simp_all add: field_bytes_def tag_nonempty)

lemma drop_encoded [simp]: "drop (length v) (v @ s) = s"
  by simp

lemma decode_known:
  assumes "fits v" and "num \<in> {field_instance_id, field_past_events, field_new_events}"
  shows "request_loop W (Suc fuel) (enc_tag num bytes_type @ enc_bytes v @ s) iid past new =
    (if num = field_instance_id then request_loop W fuel s v past new
     else if num = field_past_events then request_loop W fuel s iid (past @ [v]) new
     else request_loop W fuel s iid past (new @ [v]))"
proof -
  have "0 < num" "num < 536870912" using assms(2) by auto
  then have "wi_tag W (enc_tag num bytes_type @ enc_bytes v @ s) = Inr (num, bytes_type, length (enc_tag num bytes_type))"
    by (rule tag) simp
  with assms show ?thesis
    by (subst request_loop.simps) (simp add: tag_nonempty bytes Let_def)
qed

text \<open>One field is one round of the loop.\<close>

lemma decode_field:
  assumes "field_ok f"
  shows "request_loop W (Suc fuel) (enc_field f @ s) iid past new =
    (case f of
       F_Instance v \<Rightarrow> request_loop W fuel s v past new
     | F_Past v \<Rightarrow> request_loop W fuel s iid (past @ [v]) new
     | F_New v \<Rightarrow> request_loop W fuel s iid past (new @ [v])
     | F_Other num wt v \<Rightarrow> request_loop W fuel s iid past new)"
proof (cases f)
  case (F_Instance v)
  with assms decode_known [of v field_instance_id] show ?thesis by (simp add: field_bytes_def field_fits_def)
next
  case (F_Past v)
  with assms decode_known [of v field_past_events] show ?thesis by (simp add: field_bytes_def field_fits_def)
next
  case (F_New v)
  with assms decode_known [of v field_new_events] show ?thesis by (simp add: field_bytes_def field_fits_def)
next
  case (F_Other num wt v)
  with assms have ok: "0 < num" "num < 536870912" "wt < 8" "\<not> known_field num wt" "skippable num wt v"
    by (simp_all add: field_fits_def)
  have "wi_tag W (enc_tag num wt @ (v @ s)) = Inr (num, wt, length (enc_tag num wt))" by (rule tag [OF ok(1-3)])
  moreover have "wi_skip W num wt (v @ s) = Inr (length v)" by (rule skip [OF ok(5)])
  ultimately show ?thesis
    using ok(4) by (subst request_loop.simps) (auto simp: F_Other field_bytes_def Let_def known_field_def tag_nonempty)
qed

end

text \<open>What a list of fields says: the last instance id, the events of each kind in order.\<close>

fun instance_of :: "request_field list \<Rightarrow> string \<Rightarrow> string" where
  "instance_of [] iid = iid"
| "instance_of (F_Instance v # fs) iid = instance_of fs v"
| "instance_of (f # fs) iid = instance_of fs iid"

definition past_of :: "request_field list \<Rightarrow> string list" where
  "past_of fs = List.map_filter (\<lambda>f. case f of F_Past v \<Rightarrow> Some v | _ \<Rightarrow> None) fs"

definition new_of :: "request_field list \<Rightarrow> string list" where
  "new_of fs = List.map_filter (\<lambda>f. case f of F_New v \<Rightarrow> Some v | _ \<Rightarrow> None) fs"

lemma of_fields_simps [simp]:
  "past_of [] = []" "new_of [] = []" "past_of (F_Past v # fs) = v # past_of fs" "past_of (F_New v # fs) = past_of fs"
  "past_of (F_Instance v # fs) = past_of fs" "past_of (F_Other n t v # fs) = past_of fs"
  "new_of (F_Past v # fs) = new_of fs" "new_of (F_New v # fs) = v # new_of fs" "new_of (F_Instance v # fs) = new_of fs"
  "new_of (F_Other n t v # fs) = new_of fs"
  by (simp_all add: past_of_def new_of_def map_filter_def)

context wire_format
begin

abbreviation enc_request :: "request_field list \<Rightarrow> string" where
  "enc_request \<equiv> request_bytes enc_tag enc_bytes"

lemma decode_request:
  "list_all field_ok fs \<Longrightarrow> length (enc_request fs) \<le> fuel \<Longrightarrow>
   request_loop W fuel (enc_request fs) iid past new = Some (Inr (instance_of fs iid, past @ past_of fs, new @ new_of fs))"
proof (induction fs arbitrary: fuel iid past new)
  case Nil
  show ?case by (subst request_loop.simps) (simp add: request_bytes_def)
next
  case (Cons f fs)
  have "0 < length (enc_field f)" using enc_field_nonempty by (cases "enc_field f") simp_all
  with Cons.prems(2) obtain k where k: "fuel = Suc k" "length (enc_request fs) \<le> k"
    by (cases fuel) (auto simp: request_bytes_def simp del: length_greater_0_conv)
  have "enc_request (f # fs) = enc_field f @ enc_request fs" by (simp add: request_bytes_def)
  with decode_field [of f k "enc_request fs" iid past new] Cons k show ?case by (cases f) simp_all
qed

lemma decode_orchestrator_request:
  "list_all field_ok fs \<Longrightarrow>
   decode_orchestrator_request W (enc_request fs) = Some (Inr (instance_of fs '''', past_of fs, new_of fs))"
  by (simp add: decode_orchestrator_request_def decode_request)

end

subsection \<open>Protobuf's wire format\<close>

text \<open>
  The format as its documentation has it, with varints of seven bits a byte, least significant first;
  groups, which are deprecated, are refused.
\<close>

fun enc_varint :: "nat \<Rightarrow> string" where
  "enc_varint n = (if n < 128 then [char_of n] else char_of (128 + n mod 128) # enc_varint (n div 128))"

declare enc_varint.simps [simp del]

fun take_varint :: "nat \<Rightarrow> string \<Rightarrow> (nat \<times> nat) option" where
  "take_varint 0 s = None"
| "take_varint (Suc k) [] = None"
| "take_varint (Suc k) (c # s) =
     (if byte c < 128 then Some (byte c, 1)
      else map_option (\<lambda>(v, n). (byte c - 128 + 128 * v, Suc n)) (take_varint k s))"

definition pb_tag :: "string \<Rightarrow> (nat \<times> nat \<times> nat) result" where
  "pb_tag s =
     (case take_varint 10 s of
        None \<Rightarrow> Inl ''unexpected EOF''
      | Some (v, n) \<Rightarrow>
          if v div 8 = 0 \<or> v div 8 \<ge> 536870912 then Inl ''invalid field number'' else Inr (v div 8, v mod 8, n))"

definition pb_bytes :: "string \<Rightarrow> (string \<times> nat) result" where
  "pb_bytes s =
     (case take_varint 10 s of
        None \<Rightarrow> Inl ''unexpected EOF''
      | Some (v, n) \<Rightarrow>
          if length s < n + v then Inl ''unexpected EOF'' else Inr (take v (drop n s), n + v))"

definition pb_skip :: "nat \<Rightarrow> nat \<Rightarrow> string \<Rightarrow> nat result" where
  "pb_skip num wt s =
     (if wt = 0 then (case take_varint 10 s of None \<Rightarrow> Inl ''unexpected EOF'' | Some (v, n) \<Rightarrow> Inr n)
      else if wt = 1 then (if length s < 8 then Inl ''unexpected EOF'' else Inr 8)
      else if wt = 2 then (case pb_bytes s of Inl e \<Rightarrow> Inl e | Inr (v, n) \<Rightarrow> Inr n)
      else if wt = 5 then (if length s < 4 then Inl ''unexpected EOF'' else Inr 4)
      else Inl ''cannot parse reserved wire type'')"

definition protobuf :: wire where
  "protobuf = \<lparr>wi_tag = pb_tag, wi_bytes = pb_bytes, wi_skip = pb_skip\<rparr>"

definition pb_enc_tag :: "nat \<Rightarrow> nat \<Rightarrow> string" where
  "pb_enc_tag num wt = enc_varint (num * 8 + wt)"

definition pb_enc_bytes :: "string \<Rightarrow> string" where
  "pb_enc_bytes v = enc_varint (length v) @ v"

definition pb_value :: "nat \<Rightarrow> nat \<Rightarrow> string \<Rightarrow> bool" where
  "pb_value num wt v \<longleftrightarrow>
     (wt = 0 \<and> (\<exists>n < 34359738368. v = enc_varint n)) \<or> (wt = 1 \<and> length v = 8) \<or>
     (wt = 2 \<and> (\<exists>w. fits w \<and> v = pb_enc_bytes w)) \<or> (wt = 5 \<and> length v = 4)"

lemma enc_varint_nonempty: "enc_varint n \<noteq> []"
  by (simp add: enc_varint.simps [of n])

lemma take_enc_varint:
  "n < 128 ^ k \<Longrightarrow> 0 < k \<Longrightarrow> take_varint k (enc_varint n @ s) = Some (n, length (enc_varint n))"
proof (induction k arbitrary: n)
  case (Suc k)
  show ?case
  proof (cases "n < 128")
    case True
    then show ?thesis by (simp add: enc_varint.simps [of n] byte_def of_char_of)
  next
    case False
    have "n div 128 < 128 ^ k" using Suc.prems(1) by (simp add: less_mult_imp_div_less mult.commute)
    moreover from this have "0 < k" using False by (cases k) auto
    ultimately have "take_varint k (enc_varint (n div 128) @ s) = Some (n div 128, length (enc_varint (n div 128)))"
      using Suc.IH by blast
    moreover have "byte (char_of (128 + n mod 128)) = 128 + n mod 128" by (simp add: byte_def of_char_of)
    ultimately show ?thesis using False by (simp add: enc_varint.simps [of n])
  qed
qed simp

lemma take_enc_varint_10: "n < 34359738368 \<Longrightarrow> take_varint 10 (enc_varint n @ s) = Some (n, length (enc_varint n))"
  by (rule take_enc_varint) simp_all

lemma pb_bytes_enc: "fits v \<Longrightarrow> pb_bytes (pb_enc_bytes v @ s) = Inr (v, length (pb_enc_bytes v))"
  using take_enc_varint_10 [of "length v" "v @ s"] by (simp add: pb_bytes_def pb_enc_bytes_def fits_def)

interpretation pb: wire_format protobuf pb_enc_tag pb_enc_bytes pb_value
proof
  fix num wt :: nat and s assume b: "0 < num" "num < 536870912" "wt < (8 :: nat)"
  then have "num * 8 + wt < 34359738368" "(num * 8 + wt) div 8 = num" "(num * 8 + wt) mod 8 = wt" by auto
  with b take_enc_varint_10 [of "num * 8 + wt" s]
  show "wi_tag protobuf (pb_enc_tag num wt @ s) = Inr (num, wt, length (pb_enc_tag num wt))"
    by (simp add: protobuf_def pb_tag_def pb_enc_tag_def)
next
  fix num wt v s assume "pb_value num wt v"
  then show "wi_skip protobuf num wt (v @ s) = Inr (length v)"
    by (auto simp: pb_value_def protobuf_def pb_skip_def take_enc_varint_10 pb_bytes_enc)
qed (simp_all add: pb_enc_tag_def enc_varint_nonempty protobuf_def pb_bytes_enc)

subsection \<open>Identifiers of sub-orchestrations\<close>

definition unhex :: "string \<Rightarrow> nat" where
  "unhex s = foldl (\<lambda>n c. 16 * n + hex_value c) 0 s"

lemma unhex_hex_digits: "unhex (hex_digits n) = n"
proof (induction n rule: hex_digits.induct)
  case (1 n)
  then show ?case
    by (subst hex_digits.simps) (auto simp: unhex_def hex_value_hex_char)
qed

lemma unhex_zeros: "unhex (replicate k CHR ''0'' @ s) = unhex s"
  by (induction k) (simp_all add: unhex_def hex_value_def)

lemma hex_digits_no_minus: "CHR ''-'' \<notin> set (hex_digits n)"
proof (induction n rule: hex_digits.induct)
  case (1 n)
  have "hex_char d \<noteq> CHR ''-''" if "d < 16" for d
  proof
    assume "hex_char d = CHR ''-''"
    then have "hex_value (hex_char d) = hex_value CHR ''-''" by simp
    with that have "d = 0" by (simp add: hex_value_hex_char) (simp add: hex_value_def)
    moreover have "hex_char 0 \<noteq> CHR ''-''" by code_simp
    ultimately show False using \<open>hex_char d = CHR ''-''\<close> by simp
  qed
  then have "CHR ''-'' \<noteq> hex_char d" if "d < 16" for d using that by metis
  with 1 show ?case by (subst hex_digits.simps) simp
qed

lemma format_04x_inj: "format_04x i = format_04x j \<Longrightarrow> i = j"
proof -
  assume eq: "format_04x i = format_04x j"
  have p: "unhex (pad_zeros w (hex_digits n)) = n" for w n by (simp add: pad_zeros_def unhex_zeros unhex_hex_digits)
  have m: "CHR ''-'' \<notin> set (pad_zeros w (hex_digits n))" for w n by (simp add: pad_zeros_def hex_digits_no_minus)
  have neg: "sint i < 0 \<longleftrightarrow> sint j < 0"
    using eq m [of 4] by (auto simp: format_04x_def Let_def split: if_splits) (metis list.set_intros(1))+
  have "sint i = sint j"
  proof (cases "sint i < 0")
    case True
    with eq neg have "pad_zeros 3 (hex_digits (nat (- sint i))) = pad_zeros 3 (hex_digits (nat (- sint j)))"
      by (simp add: format_04x_def Let_def)
    then have "nat (- sint i) = nat (- sint j)" using p by metis
    with True neg show ?thesis by simp
  next
    case False
    with eq neg have "pad_zeros 4 (hex_digits (nat (sint i))) = pad_zeros 4 (hex_digits (nat (sint j)))"
      by (simp add: format_04x_def Let_def)
    then have "nat (sint i) = nat (sint j)" using p by metis
    with False neg show ?thesis by simp
  qed
  then show "i = j" by (simp add: signed_word_eqI)
qed

lemma assign_action_id_idem: "assign_action_id iid (assign_action_id iid a) = assign_action_id iid a"
  by (simp add: assign_action_id_def)

subsection \<open>Properties\<close>

text \<open>Whatever the bytes, decoding ends: a tag is never empty.\<close>

lemma request_loop_ends:
  assumes "\<And>s num wt n. wi_tag W s = Inr (num, wt, n) \<Longrightarrow> 0 < n"
  shows "length b \<le> fuel \<Longrightarrow> request_loop W fuel b iid past new \<noteq> None"
proof (induction fuel arbitrary: b iid past new)
  case 0
  then show ?case by (subst request_loop.simps) simp
next
  case (Suc fuel)
  have "length (drop m (drop n b)) \<le> fuel" if "wi_tag W b = Inr (num, wt, n)" for num wt n m
    using Suc.prems assms [OF that] by simp
  then have "request_loop W fuel (drop m (drop n b)) iid past new \<noteq> None"
    if "wi_tag W b = Inr (num, wt, n)" for num wt n m iid past new
    using that Suc.IH by blast
  then show ?case by (subst request_loop.simps) (simp add: Let_def split: sum.split prod.split)
qed

lemma protobuf_tag_nonempty: "wi_tag protobuf s = Inr (num, wt, n) \<Longrightarrow> 0 < n"
proof -
  have "take_varint k s = Some (v, n) \<Longrightarrow> 0 < n" for k v n
    by (induction k s arbitrary: v n rule: take_varint.induct) (auto split: if_splits)
  then show "wi_tag protobuf s = Inr (num, wt, n) \<Longrightarrow> 0 < n"
    by (auto simp: protobuf_def pb_tag_def split: option.splits if_splits)
qed

text \<open>
  C32. The replay sees what the host sent: for a request encoded as \<open>protowire\<close> reads it and in base64, with
  fields in any order and unknown ones between them, the turn runs on the last instance id and on
  the past and the new events, each in their order.
\<close>

theorem orchestrator_round_trip:
  assumes "wire_format W tg bs sk" and "list_all (field_fits sk) fs"
  shows "load_and_run W En (base64_encode (request_bytes tg bs fs)) =
    Some (run_turn En (instance_of fs '''') (past_of fs) (new_of fs))"
  by (simp add: load_and_run_def base64_round_trip wrap_error_def
      wire_format.decode_orchestrator_request [OF assms])

definition sample_fields :: "request_field list" where
  "sample_fields = [F_Past ''p'', F_Instance ''id'', F_Other 7 5 ''abcd'', F_New ''n'', F_Past ''q'']"

definition echo_engine :: "(string, unit) engine" where
  "echo_engine = \<lparr>en_unmarshal = Inr, en_started = (\<lambda>e. False),
     en_execute = (\<lambda>iid past new. Inr (Some [])), en_marshal = (\<lambda>r. Inr ''ok'')\<rparr>"

theorem orchestrator_round_trip_witness:
  "load_and_run protobuf echo_engine (base64_encode (request_bytes pb_enc_tag pb_enc_bytes sample_fields)) =
     Some (run_turn echo_engine ''id'' [''p'', ''q''] [''n'']) \<and>
   run_turn echo_engine ''id'' [''p'', ''q''] [''n''] = Inr (base64_encode ''ok'')"
proof -
  have "list_all (field_fits pb_value) sample_fields"
    by (simp add: sample_fields_def field_fits_def fits_def known_field_def pb_value_def bytes_type_def)
  from orchestrator_round_trip [OF pb.wire_format_axioms this, of echo_engine] show ?thesis
    by (simp add: sample_fields_def run_turn_def execute_orchestrator_def unmarshal_events_def check_history_present_def
        wrap_error_def echo_engine_def assign_sub_orchestration_ids_def)
qed


definition sample_action :: "32 word \<Rightarrow> unit action" where
  "sample_action i = \<lparr>ac_id = i, ac_create = Some '''', ac_rest = ()\<rparr>"


text \<open>
  A turn never replays without history: when the host sent no past events and no event that starts
  the execution, the engine is not called and the error says so.
\<close>

theorem history_required:
  assumes "unmarshal_events En new = Inr ns" and "\<not> list_ex (en_started En) ns"
  shows "\<exists>e. \<forall>execute. run_turn (En\<lparr>en_execute := execute\<rparr>) iid [] new = Inl e"
proof -
  have "unmarshal_events (En\<lparr>en_execute := x\<rparr>) new = Inr ns" for x
    using assms(1) by (simp add: unmarshal_events_def)
  moreover have "unmarshal_events (En\<lparr>en_execute := x\<rparr>) [] = Inr []" for x by (simp add: unmarshal_events_def)
  ultimately show ?thesis
    using assms(2) by (simp add: run_turn_def execute_orchestrator_def check_history_present_def wrap_error_def)
qed

theorem history_required_witness:
  "\<exists>e. run_turn echo_engine ''id'' [] [''n''] = Inl e"
proof -
  have h: "unmarshal_events echo_engine [''n''] = Inr [''n'']" "\<not> list_ex (en_started echo_engine) [''n'']"
    by (simp_all add: unmarshal_events_def wrap_error_def echo_engine_def)
  obtain e where "\<forall>execute. run_turn (echo_engine\<lparr>en_execute := execute\<rparr>) ''id'' [] [''n''] = Inl e"
    using history_required [OF h, of "''id''"] by blast
  then have "run_turn (echo_engine\<lparr>en_execute := en_execute echo_engine\<rparr>) ''id'' [] [''n''] = Inl e" by blast
  then show ?thesis by auto
qed

end
