(* ===== verification/Durable_Client.thy ===== *)
theory Durable_Client
  imports Http_Rendezvous Json_Value Go_Utf8
begin

text \<open>
  The management client of the durable middleware: \<open>middleware/durabletask/client.go\<close> (connections,
  status names) and \<open>checkstatus.go\<close> (management URLs and the two status replies).  The gRPC client it
  embeds is not under the repository; \<open>url.Parse\<close> and \<open>json.Marshal\<close> are parameters.
\<close>

subsection \<open>Connections\<close>

text \<open>
  The connections \<open>grpc.NewClient\<close> made, by target, and the \<open>Close\<close> calls; a client holds the number of
  the connection it owns.  \<open>ne_dial\<close> and \<open>ne_close\<close> are the errors of the two calls.
\<close>

record network =
  nw_dialled :: "string list"
  nw_closed :: "nat list"

record net_env =
  ne_dial :: "string \<Rightarrow> go_error option"
  ne_close :: "nat \<Rightarrow> go_error option"

record dclient =
  cl_conn :: "nat option"
  cl_http_base :: string
  cl_query :: string

definition new_client :: dclient where
  "new_client = \<lparr>cl_conn = None, cl_http_base = '''', cl_query = ''''\<rparr>"

definition dial :: "net_env \<Rightarrow> string \<Rightarrow> network \<Rightarrow> dclient result \<times> network" where
  "dial N endpoint w =
     (case ne_dial N endpoint of
        Some e \<Rightarrow> (Inl (''durabletask: dial '' @ go_quote endpoint @ '': '' @ e), w)
      | None \<Rightarrow>
          (Inr (new_client\<lparr>cl_conn := Some (length (nw_dialled w))\<rparr>), w\<lparr>nw_dialled := nw_dialled w @ [endpoint]\<rparr>))"

definition close_client :: "net_env \<Rightarrow> dclient \<Rightarrow> network \<Rightarrow> go_error option \<times> network" where
  "close_client N c w =
     (case cl_conn c of
        None \<Rightarrow> (None, w)
      | Some k \<Rightarrow> (ne_close N k, w\<lparr>nw_closed := nw_closed w @ [k]\<rparr>))"

text \<open>\<open>url.Parse\<close>: the host and the path of a URL.\<close>

type_synonym url_parse = "string \<Rightarrow> (string \<times> string) result"

definition grpc_target :: "url_parse \<Rightarrow> string \<Rightarrow> string" where
  "grpc_target parse url =
     (case parse url of
        Inr (host, path) \<Rightarrow> if host \<noteq> '''' then host else url
      | Inl e \<Rightarrow> url)"

definition start_work_item_listener :: go_error where
  "start_work_item_listener =
     ''durabletask: StartWorkItemListener is not supported under the Functions '' @
     ''host, which dispatches orchestrations and activities itself; register them with '' @
     ''durabletask.Middleware() and pass it to app.Use''"

definition default_client_from_env :: "net_env \<Rightarrow> string \<Rightarrow> network \<Rightarrow> dclient option \<times> network" where
  "default_client_from_env N endpoint w =
     (if endpoint = '''' then (None, w)
      else (case dial N endpoint w of
              (Inl e, w') \<Rightarrow> (None, w')
            | (Inr c, w') \<Rightarrow> (Some c, w')))"

subsection \<open>Status names\<close>

definition capitalize :: "string \<Rightarrow> string" where
  "capitalize p = (case p of [] \<Rightarrow> [] | c # cs \<Rightarrow> upper_char c # cs)"

definition runtime_status_string :: "string \<Rightarrow> string" where
  "runtime_status_string enum =
     (let s = trim_prefix enum ''ORCHESTRATION_STATUS_'' in
      if s = '''' then enum
      else concat (map capitalize (split_at CHR ''_'' (to_lower s))))"

text \<open>What an orchestration's metadata holds; the status by its protobuf name.\<close>

record orchestration_metadata =
  om_name :: string
  om_instance :: string
  om_status :: string
  om_input :: string
  om_custom :: string
  om_output :: string
  om_created :: json
  om_updated :: json

definition runtime_status :: "orchestration_metadata option \<Rightarrow> string" where
  "runtime_status m = (case m of None \<Rightarrow> '''' | Some m \<Rightarrow> runtime_status_string (om_status m))"

subsection \<open>Management URLs\<close>

text \<open>\<open>url.PathEscape\<close>, byte by byte.\<close>

definition upper_hex :: "nat \<Rightarrow> char" where
  "upper_hex n = (''0123456789ABCDEF'' ! n)"

definition path_safe :: "char \<Rightarrow> bool" where
  "path_safe c \<longleftrightarrow>
     (let n = byte c in (48 \<le> n \<and> n \<le> 57) \<or> (65 \<le> n \<and> n \<le> 90) \<or> (97 \<le> n \<and> n \<le> 122)) \<or>
     c \<in> set ''-_.~$&+:=@''"

definition escape_char :: "char \<Rightarrow> string" where
  "escape_char c =
     (if path_safe c then [c] else [CHR ''%'', upper_hex (byte c div 16), upper_hex (byte c mod 16)])"

definition path_escape :: "string \<Rightarrow> string" where
  "path_escape s = concat (map escape_char s)"

definition with_query :: "string \<Rightarrow> string list \<Rightarrow> string" where
  "with_query base fragments =
     (let present = filter (\<lambda>f. f \<noteq> '''') fragments in
      if present = [] then base else base @ ''?'' @ join_with ''&'' present)"

text \<open>A request with the parts the connection supplies.\<close>

record incoming =
  in_request :: http_request
  in_host :: string
  in_tls :: bool

definition forwarded_origin :: "codec \<Rightarrow> incoming option \<Rightarrow> string" where
  "forwarded_origin C r =
     (case r of
        None \<Rightarrow> ''''
      | Some r \<Rightarrow>
          (let host = header_get C ''X-Forwarded-Host'' (in_request r);
               scheme = header_get C ''X-Forwarded-Proto'' (in_request r)
           in if host = '''' then '''' else (if scheme = '''' then ''https'' else scheme) @ ''://'' @ host))"

definition request_origin :: "incoming option \<Rightarrow> string" where
  "request_origin r =
     (case r of
        None \<Rightarrow> ''''
      | Some r \<Rightarrow> (if in_tls r then ''https'' else ''http'') @ ''://'' @ in_host r)"

definition durable_webhook_path :: string where
  "durable_webhook_path = ''/runtime/webhooks/durabletask''"

definition instance_url :: "codec \<Rightarrow> url_parse \<Rightarrow> dclient \<Rightarrow> incoming option \<Rightarrow> string \<Rightarrow> string" where
  "instance_url C parse c r iid =
     (let escaped = path_escape iid;
          base = trim_suffix (cl_http_base c) ''/'';
          origin = forwarded_origin C r
      in if origin \<noteq> '''' then
           (let path = (if base = '''' then durable_webhook_path
                  else case parse base of
                    Inr (host, p) \<Rightarrow> if p \<noteq> '''' then p else durable_webhook_path
                  | Inl e \<Rightarrow> durable_webhook_path)
            in origin @ path @ ''/instances/'' @ escaped)
         else if base \<noteq> '''' then base @ ''/instances/'' @ escaped
         else request_origin r @ durable_webhook_path @ ''/instances/'' @ escaped)"

record management =
  mu_id :: string
  mu_status_query :: string
  mu_send_event :: string
  mu_terminate :: string
  mu_rewind :: string
  mu_purge_history :: string
  mu_restart :: string
  mu_suspend :: string
  mu_resume :: string

definition management_urls :: "codec \<Rightarrow> url_parse \<Rightarrow> dclient \<Rightarrow> incoming option \<Rightarrow> string \<Rightarrow> management" where
  "management_urls C parse c r iid =
     (let instance_url = instance_url C parse c r iid;
          reason = ''reason={text}'';
          q = cl_query c
      in \<lparr>mu_id = iid,
          mu_status_query = with_query instance_url [q],
          mu_send_event = with_query (instance_url @ ''/raiseEvent/{eventName}'') [q],
          mu_terminate = with_query (instance_url @ ''/terminate'') [reason, q],
          mu_rewind = with_query (instance_url @ ''/rewind'') [reason, q],
          mu_purge_history = with_query instance_url [q],
          mu_restart = with_query (instance_url @ ''/restart'') [q],
          mu_suspend = with_query (instance_url @ ''/suspend'') [reason, q],
          mu_resume = with_query (instance_url @ ''/resume'') [reason, q]\<rparr>)"

subsection \<open>The replies\<close>

text \<open>The payload as the object \<open>encoding/json\<close> writes, fields in declaration order.\<close>

definition management_json :: "management \<Rightarrow> json" where
  "management_json m =
     JStruct [(''id'', JStr (mu_id m)), (''statusQueryGetUri'', JStr (mu_status_query m)),
       (''sendEventPostUri'', JStr (mu_send_event m)), (''terminatePostUri'', JStr (mu_terminate m)),
       (''rewindPostUri'', JStr (mu_rewind m)), (''purgeHistoryDeleteUri'', JStr (mu_purge_history m)),
       (''restartPostUri'', JStr (mu_restart m)), (''suspendPostUri'', JStr (mu_suspend m)),
       (''resumePostUri'', JStr (mu_resume m))]"

text \<open>\<open>Write\<close>'s error: the connection was taken over.\<close>

definition write_error :: "live_writer \<Rightarrow> go_error option" where
  "write_error w = (if lw_hijacked w then Some ''http: connection has been hijacked'' else None)"

definition write_check_status ::
    "codec \<Rightarrow> url_parse \<Rightarrow> (json \<Rightarrow> string result) \<Rightarrow> dclient \<Rightarrow> incoming option \<Rightarrow> string \<Rightarrow> live_writer \<Rightarrow>
     go_error option \<times> live_writer" where
  "write_check_status C parse marshal c r iid w =
     (case marshal (management_json (management_urls C parse c r iid)) of
        Inl e \<Rightarrow> (Some (''write check status response: '' @ e), w)
      | Inr body \<Rightarrow>
          (let w = lw_set ''Content-Type'' ''application/json'' w;
               w = lw_set ''Location'' (mu_status_query (management_urls C parse c r iid)) w;
               w = lw_set ''Retry-After'' ''10'' w
           in (write_error w, lw_write body (lw_write_header 202 w))))"

text \<open>
  \<open>json.RawMessage\<close>, as its text.  \<open>valid\<close> is \<open>json.Valid\<close>, \<open>quote\<close> is \<open>json.Marshal\<close> of a string.
\<close>

definition raw_json :: "(string \<Rightarrow> bool) \<Rightarrow> (string \<Rightarrow> string result) \<Rightarrow> string \<Rightarrow> string" where
  "raw_json valid quote s =
     (if s = '''' then ''null''
      else if valid s then s
      else (case quote s of Inl e \<Rightarrow> ''null'' | Inr q \<Rightarrow> q))"

record status_response =
  sr_name :: string
  sr_instance :: string
  sr_runtime :: string
  sr_input :: string
  sr_custom :: string
  sr_output :: string
  sr_times :: "(json \<times> json) option"

definition new_status_response ::
    "(string \<Rightarrow> bool) \<Rightarrow> (string \<Rightarrow> string result) \<Rightarrow> orchestration_metadata option \<Rightarrow> status_response" where
  "new_status_response valid quote m =
     (case m of
        None \<Rightarrow> \<lparr>sr_name = '''', sr_instance = '''', sr_runtime = '''', sr_input = '''', sr_custom = '''',
                 sr_output = '''', sr_times = None\<rparr>
      | Some om \<Rightarrow> \<lparr>sr_name = om_name om, sr_instance = om_instance om, sr_runtime = runtime_status m,
                 sr_input = raw_json valid quote (om_input om), sr_custom = raw_json valid quote (om_custom om),
                 sr_output = raw_json valid quote (om_output om), sr_times = Some (om_created om, om_updated om)\<rparr>)"

definition write_status ::
    "(string \<Rightarrow> bool) \<Rightarrow> (string \<Rightarrow> string result) \<Rightarrow> (status_response \<Rightarrow> string result) \<Rightarrow>
     orchestration_metadata option \<Rightarrow> live_writer \<Rightarrow> go_error option \<times> live_writer" where
  "write_status valid quote marshal m w =
     (case marshal (new_status_response valid quote m) of
        Inl e \<Rightarrow> (Some (''write status response: '' @ e), w)
      | Inr body \<Rightarrow> (write_error w, lw_write body (lw_set ''Content-Type'' ''application/json'' w)))"

subsection \<open>Lemmas\<close>

text \<open>The names Durable Functions uses, from the protobuf names.\<close>

lemma runtime_status_names:
  "map (\<lambda>s. runtime_status_string (''ORCHESTRATION_STATUS_'' @ s))
     [''PENDING'', ''RUNNING'', ''COMPLETED'', ''CONTINUED_AS_NEW'', ''FAILED'', ''TERMINATED'', ''SUSPENDED'', ''CANCELED''] =
   [''Pending'', ''Running'', ''Completed'', ''ContinuedAsNew'', ''Failed'', ''Terminated'', ''Suspended'', ''Canceled'']"
  by code_simp

text \<open>The other direction of \<open>path_escape\<close>, as \<open>url.PathUnescape\<close> has it.\<close>

definition upper_hex_value :: "char \<Rightarrow> nat option" where
  "upper_hex_value c =
     (let n = byte c in
      if 48 \<le> n \<and> n \<le> 57 then Some (n - 48)
      else if 65 \<le> n \<and> n \<le> 70 then Some (n - 55)
      else if 97 \<le> n \<and> n \<le> 102 then Some (n - 87) else None)"

fun path_unescape :: "string \<Rightarrow> string option" where
  "path_unescape [] = Some []"
| "path_unescape (c # s) =
     (if c = CHR ''%'' then
        (case s of
           a # b # t \<Rightarrow>
             (case (upper_hex_value a, upper_hex_value b) of
                (Some m, Some n) \<Rightarrow> map_option ((#) (char_of (16 * m + n))) (path_unescape t)
              | _ \<Rightarrow> None)
         | _ \<Rightarrow> None)
      else map_option ((#) c) (path_unescape s))"

lemma upper_hex_facts:
  "n < 16 \<Longrightarrow> upper_hex_value (upper_hex n) = Some n \<and> upper_hex n \<noteq> CHR ''/'' \<and> upper_hex n \<noteq> CHR ''?''"
proof -
  have "list_all (\<lambda>n. upper_hex_value (upper_hex n) = Some n \<and> upper_hex n \<noteq> CHR ''/'' \<and> upper_hex n \<noteq> CHR ''?'') [0..<16]"
    by code_simp
  then show "n < 16 \<Longrightarrow> ?thesis" by (simp only: list_all_iff set_upt) auto
qed

lemma path_safe_facts: "path_safe c \<Longrightarrow> c \<noteq> CHR ''%'' \<and> c \<noteq> CHR ''/'' \<and> c \<noteq> CHR ''?''"
proof -
  have "\<not> path_safe CHR ''%''" "\<not> path_safe CHR ''/''" "\<not> path_safe CHR ''?''" by code_simp+
  then show "path_safe c \<Longrightarrow> ?thesis" by auto
qed

lemma path_unescape_char: "path_unescape (escape_char c @ s) = map_option ((#) c) (path_unescape s)"
proof (cases "path_safe c")
  case True
  then show ?thesis using path_safe_facts by (simp add: escape_char_def)
next
  case False
  have "byte c < 256" by (simp add: byte_def)
  then have "byte c div 16 < 16" "byte c mod 16 < 16" by auto
  then have "upper_hex_value (upper_hex (byte c div 16)) = Some (byte c div 16)"
    "upper_hex_value (upper_hex (byte c mod 16)) = Some (byte c mod 16)"
    using upper_hex_facts by blast+
  moreover have "char_of (byte c) = c" by (simp add: byte_def)
  ultimately show ?thesis using False by (simp add: escape_char_def)
qed

lemma path_unescape_escape: "path_unescape (path_escape s) = Some s"
  by (induction s) (simp_all add: path_escape_def path_unescape_char)

lemma path_escape_plain: "c \<in> set (path_escape s) \<Longrightarrow> c \<noteq> CHR ''/'' \<and> c \<noteq> CHR ''?''"
proof (induction s)
  case (Cons d s)
  have "byte d < 256" by (simp add: byte_def)
  then have "byte d div 16 < 16" "byte d mod 16 < 16" by auto
  then have "c \<in> set (escape_char d) \<Longrightarrow> c \<noteq> CHR ''/'' \<and> c \<noteq> CHR ''?''"
    using upper_hex_facts path_safe_facts by (auto simp: escape_char_def split: if_splits)
  with Cons show ?case by (auto simp: path_escape_def)
qed (simp add: path_escape_def)

text \<open>The segment after a root, up to the next separator.\<close>

definition segment_after :: "string \<Rightarrow> string \<Rightarrow> string option" where
  "segment_after root url =
     (if has_prefix url root
      then path_unescape (takeWhile (\<lambda>c. c \<noteq> CHR ''/'' \<and> c \<noteq> CHR ''?'') (drop (length root) url)) else None)"

lemma segment_after_escaped:
  assumes "rest = '''' \<or> hd rest = CHR ''/'' \<or> hd rest = CHR ''?''"
  shows "segment_after root (root @ path_escape iid @ rest) = Some iid"
proof -
  have "takeWhile (\<lambda>c. c \<noteq> CHR ''/'' \<and> c \<noteq> CHR ''?'') (path_escape iid @ rest) = path_escape iid"
    using assms path_escape_plain [of _ iid] by (cases rest) (auto simp: takeWhile_append)
  then show ?thesis by (simp add: segment_after_def has_prefix_def path_unescape_escape)
qed

lemma instance_url_root: "instance_url C parse c r iid = instance_url C parse c r '''' @ path_escape iid"
  by (simp add: instance_url_def Let_def path_escape_def split: sum.split prod.split)

lemma with_query_rest:
  "\<exists>rest. with_query u fs = u @ rest \<and> (rest = '''' \<or> hd rest = CHR ''/'' \<or> hd rest = CHR ''?'')"
  by (simp add: with_query_def Let_def)

lemma segment_with_query:
  assumes "rest = '''' \<or> hd rest = CHR ''/''"
  shows "segment_after (instance_url C parse c r '''') (with_query (instance_url C parse c r iid @ rest) fs) = Some iid"
proof -
  obtain q where q: "with_query (instance_url C parse c r iid @ rest) fs = instance_url C parse c r iid @ rest @ q"
    "q = '''' \<or> hd q = CHR ''/'' \<or> hd q = CHR ''?''"
    using with_query_rest [of "instance_url C parse c r iid @ rest" fs] by auto
  have "rest @ q = '''' \<or> hd (rest @ q) = CHR ''/'' \<or> hd (rest @ q) = CHR ''?''"
    using assms q(2) by (cases rest) auto
  then have "segment_after (instance_url C parse c r '''') (instance_url C parse c r '''' @ path_escape iid @ rest @ q) = Some iid"
    by (rule segment_after_escaped)
  then show ?thesis unfolding q(1) by (simp add: instance_url_root [of C parse c r iid])
qed

definition management_list :: "management \<Rightarrow> string list" where
  "management_list m = [mu_status_query m, mu_send_event m, mu_terminate m, mu_rewind m, mu_purge_history m,
     mu_restart m, mu_suspend m, mu_resume m]"

subsection \<open>Properties\<close>

text \<open>
  Every management URL names its instance: whatever the identifier's characters, the segment after
  the instances' root decodes to it, so distinct instances have distinct URLs.  The root starts with
  what a proxy forwarded if it did, else with the binding's base URL, else with the request's origin.
\<close>

theorem management_urls_instance:
  "(\<forall>u \<in> set (management_list (management_urls C parse c r iid)). segment_after (instance_url C parse c r '''') u = Some iid) \<and>
   has_prefix (instance_url C parse c r '''')
     (if forwarded_origin C r \<noteq> '''' then forwarded_origin C r
      else if trim_suffix (cl_http_base c) ''/'' \<noteq> '''' then trim_suffix (cl_http_base c) ''/''
      else request_origin r)"
proof
  show "\<forall>u \<in> set (management_list (management_urls C parse c r iid)). segment_after (instance_url C parse c r '''') u = Some iid"
    using segment_with_query [of "''''"] segment_with_query [of "CHR ''/'' # _"]
    by (simp add: management_list_def management_urls_def Let_def)
qed (simp add: instance_url_def Let_def)

theorem management_urls_instance_witness:
  "\<forall>C parse. segment_after (instance_url C parse new_client None '''')
     (mu_terminate (management_urls C parse new_client None ''a/b?c'')) = Some ''a/b?c''"
proof (intro allI)
  fix C parse
  show "segment_after (instance_url C parse new_client None '''')
     (mu_terminate (management_urls C parse new_client None ''a/b?c'')) = Some ''a/b?c''"
    using management_urls_instance [of C parse new_client None "''a/b?c''"] by (simp add: management_list_def)
qed

end
