(* ===== verification/Durable_Middleware.thy ===== *)
theory Durable_Middleware
  imports Worker_Handlers Durable_Client Durable_Runner
begin

text \<open>
  The durable middleware itself: \<open>middleware/durabletask/durabletask.go\<close> (registration of orchestrators
  and activities, the clients handed to starters, shutdown), \<open>bindings.go\<close> and \<open>logging.go\<close>.
  \<open>task.TaskRegistry\<close>, \<open>encoding/json\<close> and user code are parameters.
\<close>

subsection \<open>Bindings\<close>

definition orchestration_trigger_type :: string where
  "orchestration_trigger_type = ''orchestrationTrigger''"

definition activity_trigger_type :: string where
  "activity_trigger_type = ''activityTrigger''"

definition durable_client_type :: string where
  "durable_client_type = ''durableClient''"

definition durable_client_param :: string where
  "durable_client_param = ''durableClient''"

definition orchestration_trigger :: trigger where
  "orchestration_trigger = T_Plain ''context'' orchestration_trigger_type"

definition activity_trigger :: trigger where
  "activity_trigger = T_Plain ''input'' activity_trigger_type"

definition durable_client_binding :: binding where
  "durable_client_binding = plain_binding durable_client_param durable_client_type ''in''"

definition client_input :: "'cf sdk_opt" where
  "client_input rf = Ret (rf\<lparr>rf_raw_bindings := rf_raw_bindings rf @ [durable_client_binding]\<rparr>)"

subsection \<open>Registration\<close>

text \<open>
  A registered function: its name, trigger, and what runs.  \<open>'o\<close> is an orchestrator; an
  activity is the type of its function.
\<close>

datatype 'o provided = Provided_Orchestrator string 'o | Provided_Activity string gtype

fun provided_name :: "'o provided \<Rightarrow> string" where
  "provided_name (Provided_Orchestrator n x) = n"
| "provided_name (Provided_Activity n t) = n"

fun provided_trigger :: "'o provided \<Rightarrow> trigger" where
  "provided_trigger (Provided_Orchestrator n x) = orchestration_trigger"
| "provided_trigger (Provided_Activity n t) = activity_trigger"

record ('o, 'r) durable =
  du_registry :: 'r
  du_provided :: "'o provided list"
  du_closed :: bool
  du_client :: "dclient option"
  du_owns_client :: bool
  du_binding_clients :: "(string, dclient) go_map option"

definition must_be_open :: "string \<Rightarrow> string \<Rightarrow> ('o, 'r) durable \<Rightarrow> (string, unit) outcome" where
  "must_be_open what name d =
     panic_if (du_closed d) (''durabletask: '' @ what @ ''('' @ go_quote name @
       '') was called after app.Use; register orchestrations '' @
       ''and activities before passing the middleware to app.Use, or supply them as options '' @
       ''(durabletask.Middleware(durabletask.With'' @ what @ ''(...)))'')"

text \<open>\<open>add\<close> is \<open>TaskRegistry.AddOrchestratorN\<close>.\<close>

definition orchestrator ::
    "(string \<Rightarrow> 'o \<Rightarrow> 'r \<Rightarrow> 'r result) \<Rightarrow> string \<Rightarrow> 'o \<Rightarrow> ('o, 'r) durable \<Rightarrow> (string, ('o, 'r) durable) outcome" where
  "orchestrator add name f d =
     bind_outcome (must_be_open ''Orchestrator'' name d) (\<lambda>_.
       case add name f (du_registry d) of
         Inl e \<Rightarrow> Panic (''durabletask: register orchestrator '' @ go_quote name @ '': '' @ e)
       | Inr r \<Rightarrow> Ret (d\<lparr>du_registry := r, du_provided := du_provided d @ [Provided_Orchestrator name f]\<rparr>))"

text \<open>The checks of \<open>validateActivity\<close>; \<open>None\<close> is the type of a nil interface.\<close>

definition validate_activity :: "tenv \<Rightarrow> string \<Rightarrow> gtype option \<Rightarrow> (string, unit) outcome" where
  "validate_activity E name fn =
     (let what = ''durabletask: activity '' @ go_quote name in
      case fn of
        None \<Rightarrow> Panic (what @ '' must be a function'')
      | Some t \<Rightarrow>
          (let ins = rt_in (tinfo E t); outs = rt_out (tinfo E t) in
           if kind_of E t \<noteq> K_Func then Panic (what @ '' must be a function'')
           else if length ins < 1 \<or> length ins > 2
           then Panic (what @ '' must accept (context.Context) or (context.Context, In), got '' @
             string_of_int (int (length ins)) @ '' args'')
           else if \<not> implements E (ins ! 0) I_Context
           then Panic (what @ '' first argument must be context.Context, got '' @ type_name E (ins ! 0))
           else if length outs < 1 \<or> length outs > 2
           then Panic (what @ '' must return (error) or (Out, error), got '' @
             string_of_int (int (length outs)) @ '' results'')
           else if \<not> implements E (outs ! (length outs - 1)) I_Error
           then Panic (what @ '' last return value must be error, got '' @ type_name E (outs ! (length outs - 1)))
           else Ret ()))"

definition activity ::
    "tenv \<Rightarrow> string \<Rightarrow> gtype option \<Rightarrow> ('o, 'r) durable \<Rightarrow> (string, ('o, 'r) durable) outcome" where
  "activity E name fn d =
     bind_outcome (must_be_open ''Activity'' name d) (\<lambda>_.
     bind_outcome (validate_activity E name fn) (\<lambda>_.
       case fn of
         None \<Rightarrow> Panic ''unreachable''
       | Some t \<Rightarrow> Ret (d\<lparr>du_provided := du_provided d @ [Provided_Activity name t]\<rparr>)))"

definition provided_functions :: "('o, 'r) durable \<Rightarrow> 'o provided list" where
  "provided_functions d = du_provided d"

definition seal_registration :: "('o, 'r) durable \<Rightarrow> ('o, 'r) durable" where
  "seal_registration d = d\<lparr>du_closed := True\<rparr>"

text \<open>Options of \<open>Middleware\<close>, and the constructor.\<close>

datatype 'o durable_option =
    With_Orchestrator string 'o
  | With_Activity string "gtype option"
  | With_Client "dclient option"

definition apply_option ::
    "tenv \<Rightarrow> (string \<Rightarrow> 'o \<Rightarrow> 'r \<Rightarrow> 'r result) \<Rightarrow> 'o durable_option \<Rightarrow> ('o, 'r) durable \<Rightarrow>
     (string, ('o, 'r) durable) outcome" where
  "apply_option E add opt d =
     (case opt of
        With_Orchestrator name f \<Rightarrow> orchestrator add name f d
      | With_Activity name fn \<Rightarrow> activity E name fn d
      | With_Client c \<Rightarrow> Ret (d\<lparr>du_client := c\<rparr>))"

fun apply_durable_options ::
    "tenv \<Rightarrow> (string \<Rightarrow> 'o \<Rightarrow> 'r \<Rightarrow> 'r result) \<Rightarrow> 'o durable_option list \<Rightarrow> ('o, 'r) durable \<Rightarrow>
     (string, ('o, 'r) durable) outcome" where
  "apply_durable_options E add [] d = Ret d"
| "apply_durable_options E add (opt # opts) d =
     bind_outcome (apply_option E add opt d) (apply_durable_options E add opts)"

definition durable_middleware ::
    "tenv \<Rightarrow> (string \<Rightarrow> 'o \<Rightarrow> 'r \<Rightarrow> 'r result) \<Rightarrow> 'r \<Rightarrow> net_env \<Rightarrow> string \<Rightarrow> 'o durable_option list \<Rightarrow> network \<Rightarrow>
     (string, ('o, 'r) durable) outcome \<times> network" where
  "durable_middleware E add registry N endpoint opts w =
     (case apply_durable_options E add opts
         \<lparr>du_registry = registry, du_provided = [], du_closed = False, du_client = None, du_owns_client = False,
          du_binding_clients = None\<rparr> of
        Panic p \<Rightarrow> (Panic p, w)
      | Ret d \<Rightarrow>
          (if du_client d \<noteq> None then (Ret d, w)
           else (case default_client_from_env N endpoint w of
                   (c, w') \<Rightarrow> (Ret (d\<lparr>du_client := c, du_owns_client := (c \<noteq> None)\<rparr>), w'))))"

subsection \<open>Clients for starters\<close>

text \<open>The payload of a durable client binding: the three fields, empty when absent.\<close>

record client_payload =
  cp_rpc :: string
  cp_http :: string
  cp_query :: string

definition cached_client ::
    "net_env \<Rightarrow> url_parse \<Rightarrow> client_payload \<Rightarrow> ('o, 'r) durable \<Rightarrow> network \<Rightarrow>
     dclient option \<times> ('o, 'r) durable \<times> network" where
  "cached_client N parse p d w =
     (let target = grpc_target parse (cp_rpc p) in
      case nil_lookup (du_binding_clients d) target of
        Some c \<Rightarrow> (Some c, d, w)
      | None \<Rightarrow>
          (case dial N target w of
             (Inl e, w') \<Rightarrow> (None, d, w')
           | (Inr c, w') \<Rightarrow>
               (let c = c\<lparr>cl_http_base := cp_http p, cl_query := cp_query p\<rparr> in
                (Some c, d\<lparr>du_binding_clients := make_put target c (du_binding_clients d)\<rparr>, w'))))"

text \<open>
  \<open>clientFromBinding\<close> on the input the binding delivered (\<open>mc.BindingInput\<close>'s result); \<open>None\<close>: not
  there.  \<open>decode\<close> is \<open>json.Unmarshal\<close> into the payload.
\<close>

definition client_from_binding ::
    "net_env \<Rightarrow> url_parse \<Rightarrow> (string \<Rightarrow> client_payload result) \<Rightarrow> string option option \<Rightarrow> ('o, 'r) durable \<Rightarrow> network \<Rightarrow>
     dclient option \<times> ('o, 'r) durable \<times> network" where
  "client_from_binding N parse decode input d w =
     (case input of
        Some (Some raw) \<Rightarrow>
          (if raw = '''' then (None, d, w)
           else (case decode raw of
                   Inl e \<Rightarrow> (None, d, w)
                 | Inr p \<Rightarrow> if cp_rpc p = '''' then (None, d, w) else cached_client N parse p d w))
      | _ \<Rightarrow> (None, d, w))"

subsection \<open>The middleware's handler and its shutdown\<close>

text \<open>A context as the chain of durable clients put on it.\<close>

datatype 'c durable_context = DC_Base 'c | DC_Client dclient "'c durable_context"

fun client_from_context :: "'c durable_context \<Rightarrow> dclient option" where
  "client_from_context (DC_Base c) = None"
| "client_from_context (DC_Client c ctx) = Some c"

text \<open>What the handlers share: the carrier (\<open>None\<close>: nil), the middleware, the network, the rest.\<close>

record ('o, 'r, 'w) durable_world =
  dw_mc :: "ret_value middleware_context option"
  dw_durable :: "('o, 'r) durable"
  dw_network :: network
  dw_rest :: 'w

definition nil_dereference :: string where
  "nil_dereference = ''runtime error: invalid memory address or nil pointer dereference''"

definition trigger_type_of :: "ret_value middleware_context option \<Rightarrow> (string, string) outcome" where
  "trigger_type_of mc =
     (case mc of
        None \<Rightarrow> Ret ''''
      | Some m \<Rightarrow> (case mc_invocation m of None \<Rightarrow> Panic nil_dereference | Some ic \<Rightarrow> Ret (ic_trigger_type ic)))"

definition attach_client ::
    "net_env \<Rightarrow> url_parse \<Rightarrow> (string \<Rightarrow> client_payload result) \<Rightarrow> ('o, 'r, 'w) durable_world \<Rightarrow>
     dclient option \<times> ('o, 'r, 'w) durable_world" where
  "attach_client N parse decode s =
     (let (input, mc) = (case dw_mc s of
              None \<Rightarrow> (None, None)
            | Some m \<Rightarrow> (case binding_input durable_client_param m of (i, m') \<Rightarrow> (i, Some m')));
          (c, d, w) = client_from_binding N parse decode input (dw_durable s) (dw_network s)
      in (if c \<noteq> None then c else du_client d, s\<lparr>dw_mc := mc, dw_durable := d, dw_network := w\<rparr>))"

definition durable_wrap ::
    "net_env \<Rightarrow> url_parse \<Rightarrow> (string \<Rightarrow> client_payload result) \<Rightarrow>
     ('c durable_context, ('o, 'r, 'w) durable_world) handler \<Rightarrow> ('c durable_context, ('o, 'r, 'w) durable_world) handler" where
  "durable_wrap N parse decode nxt ctx s =
     (case trigger_type_of (dw_mc s) of
        Panic p \<Rightarrow> (Panic p, s)
      | Ret ty \<Rightarrow>
          if ty = orchestration_trigger_type then nxt ctx s
          else (case attach_client N parse decode s of
                  (None, s') \<Rightarrow> nxt ctx s'
                | (Some c, s') \<Rightarrow> nxt (DC_Client c ctx) s'))"

text \<open>The loop over the cached clients; the order of the map is that of the list.\<close>

fun close_all :: "net_env \<Rightarrow> dclient list \<Rightarrow> go_error option \<Rightarrow> network \<Rightarrow> go_error option \<times> network" where
  "close_all N [] first_err w = (first_err, w)"
| "close_all N (c # cs) first_err w =
     (case close_client N c w of
        (e, w') \<Rightarrow> close_all N cs (if e \<noteq> None \<and> first_err = None then e else first_err) w')"

definition durable_shutdown ::
    "net_env \<Rightarrow> ('o, 'r) durable \<Rightarrow> network \<Rightarrow> go_error option \<times> ('o, 'r) durable \<times> network" where
  "durable_shutdown N d w =
     (let (first_err, w) = (case du_client d of
              Some c \<Rightarrow> if du_owns_client d then close_client N c w else (None, w)
            | None \<Rightarrow> (None, w));
          (first_err, w) = close_all N (map snd (case du_binding_clients d of None \<Rightarrow> [] | Some m \<Rightarrow> m)) first_err w
      in (first_err, d\<lparr>du_binding_clients := None\<rparr>, w))"

subsection \<open>The registered functions\<close>

text \<open>The orchestrator adapter: the carrier's input, if there is a carrier, else the argument.\<close>

definition orchestrator_adapter ::
    "wire \<Rightarrow> ('e, 'x) engine \<Rightarrow> 'v middleware_context option \<Rightarrow> string \<Rightarrow> string result option" where
  "orchestrator_adapter W En carrier encoded =
     load_and_run W En (case carrier of None \<Rightarrow> encoded | Some mc \<Rightarrow> input_string mc)"

text \<open>
  \<open>reflect.Value.Call\<close> and \<open>IsNil\<close>: an argument must be fits_param to its parameter (\<open>fits_param\<close>, from the
  types), a variadic parameter takes elements and not the slice, and only some kinds can be nil.
\<close>

definition nillable :: "kind \<Rightarrow> bool" where
  "nillable k \<longleftrightarrow> k \<in> {K_Chan, K_Func, K_Interface, K_Map, K_Ptr, K_Slice, K_UnsafePointer}"

definition call_accepts :: "tenv \<Rightarrow> (gtype \<Rightarrow> gtype \<Rightarrow> bool) \<Rightarrow> gtype \<Rightarrow> gtype list \<Rightarrow> bool" where
  "call_accepts E fits_param ft args \<longleftrightarrow>
     (let ins = rt_in (tinfo E ft) in
      if rt_variadic (tinfo E ft)
      then length args \<ge> length ins - 1 \<and> list_all2 fits_param (take (length ins - 1) args) (butlast ins) \<and>
           list_all (\<lambda>a. fits_param a (elem_of E (last ins))) (drop (length ins - 1) args)
      else list_all2 fits_param args ins)"

text \<open>
  The adapter of an activity.  User code returns its value, if it has one, and its last result's error
  (\<open>None\<close>: nil).  \<open>ctx_type\<close> is the dynamic type of the context.
\<close>

record ('c, 'w) activity_env =
  ae_types :: tenv
  ae_unmarshal :: "gtype \<Rightarrow> string \<Rightarrow> go_value step"
  ae_assignable :: "gtype \<Rightarrow> gtype \<Rightarrow> bool"
  ae_context_type :: gtype
  ae_user :: "'c \<Rightarrow> go_value option \<Rightarrow> 'w \<Rightarrow> (string, go_value option \<times> go_error option) outcome \<times> 'w"

definition activity_argument :: "('c, 'w) activity_env \<Rightarrow> gtype \<Rightarrow> string \<Rightarrow> go_value option step" where
  "activity_argument A ft raw =
     (let ins = rt_in (tinfo (ae_types A) ft) in
      if length ins \<noteq> 2 then ok None
      else if raw = '''' then ok (Some (GV_Zero (ins ! 1)))
      else (case ae_unmarshal A (ins ! 1) raw of
              Panic p \<Rightarrow> Panic p
            | Ret (Inl e) \<Rightarrow> err (''durabletask: decode activity input: '' @ e)
            | Ret (Inr v) \<Rightarrow> ok (Some v)))"

definition activity_input_decoder ::
    "('c, 'w) activity_env \<Rightarrow> gtype \<Rightarrow> 'c \<Rightarrow> string \<Rightarrow> 'w \<Rightarrow>
     (string, go_value option \<times> go_error option) outcome \<times> 'w" where
  "activity_input_decoder A ft ctx raw w =
     (let E = ae_types A; ins = rt_in (tinfo E ft); outs = rt_out (tinfo E ft) in
      case activity_argument A ft raw of
        Panic p \<Rightarrow> (Panic p, w)
      | Ret (Inl e) \<Rightarrow> (Ret (None, Some e), w)
      | Ret (Inr arg) \<Rightarrow>
          if \<not> call_accepts E (ae_assignable A) ft (ae_context_type A # (if length ins = 2 then [ins ! 1] else []))
          then (Panic ''reflect: Call using a value not assignable to its parameter'', w)
          else (case ae_user A ctx arg w of
                  (Panic p, w') \<Rightarrow> (Panic p, w')
                | (Ret (v, e), w') \<Rightarrow>
                    if \<not> nillable (kind_of E (last outs))
                    then (Panic ''reflect: call of reflect.Value.IsNil on a value that cannot be nil'', w')
                    else (Ret (if length outs = 2 then v else None, e), w')))"

subsection \<open>Logging during replay\<close>

text \<open>A \<open>slog.Handler\<close> by its four methods, on handlers of type \<open>'h\<close>.\<close>

record ('h, 'c, 'a, 'l, 'w) slog_ops =
  so_enabled :: "'h \<Rightarrow> 'c \<Rightarrow> int \<Rightarrow> bool"
  so_handle :: "'h \<Rightarrow> 'c \<Rightarrow> 'l \<Rightarrow> 'w \<Rightarrow> go_error option \<times> 'w"
  so_with_attrs :: "'h \<Rightarrow> 'a list \<Rightarrow> 'h"
  so_with_group :: "'h \<Rightarrow> string \<Rightarrow> 'h"

record ('h, 'c) replay_handler =
  rl_handler :: 'h
  rl_invocation :: 'c

definition replay_log_handler ::
    "('h, 'c, 'a, 'l, 'w) slog_ops \<Rightarrow> (('h, 'c) replay_handler, 'd, 'a, 'l, 'w) slog_ops" where
  "replay_log_handler B =
     \<lparr>so_enabled = (\<lambda>h _ level. so_enabled B (rl_handler h) (rl_invocation h) level),
      so_handle = (\<lambda>h _ rec w. so_handle B (rl_handler h) (rl_invocation h) rec w),
      so_with_attrs = (\<lambda>h attrs. \<lparr>rl_handler = so_with_attrs B (rl_handler h) attrs, rl_invocation = rl_invocation h\<rparr>),
      so_with_group = (\<lambda>h name. \<lparr>rl_handler = so_with_group B (rl_handler h) name, rl_invocation = rl_invocation h\<rparr>)\<rparr>"

subsection \<open>As a middleware of the SDK\<close>

text \<open>\<open>hv\<close> is the function value of a registration: the adapter's closure.\<close>

definition provided_registration :: "('o provided \<Rightarrow> handler_value) \<Rightarrow> 'o provided \<Rightarrow> 'cf function_registration" where
  "provided_registration hv p =
     \<lparr>fr_name = provided_name p, fr_func = hv p, fr_trigger = provided_trigger p, fr_options = []\<rparr>"

definition durable_as_middleware ::
    "('o provided \<Rightarrow> handler_value) \<Rightarrow> (('c, 's) handler \<Rightarrow> ('c, 's) handler) \<Rightarrow> 'w shutdown \<Rightarrow> ('o, 'r) durable \<Rightarrow>
     ('c, 's, 'w, 'cf) middleware" where
  "durable_as_middleware hv wrap stop d =
     \<lparr>mw_wrap = wrap, mw_capabilities = None, mw_shutdown = Some stop,
      mw_functions = Some (map (provided_registration hv) (provided_functions d)), mw_sealer = True\<rparr>"

subsection \<open>Lemmas\<close>

lemma nil_lookup_None [simp]: "nil_lookup None k = None"
  and nil_lookup_Some [simp]: "nil_lookup (Some m) k = map_of m k"
  by (simp_all add: nil_lookup_def)

lemma map_put_fresh: "map_of m k = None \<Longrightarrow> map_put k v m = m @ [(k, v)]"
  by (induction m) (auto simp: map_put_def split: if_splits)

lemma dial_cases:
  assumes "dial N t w = (r, w')"
  obtains e where "r = Inl e" and "w' = w"
    | "r = Inr (new_client\<lparr>cl_conn := Some (length (nw_dialled w))\<rparr>)" and "w' = w\<lparr>nw_dialled := nw_dialled w @ [t]\<rparr>"
proof (cases "ne_dial N t")
  case None
  with assms have "r = Inr (new_client\<lparr>cl_conn := Some (length (nw_dialled w))\<rparr>) \<and> w' = w\<lparr>nw_dialled := nw_dialled w @ [t]\<rparr>"
    by (simp add: dial_def eq_commute)
  with that(2) show ?thesis by blast
next
  case (Some e)
  with assms have "r = Inl (''durabletask: dial '' @ go_quote t @ '': '' @ e) \<and> w' = w" by (simp add: dial_def eq_commute)
  with that(1) show ?thesis by blast
qed

text \<open>The connections a middleware owns, in the order \<open>Shutdown\<close> closes them.\<close>

definition cached_clients :: "('o, 'r) durable \<Rightarrow> (string, dclient) go_map" where
  "cached_clients d = (case du_binding_clients d of None \<Rightarrow> [] | Some m \<Rightarrow> m)"

definition conns_of :: "dclient list \<Rightarrow> nat list" where
  "conns_of cs = List.map_filter cl_conn cs"

definition own_conns :: "('o, 'r) durable \<Rightarrow> nat list" where
  "own_conns d =
     (if du_owns_client d then conns_of (case du_client d of None \<Rightarrow> [] | Some c \<Rightarrow> [c]) else []) @
     conns_of (map snd (cached_clients d))"

text \<open>
  The invariant: the connections made since the middleware was constructed are its own, each once, and
  every cached client is connected to the endpoint it is cached for.
\<close>

definition clients_ok :: "nat \<Rightarrow> ('o, 'r) durable \<Rightarrow> network \<Rightarrow> bool" where
  "clients_ok n d w \<longleftrightarrow>
     n \<le> length (nw_dialled w) \<and> mset (own_conns d) = mset [n..<length (nw_dialled w)] \<and>
     wf_map (cached_clients d) \<and>
     (\<forall>t c. map_of (cached_clients d) t = Some c \<longrightarrow>
        (\<exists>k < length (nw_dialled w). cl_conn c = Some k \<and> nw_dialled w ! k = t))"

lemma cached_clients_lookup [simp]: "map_of (cached_clients d) t = nil_lookup (du_binding_clients d) t"
  by (simp add: cached_clients_def split: option.split)

lemma cached_clients_put:
  "nil_lookup (du_binding_clients d) t = None \<Longrightarrow>
   cached_clients (d\<lparr>du_binding_clients := make_put t c (du_binding_clients d)\<rparr>) = cached_clients d @ [(t, c)]"
  by (cases "du_binding_clients d") (simp_all add: cached_clients_def make_put_def map_put_fresh)

lemma conns_of_simps [simp]:
  "conns_of [] = []" "conns_of (xs @ ys) = conns_of xs @ conns_of ys"
  "conns_of [c] = (case cl_conn c of None \<Rightarrow> [] | Some k \<Rightarrow> [k])"
  "conns_of (c # cs) = (case cl_conn c of None \<Rightarrow> [] | Some k \<Rightarrow> [k]) @ conns_of cs"
  by (simp_all add: conns_of_def map_filter_def split: option.split)

lemma clients_ok_cached:
  assumes ok: "clients_ok n d w" and c: "cached_client N parse p d w = (r, d', w')"
  shows "clients_ok n d' w' \<and> nw_closed w' = nw_closed w"
proof (cases "nil_lookup (du_binding_clients d) (grpc_target parse (cp_rpc p))")
  case (Some c)
  with assms show ?thesis by (simp add: cached_client_def)
next
  case None
  let ?t = "grpc_target parse (cp_rpc p)" and ?n = "length (nw_dialled w)"
  obtain q u where q: "dial N ?t w = (q, u)" by fastforce
  then show ?thesis
  proof (cases rule: dial_cases)
    case (1 e)
    with q None assms show ?thesis by (simp add: cached_client_def Let_def)
  next
    case 2
    define cl where "cl = new_client\<lparr>cl_conn := Some ?n, cl_http_base := cp_http p, cl_query := cp_query p\<rparr>"
    have e: "d' = d\<lparr>du_binding_clients := make_put ?t cl (du_binding_clients d)\<rparr>" "w' = u"
      using q None c 2 by (simp_all add: cached_client_def Let_def cl_def)
    have cc: "cached_clients d' = cached_clients d @ [(?t, cl)]" unfolding e by (rule cached_clients_put [OF None])
    have "own_conns d' = own_conns d @ [?n]" using cc by (simp add: own_conns_def e(1) cl_def)
    moreover have "wf_map (cached_clients d')"
    proof -
      have "?t \<notin> fst ` set (cached_clients d)"
        using None cached_clients_lookup [of d ?t] by (simp only: map_of_eq_None_iff [symmetric])
      with ok show ?thesis by (simp add: clients_ok_def cc wf_map_def)
    qed
    moreover have "\<exists>k < length (nw_dialled w'). cl_conn c = Some k \<and> nw_dialled w' ! k = t"
      if "nil_lookup (du_binding_clients d') t = Some c" for t c
    proof (cases "t = ?t")
      case True
      with that have "c = cl" by (simp add: e)
      then show ?thesis by (auto simp: True e(2) 2(2) cl_def)
    next
      case False
      with that have "nil_lookup (du_binding_clients d) t = Some c" by (simp add: e)
      with ok obtain k where "k < ?n" "cl_conn c = Some k" "nw_dialled w ! k = t" by (auto simp: clients_ok_def)
      then show ?thesis by (auto simp: e 2 nth_append intro!: exI [of _ k])
    qed
    ultimately show ?thesis using ok by (simp add: clients_ok_def e(2) 2(2))
  qed
qed

lemma clients_ok_binding:
  assumes "clients_ok n d w" and "client_from_binding N parse decode input d w = (r, d', w')"
  shows "clients_ok n d' w' \<and> nw_closed w' = nw_closed w"
  using assms clients_ok_cached
  by (auto simp: client_from_binding_def split: option.splits if_splits sum.splits) blast+

text \<open>The state after a list of invocations, by the input of the durable client binding.\<close>

definition after_invocations ::
    "net_env \<Rightarrow> url_parse \<Rightarrow> (string \<Rightarrow> client_payload result) \<Rightarrow> string option option list \<Rightarrow>
     ('o, 'r) durable \<times> network \<Rightarrow> ('o, 'r) durable \<times> network" where
  "after_invocations N parse decode inputs =
     fold (\<lambda>i (d, w). snd (client_from_binding N parse decode i d w)) inputs"

lemma clients_ok_invocations:
  assumes "clients_ok n d w"
  shows "case after_invocations N parse decode inputs (d, w) of
    (d', w') \<Rightarrow> clients_ok n d' w' \<and> nw_closed w' = nw_closed w"
  using assms
proof (induction inputs arbitrary: d w)
  case (Cons i inputs)
  obtain r d' w' where "client_from_binding N parse decode i d w = (r, d', w')" by (metis prod_cases3)
  with Cons.prems clients_ok_binding Cons.IH [of d' w'] show ?case
    by (fastforce simp: after_invocations_def)
qed (simp add: after_invocations_def)

lemma orchestrator_frame:
  "orchestrator add name f d = Ret d' \<Longrightarrow> \<exists>r. d' = d\<lparr>du_registry := r, du_provided := du_provided d @ [Provided_Orchestrator name f]\<rparr>"
  by (auto simp: orchestrator_def must_be_open_def bind_outcome_Ret_iff split: sum.splits)

lemma activity_frame:
  "activity E name fn d = Ret d' \<Longrightarrow> \<exists>t. fn = Some t \<and> d' = d\<lparr>du_provided := du_provided d @ [Provided_Activity name t]\<rparr>"
  by (auto simp: activity_def must_be_open_def bind_outcome_Ret_iff split: option.splits)

lemma options_frame:
  "apply_durable_options E add opts d = Ret d' \<Longrightarrow>
   du_owns_client d' = du_owns_client d \<and> du_binding_clients d' = du_binding_clients d"
proof (induction opts arbitrary: d)
  case (Cons opt opts)
  obtain d1 where d1: "apply_option E add opt d = Ret d1" "apply_durable_options E add opts d1 = Ret d'"
    using Cons.prems by (auto simp: bind_outcome_Ret_iff)
  have "du_owns_client d1 = du_owns_client d \<and> du_binding_clients d1 = du_binding_clients d"
    using d1(1) by (cases opt) (auto simp: apply_option_def dest!: orchestrator_frame activity_frame)
  with Cons.IH [OF d1(2)] show ?case by simp
qed simp

lemma clients_ok_middleware:
  assumes "durable_middleware E add registry N endpoint opts w = (Ret d, w')"
  shows "clients_ok (length (nw_dialled w)) d w' \<and> nw_closed w' = nw_closed w"
proof -
  obtain d1 where d1: "apply_durable_options E add opts
      \<lparr>du_registry = registry, du_provided = [], du_closed = False, du_client = None, du_owns_client = False,
       du_binding_clients = None\<rparr> = Ret d1"
    using assms by (auto simp: durable_middleware_def split: outcome.splits)
  note f = options_frame [OF d1, simplified]
  show ?thesis
  proof (cases "du_client d1 = None \<and> endpoint \<noteq> ''''")
    case False
    then have "d = d1\<lparr>du_client := du_client d1, du_owns_client := False\<rparr>" "w' = w"
      using assms d1 f
      by (cases "du_client d1"; simp add: durable_middleware_def default_client_from_env_def; auto)+
    with f show ?thesis by (simp add: clients_ok_def own_conns_def cached_clients_def)
  next
    case True
    obtain q u where q: "dial N endpoint w = (q, u)" by fastforce
    then show ?thesis
      by (cases rule: dial_cases)
        (use True q assms d1 f in \<open>auto simp: durable_middleware_def default_client_from_env_def clients_ok_def
           own_conns_def cached_clients_def\<close>)
  qed
qed

lemma close_all_closed:
  "close_all N cs e w = (e', w') \<Longrightarrow> w' = w\<lparr>nw_closed := nw_closed w @ conns_of cs\<rparr>"
proof (induction cs arbitrary: e w)
  case (Cons c cs)
  show ?case
  proof (cases "cl_conn c")
    case None
    with Cons show ?thesis by (auto simp: close_client_def)
  next
    case (Some k)
    with Cons.prems show ?thesis by (auto simp: close_client_def dest!: Cons.IH)
  qed
qed simp

lemma shutdown_closes:
  assumes "durable_shutdown N d w = (e, d', w')"
  shows "w' = w\<lparr>nw_closed := nw_closed w @ own_conns d\<rparr> \<and> du_binding_clients d' = None"
  using assms
  by (auto simp: durable_shutdown_def own_conns_def cached_clients_def close_client_def Let_def
      split: option.splits if_splits prod.splits dest!: close_all_closed)

text \<open>
  Setting up: registrations and the \<open>App.Use\<close> that takes the functions and seals the middleware.  A
  registration that panics leaves the middleware as it was; the last two components are what \<open>Use\<close>
  took and the names registered without a panic.
\<close>

datatype 'o setup_op = Setup_Orchestrator string 'o | Setup_Activity string "gtype option" | Setup_Use

type_synonym ('o, 'r) setup_state = "('o, 'r) durable \<times> 'o provided list option \<times> string list"

definition setup_step ::
    "tenv \<Rightarrow> (string \<Rightarrow> 'o \<Rightarrow> 'r \<Rightarrow> 'r result) \<Rightarrow> 'o setup_op \<Rightarrow> ('o, 'r) setup_state \<Rightarrow> ('o, 'r) setup_state" where
  "setup_step E add op s =
     (case s of (d, taken, names) \<Rightarrow>
        (case op of
           Setup_Orchestrator name f \<Rightarrow>
             (case orchestrator add name f d of Ret d' \<Rightarrow> (d', taken, names @ [name]) | Panic p \<Rightarrow> s)
         | Setup_Activity name fn \<Rightarrow>
             (case activity E name fn d of Ret d' \<Rightarrow> (d', taken, names @ [name]) | Panic p \<Rightarrow> s)
         | Setup_Use \<Rightarrow> (seal_registration d, Some (provided_functions d), names)))"

definition setup_ok :: "('o, 'r) setup_state \<Rightarrow> bool" where
  "setup_ok s \<longleftrightarrow>
     (case s of (d, taken, names) \<Rightarrow>
        map provided_name (du_provided d) = names \<and> du_closed d = (taken \<noteq> None) \<and>
        (\<forall>fs. taken = Some fs \<longrightarrow> fs = du_provided d))"

lemma orchestrator_closed: "du_closed d \<Longrightarrow> \<exists>p. orchestrator add name f d = Panic p"
  and activity_closed: "du_closed d \<Longrightarrow> \<exists>p. activity E name fn d = Panic p"
  by (simp_all add: orchestrator_def activity_def must_be_open_def panic_if_def bind_outcome_def)

lemma setup_ok_step: "setup_ok s \<Longrightarrow> setup_ok (setup_step E add op s)"
proof -
  assume ok: "setup_ok s"
  obtain d taken names where s: "s = (d, taken, names)" by (metis prod_cases3)
  show "setup_ok (setup_step E add op s)"
  proof (cases op)
    case (Setup_Orchestrator name f)
    with ok orchestrator_closed [of d add name f] show ?thesis
      by (cases "orchestrator add name f d") (auto simp: s setup_ok_def setup_step_def dest!: orchestrator_frame)
  next
    case (Setup_Activity name fn)
    with ok activity_closed [of d E name fn] show ?thesis
      by (cases "activity E name fn d") (auto simp: s setup_ok_def setup_step_def dest!: activity_frame)
  next
    case Setup_Use
    with ok show ?thesis by (simp add: s setup_ok_def setup_step_def seal_registration_def provided_functions_def)
  qed
qed

lemma setup_ok_run: "setup_ok s \<Longrightarrow> setup_ok (fold (setup_step E add) ops s)"
  by (induction ops arbitrary: s) (simp_all add: setup_ok_step)

subsection \<open>Properties\<close>

text \<open>
  C35. No durable registration is lost: in whatever order orchestrators and activities are registered
  and the middleware is passed to the application, once it has been, what the application took is
  exactly what was registered without a panic, in order.
\<close>

theorem no_lost_registration:
  assumes "map provided_name (du_provided d) = names" and "\<not> du_closed d"
    and "fold (setup_step E add) ops (d, None, names) = (d', Some fs, names')"
  shows "fs = du_provided d' \<and> map provided_name fs = names'"
proof -
  have "setup_ok (d, None, names)" using assms(1,2) by (simp add: setup_ok_def)
  from setup_ok_run [OF this] assms(3) show ?thesis by (metis (mono_tags, lifting) old.prod.case setup_ok_def)
qed

definition fresh_durable :: "(unit, string list) durable" where
  "fresh_durable = \<lparr>du_registry = [], du_provided = [], du_closed = False, du_client = None, du_owns_client = False,
     du_binding_clients = None\<rparr>"

definition add_once :: "string \<Rightarrow> unit \<Rightarrow> string list \<Rightarrow> string list result" where
  "add_once name f r = (if name \<in> set r then Inl ''already registered'' else Inr (name # r))"

theorem no_lost_registration_witness:
  "case fold (setup_step [] add_once) [Setup_Orchestrator ''a'' (), Setup_Orchestrator ''a'' (), Setup_Use, Setup_Orchestrator ''b'' ()]
      (fresh_durable, None, []) of
    (d, taken, names) \<Rightarrow> taken = Some (du_provided d) \<and> names = [''a'']"
proof -
  let ?ops = "[Setup_Orchestrator ''a'' (), Setup_Orchestrator ''a'' (), Setup_Use, Setup_Orchestrator ''b'' ()]"
  obtain d fs names where r: "fold (setup_step [] add_once) ?ops (fresh_durable, None, []) = (d, Some fs, names)" "names = [''a'']"
    by (simp add: setup_step_def orchestrator_def must_be_open_def panic_if_def bind_outcome_def fresh_durable_def add_once_def
        seal_registration_def provided_functions_def)
  with no_lost_registration [OF _ _ r(1)] show ?thesis by (simp add: fresh_durable_def)
qed

text \<open>
  C34. The middleware closes what it dialled and nothing else: after any invocations, shutting down
  closes each connection made since the middleware was constructed exactly once, and none made before;
  until then it closes nothing, and a client cached for an endpoint is connected to that endpoint.
\<close>

theorem durable_clients_closed:
  assumes "durable_middleware E add registry N endpoint opts w = (Ret d, w1)"
    and "after_invocations N parse decode inputs (d, w1) = (d2, w2)"
    and "durable_shutdown N d2 w2 = (e, d3, w3)"
  shows "(\<exists>closed. nw_closed w3 = nw_closed w @ closed \<and>
      mset closed = mset [length (nw_dialled w)..<length (nw_dialled w3)]) \<and>
    nw_closed w2 = nw_closed w \<and> du_binding_clients d3 = None \<and>
    (nil_lookup (du_binding_clients d2) t = Some c \<longrightarrow>
      (\<exists>k < length (nw_dialled w2). cl_conn c = Some k \<and> nw_dialled w2 ! k = t))"
proof -
  have m: "clients_ok (length (nw_dialled w)) d w1" "nw_closed w1 = nw_closed w"
    using clients_ok_middleware [OF assms(1)] by simp_all
  have i: "clients_ok (length (nw_dialled w)) d2 w2" "nw_closed w2 = nw_closed w"
    using clients_ok_invocations [OF m(1), of N parse decode inputs] m(2) by (simp_all add: assms(2))
  have "w3 = w2\<lparr>nw_closed := nw_closed w2 @ own_conns d2\<rparr>" "du_binding_clients d3 = None"
    using shutdown_closes [OF assms(3)] by simp_all
  with i show ?thesis by (auto simp: clients_ok_def)
qed

definition sample_net :: net_env where
  "sample_net = \<lparr>ne_dial = (\<lambda>t. None), ne_close = (\<lambda>k. None)\<rparr>"

definition sample_payload :: "string \<Rightarrow> client_payload result" where
  "sample_payload raw = Inr \<lparr>cp_rpc = raw, cp_http = '''', cp_query = ''''\<rparr>"

theorem durable_clients_closed_witness:
  "case durable_middleware [] add_once [] sample_net ''env:1'' [] \<lparr>nw_dialled = [''other:9''], nw_closed = []\<rparr> of
    (Ret d, w1) \<Rightarrow>
      (case after_invocations sample_net (\<lambda>u. Inl ''bare'') sample_payload [Some (Some ''a:1''), None, Some (Some ''a:1'')] (d, w1) of
        (d2, w2) \<Rightarrow> (case durable_shutdown sample_net d2 w2 of
          (e, d3, w3) \<Rightarrow> nw_dialled w3 = [''other:9'', ''env:1'', ''a:1''] \<and> mset (nw_closed w3) = mset [1, 2]))
  | _ \<Rightarrow> False"
proof -
  let ?w = "\<lparr>nw_dialled = [''other:9''], nw_closed = []\<rparr>"
  obtain d w1 where m: "durable_middleware [] add_once [] sample_net ''env:1'' [] ?w = (Ret d, w1)"
    by (simp add: durable_middleware_def default_client_from_env_def dial_def sample_net_def)
  obtain d2 w2 where i: "after_invocations sample_net (\<lambda>u. Inl ''bare'') sample_payload
      [Some (Some ''a:1''), None, Some (Some ''a:1'')] (d, w1) = (d2, w2)" by fastforce
  obtain e d3 w3 where s: "durable_shutdown sample_net d2 w2 = (e, d3, w3)" by (metis prod_cases3)
  have "d = \<lparr>du_registry = [], du_provided = [], du_closed = False, du_client = Some (new_client\<lparr>cl_conn := Some 1\<rparr>),
      du_owns_client = True, du_binding_clients = None\<rparr>" "w1 = \<lparr>nw_dialled = [''other:9'', ''env:1''], nw_closed = []\<rparr>"
    using m by (simp_all add: durable_middleware_def default_client_from_env_def dial_def sample_net_def)
  then have "nw_dialled w2 = [''other:9'', ''env:1'', ''a:1'']"
    using i by (auto simp: after_invocations_def client_from_binding_def sample_payload_def cached_client_def
        grpc_target_def Let_def dial_def sample_net_def make_put_def)
  moreover have "nw_dialled w3 = nw_dialled w2" using shutdown_closes [OF s] by simp
  ultimately show ?thesis
    using durable_clients_closed [OF m i s, of _ new_client] m i s by (auto simp: upt_rec)
qed

text \<open>
  Middleware and clients: an orchestration's handler runs in the context it was given and nothing is
  dialled for it; any other invocation runs its handler once, in a context whose client is the one
  the host's binding led to, else the configured one, else whichever the context already had.
\<close>

theorem durable_wrap_client:
  assumes "trigger_type_of (dw_mc s) = Ret ty"
  shows "(ty = orchestration_trigger_type \<longrightarrow> durable_wrap N parse decode nxt ctx s = nxt ctx s) \<and>
    (ty \<noteq> orchestration_trigger_type \<longrightarrow>
      (\<exists>ctx' s' input c d w. durable_wrap N parse decode nxt ctx s = nxt ctx' s' \<and>
        input = (case dw_mc s of None \<Rightarrow> None | Some m \<Rightarrow> fst (binding_input durable_client_param m)) \<and>
        client_from_binding N parse decode input (dw_durable s) (dw_network s) = (c, d, w) \<and>
        dw_durable s' = d \<and> dw_network s' = w \<and> dw_rest s' = dw_rest s \<and>
        client_from_context ctx' =
          (if c \<noteq> None then c else if du_client d \<noteq> None then du_client d else client_from_context ctx)))"
proof -
  obtain input mc where i: "(case dw_mc s of None \<Rightarrow> (None, None)
      | Some m \<Rightarrow> (case binding_input durable_client_param m of (i, m') \<Rightarrow> (i, Some m'))) = (input, mc)"
    by fastforce
  then have input: "input = (case dw_mc s of None \<Rightarrow> None | Some m \<Rightarrow> fst (binding_input durable_client_param m))"
    by (auto split: option.splits prod.splits)
  obtain c d w where c: "client_from_binding N parse decode input (dw_durable s) (dw_network s) = (c, d, w)"
    by (metis prod_cases3)
  let ?s = "s\<lparr>dw_mc := mc, dw_durable := d, dw_network := w\<rparr>"
  have a: "attach_client N parse decode s = (if c \<noteq> None then c else du_client d, ?s)"
    by (simp only: attach_client_def i c Let_def prod.case)
  show ?thesis
  proof (cases "if c \<noteq> None then c else du_client d")
    case None
    then have "c = None" "du_client d = None" by (auto split: if_splits)
    with a assms c input show ?thesis
      by (auto simp: durable_wrap_def intro!: exI [of _ ctx] exI [of _ ?s])
  next
    case (Some x)
    with a have "attach_client N parse decode s = (Some x, ?s)" by simp
    moreover have "(if c \<noteq> None then c else if du_client d \<noteq> None then du_client d else client_from_context ctx) = Some x"
      using Some by (auto split: if_splits)
    ultimately show ?thesis
      using assms c input by (auto simp: durable_wrap_def intro!: exI [of _ "DC_Client x ctx"] exI [of _ ?s])
  qed
qed

definition sample_world :: "(unit, string list, unit) durable_world" where
  "sample_world = \<lparr>dw_mc = Some (set_binding_input_string ''durableClient'' ''a:1''
       (new_middleware_context (Some \<lparr>ic_invocation_id = ''1'', ic_function_id = ''f'', ic_function_name = ''start'',
          ic_trigger_type = ''httpTrigger'', ic_trace = \<lparr>tc_parent = '''', tc_state = '''', tc_attributes = [], tc_baggage = []\<rparr>,
          ic_retry = \<lparr>rc_count = 0, rc_max = 0\<rparr>, ic_metadata = None, ic_metadata_values = None\<rparr>))),
     dw_durable = fresh_durable, dw_network = \<lparr>nw_dialled = [], nw_closed = []\<rparr>, dw_rest = ()\<rparr>"

text \<open>A handler that fails when it has no client.\<close>

definition needs_client :: "(unit durable_context, 's) handler" where
  "needs_client ctx s = (Ret (if client_from_context ctx = None then Some ''durable client unavailable'' else None), s)"

theorem durable_wrap_client_witness:
  "fst (durable_wrap sample_net (\<lambda>u. Inl ''bare'') sample_payload needs_client (DC_Base ()) sample_world) = Ret None"
proof -
  have t: "trigger_type_of (dw_mc sample_world) = Ret ''httpTrigger''"
    by (simp add: sample_world_def trigger_type_of_def set_binding_input_string_def new_middleware_context_def)
  have b: "(case dw_mc sample_world of None \<Rightarrow> None | Some m \<Rightarrow> fst (binding_input durable_client_param m)) = Some (Some ''a:1'')"
    by (simp add: sample_world_def durable_client_param_def binding_input_def set_binding_input_string_def
        new_middleware_context_def make_put_def map_put_def)
  have n: "''httpTrigger'' \<noteq> orchestration_trigger_type" by (simp add: orchestration_trigger_type_def)
  have c0: "fst (client_from_binding sample_net (\<lambda>u. Inl ''bare'') sample_payload (Some (Some ''a:1'')) (dw_durable sample_world)
      (dw_network sample_world)) \<noteq> None"
    by (simp add: sample_world_def client_from_binding_def sample_payload_def cached_client_def grpc_target_def
        fresh_durable_def dial_def sample_net_def Let_def)
  obtain ctx' s' input c d w where r: "durable_wrap sample_net (\<lambda>u. Inl ''bare'') sample_payload needs_client (DC_Base ()) sample_world =
        needs_client ctx' s'"
      "input = (case dw_mc sample_world of None \<Rightarrow> None | Some m \<Rightarrow> fst (binding_input durable_client_param m))"
      "client_from_binding sample_net (\<lambda>u. Inl ''bare'') sample_payload input (dw_durable sample_world) (dw_network sample_world) = (c, d, w)"
      "client_from_context ctx' =
        (if c \<noteq> None then c else if du_client d \<noteq> None then du_client d else client_from_context (DC_Base ()))"
    using durable_wrap_client [OF t, THEN conjunct2, THEN mp, OF n, of sample_net "\<lambda>u. Inl ''bare''" sample_payload needs_client "DC_Base ()"]
    by blast
  have "c \<noteq> None" using c0 r(3) by (simp add: r(2) b)
  then have "client_from_context ctx' \<noteq> None" using r(4) by simp
  then show ?thesis by (simp add: r(1) needs_client_def)
qed


text \<open>
  Types for the examples: the context and error interfaces, a structure that is an error, and the
  functions \<open>func(Context) error\<close> and \<open>func(Context) Failure\<close>.
\<close>

definition activity_types :: tenv where
  "activity_types =
     [invalid_type\<lparr>rt_name := ''context.Context'', rt_kind := K_Interface, rt_implements := [I_Context], rt_well_known := Type_Context\<rparr>,
      invalid_type\<lparr>rt_name := ''error'', rt_kind := K_Interface, rt_implements := [I_Error], rt_well_known := Type_Error\<rparr>,
      invalid_type\<lparr>rt_name := ''main.Failure'', rt_kind := K_Struct, rt_implements := [I_Error]\<rparr>,
      invalid_type\<lparr>rt_name := ''func(context.Context) error'', rt_kind := K_Func, rt_in := [0], rt_out := [1]\<rparr>,
      invalid_type\<lparr>rt_name := ''func(context.Context) main.Failure'', rt_kind := K_Func, rt_in := [0], rt_out := [2]\<rparr>]"

definition sample_activity :: "(unit, nat) activity_env" where
  "sample_activity = \<lparr>ae_types = activity_types, ae_unmarshal = (\<lambda>t raw. err ''bad''), ae_assignable = (=),
     ae_context_type = 0, ae_user = (\<lambda>ctx arg w. (Ret (None, None), Suc w))\<rparr>"

lemma sample_type_info:
  "rt_in (tinfo activity_types 3) = [0]" "rt_out (tinfo activity_types 3) = [1]" "kind_of activity_types 3 = K_Func"
  "\<not> rt_variadic (tinfo activity_types 3)" "kind_of activity_types (Suc 0) = K_Interface"
  "rt_in (tinfo activity_types 4) = [0]" "rt_out (tinfo activity_types 4) = [2]" "kind_of activity_types 2 = K_Struct"
  by (simp_all add: activity_types_def tinfo_def invalid_type_def)

lemma sample_accepted:
  "validate_activity activity_types ''a'' (Some 3) = Ret ()" "validate_activity activity_types ''a'' (Some 4) = Ret ()"
  by code_simp+


text \<open>
  The check at registration is weaker than what a call needs: an activity whose error result is a
  structure is accepted, and then every invocation panics, whatever its code returns.
\<close>

theorem activity_check_gap:
  "validate_activity activity_types ''a'' (Some 4) = Ret () \<and>
   (\<forall>A :: ('c, 'w) activity_env. ae_types A = activity_types \<longrightarrow>
      (\<forall>ctx raw w. \<exists>p w'. activity_input_decoder A 4 ctx raw w = (Panic p, w')))"
proof (intro conjI allI impI)
  fix A :: "('c, 'w) activity_env" and ctx raw w
  assume "ae_types A = activity_types"
  moreover from this have "activity_argument A 4 raw = Ret (Inr None)"
    by (simp add: activity_argument_def sample_type_info ok_def)
  ultimately show "\<exists>p w'. activity_input_decoder A 4 ctx raw w = (Panic p, w')"
    unfolding activity_input_decoder_def Let_def
    by (cases "ae_user A ctx None w") (simp add: sample_type_info nillable_def split: outcome.split prod.split)
qed (rule sample_accepted)

theorem activity_check_gap_witness:
  "\<exists>p w'. activity_input_decoder sample_activity 4 () ''x'' 0 = (Panic p, w')"
proof -
  have "ae_types sample_activity = activity_types" by (simp add: sample_activity_def)
  with activity_check_gap show ?thesis by blast
qed

text \<open>The adapters and bindings the host sees.\<close>

lemma provided_bindings:
  "to_binding (provided_trigger (Provided_Orchestrator n f)) = Ret (plain_binding ''context'' ''orchestrationTrigger'' ''in'')"
  "to_binding (provided_trigger (Provided_Activity n t)) = Ret (plain_binding ''input'' ''activityTrigger'' ''in'')"
  by (simp_all add: orchestration_trigger_def activity_trigger_def orchestration_trigger_type_def activity_trigger_type_def)

lemma client_input_keeps:
  "client_input rf = Ret rf' \<Longrightarrow> rf_raw_bindings rf' = rf_raw_bindings rf @ [durable_client_binding] \<and> rf_func_name rf' = rf_func_name rf"
  by (auto simp: client_input_def)

end
