(* ===== verification/Blob_Trigger.thy ===== *)
theory Blob_Trigger
  imports Sdk_App Json_Value Go_Runs
begin

text \<open>
  The blob trigger's client factory (\<open>triggers/blob/blob.go\<close>): the path of the blob from the binding and
  the trigger's metadata, the way to authenticate, the cache of service clients shared by the
  invocations.  The Azure SDK is a parameter.
\<close>

subsection \<open>The path\<close>

text \<open>\<open>strings.ReplaceAll\<close> for an \<open>old\<close> that is not empty.\<close>

function replace_all :: "string \<Rightarrow> string \<Rightarrow> string \<Rightarrow> string" where
  "replace_all old new [] = []"
| "replace_all old new (c # s) =
     (if old \<noteq> [] \<and> has_prefix (c # s) old then new @ replace_all old new (drop (length old) (c # s))
      else c # replace_all old new s)"
  by pat_completeness auto
termination by (relation "measure (\<lambda>(old, new, s). length s)") auto

definition placeholder :: "string \<Rightarrow> string" where
  "placeholder k = ''{'' @ k @ ''}''"

fun resolve_template :: "(string, string) go_map \<Rightarrow> string \<Rightarrow> string" where
  "resolve_template [] path = path"
| "resolve_template ((k, v) # meta) path = resolve_template meta (replace_all (placeholder k) v path)"

definition config_string :: "(string, json) go_map \<Rightarrow> string \<Rightarrow> string" where
  "config_string config key = (case map_of config key of Some (JStr s) \<Rightarrow> s | _ \<Rightarrow> '''')"

definition connection_setting :: "(string, json) go_map \<Rightarrow> string" where
  "connection_setting config =
     (let c = config_string config ''connection'' in if c = '''' then ''AzureWebJobsStorage'' else c)"

text \<open>The metadata in the order the loop visits it.\<close>

definition resolved_path :: "(string, json) go_map \<Rightarrow> (string, string) go_map \<Rightarrow> string" where
  "resolved_path config meta =
     (let path = resolve_template meta (config_string config ''path'') in
      case map_of meta ''BlobTrigger'' of
        Some bt \<Rightarrow> if bt \<noteq> '''' then bt else path
      | None \<Rightarrow> path)"

subsection \<open>Service clients\<close>

text \<open>The environment and the Azure SDK: service clients \<open>'s\<close>, credentials \<open>'k\<close>, blob clients \<open>'b\<close>.\<close>

record ('s, 'k, 'b) storage =
  st_getenv :: "string \<Rightarrow> string"
  st_from_connection :: "string \<Rightarrow> 's result"
  st_new_client :: "string \<Rightarrow> 'k \<Rightarrow> 's result"
  st_managed :: "string \<Rightarrow> 'k result"
  st_default :: "'k result"
  st_blob :: "'s \<Rightarrow> string \<Rightarrow> string \<Rightarrow> 'b"

definition development_storage :: string where
  "development_storage =
     ''DefaultEndpointsProtocol=http;AccountName=devstoreaccount1;'' @
     ''AccountKey=Eby8vdM02xNOcqFlqUwJPLlmEtlCDXJ1OUzFT50uSRZ6IFsuFq2UVErCz4I6tq/K1SZFPTOtr/KBHBeksoGMGw==;'' @
     ''BlobEndpoint=http://127.0.0.1:10000/devstoreaccount1;'' @
     ''QueueEndpoint=http://127.0.0.1:10001/devstoreaccount1;'' @
     ''TableEndpoint=http://127.0.0.1:10002/devstoreaccount1;''"

text \<open>\<open>strings.Trim\<close> for one character.\<close>

definition trim_char :: "char \<Rightarrow> string \<Rightarrow> string" where
  "trim_char c s = rev (dropWhile (\<lambda>x. x = c) (rev (dropWhile (\<lambda>x. x = c) s)))"

definition is_connection_string :: "string \<Rightarrow> bool" where
  "is_connection_string s \<longleftrightarrow>
     contains_str s ''AccountKey='' \<or> contains_str s ''DefaultEndpointsProtocol='' \<or>
     contains_str s ''UseDevelopmentStorage=true''"

definition resolve_endpoint :: "('s, 'k, 'b) storage \<Rightarrow> string \<Rightarrow> string" where
  "resolve_endpoint S setting =
     (let name = st_getenv S (setting @ ''__accountName'');
          blob_uri = st_getenv S (setting @ ''__blobServiceUri'');
          uri = st_getenv S (setting @ ''__serviceUri'')
      in if name \<noteq> '''' then ''https://'' @ name @ ''.blob.core.windows.net''
         else if blob_uri \<noteq> '''' then blob_uri
         else if uri \<noteq> '''' then uri else '''')"

definition build_credential :: "('s, 'k, 'b) storage \<Rightarrow> string \<Rightarrow> 'k result" where
  "build_credential S setting =
     (let client_id = st_getenv S (setting @ ''__clientId'') in
      if client_id \<noteq> '''' then
        (case st_managed S client_id of
           Inl e \<Rightarrow> Inl (''failed to create ManagedIdentityCredential with clientId '' @ go_quote client_id @ '': '' @ e)
         | Inr c \<Rightarrow> Inr c)
      else
        (case st_default S of
           Inl e \<Rightarrow> Inl (''failed to create DefaultAzureCredential: '' @ e)
         | Inr c \<Rightarrow> Inr c))"

definition create_service_client :: "('s, 'k, 'b) storage \<Rightarrow> string \<Rightarrow> 's result" where
  "create_service_client S setting =
     (let value = st_getenv S setting;
          value = (if equal_fold (trim_char CHR '';'' (trim_space value)) ''UseDevelopmentStorage=true''
                   then development_storage else value)
      in if value \<noteq> '''' \<and> is_connection_string value then st_from_connection S value
         else if value \<noteq> '''' then bind_result (build_credential S setting) (st_new_client S value)
         else
           (let endpoint = resolve_endpoint S setting in
            if endpoint = '''' then
              Inl (''environment variable '' @ go_quote setting @ '' is empty and no '' @ setting @ ''__accountName, '' @
                setting @ ''__blobServiceUri, or '' @ setting @ ''__serviceUri found'')
            else bind_result (build_credential S setting) (st_new_client S endpoint)))"

text \<open>A blob client of a service client, from ``container/blob''.\<close>

definition blob_client :: "('s, 'k, 'b) storage \<Rightarrow> 's \<Rightarrow> string \<Rightarrow> 'b result" where
  "blob_client S service path =
     (case cut_at CHR ''/'' path of
        (container, blob, found) \<Rightarrow>
          if \<not> found then Inl (''invalid blob path '' @ go_quote path @ '': expected '' @ [CHR 0x27] @ ''container/blob'' @ [CHR 0x27])
          else Inr (st_blob S service container blob))"

subsection \<open>The cache\<close>

text \<open>
  \<open>GetOrCreateServiceClient\<close> called by invocations that run concurrently: the map, the clients ever
  created (a client is its index), the calls.  A call reads under the read lock; if it finds nothing
  it takes the write lock, looks again and creates.
\<close>

datatype cache_pc = CP_Read | CP_Locked | CP_Done "nat result"

record cache_call =
  cc_setting :: string
  cc_pc :: cache_pc

record 's blob_cache =
  bc_clients :: "(string, nat) go_map"
  bc_created :: "(string \<times> 's) list"
  bc_calls :: "cache_call list"

definition empty_cache :: "'s blob_cache" where
  "empty_cache = \<lparr>bc_clients = [], bc_created = [], bc_calls = []\<rparr>"

datatype ('s, 'k, 'b) cache_event = CE_Call string | CE_Read nat | CE_Locked nat "('s, 'k, 'b) storage"

definition put_cache_call :: "nat \<Rightarrow> cache_pc \<Rightarrow> 's blob_cache \<Rightarrow> 's blob_cache" where
  "put_cache_call i pc s = s\<lparr>bc_calls := (bc_calls s)[i := (bc_calls s ! i)\<lparr>cc_pc := pc\<rparr>]\<rparr>"

definition cache_read :: "nat \<Rightarrow> 's blob_cache \<Rightarrow> 's blob_cache" where
  "cache_read i s =
     (case map_of (bc_clients s) (cc_setting (bc_calls s ! i)) of
        Some k \<Rightarrow> put_cache_call i (CP_Done (Inr k)) s
      | None \<Rightarrow> put_cache_call i CP_Locked s)"

definition cache_locked :: "('s, 'k, 'b) storage \<Rightarrow> nat \<Rightarrow> 's blob_cache \<Rightarrow> 's blob_cache" where
  "cache_locked S i s =
     (let setting = cc_setting (bc_calls s ! i) in
      case map_of (bc_clients s) setting of
        Some k \<Rightarrow> put_cache_call i (CP_Done (Inr k)) s
      | None \<Rightarrow>
          (case create_service_client S setting of
             Inl e \<Rightarrow> put_cache_call i (CP_Done (Inl e)) s
           | Inr c \<Rightarrow>
               (let k = length (bc_created s) in
                put_cache_call i (CP_Done (Inr k))
                  (s\<lparr>bc_created := bc_created s @ [(setting, c)], bc_clients := map_put setting k (bc_clients s)\<rparr>))))"

definition cache_exec :: "('s, 'k, 'b) cache_event \<Rightarrow> 's blob_cache \<Rightarrow> 's blob_cache option" where
  "cache_exec ev s =
     (case ev of
        CE_Call setting \<Rightarrow> Some (s\<lparr>bc_calls := bc_calls s @ [\<lparr>cc_setting = setting, cc_pc = CP_Read\<rparr>]\<rparr>)
      | CE_Read i \<Rightarrow>
          if i < length (bc_calls s) \<and> cc_pc (bc_calls s ! i) = CP_Read then Some (cache_read i s) else None
      | CE_Locked i S \<Rightarrow>
          if i < length (bc_calls s) \<and> cc_pc (bc_calls s ! i) = CP_Locked then Some (cache_locked S i s) else None)"

text \<open>The factory, with the service client the cache gave.\<close>

definition create_blob_client_from_trigger ::
    "('s, 'k, 'b) storage \<Rightarrow> (string \<Rightarrow> 's result) \<Rightarrow> (string, json) go_map \<Rightarrow> (string, string) go_map \<Rightarrow> 'b result" where
  "create_blob_client_from_trigger S service config meta =
     (let path = resolved_path config meta in
      if path = '''' then Inl ''unable to resolve blob path from trigger metadata''
      else bind_result (service (connection_setting config)) (\<lambda>s. blob_client S s path))"

subsection \<open>Registration\<close>

definition blob_init :: "'cf \<Rightarrow> (string, 'cf) go_map \<Rightarrow> (string, (string, 'cf) go_map) outcome" where
  "blob_init factory reg = register_client_factory blob_trigger_type factory reg"

definition blob_with_path :: "string \<Rightarrow> 'cf sdk_opt" where
  "blob_with_path path = on_blob (\<lambda>b. b\<lparr>blb_path := path\<rparr>)"

definition blob_with_connection :: "string \<Rightarrow> 'cf sdk_opt" where
  "blob_with_connection connection = on_blob (\<lambda>b. b\<lparr>blb_connection := connection\<rparr>)"

subsection \<open>Lemmas\<close>

text \<open>A path template as its pieces, none of which has a brace of its own.\<close>

datatype piece = Literal string | Parameter string

definition plain :: "string \<Rightarrow> bool" where
  "plain s \<longleftrightarrow> CHR ''{'' \<notin> set s \<and> CHR ''}'' \<notin> set s"

fun piece_plain :: "piece \<Rightarrow> bool" where
  "piece_plain (Literal s) = plain s"
| "piece_plain (Parameter k) = plain k"

fun piece_text :: "piece \<Rightarrow> string" where
  "piece_text (Literal s) = s"
| "piece_text (Parameter k) = placeholder k"

definition template_text :: "piece list \<Rightarrow> string" where
  "template_text ps = concat (map piece_text ps)"

fun fill :: "(string, string) go_map \<Rightarrow> piece \<Rightarrow> string" where
  "fill meta (Literal s) = s"
| "fill meta (Parameter k) = (case map_of meta k of Some v \<Rightarrow> v | None \<Rightarrow> placeholder k)"

definition substitute :: "string \<Rightarrow> string \<Rightarrow> piece \<Rightarrow> piece" where
  "substitute k v p = (if p = Parameter k then Literal v else p)"

lemma replace_all_literal:
  "CHR ''{'' \<notin> set s \<Longrightarrow> replace_all (placeholder k) v (s @ t) = s @ replace_all (placeholder k) v t"
  by (induction s) (auto simp: placeholder_def has_prefix_def)

lemma replace_all_hit: "replace_all (placeholder k) v (placeholder k @ t) = v @ replace_all (placeholder k) v t"
proof -
  obtain c s where c: "placeholder k @ t = c # s" by (cases "placeholder k @ t") (simp_all add: placeholder_def)
  have "has_prefix (placeholder k @ t) (placeholder k)" by (rule has_prefix_append)
  then have "has_prefix (c # s) (placeholder k)" by (simp only: c)
  moreover have "drop (length (placeholder k)) (c # s) = t" "placeholder k \<noteq> []"
    by (simp_all add: c [symmetric] del: drop_append) (simp_all add: placeholder_def)
  ultimately have "has_prefix (c # s) (placeholder k)" "drop (length (placeholder k)) (c # s) = t" "placeholder k \<noteq> []" by simp_all
  then show ?thesis by (simp add: c)
qed

lemma placeholder_prefix:
  assumes "plain k" and "plain k'" and "has_prefix (placeholder k' @ t) (placeholder k)"
  shows "k' = k"
proof -
  obtain u where "k' @ ''}'' @ t = k @ ''}'' @ u"
    using assms(3) by (auto simp: has_prefix_def prefix_def placeholder_def)
  then have "takeWhile (\<lambda>c. c \<noteq> CHR ''}'') (k' @ ''}'' @ t) = takeWhile (\<lambda>c. c \<noteq> CHR ''}'') (k @ ''}'' @ u)" by simp
  moreover have "takeWhile (\<lambda>c. c \<noteq> CHR ''}'') (w @ ''}'' @ x) = w" if "plain w" for w x
  proof -
    have "\<And>c. c \<in> set w \<Longrightarrow> c \<noteq> CHR ''}''" using that by (auto simp: plain_def)
    then show ?thesis by (simp add: takeWhile_append2)
  qed
  ultimately show ?thesis using assms(1,2) by simp
qed

lemma replace_all_miss:
  assumes "plain k" and "plain k'" and "k' \<noteq> k"
  shows "replace_all (placeholder k) v (placeholder k' @ t) = placeholder k' @ replace_all (placeholder k) v t"
proof -
  have "\<not> has_prefix (placeholder k' @ t) (placeholder k)" using placeholder_prefix assms by blast
  then have "replace_all (placeholder k) v (placeholder k' @ t) = CHR ''{'' # replace_all (placeholder k) v ((k' @ ''}'') @ t)"
    by (simp add: placeholder_def)
  also have "\<dots> = CHR ''{'' # (k' @ ''}'') @ replace_all (placeholder k) v t"
    using assms(2) by (subst replace_all_literal) (simp_all add: plain_def)
  finally show ?thesis by (simp add: placeholder_def)
qed

lemma replace_all_template:
  assumes "plain k"
  shows "list_all piece_plain ps \<Longrightarrow>
    replace_all (placeholder k) v (template_text ps) = template_text (map (substitute k v) ps)"
proof (induction ps)
  case (Cons p ps)
  then show ?case
    using assms
    by (cases p) (auto simp: template_text_def substitute_def replace_all_hit replace_all_miss plain_def
        replace_all_literal)
qed (simp add: template_text_def)

definition plain_map :: "(string, string) go_map \<Rightarrow> bool" where
  "plain_map meta \<longleftrightarrow> list_all (\<lambda>(k, v). plain k \<and> plain v) meta"

lemma resolve_template_fill:
  "plain_map meta \<Longrightarrow> list_all piece_plain ps \<Longrightarrow> resolve_template meta (template_text ps) = concat (map (fill meta) ps)"
proof (induction meta arbitrary: ps)
  case Nil
  have "fill [] = piece_text" by (rule ext, rename_tac p, case_tac p) simp_all
  then show ?case by (simp add: template_text_def)
next
  case (Cons kv meta)
  obtain k v where kv: "kv = (k, v)" by fastforce
  with Cons.prems have "plain k" "plain v" "plain_map meta" by (simp_all add: plain_map_def)
  moreover have "list_all piece_plain (map (substitute k v) ps)"
    using Cons.prems(2) \<open>plain v\<close> by (auto simp: list_all_iff substitute_def)
  ultimately have "resolve_template (kv # meta) (template_text ps) = concat (map (fill meta) (map (substitute k v) ps))"
    using Cons by (simp add: kv replace_all_template)
  also have "map (fill meta) (map (substitute k v) ps) = map (fill (kv # meta)) ps"
    unfolding map_map by (rule map_cong [OF refl], rename_tac p, case_tac p) (auto simp: kv substitute_def)
  finally show ?case .
qed

lemma fill_cong: "map_of meta = map_of meta' \<Longrightarrow> fill meta = fill meta'"
  by (rule ext, rename_tac p, case_tac p) simp_all

text \<open>The cache's invariant.\<close>

definition cache_ok :: "'s blob_cache \<Rightarrow> bool" where
  "cache_ok s \<longleftrightarrow>
     distinct (map fst (bc_created s)) \<and>
     (\<forall>setting k. map_of (bc_clients s) setting = Some k \<longleftrightarrow>
        k < length (bc_created s) \<and> fst (bc_created s ! k) = setting) \<and>
     (\<forall>c \<in> set (bc_calls s). \<forall>k. cc_pc c = CP_Done (Inr k) \<longrightarrow> map_of (bc_clients s) (cc_setting c) = Some k)"

lemma cache_ok_put:
  assumes "cache_ok s" and "i < length (bc_calls s)"
    and "\<And>k. pc = CP_Done (Inr k) \<Longrightarrow> map_of (bc_clients s) (cc_setting (bc_calls s ! i)) = Some k"
  shows "cache_ok (put_cache_call i pc s)"
proof -
  have "map_of (bc_clients s) (cc_setting c) = Some k"
    if "c \<in> set ((bc_calls s)[i := (bc_calls s ! i)\<lparr>cc_pc := pc\<rparr>])" and "cc_pc c = CP_Done (Inr k)" for c k
  proof (cases "c \<in> set (bc_calls s)")
    case True
    with assms(1) that(2) show ?thesis by (simp only: cache_ok_def)
  next
    case False
    then have "c = (bc_calls s ! i)\<lparr>cc_pc := pc\<rparr>" using that(1) set_update_subset_insert by fastforce
    with assms(3) that(2) show ?thesis by simp
  qed
  with assms(1) show ?thesis unfolding cache_ok_def put_cache_call_def by auto
qed

lemma cache_ok_read: "cache_ok s \<Longrightarrow> i < length (bc_calls s) \<Longrightarrow> cache_ok (cache_read i s)"
  by (auto simp: cache_read_def split: option.split intro: cache_ok_put)

lemma cache_ok_create:
  assumes ok: "cache_ok s" and new: "map_of (bc_clients s) setting = None"
  shows "cache_ok (s\<lparr>bc_created := bc_created s @ [(setting, c)],
    bc_clients := map_put setting (length (bc_created s)) (bc_clients s)\<rparr>)"
proof -
  have fresh: "setting \<notin> fst ` set (bc_created s)"
  proof
    assume "setting \<in> fst ` set (bc_created s)"
    then obtain k where "k < length (bc_created s)" "fst (bc_created s ! k) = setting" by (auto simp: in_set_conv_nth)
    with ok have "map_of (bc_clients s) setting = Some k" by (simp add: cache_ok_def)
    with new show False by simp
  qed
  then have "k < length (bc_created s) \<Longrightarrow> fst (bc_created s ! k) \<noteq> setting" for k by auto
  with ok new fresh show ?thesis by (auto simp: cache_ok_def nth_append less_Suc_eq)
qed

lemma cache_ok_locked: "cache_ok s \<Longrightarrow> i < length (bc_calls s) \<Longrightarrow> cache_ok (cache_locked S i s)"
  by (auto simp: cache_locked_def Let_def split: option.split sum.split intro!: cache_ok_put cache_ok_create)

interpretation cache: invariant_runs cache_exec empty_cache cache_ok
proof
  fix s t e
  assume "cache_ok s" and "cache_exec e s = Some t"
  then show "cache_ok t"
    by (cases e) (auto simp: cache_exec_def cache_ok_read cache_ok_locked split: if_splits, auto simp: cache_ok_def)
qed (simp add: cache_ok_def empty_cache_def)

subsection \<open>Properties\<close>

text \<open>
  C37. Concurrent invocations share one service client per connection setting: however the calls
  interleave, no setting ever has two clients, and calls for the same setting that succeed return the
  same client, which was created for that setting.
\<close>

theorem blob_service_shared:
  assumes "exec_all cache_exec evs empty_cache = Some s"
    and "c \<in> set (bc_calls s)" and "cc_pc c = CP_Done (Inr k)" and "c' \<in> set (bc_calls s)" and "cc_pc c' = CP_Done (Inr k')"
  shows "distinct (map fst (bc_created s)) \<and> k < length (bc_created s) \<and> fst (bc_created s ! k) = cc_setting c \<and>
    (k = k' \<longleftrightarrow> cc_setting c = cc_setting c')"
proof -
  have ok: "cache_ok s" by (rule cache.exec_all_inv [OF assms(1)])
  with assms(2-5) have m: "map_of (bc_clients s) (cc_setting c) = Some k" "map_of (bc_clients s) (cc_setting c') = Some k'"
    by (simp_all only: cache_ok_def)
  with ok have "k < length (bc_created s) \<and> fst (bc_created s ! k) = cc_setting c" "fst (bc_created s ! k') = cc_setting c'"
    by (simp_all add: cache_ok_def)
  moreover have "k = k'" if "cc_setting c = cc_setting c'" using m that by simp
  moreover have "distinct (map fst (bc_created s))" using ok by (simp add: cache_ok_def)
  ultimately show ?thesis by auto
qed

definition sample_storage :: "(string, unit, string \<times> string) storage" where
  "sample_storage = \<lparr>st_getenv = (\<lambda>n. if n = ''A'' then ''AccountKey=x'' else ''''), st_from_connection = Inr,
     st_new_client = (\<lambda>u k. Inr u), st_managed = (\<lambda>i. Inr ()), st_default = Inr (), st_blob = (\<lambda>s c b. (c, b))\<rparr>"

lemma sample_service: "create_service_client sample_storage ''A'' = Inr ''AccountKey=x''"
  by code_simp

theorem blob_service_shared_witness:
  "\<exists>s :: string blob_cache. exec_all cache_exec [CE_Call ''A'', CE_Call ''A'', CE_Read 0, CE_Read 1, CE_Locked 1 sample_storage,
       CE_Locked 0 sample_storage] empty_cache = Some s \<and> distinct (map fst (bc_created s)) \<and> length (bc_created s) = 1"
proof -
  let ?evs = "[CE_Call ''A'', CE_Call ''A'', CE_Read 0, CE_Read 1, CE_Locked 1 sample_storage, CE_Locked 0 sample_storage]"
  let ?s = "\<lparr>bc_clients = [(''A'', 0)], bc_created = [(''A'', ''AccountKey=x'')],
    bc_calls = [\<lparr>cc_setting = ''A'', cc_pc = CP_Done (Inr 0)\<rparr>, \<lparr>cc_setting = ''A'', cc_pc = CP_Done (Inr 0)\<rparr>]\<rparr>"
  have r: "exec_all cache_exec ?evs empty_cache = Some ?s"
    by (simp add: cache_exec_def empty_cache_def cache_read_def cache_locked_def put_cache_call_def sample_service map_put_def Let_def)
  from blob_service_shared [OF r, of "\<lparr>cc_setting = ''A'', cc_pc = CP_Done (Inr 0)\<rparr>" 0
      "\<lparr>cc_setting = ''A'', cc_pc = CP_Done (Inr 0)\<rparr>" 0]
  have "distinct (map fst (bc_created ?s))" by simp
  with r show ?thesis by (intro exI [of _ ?s]) simp
qed

text \<open>
  The blob the handler gets: when template, names and values have no stray braces, every parameter is
  replaced by its value whatever the order the metadata is visited in; the path the host reports wins if
  there is one; and the client is for the container before the first slash and the blob after it.
\<close>

theorem blob_path_resolved:
  assumes "config_string config ''path'' = template_text ps" and "list_all piece_plain ps" and "plain_map meta"
    and "plain_map meta'" and "map_of meta' = map_of meta"
  shows "resolved_path config meta =
      (case map_of meta ''BlobTrigger'' of Some bt \<Rightarrow> if bt \<noteq> '''' then bt else concat (map (fill meta) ps)
       | None \<Rightarrow> concat (map (fill meta) ps)) \<and>
    resolved_path config meta' = resolved_path config meta \<and>
    (resolved_path config meta = container @ ''/'' @ blob \<longrightarrow> CHR ''/'' \<notin> set container \<longrightarrow>
      create_blob_client_from_trigger S (\<lambda>c. Inr s) config meta = Inr (st_blob S s container blob))"
proof -
  have r: "resolve_template m (config_string config ''path'') = concat (map (fill m) ps)" if "plain_map m" for m
    using assms(1,2) that by (simp add: resolve_template_fill)
  have "cut_at CHR ''/'' (container @ ''/'' @ blob) = (container, blob, True)" if "CHR ''/'' \<notin> set container"
    using that by (induction container) auto
  then show ?thesis
    using r [OF assms(3)] r [OF assms(4)] fill_cong [OF assms(5)] assms(5)
    by (auto simp: resolved_path_def Let_def create_blob_client_from_trigger_def blob_client_def split: option.splits)
qed

theorem blob_path_resolved_witness:
  "create_blob_client_from_trigger sample_storage (\<lambda>c. Inr ''s'') [(''path'', JStr ''box/{name}.txt'')] [(''x'', ''1''), (''name'', ''a/b'')] =
   Inr (''box'', ''a/b.txt'')"
proof -
  let ?c = "[(''path'', JStr ''box/{name}.txt'')]" and ?m = "[(''x'', ''1''), (''name'', ''a/b'')]"
  let ?ps = "[Literal ''box/'', Parameter ''name'', Literal ''.txt'']"
  have h: "config_string ?c ''path'' = template_text ?ps" "list_all piece_plain ?ps" "plain_map ?m"
    by (simp_all add: config_string_def template_text_def placeholder_def plain_def plain_map_def)
  from blob_path_resolved [OF h h(3) refl, of "''box''" "''a/b.txt''" sample_storage "''s''"]
  show ?thesis by (simp add: sample_storage_def)
qed

end
