(* ===== verification/Otel_Collector.thy ===== *)
theory Otel_Collector
  imports Worker_Stream Go_Runs
begin

text \<open>
  The embedded collector (\<open>otelcollector/otelcollector.go\<close>): options, the source of its configuration,
  and its life cycle (\<open>Start\<close> with its readiness wait and drain, \<open>Shutdown\<close>, the worker's hook) as a
  transition system with a clock.  The collector itself (\<open>otelcol\<close>) is not under the repository: when it
  becomes ready and when it exits are events.
\<close>

subsection \<open>Options\<close>

text \<open>Durations are nanoseconds; \<open>'f\<close> is a set of component factories, \<open>'b\<close> build information.\<close>

record ('f, 'b) collector_config =
  cc_config_file :: string
  cc_config_yaml :: string
  cc_factories :: "'f option"
  cc_fail_fast :: bool
  cc_start_timeout :: int
  cc_shutdown_timeout :: int
  cc_build_info :: 'b

datatype ('f, 'b) collector_option =
    With_Config_File string
  | With_Config_YAML string
  | With_Factories 'f
  | Fail_Fast
  | Start_Timeout int
  | With_Shutdown_Timeout int
  | With_Build_Info 'b

fun collector_apply ::
    "('f, 'b) collector_option \<Rightarrow> ('f, 'b) collector_config \<Rightarrow> ('f, 'b) collector_config" where
  "collector_apply (With_Config_File p) c = c\<lparr>cc_config_file := p\<rparr>"
| "collector_apply (With_Config_YAML y) c = c\<lparr>cc_config_yaml := y\<rparr>"
| "collector_apply (With_Factories f) c = c\<lparr>cc_factories := Some f\<rparr>"
| "collector_apply Fail_Fast c = c\<lparr>cc_fail_fast := True\<rparr>"
| "collector_apply (Start_Timeout d) c = c\<lparr>cc_start_timeout := d\<rparr>"
| "collector_apply (With_Shutdown_Timeout d) c = c\<lparr>cc_shutdown_timeout := d\<rparr>"
| "collector_apply (With_Build_Info b) c = c\<lparr>cc_build_info := b\<rparr>"

definition default_start_timeout :: int where "default_start_timeout = 10000000000"
definition default_shutdown_timeout :: int where "default_shutdown_timeout = 10000000000"

definition new_config :: "'b \<Rightarrow> ('f, 'b) collector_option list \<Rightarrow> ('f, 'b) collector_config" where
  "new_config build opts =
     (let c = fold collector_apply opts
            \<lparr>cc_config_file = '''', cc_config_yaml = '''', cc_factories = None, cc_fail_fast = False,
             cc_start_timeout = default_start_timeout, cc_shutdown_timeout = default_shutdown_timeout,
             cc_build_info = build\<rparr>;
          c = (if cc_start_timeout c \<le> 0 then c\<lparr>cc_start_timeout := default_start_timeout\<rparr> else c);
          c = (if cc_shutdown_timeout c \<le> 0 then c\<lparr>cc_shutdown_timeout := default_shutdown_timeout\<rparr> else c)
      in c)"

text \<open>
  \<open>resolveConfig\<close>: the URI and the source.  \<open>executable\<close> is \<open>os.Executable\<close> and \<open>exists\<close> is \<open>os.Stat\<close>
  without an error; \<open>beside\<close> joins the executable's directory with the file name.
\<close>

definition resolve_config ::
    "string result \<Rightarrow> (string \<Rightarrow> string \<Rightarrow> string) \<Rightarrow> (string \<Rightarrow> bool) \<Rightarrow> string \<Rightarrow> ('f, 'b) collector_config \<Rightarrow>
     string \<times> string" where
  "resolve_config executable beside exists embedded c =
     (let candidate = (case executable of Inl e \<Rightarrow> None
            | Inr path \<Rightarrow> (let f = beside path ''otel-collector-config.yaml'' in if exists f then Some f else None))
      in if cc_config_yaml c \<noteq> '''' then (''yaml:'' @ cc_config_yaml c, ''inline yaml (WithConfigYAML)'')
         else if cc_config_file c \<noteq> ''''
         then (''file:'' @ cc_config_file c, ''file (WithConfigFile): '' @ cc_config_file c)
         else (case candidate of
                 Some f \<Rightarrow> (''file:'' @ f, ''file next to executable: '' @ f)
               | None \<Rightarrow> (''yaml:'' @ embedded, ''embedded default'')))"

subsection \<open>The life cycle\<close>

text \<open>
  Where \<open>start\<close> is: waiting until the deadline for readiness; draining after a failure until a deadline;
  returned, when and with what.  \<open>Shutdown\<close> may be called more than once; a call knows when it was
  made and its deadline.
\<close>

datatype start_pc = ST_Wait | ST_Drain nat go_error | ST_Returned nat "unit result"

datatype stop_pc = SH_Wait | SH_Returned nat "go_error option"

record stop_call =
  sc_called :: nat
  sc_deadline :: nat
  sc_pc :: stop_pc

datatype run_state = Run_Starting | Run_Running | Run_Exited

record collector =
  co_clock :: nat
  co_run :: run_state
  co_done :: "go_error option list"
  co_cancelled :: bool
  co_stopping :: bool
  co_warned :: bool
  co_start :: start_pc
  co_stops :: "stop_call list"

text \<open>\<open>start\<close> after it made the collector and started its goroutine.\<close>

definition collector_started :: collector where
  "collector_started = \<lparr>co_clock = 0, co_run = Run_Starting, co_done = [], co_cancelled = False, co_stopping = False,
     co_warned = False, co_start = ST_Wait, co_stops = []\<rparr>"

text \<open>The two timeouts; the first also as \<open>Duration.String\<close> renders it.\<close>

record timeouts =
  to_start :: nat
  to_start_text :: string
  to_shutdown :: nat

datatype collector_event =
    Clock
  | Run_Becomes_Ready
  | Run_Exits "go_error option"
  | Start_Runs
  | Start_Times_Out
  | Start_Cancelled go_error
  | Start_Polls
  | Shutdown_Called "nat option"
  | Shutdown_Runs nat
  | Shutdown_Times_Out nat
  | Shutdown_Cancelled nat go_error

definition exit_error :: "go_error option \<Rightarrow> go_error" where
  "exit_error e = (case e of Some x \<Rightarrow> ''collector exited during startup: '' @ x | None \<Rightarrow> ''collector stopped during startup'')"

text \<open>The cases of \<open>waitReady\<close>'s select with what \<open>start\<close> does next; \<open>None\<close>: it cannot happen.\<close>

definition start_exited :: "collector \<Rightarrow> collector option" where
  "start_exited s =
     (case (co_start s, co_done s) of
        (ST_Wait, e # es) \<Rightarrow>
          Some (s\<lparr>co_done := es, co_cancelled := True, co_start := ST_Returned (co_clock s) (Inl (exit_error e))\<rparr>)
      | (ST_Drain d x, e # es) \<Rightarrow> Some (s\<lparr>co_done := es, co_start := ST_Returned (co_clock s) (Inl x)\<rparr>)
      | _ \<Rightarrow> None)"

definition start_fails :: "timeouts \<Rightarrow> go_error \<Rightarrow> collector \<Rightarrow> collector" where
  "start_fails T e s = s\<lparr>co_cancelled := True, co_start := ST_Drain (co_clock s + to_shutdown T) e\<rparr>"

definition start_times_out :: "timeouts \<Rightarrow> collector \<Rightarrow> collector option" where
  "start_times_out T s =
     (case co_start s of
        ST_Wait \<Rightarrow> if co_clock s < to_start T then None
          else Some (start_fails T (''collector did not reach running state within '' @ to_start_text T) s)
      | ST_Drain d e \<Rightarrow> if co_clock s < d then None
          else Some (s\<lparr>co_warned := True, co_start := ST_Returned (co_clock s) (Inl e)\<rparr>)
      | ST_Returned t r \<Rightarrow> None)"

definition start_polls :: "collector \<Rightarrow> collector option" where
  "start_polls s =
     (if co_start s = ST_Wait
      then Some (if co_run s = Run_Running then s\<lparr>co_start := ST_Returned (co_clock s) (Inr ())\<rparr> else s) else None)"

text \<open>\<open>Shutdown\<close>, on a collector that was returned; \<open>deadline\<close> is the context's, if it has one.\<close>

definition shutdown_called :: "timeouts \<Rightarrow> nat option \<Rightarrow> collector \<Rightarrow> collector option" where
  "shutdown_called T deadline s =
     (case co_start s of
        ST_Returned t (Inr u) \<Rightarrow>
          Some (s\<lparr>co_stopping := True, co_stops := co_stops s @ [\<lparr>sc_called = co_clock s,
            sc_deadline = (case deadline of Some d \<Rightarrow> d | None \<Rightarrow> co_clock s + to_shutdown T), sc_pc = SH_Wait\<rparr>]\<rparr>)
      | _ \<Rightarrow> None)"

definition put_stop :: "nat \<Rightarrow> go_error option \<Rightarrow> collector \<Rightarrow> collector" where
  "put_stop i e s =
     s\<lparr>co_cancelled := True, co_stops := (co_stops s)[i := (co_stops s ! i)\<lparr>sc_pc := SH_Returned (co_clock s) e\<rparr>]\<rparr>"

definition shutdown_runs :: "nat \<Rightarrow> collector \<Rightarrow> collector option" where
  "shutdown_runs i s =
     (case co_done s of
        [] \<Rightarrow> None
      | e # es \<Rightarrow>
          if i < length (co_stops s) \<and> sc_pc (co_stops s ! i) = SH_Wait
          then Some (put_stop i (map_option (\<lambda>x. ''collector shutdown: '' @ x) e) (s\<lparr>co_done := es\<rparr>)) else None)"

definition deadline_exceeded :: go_error where
  "deadline_exceeded = ''context deadline exceeded''"

definition shutdown_times_out :: "nat \<Rightarrow> collector \<Rightarrow> collector option" where
  "shutdown_times_out i s =
     (if i < length (co_stops s) \<and> sc_pc (co_stops s ! i) = SH_Wait \<and> sc_deadline (co_stops s ! i) \<le> co_clock s
      then Some (put_stop i (Some deadline_exceeded) s) else None)"

definition shutdown_cancelled :: "nat \<Rightarrow> go_error \<Rightarrow> collector \<Rightarrow> collector option" where
  "shutdown_cancelled i e s =
     (if i < length (co_stops s) \<and> sc_pc (co_stops s ! i) = SH_Wait then Some (put_stop i (Some e) s) else None)"

text \<open>Whether a timer has run out that its goroutine has yet to act on: time passes only when none has.\<close>

definition timer_due :: "timeouts \<Rightarrow> collector \<Rightarrow> bool" where
  "timer_due T s \<longleftrightarrow>
     (case co_start s of ST_Wait \<Rightarrow> to_start T \<le> co_clock s | ST_Drain d e \<Rightarrow> d \<le> co_clock s | ST_Returned t r \<Rightarrow> False) \<or>
     list_ex (\<lambda>c. sc_pc c = SH_Wait \<and> sc_deadline c \<le> co_clock s) (co_stops s)"

definition collector_exec :: "timeouts \<Rightarrow> collector_event \<Rightarrow> collector \<Rightarrow> collector option" where
  "collector_exec T ev s =
     (case ev of
        Clock \<Rightarrow> if timer_due T s then None else Some (s\<lparr>co_clock := co_clock s + 1\<rparr>)
      | Run_Becomes_Ready \<Rightarrow> if co_run s = Run_Starting then Some (s\<lparr>co_run := Run_Running\<rparr>) else None
      | Run_Exits e \<Rightarrow> if co_run s = Run_Exited then None else Some (s\<lparr>co_run := Run_Exited, co_done := co_done s @ [e]\<rparr>)
      | Start_Runs \<Rightarrow> start_exited s
      | Start_Times_Out \<Rightarrow> start_times_out T s
      | Start_Cancelled e \<Rightarrow> if co_start s = ST_Wait then Some (start_fails T e s) else None
      | Start_Polls \<Rightarrow> start_polls s
      | Shutdown_Called d \<Rightarrow> shutdown_called T d s
      | Shutdown_Runs i \<Rightarrow> shutdown_runs i s
      | Shutdown_Times_Out i \<Rightarrow> shutdown_times_out i s
      | Shutdown_Cancelled i e \<Rightarrow> shutdown_cancelled i e s)"

subsection \<open>From the options to a running collector\<close>

text \<open>
  Component factories by their type; \<open>bundled\<close> are those linked into the package, each with the type it
  reports.  \<open>DefaultFactories\<close> has an error result and never uses it.
\<close>

record 'f factories =
  fa_receivers :: "(string, 'f) go_map"
  fa_processors :: "(string, 'f) go_map"
  fa_exporters :: "(string, 'f) go_map"
  fa_extensions :: "(string, 'f) go_map"
  fa_connectors :: "(string, 'f) go_map"

record 'f bundled =
  bu_otlp :: "string \<times> 'f"
  bu_batch :: "string \<times> 'f"
  bu_cumulative :: "string \<times> 'f"
  bu_otlp_http :: "string \<times> 'f"
  bu_azure_auth :: "string \<times> 'f"

definition default_factories :: "'f bundled \<Rightarrow> 'f factories result" where
  "default_factories b = Inr
     \<lparr>fa_receivers = [bu_otlp b],
      fa_processors = map_put (fst (bu_cumulative b)) (snd (bu_cumulative b)) [bu_batch b],
      fa_exporters = [bu_otlp_http b], fa_extensions = [bu_azure_auth b], fa_connectors = []\<rparr>"

record ('f, 'b) collector_settings =
  cs_build_info :: 'b
  cs_factories :: "'f factories"
  cs_uris :: "string list"
  cs_providers :: "string list"

text \<open>
  \<open>start\<close> up to the goroutine, but for its log line with the source; \<open>new_collector\<close> is
  \<open>otelcol.NewCollector\<close>.
\<close>

definition prepare_collector ::
    "'f factories result \<Rightarrow> string \<times> string \<Rightarrow> (('f, 'b) collector_settings \<Rightarrow> 'k result) \<Rightarrow>
     ('f factories, 'b) collector_config \<Rightarrow> 'k result" where
  "prepare_collector defaults resolved new_collector c =
     (case (case cc_factories c of Some f \<Rightarrow> Inr f | None \<Rightarrow> defaults) of
        Inl e \<Rightarrow> Inl (''build collector factories: '' @ e)
      | Inr f \<Rightarrow>
          (case new_collector \<lparr>cs_build_info = cc_build_info c, cs_factories = f, cs_uris = [fst resolved],
              cs_providers = [''file'', ''env'', ''yaml'']\<rparr> of
             Inl e \<Rightarrow> Inl (''create collector: '' @ e)
           | Inr k \<Rightarrow> Inr k))"

text \<open>\<open>wait\<close> is the rest of \<open>start\<close>, the transition system above, for the collector and its timeouts.\<close>

definition start_collector ::
    "'f factories result \<Rightarrow> (('f factories, 'b) collector_config \<Rightarrow> string \<times> string) \<Rightarrow>
     (('f, 'b) collector_settings \<Rightarrow> 'k result) \<Rightarrow> ('k \<Rightarrow> ('f factories, 'b) collector_config \<Rightarrow> 'w \<Rightarrow> unit result \<times> 'w) \<Rightarrow>
     ('f factories, 'b) collector_config \<Rightarrow> 'w \<Rightarrow> 'k result \<times> 'w" where
  "start_collector defaults resolve new_collector wait c w =
     (case prepare_collector defaults (resolve c) new_collector c of
        Inl e \<Rightarrow> (Inl e, w)
      | Inr k \<Rightarrow> (case wait k c w of (Inl e, w') \<Rightarrow> (Inl e, w') | (Inr u, w') \<Rightarrow> (Inr k, w')))"

subsection \<open>The worker's hook\<close>

text \<open>
  \<open>run\<close> is \<open>start\<close> and \<open>stop\<close> is \<open>Collector.Shutdown\<close> on the worker's world; the hook keeps the collector it
  started, and nothing when it degraded.
\<close>

record ('k, 'w) hook_world =
  hw_collector :: "'k option"
  hw_warnings :: nat
  hw_rest :: 'w

definition collector_shutdown ::
    "('k \<Rightarrow> 'w \<Rightarrow> go_error option \<times> 'w) \<Rightarrow> 'k option \<Rightarrow> 'w \<Rightarrow> go_error option \<times> 'w" where
  "collector_shutdown stop c w = (case c of None \<Rightarrow> (None, w) | Some k \<Rightarrow> stop k w)"

definition collector_hook ::
    "bool \<Rightarrow> ('w \<Rightarrow> 'k result \<times> 'w) \<Rightarrow> ('k \<Rightarrow> 'w \<Rightarrow> go_error option \<times> 'w) \<Rightarrow> ('k, 'w) hook_world lifecycle_hook" where
  "collector_hook fail_fast run stop =
     \<lparr>lh_start = (\<lambda>h. case run (hw_rest h) of
          (Inl e, w) \<Rightarrow> (if fail_fast then (Some (''embedded collector: '' @ e), h\<lparr>hw_rest := w\<rparr>)
                        else (None, h\<lparr>hw_warnings := hw_warnings h + 1, hw_rest := w\<rparr>))
        | (Inr k, w) \<Rightarrow> (None, h\<lparr>hw_collector := Some k, hw_rest := w\<rparr>)),
      lh_shutdown = (\<lambda>h. case collector_shutdown stop (hw_collector h) (hw_rest h) of
          (e, w) \<Rightarrow> (e, h\<lparr>hw_rest := w\<rparr>))\<rparr>"

text \<open>\<open>WithCollector\<close>: the start option that adds the hook; its options are resolved when it starts.\<close>

definition with_collector ::
    "'b \<Rightarrow> ('f factories, 'b) collector_option list \<Rightarrow> 'f factories result \<Rightarrow>
     (('f factories, 'b) collector_config \<Rightarrow> string \<times> string) \<Rightarrow> (('f, 'b) collector_settings \<Rightarrow> 'k result) \<Rightarrow>
     ('k \<Rightarrow> ('f factories, 'b) collector_config \<Rightarrow> 'w \<Rightarrow> unit result \<times> 'w) \<Rightarrow> ('k \<Rightarrow> 'w \<Rightarrow> go_error option \<times> 'w) \<Rightarrow>
     ('k, 'w) hook_world lifecycle_hook start_config \<Rightarrow> ('k, 'w) hook_world lifecycle_hook start_config" where
  "with_collector build opts defaults resolve new_collector wait stop =
     (let c = new_config build opts in
      with_lifecycle_hook (Some (collector_hook (cc_fail_fast c) (start_collector defaults resolve new_collector wait c) stop)))"

subsection \<open>Lemmas\<close>

text \<open>
  The invariant.  Nobody waits past a deadline; a failed \<open>start\<close> has cancelled the goroutine, which has
  exited or was warned about; until a \<open>Shutdown\<close> has returned a collector that started is not cancelled;
  the channel of the exit holds one value, so the goroutine never blocks on it.
\<close>

fun start_ok :: "timeouts \<Rightarrow> collector \<Rightarrow> start_pc \<Rightarrow> bool" where
  "start_ok T s ST_Wait \<longleftrightarrow> co_clock s \<le> to_start T \<and> \<not> co_cancelled s \<and> co_stops s = []"
| "start_ok T s (ST_Drain d e) \<longleftrightarrow> co_clock s \<le> d \<and> d \<le> to_start T + to_shutdown T \<and> co_cancelled s \<and> co_stops s = []"
| "start_ok T s (ST_Returned t (Inl e)) \<longleftrightarrow>
     t \<le> to_start T + to_shutdown T \<and> co_cancelled s \<and> (co_run s = Run_Exited \<or> co_warned s) \<and> co_stops s = []"
| "start_ok T s (ST_Returned t (Inr u)) \<longleftrightarrow>
     t \<le> to_start T \<and> (co_cancelled s \<longrightarrow> (\<exists>c \<in> set (co_stops s). sc_pc c \<noteq> SH_Wait)) \<and> co_stopping s = (co_stops s \<noteq> [])"

definition stop_ok :: "collector \<Rightarrow> stop_call \<Rightarrow> bool" where
  "stop_ok s c \<longleftrightarrow>
     (case sc_pc c of
        SH_Wait \<Rightarrow> co_clock s \<le> max (sc_called c) (sc_deadline c)
      | SH_Returned t e \<Rightarrow> t \<le> max (sc_called c) (sc_deadline c) \<and> co_cancelled s \<and> (e = None \<longrightarrow> co_run s = Run_Exited))"

definition collector_ok :: "timeouts \<Rightarrow> collector \<Rightarrow> bool" where
  "collector_ok T s \<longleftrightarrow>
     start_ok T s (co_start s) \<and> (co_stopping s \<longrightarrow> co_stops s \<noteq> []) \<and> (\<forall>c \<in> set (co_stops s). stop_ok s c) \<and>
     length (co_done s) \<le> 1 \<and> (co_run s \<noteq> Run_Exited \<longrightarrow> co_done s = [])"

lemma stop_ok_frame [simp]:
  "stop_ok (s\<lparr>co_stops := x\<rparr>) c = stop_ok s c" "stop_ok (s\<lparr>co_done := y\<rparr>) c = stop_ok s c"
  "stop_ok (s\<lparr>co_stopping := b\<rparr>) c = stop_ok s c" "stop_ok (s\<lparr>co_start := z\<rparr>) c = stop_ok s c"
  "stop_ok (s\<lparr>co_warned := b\<rparr>) c = stop_ok s c"
  by (simp_all add: stop_ok_def split: stop_pc.split)

lemma stop_ok_mono:
  assumes "stop_ok s c" and "co_clock t = co_clock s" and "co_cancelled s \<longrightarrow> co_cancelled t"
    and "co_run s = Run_Exited \<longrightarrow> co_run t = Run_Exited"
  shows "stop_ok t c"
  using assms by (auto simp: stop_ok_def split: stop_pc.splits)

lemma done_cases:
  assumes "collector_ok T s" and "co_done s = e # es"
  shows "es = [] \<and> co_run s = Run_Exited"
  using assms by (auto simp: collector_ok_def)

lemma not_due:
  assumes "\<not> timer_due T s"
  shows "co_start s = ST_Wait \<Longrightarrow> co_clock s < to_start T"
    and "co_start s = ST_Drain d e \<Longrightarrow> co_clock s < d"
    and "c \<in> set (co_stops s) \<Longrightarrow> sc_pc c = SH_Wait \<Longrightarrow> co_clock s < sc_deadline c"
  using assms by (auto simp: timer_due_def list_ex_iff)

lemma collector_ok_clock:
  assumes "collector_ok T s" and "\<not> timer_due T s"
  shows "collector_ok T (s\<lparr>co_clock := Suc (co_clock s)\<rparr>)"
proof -
  have "start_ok T (s\<lparr>co_clock := Suc (co_clock s)\<rparr>) (co_start s)"
    using assms not_due(1,2) [OF assms(2)]
    by (cases "(T, s, co_start s)" rule: start_ok.cases) (auto simp: collector_ok_def Suc_le_eq)
  moreover have "stop_ok (s\<lparr>co_clock := Suc (co_clock s)\<rparr>) c" if "c \<in> set (co_stops s)" for c
    using assms(1) that not_due(3) [OF assms(2) that]
    by (fastforce simp: collector_ok_def stop_ok_def split: stop_pc.splits)
  ultimately show ?thesis using assms(1) by (simp add: collector_ok_def)
qed

lemma waiting_stop_started:
  assumes "collector_ok T s" and "i < length (co_stops s)"
  shows "\<exists>t. co_start s = ST_Returned t (Inr ())"
  using assms by (cases "(T, s, co_start s)" rule: start_ok.cases) (auto simp: collector_ok_def)

lemma collector_ok_put:
  assumes ok: "collector_ok T s" and i: "i < length (co_stops s)" and w: "sc_pc (co_stops s ! i) = SH_Wait"
    and e: "e = None \<longrightarrow> co_run s = Run_Exited" and d: "ds = co_done s \<or> ds = []"
  shows "collector_ok T (put_stop i e (s\<lparr>co_done := ds\<rparr>))"
proof -
  let ?s = "put_stop i e (s\<lparr>co_done := ds\<rparr>)" and ?c = "(co_stops s ! i)\<lparr>sc_pc := SH_Returned (co_clock s) e\<rparr>"
  have stops: "co_stops ?s = (co_stops s)[i := ?c]" by (simp add: put_stop_def)
  obtain t where t: "co_start s = ST_Returned t (Inr ())" using waiting_stop_started [OF ok i] by blast
  have "?c \<in> set (co_stops ?s)" unfolding stops by (rule set_update_memI [OF i])
  then have "\<exists>c \<in> set (co_stops ?s). sc_pc c \<noteq> SH_Wait" by (rule bexI [rotated]) simp
  moreover have "co_stops ?s \<noteq> []" "co_stopping ?s = co_stopping s" "co_start ?s = co_start s"
    using i by (auto simp: put_stop_def)
  moreover have "t \<le> to_start T" "co_stopping s" using ok t i by (auto simp: collector_ok_def)
  ultimately have "start_ok T ?s (co_start ?s)" by (simp only: t start_ok.simps simp_thms)
  moreover have "stop_ok ?s c" if "c \<in> set (co_stops ?s)" for c
  proof (cases "c = ?c")
    case True
    have "stop_ok s (co_stops s ! i)" using ok i by (simp add: collector_ok_def)
    with w e True show ?thesis by (simp add: stop_ok_def put_stop_def)
  next
    case False
    with that have "c \<in> set (co_stops s)" unfolding stops using set_update_subset_insert by fastforce
    with ok have "stop_ok s c" by (simp add: collector_ok_def)
    then show ?thesis by (rule stop_ok_mono) (simp_all add: put_stop_def)
  qed
  ultimately show ?thesis using ok d i by (auto simp: collector_ok_def put_stop_def)
qed

lemma collector_ok_start_exited: "collector_ok T s \<Longrightarrow> start_exited s = Some t \<Longrightarrow> collector_ok T t"
proof -
  assume ok: "collector_ok T s" and t: "start_exited s = Some t"
  then obtain e es where e: "co_done s = e # es" by (cases "co_done s") (auto simp: start_exited_def split: start_pc.splits)
  note d = done_cases [OF ok e]
  show ?thesis
  proof (cases "co_start s")
    case ST_Wait
    with t e have "t = s\<lparr>co_done := es, co_cancelled := True, co_start := ST_Returned (co_clock s) (Inl (exit_error e))\<rparr>"
      by (simp add: start_exited_def)
    with ok d ST_Wait show ?thesis by (auto simp: collector_ok_def)
  next
    case (ST_Drain n x)
    with t e have "t = s\<lparr>co_done := es, co_start := ST_Returned (co_clock s) (Inl x)\<rparr>" by (simp add: start_exited_def)
    with ok d ST_Drain show ?thesis by (auto simp: collector_ok_def)
  next
    case (ST_Returned n r)
    with t show ?thesis by (simp add: start_exited_def)
  qed
qed

lemma collector_ok_fails: "collector_ok T s \<Longrightarrow> co_start s = ST_Wait \<Longrightarrow> collector_ok T (start_fails T e s)"
  by (auto simp: collector_ok_def start_fails_def)

lemma collector_ok_times_out:
  "collector_ok T s \<Longrightarrow> start_times_out T s = Some t \<Longrightarrow> collector_ok T t"
  by (cases "co_start s") (auto simp: start_times_out_def collector_ok_fails split: if_splits, auto simp: collector_ok_def)

lemma collector_ok_polls: "collector_ok T s \<Longrightarrow> start_polls s = Some t \<Longrightarrow> collector_ok T t"
  by (auto simp: start_polls_def collector_ok_def split: if_splits)

lemma collector_ok_shutdown_called:
  assumes "collector_ok T s" and "shutdown_called T d s = Some t"
  shows "collector_ok T t"
proof -
  obtain r u where "co_start s = ST_Returned r (Inr u)" using assms(2) by (auto simp: shutdown_called_def split: start_pc.splits sum.splits)
  then show ?thesis
    using assms by (auto simp: shutdown_called_def collector_ok_def) (auto simp: stop_ok_def)
qed

lemma collector_ok_run:
  "collector_ok T s \<Longrightarrow> co_run s = Run_Starting \<Longrightarrow> collector_ok T (s\<lparr>co_run := Run_Running\<rparr>)"
  "collector_ok T s \<Longrightarrow> co_run s \<noteq> Run_Exited \<Longrightarrow> collector_ok T (s\<lparr>co_run := Run_Exited, co_done := co_done s @ [e]\<rparr>)"
proof -
  have m: "stop_ok s c \<Longrightarrow> stop_ok (s\<lparr>co_run := Run_Exited, co_done := ds\<rparr>) c"
    "stop_ok s c \<Longrightarrow> co_run s \<noteq> Run_Exited \<Longrightarrow> stop_ok (s\<lparr>co_run := Run_Running\<rparr>) c" for c ds
    by (erule stop_ok_mono; simp)+
  show "collector_ok T s \<Longrightarrow> co_run s = Run_Starting \<Longrightarrow> collector_ok T (s\<lparr>co_run := Run_Running\<rparr>)"
    using m(2) by (cases "(T, s, co_start s)" rule: start_ok.cases) (auto simp: collector_ok_def)
  show "collector_ok T s \<Longrightarrow> co_run s \<noteq> Run_Exited \<Longrightarrow> collector_ok T (s\<lparr>co_run := Run_Exited, co_done := co_done s @ [e]\<rparr>)"
    using m(1) by (cases "(T, s, co_start s)" rule: start_ok.cases) (auto simp: collector_ok_def)
qed

lemma collector_ok_step:
  assumes ok: "collector_ok T s" and step: "collector_exec T e s = Some t"
  shows "collector_ok T t"
proof (cases e)
  case Clock
  with assms show ?thesis by (auto simp: collector_exec_def collector_ok_clock split: if_splits)
next
  case (Shutdown_Runs i)
  with step obtain x xs where d: "co_done s = x # xs" and i: "i < length (co_stops s)" "sc_pc (co_stops s ! i) = SH_Wait"
    and t: "t = put_stop i (map_option (\<lambda>x. ''collector shutdown: '' @ x) x) (s\<lparr>co_done := xs\<rparr>)"
    by (auto simp: collector_exec_def shutdown_runs_def split: list.splits if_splits)
  with done_cases [OF ok d] collector_ok_put [OF ok i] show ?thesis by auto
next
  case (Shutdown_Times_Out i)
  with step collector_ok_put [OF ok, of i "Some deadline_exceeded" "co_done s"] show ?thesis
    by (auto simp: collector_exec_def shutdown_times_out_def split: if_splits)
next
  case (Shutdown_Cancelled i x)
  with step collector_ok_put [OF ok, of i "Some x" "co_done s"] show ?thesis
    by (auto simp: collector_exec_def shutdown_cancelled_def split: if_splits)
next
  case Run_Becomes_Ready
  with step collector_ok_run(1) [OF ok] show ?thesis by (simp add: collector_exec_def split: if_splits)
next
  case (Run_Exits x)
  with step collector_ok_run(2) [OF ok] show ?thesis by (auto simp: collector_exec_def split: if_splits)
next
  case Start_Runs
  with step collector_ok_start_exited [OF ok] show ?thesis by (simp add: collector_exec_def)
next
  case Start_Times_Out
  with step collector_ok_times_out [OF ok] show ?thesis by (simp add: collector_exec_def)
next
  case (Start_Cancelled x)
  with step collector_ok_fails [OF ok] show ?thesis by (auto simp: collector_exec_def split: if_splits)
next
  case Start_Polls
  with step collector_ok_polls [OF ok] show ?thesis by (simp add: collector_exec_def)
next
  case (Shutdown_Called d)
  with step collector_ok_shutdown_called [OF ok] show ?thesis by (simp add: collector_exec_def)
qed

interpretation started: invariant_runs "collector_exec T" collector_started "collector_ok T" for T
  by unfold_locales (auto simp: collector_ok_step, simp add: collector_ok_def collector_started_def)

subsection \<open>Waiting ends\<close>

definition settled :: "collector \<Rightarrow> bool" where
  "settled s \<longleftrightarrow> (\<exists>t r. co_start s = ST_Returned t r) \<and> (\<forall>c \<in> set (co_stops s). sc_pc c \<noteq> SH_Wait)"

definition passing :: "collector_event \<Rightarrow> bool" where
  "passing e \<longleftrightarrow> e \<in> {Clock, Start_Times_Out} \<or> (\<exists>i. e = Shutdown_Times_Out i)"

definition stop_left :: "nat \<Rightarrow> stop_call \<Rightarrow> nat" where
  "stop_left now c = (if sc_pc c = SH_Wait then Suc (sc_deadline c - now) else 0)"

definition time_left :: "timeouts \<Rightarrow> collector \<Rightarrow> nat" where
  "time_left T s =
     (case co_start s of
        ST_Wait \<Rightarrow> (to_start T - co_clock s) + to_shutdown T + 2
      | ST_Drain d e \<Rightarrow> Suc (d - co_clock s)
      | ST_Returned t r \<Rightarrow> 0) + sum_list (map (stop_left (co_clock s)) (co_stops s))"

definition unsettled_exec :: "timeouts \<Rightarrow> collector_event \<Rightarrow> collector \<Rightarrow> collector option" where
  "unsettled_exec T e s = (if settled s then None else collector_exec T e s)"

lemma stop_left_clock:
  "list_all (\<lambda>c. sc_pc c = SH_Wait \<longrightarrow> now < sc_deadline c) cs \<Longrightarrow>
   sum_list (map (stop_left (Suc now)) cs) \<le> sum_list (map (stop_left now) cs) \<and>
   (list_ex (\<lambda>c. sc_pc c = SH_Wait) cs \<longrightarrow> sum_list (map (stop_left (Suc now)) cs) < sum_list (map (stop_left now) cs))"
  by (induction cs) (auto simp: stop_left_def)

lemma stop_left_put:
  "i < length cs \<Longrightarrow> sc_pc (cs ! i) = SH_Wait \<Longrightarrow> pc \<noteq> SH_Wait \<Longrightarrow>
   sum_list (map (stop_left now) (cs[i := (cs ! i)\<lparr>sc_pc := pc\<rparr>])) < sum_list (map (stop_left now) cs)"
proof (induction cs arbitrary: i)
  case (Cons c cs)
  then show ?case by (cases i) (auto simp: stop_left_def)
qed simp

lemma time_left_clock:
  assumes "\<not> timer_due T s" and "\<not> settled s"
  shows "time_left T (s\<lparr>co_clock := Suc (co_clock s)\<rparr>) < time_left T s"
proof -
  note d = not_due [OF assms(1)]
  have "list_all (\<lambda>c. sc_pc c = SH_Wait \<longrightarrow> co_clock s < sc_deadline c) (co_stops s)"
    using d(3) by (auto simp: list_all_iff)
  note stops = stop_left_clock [OF this]
  show ?thesis
  proof (cases "co_start s")
    case (ST_Returned t r)
    with assms(2) have "list_ex (\<lambda>c. sc_pc c = SH_Wait) (co_stops s)" by (auto simp: settled_def list_ex_iff)
    with stops ST_Returned show ?thesis by (simp add: time_left_def)
  next
    case ST_Wait
    have "to_start T - Suc (co_clock s) < to_start T - co_clock s" using d(1) [OF ST_Wait] by linarith
    with conjunct1 [OF stops] have "(to_start T - Suc (co_clock s)) + to_shutdown T + 2 +
        sum_list (map (stop_left (Suc (co_clock s))) (co_stops s)) <
      (to_start T - co_clock s) + to_shutdown T + 2 + sum_list (map (stop_left (co_clock s)) (co_stops s))" by linarith
    moreover have "time_left T (s\<lparr>co_clock := Suc (co_clock s)\<rparr>) = (to_start T - Suc (co_clock s)) + to_shutdown T + 2 +
        sum_list (map (stop_left (Suc (co_clock s))) (co_stops s))"
      "time_left T s = (to_start T - co_clock s) + to_shutdown T + 2 + sum_list (map (stop_left (co_clock s)) (co_stops s))"
      by (simp_all add: time_left_def ST_Wait)
    ultimately show ?thesis by (simp only:)
  next
    case (ST_Drain n e)
    have "n - Suc (co_clock s) < n - co_clock s" using d(2) [OF ST_Drain] by linarith
    with conjunct1 [OF stops] have "Suc (n - Suc (co_clock s)) + sum_list (map (stop_left (Suc (co_clock s))) (co_stops s)) <
      Suc (n - co_clock s) + sum_list (map (stop_left (co_clock s)) (co_stops s))" by linarith
    moreover have "time_left T (s\<lparr>co_clock := Suc (co_clock s)\<rparr>) = Suc (n - Suc (co_clock s)) +
        sum_list (map (stop_left (Suc (co_clock s))) (co_stops s))"
      "time_left T s = Suc (n - co_clock s) + sum_list (map (stop_left (co_clock s)) (co_stops s))"
      by (simp_all add: time_left_def ST_Drain)
    ultimately show ?thesis by (simp only:)
  qed
qed

lemma time_left_step:
  assumes "unsettled_exec T e s = Some t" and "passing e"
  shows "time_left T t < time_left T s"
proof -
  have step: "\<not> settled s" "collector_exec T e s = Some t" using assms(1) by (simp_all add: unsettled_exec_def split: if_splits)
  from assms(2) consider "e = Clock" | "e = Start_Times_Out" | i where "e = Shutdown_Times_Out i"
    by (auto simp: passing_def)
  then show ?thesis
  proof cases
    case 1
    with step time_left_clock show ?thesis by (auto simp: collector_exec_def split: if_splits)
  next
    case 2
    with step(2) show ?thesis
      by (cases "co_start s") (auto simp: collector_exec_def start_times_out_def start_fails_def time_left_def split: if_splits)
  next
    case (3 i)
    with step(2) have i: "i < length (co_stops s)" "sc_pc (co_stops s ! i) = SH_Wait"
      and t: "t = put_stop i (Some deadline_exceeded) s"
      by (auto simp: collector_exec_def shutdown_times_out_def split: if_splits)
    from stop_left_put [OF i] show ?thesis by (simp add: t put_stop_def time_left_def split: start_pc.split)
  qed
qed

lemma passing_possible: "\<not> settled s \<Longrightarrow> \<exists>e t. passing e \<and> unsettled_exec T e s = Some t"
proof -
  assume n: "\<not> settled s"
  show "\<exists>e t. passing e \<and> unsettled_exec T e s = Some t"
  proof (cases "timer_due T s")
    case False
    with n have "passing Clock \<and> unsettled_exec T Clock s = Some (s\<lparr>co_clock := co_clock s + 1\<rparr>)"
      by (simp add: passing_def unsettled_exec_def collector_exec_def)
    then show ?thesis by blast
  next
    case True
    then consider "\<exists>t. start_times_out T s = Some t" | i where "\<exists>t. shutdown_times_out i s = Some t"
      by (cases "co_start s") (auto simp: timer_due_def start_times_out_def shutdown_times_out_def list_ex_iff in_set_conv_nth)
    then show ?thesis
    proof cases
      case 1
      with n have "passing Start_Times_Out \<and> (\<exists>t. unsettled_exec T Start_Times_Out s = Some t)"
        by (simp add: passing_def unsettled_exec_def collector_exec_def)
      then show ?thesis by blast
    next
      case (2 i)
      with n have "passing (Shutdown_Times_Out i) \<and> (\<exists>t. unsettled_exec T (Shutdown_Times_Out i) s = Some t)"
        by (simp add: passing_def unsettled_exec_def collector_exec_def)
      then show ?thesis by blast
    qed
  qed
qed

interpretation waiting: ranked_runs "unsettled_exec T" "time_left T" passing for T
  by unfold_locales (rule time_left_step)

lemma unsettled_exec_all: "exec_all (unsettled_exec T) es s = Some t \<Longrightarrow> exec_all (collector_exec T) es s = Some t"
  by (induction es arbitrary: s) (auto simp: unsettled_exec_def split: option.splits if_splits)

subsection \<open>Properties\<close>

text \<open>
  C40. Starting the collector is bounded and leaves nothing behind: whatever happens, \<open>start\<close> is back within
  the start timeout plus the shutdown timeout (within the start timeout if it succeeds); when it fails,
  the collector's goroutine was cancelled and has exited, or the warning was logged that it had not; and
  when it succeeds the collector is not cancelled before a \<open>Shutdown\<close> has returned.
\<close>

theorem collector_start_bounded:
  assumes "exec_all (collector_exec T) evs collector_started = Some s"
  shows "((\<forall>t r. co_start s \<noteq> ST_Returned t r) \<longrightarrow> co_clock s \<le> to_start T + to_shutdown T) \<and>
    (co_start s = ST_Returned t (Inl e) \<longrightarrow>
      t \<le> to_start T + to_shutdown T \<and> co_cancelled s \<and> (co_run s = Run_Exited \<or> co_warned s)) \<and>
    (co_start s = ST_Returned t (Inr u) \<longrightarrow>
      t \<le> to_start T \<and> (co_cancelled s \<longrightarrow> (\<exists>c \<in> set (co_stops s). sc_pc c \<noteq> SH_Wait)))"
proof -
  have "start_ok T s (co_start s)" using started.exec_all_inv [OF assms] by (simp add: collector_ok_def)
  then show ?thesis by (cases "co_start s") auto
qed

definition sample_timeouts :: timeouts where
  "sample_timeouts = \<lparr>to_start = 2, to_start_text = ''2ns'', to_shutdown = 1\<rparr>"

lemma sample_failed_start:
  "exec_all (collector_exec sample_timeouts) [Clock, Start_Polls, Clock, Start_Times_Out, Clock, Start_Times_Out] collector_started =
   Some (collector_started\<lparr>co_clock := 3, co_cancelled := True, co_warned := True,
     co_start := ST_Returned 3 (Inl ''collector did not reach running state within 2ns'')\<rparr>)"
  by (simp add: collector_exec_def collector_started_def sample_timeouts_def timer_due_def start_polls_def start_times_out_def
      start_fails_def)

theorem collector_start_bounded_witness:
  "\<exists>s. exec_all (collector_exec sample_timeouts) [Clock, Start_Polls, Clock, Start_Times_Out, Clock, Start_Times_Out] collector_started =
     Some s \<and> co_cancelled s \<and> 3 \<le> to_start sample_timeouts + to_shutdown sample_timeouts"
  using sample_failed_start collector_start_bounded [OF sample_failed_start] by simp

text \<open>
  \<open>Shutdown\<close> is bounded as well: a call returns no later than its deadline (or at once if that had
  passed), the collector is then cancelled, and a call without an error means the collector exited.
\<close>

theorem collector_shutdown_bounded:
  assumes "exec_all (collector_exec T) evs collector_started = Some s" and "c \<in> set (co_stops s)"
  shows "(sc_pc c = SH_Wait \<longrightarrow> co_clock s \<le> max (sc_called c) (sc_deadline c)) \<and>
    (sc_pc c = SH_Returned t e \<longrightarrow>
      t \<le> max (sc_called c) (sc_deadline c) \<and> co_cancelled s \<and> (e = None \<longrightarrow> co_run s = Run_Exited))"
proof -
  have "stop_ok s c" using started.exec_all_inv [OF assms(1)] assms(2) by (simp add: collector_ok_def)
  then show ?thesis by (auto simp: stop_ok_def)
qed

lemma sample_stopped:
  "exec_all (collector_exec sample_timeouts)
     [Run_Becomes_Ready, Start_Polls, Clock, Shutdown_Called None, Run_Exits None, Shutdown_Runs 0] collector_started =
   Some (collector_started\<lparr>co_clock := 1, co_run := Run_Exited, co_cancelled := True, co_stopping := True,
     co_start := ST_Returned 0 (Inr ()), co_stops := [\<lparr>sc_called = 1, sc_deadline = 2, sc_pc = SH_Returned 1 None\<rparr>]\<rparr>)"
  by (simp add: collector_exec_def collector_started_def sample_timeouts_def timer_due_def start_polls_def shutdown_called_def
      shutdown_runs_def put_stop_def)

theorem collector_shutdown_bounded_witness:
  "\<exists>s c. exec_all (collector_exec sample_timeouts)
     [Run_Becomes_Ready, Start_Polls, Clock, Shutdown_Called None, Run_Exits None, Shutdown_Runs 0] collector_started = Some s \<and>
     c \<in> set (co_stops s) \<and> sc_pc c = SH_Returned 1 None \<and> co_run s = Run_Exited"
proof -
  let ?c = "\<lparr>sc_called = 1, sc_deadline = 2, sc_pc = SH_Returned 1 None\<rparr>"
  let ?s = "collector_started\<lparr>co_clock := 1, co_run := Run_Exited, co_cancelled := True, co_stopping := True,
     co_start := ST_Returned 0 (Inr ()), co_stops := [?c]\<rparr>"
  have "?c \<in> set (co_stops ?s)" by simp
  moreover from collector_shutdown_bounded [OF sample_stopped this, of 1 None] have "co_run ?s = Run_Exited" by simp
  moreover have "sc_pc ?c = SH_Returned 1 None" by simp
  ultimately show ?thesis using sample_stopped by blast
qed

text \<open>
  Nobody waits for ever: from any state, if the collector does nothing more, \<open>start\<close> and every call of
  \<open>Shutdown\<close> return by the timers alone.
\<close>

theorem collector_settles:
  "\<exists>es t. list_all passing es \<and> exec_all (collector_exec T) es s = Some t \<and> settled t \<and> length es \<le> time_left T s"
proof -
  from waiting.run_completes [of "\<lambda>s. True" T settled s] passing_possible
  obtain es t where r: "list_all passing es" "exec_all (unsettled_exec T) es s = Some t" "settled t" by blast
  with waiting.run_bound [OF r(2,1)] unsettled_exec_all [OF r(2)] show ?thesis by (intro exI [of _ es] exI [of _ t]) simp
qed

text \<open>
  The hook: without \<open>FailFast\<close> a failure never stops the worker and there is nothing to shut down; with it
  the worker's start-up gets the error.
\<close>

lemma hook_degrades:
  "lh_start (collector_hook ff run stop) h = (e, h') \<Longrightarrow> fst (run (hw_rest h)) = Inl x \<Longrightarrow>
   e = (if ff then Some (''embedded collector: '' @ x) else None) \<and> hw_collector h' = hw_collector h"
  by (auto simp: collector_hook_def split: prod.splits sum.splits if_splits)

lemma hook_without_collector:
  "hw_collector h = None \<Longrightarrow> lh_shutdown (collector_hook ff run stop) h = (None, h)"
  by (simp add: collector_hook_def collector_shutdown_def)

text \<open>The timeouts \<open>start\<close> runs with are positive, whatever the options.\<close>

lemma new_config_timeouts: "0 < cc_start_timeout (new_config b opts) \<and> 0 < cc_shutdown_timeout (new_config b opts)"
  by (simp add: new_config_def Let_def default_start_timeout_def default_shutdown_timeout_def)

text \<open>An option given later wins, and \<open>FailFast\<close> stays on.\<close>

lemma new_config_fail_fast: "cc_fail_fast (new_config b opts) \<longleftrightarrow> Fail_Fast \<in> set opts"
proof -
  have one: "cc_fail_fast (collector_apply x c) \<longleftrightarrow> cc_fail_fast c \<or> x = Fail_Fast" for x c
    by (cases x) simp_all
  have "cc_fail_fast (fold collector_apply opts c) \<longleftrightarrow> cc_fail_fast c \<or> Fail_Fast \<in> set opts" for c
    by (induction opts arbitrary: c) (auto simp: one)
  then show ?thesis by (simp add: new_config_def Let_def)
qed

text \<open>
  A worker with the collector's hook among its hooks: without \<open>FailFast\<close> it starts whenever its other
  hooks would, however the collector fails; with it the worker's start-up fails with the reason.
\<close>

lemma with_collector_starts:
  "start_hooks (sc_hooks (configured [with_collector b opts defaults resolve new_collector wait stop])) h = (e, h') \<Longrightarrow>
     e = (case fst (start_collector defaults resolve new_collector wait (new_config b opts) (hw_rest h)) of
            Inl x \<Rightarrow> if Fail_Fast \<in> set opts then Some (''embedded collector: '' @ x) else None
          | Inr k \<Rightarrow> None)"
  by (auto simp: configured_def with_collector_def with_lifecycle_hook_def start_hooks_def shutdown_hooks_def
      collector_hook_def new_config_fail_fast Let_def split: prod.splits sum.splits if_splits)

text \<open>The reasons a collector that is given no factories fails for are the library's own or the wait's.\<close>

lemma start_collector_failure:
  assumes "start_collector (default_factories bu) resolve new_collector wait c w = (Inl e, w')"
  shows "(\<exists>s x. new_collector s = Inl x \<and> e = ''create collector: '' @ x \<and> cs_uris s = [fst (resolve c)] \<and> w' = w) \<or>
    (\<exists>k. wait k c w = (Inl e, w'))"
proof -
  obtain f where f: "(case cc_factories c of Some f \<Rightarrow> Inr f | None \<Rightarrow> default_factories bu) = Inr f"
    by (cases "cc_factories c") (auto simp: default_factories_def)
  let ?s = "\<lparr>cs_build_info = cc_build_info c, cs_factories = f, cs_uris = [fst (resolve c)],
      cs_providers = [''file'', ''env'', ''yaml'']\<rparr>"
  show ?thesis
  proof (cases "new_collector ?s")
    case (Inl x)
    with assms f show ?thesis
      by (intro disjI1 exI [of _ ?s] exI [of _ x]) (simp add: start_collector_def prepare_collector_def)
  next
    case (Inr k)
    with assms f show ?thesis
      by (intro disjI2 exI [of _ k]) (auto simp: start_collector_def prepare_collector_def split: prod.splits sum.splits)
  qed
qed

end
