(* ===== verification/Otel_Func.thy ===== *)
theory Otel_Func
  imports Worker_Handlers Worker_Metadata
begin

text \<open>
  The tracing middleware (\<open>middleware/otelfunc/middleware.go\<close>, \<open>harvest.go\<close>): its options, where the
  providers come from and who owns them, the handler it wraps around the next one, and its shutdown.
  OpenTelemetry is not under the repository: providers and exporters are values the environment
  makes, spans are known by the calls the middleware makes on them.
\<close>

subsection \<open>Environment variables\<close>

definition is_disabled_by_env :: "(string \<Rightarrow> string) \<Rightarrow> bool" where
  "is_disabled_by_env env \<longleftrightarrow>
     to_lower (trim_space (env ''AZURE_FUNCTIONS_WORKER_OPENTELEMETRY_DISABLED'')) \<in> {''1'', ''true'', ''yes'', ''on''}"

definition has_otlp_endpoint :: "(string \<Rightarrow> string) \<Rightarrow> bool" where
  "has_otlp_endpoint env \<longleftrightarrow>
     list_ex (\<lambda>key. trim_space (env key) \<noteq> '''')
       [''OTEL_EXPORTER_OTLP_ENDPOINT'', ''OTEL_EXPORTER_OTLP_TRACES_ENDPOINT'', ''OTEL_EXPORTER_OTLP_LOGS_ENDPOINT'']"

definition service_name_from_env :: "(string \<Rightarrow> string) \<Rightarrow> string" where
  "service_name_from_env env =
     (let v = trim_space (env ''OTEL_SERVICE_NAME''); site = trim_space (env ''WEBSITE_SITE_NAME'') in
      if v \<noteq> '''' then v else if site \<noteq> '''' then site else '''')"

text \<open>\<open>strings.IndexByte(s, '+') > 0\<close>, and what is before it.\<close>

definition extract_subscription_id :: "string \<Rightarrow> string" where
  "extract_subscription_id owner =
     (case cut_at CHR ''+'' owner of (before, after, found) \<Rightarrow> if found \<and> before \<noteq> '''' then before else '''')"

definition arm_resource_id_from_env :: "(string \<Rightarrow> string) \<Rightarrow> string" where
  "arm_resource_id_from_env env =
     (let site = trim_space (env ''WEBSITE_SITE_NAME'');
          rg = trim_space (env ''WEBSITE_RESOURCE_GROUP'');
          owner = trim_space (env ''WEBSITE_OWNER_NAME'');
          sub = extract_subscription_id owner
      in if site = '''' \<or> rg = '''' \<or> owner = '''' \<or> sub = '''' then ''''
         else ''/subscriptions/'' @ sub @ ''/resourceGroups/'' @ rg @ ''/providers/Microsoft.Web/sites/'' @ site)"

subsection \<open>Attributes and resources\<close>

datatype attr_value = AV_String string | AV_Int int | AV_Other string

type_synonym attributes = "(string \<times> attr_value) list"

text \<open>
  A resource is its attributes; of two with the same key the later wins, in a merge the right one.
  \<open>base\<close> is \<open>resource.Default()\<close>, \<open>mismatch\<close> that the merge failed on the schema.
\<close>

definition resource_of :: "attributes \<Rightarrow> (string, attr_value) go_map" where
  "resource_of attrs = map_merge [] attrs"

definition default_attributes :: "(string \<Rightarrow> string) \<Rightarrow> attributes" where
  "default_attributes env =
     (let name = service_name_from_env env;
          region = trim_space (env ''REGION_NAME'');
          rid = arm_resource_id_from_env env;
          slot = trim_space (env ''WEBSITE_SLOT_NAME'')
      in [(''cloud.provider'', AV_String ''azure''), (''cloud.platform'', AV_String ''azure_functions'')] @
         (if name \<noteq> '''' then [(''service.name'', AV_String name)] else []) @
         (if region \<noteq> '''' then [(''cloud.region'', AV_String region)] else []) @
         (if rid \<noteq> '''' then [(''cloud.resource_id'', AV_String rid)] else []) @
         [(''deployment.environment.name'', AV_String (if slot = '''' then ''production'' else slot))])"

definition build_default_resource ::
    "(string \<Rightarrow> string) \<Rightarrow> (string, attr_value) go_map \<Rightarrow> bool \<Rightarrow> attributes \<Rightarrow> (string, attr_value) go_map" where
  "build_default_resource env base mismatch extra =
     (let r = resource_of (default_attributes env @ extra) in if mismatch then r else map_merge base r)"

subsection \<open>Options\<close>

text \<open>
  Tracer providers \<open>'t\<close>, span exporters \<open>'e\<close>, logger providers \<open>'l\<close>, log exporters \<open>'g\<close>, propagators \<open>'p\<close>,
  flushers \<open>'f\<close>.  A nil argument is \<open>None\<close>.
\<close>

record ('t, 'e, 'l, 'g, 'p, 'f) otel_config =
  ot_tp :: "'t option"
  ot_exporters :: "'e list"
  ot_lp :: "'l option"
  ot_log_exporters :: "'g list"
  ot_propagator :: "'p option"
  ot_flusher :: "'f option"
  ot_flusher_set :: bool
  ot_span_name :: "invocation_context option \<Rightarrow> string"
  ot_extra_attrs :: attributes
  ot_resource_attrs :: attributes

datatype ('t, 'e, 'l, 'g, 'p, 'f) otel_option =
    With_Tracer_Provider "'t option"
  | With_Exporter "'e option"
  | With_Logger_Provider "'l option"
  | With_Log_Exporter "'g option"
  | With_Propagator "'p option"
  | With_Flusher "'f option"
  | Without_Flusher
  | With_Span_Name_Formatter "(invocation_context option \<Rightarrow> string) option"
  | With_Attributes attributes
  | With_Resource attributes

fun otel_apply ::
    "('t, 'e, 'l, 'g, 'p, 'f) otel_option \<Rightarrow> ('t, 'e, 'l, 'g, 'p, 'f) otel_config \<Rightarrow> ('t, 'e, 'l, 'g, 'p, 'f) otel_config" where
  "otel_apply (With_Tracer_Provider tp) c = (case tp of None \<Rightarrow> c | Some t \<Rightarrow> c\<lparr>ot_tp := Some t\<rparr>)"
| "otel_apply (With_Exporter e) c = (case e of None \<Rightarrow> c | Some x \<Rightarrow> c\<lparr>ot_exporters := ot_exporters c @ [x]\<rparr>)"
| "otel_apply (With_Logger_Provider lp) c = (case lp of None \<Rightarrow> c | Some l \<Rightarrow> c\<lparr>ot_lp := Some l\<rparr>)"
| "otel_apply (With_Log_Exporter e) c = (case e of None \<Rightarrow> c | Some x \<Rightarrow> c\<lparr>ot_log_exporters := ot_log_exporters c @ [x]\<rparr>)"
| "otel_apply (With_Propagator p) c = (case p of None \<Rightarrow> c | Some x \<Rightarrow> c\<lparr>ot_propagator := Some x\<rparr>)"
| "otel_apply (With_Flusher f) c = c\<lparr>ot_flusher := f, ot_flusher_set := True\<rparr>"
| "otel_apply Without_Flusher c = c\<lparr>ot_flusher := None, ot_flusher_set := True\<rparr>"
| "otel_apply (With_Span_Name_Formatter f) c = (case f of None \<Rightarrow> c | Some g \<Rightarrow> c\<lparr>ot_span_name := g\<rparr>)"
| "otel_apply (With_Attributes attrs) c = c\<lparr>ot_extra_attrs := ot_extra_attrs c @ attrs\<rparr>"
| "otel_apply (With_Resource attrs) c = c\<lparr>ot_resource_attrs := ot_resource_attrs c @ attrs\<rparr>"

definition default_span_name :: "invocation_context option \<Rightarrow> string" where
  "default_span_name ic =
     (case ic of
        None \<Rightarrow> ''azure-functions-invocation''
      | Some i \<Rightarrow> if ic_function_name i = '''' then ''azure-functions-invocation'' else ''function '' @ ic_function_name i)"

definition empty_config :: "('t, 'e, 'l, 'g, 'p, 'f) otel_config" where
  "empty_config = \<lparr>ot_tp = None, ot_exporters = [], ot_lp = None, ot_log_exporters = [], ot_propagator = None,
     ot_flusher = None, ot_flusher_set = False, ot_span_name = default_span_name, ot_extra_attrs = [], ot_resource_attrs = []\<rparr>"

subsection \<open>The providers\<close>

text \<open>
  What \<open>Middleware\<close> finds in the process: the environment, the SDK's constructors with a resource, the
  exporters \<open>autoexport\<close> makes from the environment, the global providers and what can be asked of them.
\<close>

record ('t, 'e, 'l, 'g, 'p, 'f) otel_process =
  op_env :: "string \<Rightarrow> string"
  op_base :: "(string, attr_value) go_map"
  op_mismatch :: bool
  op_new_tracer :: "'e list \<Rightarrow> (string, attr_value) go_map \<Rightarrow> 't"
  op_new_logger :: "'g list \<Rightarrow> (string, attr_value) go_map \<Rightarrow> 'l"
  op_auto_span :: "'e result"
  op_auto_log :: "'g result"
  op_global_tracer :: 't
  op_global_logger :: 'l
  op_recording :: "'t \<Rightarrow> bool"
  op_noop_logger :: "'l \<Rightarrow> bool"
  op_as_flusher :: "'t \<Rightarrow> 'f option"
  op_default_propagator :: 'p

definition otel_resource :: "('t, 'e, 'l, 'g, 'p, 'f) otel_process \<Rightarrow> attributes \<Rightarrow> (string, attr_value) go_map" where
  "otel_resource P extra = build_default_resource (op_env P) (op_base P) (op_mismatch P) extra"

definition build_otlp_tracer :: "('t, 'e, 'l, 'g, 'p, 'f) otel_process \<Rightarrow> attributes \<Rightarrow> 't option result" where
  "build_otlp_tracer P extra =
     (if \<not> has_otlp_endpoint (op_env P) then Inr None
      else (case op_auto_span P of
              Inl e \<Rightarrow> Inl e | Inr x \<Rightarrow> Inr (Some (op_new_tracer P [x] (otel_resource P extra)))))"

definition build_otlp_logger :: "('t, 'e, 'l, 'g, 'p, 'f) otel_process \<Rightarrow> attributes \<Rightarrow> 'l option result" where
  "build_otlp_logger P extra =
     (if \<not> has_otlp_endpoint (op_env P) then Inr None
      else (case op_auto_log P of
              Inl e \<Rightarrow> Inl e | Inr x \<Rightarrow> Inr (Some (op_new_logger P [x] (otel_resource P extra)))))"

text \<open>Where a provider came from.\<close>

datatype provenance = From_Caller | Built | From_Global

definition resolve_tracer ::
    "('t, 'e, 'l, 'g, 'p, 'f) otel_process \<Rightarrow> ('t, 'e, 'l, 'g, 'p, 'f) otel_config \<Rightarrow> 't \<times> provenance" where
  "resolve_tracer P c =
     (case ot_tp c of
        Some t \<Rightarrow> (t, From_Caller)
      | None \<Rightarrow>
          if ot_exporters c \<noteq> [] then (op_new_tracer P (ot_exporters c) (otel_resource P (ot_resource_attrs c)), Built)
          else (case build_otlp_tracer P (ot_resource_attrs c) of
                  Inr (Some t) \<Rightarrow> (t, Built)
                | _ \<Rightarrow> (op_global_tracer P, From_Global)))"

definition resolve_logger ::
    "('t, 'e, 'l, 'g, 'p, 'f) otel_process \<Rightarrow> ('t, 'e, 'l, 'g, 'p, 'f) otel_config \<Rightarrow> ('l \<times> provenance) option" where
  "resolve_logger P c =
     (case ot_lp c of
        Some l \<Rightarrow> Some (l, From_Caller)
      | None \<Rightarrow>
          if ot_log_exporters c \<noteq> []
          then Some (op_new_logger P (ot_log_exporters c) (otel_resource P (ot_resource_attrs c)), Built)
          else (case build_otlp_logger P (ot_resource_attrs c) of
                  Inr (Some l) \<Rightarrow> Some (l, Built)
                | _ \<Rightarrow> if op_noop_logger P (op_global_logger P) then None else Some (op_global_logger P, From_Global)))"

text \<open>
  The middleware, and what constructing it does to the process: the global providers it sets and
  whether it asks for the log observer.
\<close>

record ('t, 'e, 'l, 'g, 'p, 'f) otel_middleware =
  om_config :: "('t, 'e, 'l, 'g, 'p, 'f) otel_config"
  om_enabled :: bool
  om_capabilities :: "(string, string) go_map"
  om_owned_tp :: "'t option"
  om_owned_lp :: "'l option"

record ('t, 'l) otel_globals =
  og_tracer :: "'t option"
  og_logger :: "'l option"
  og_observe :: bool

definition otel_capabilities :: "(string, string) go_map" where
  "otel_capabilities = [(''WorkerOpenTelemetryEnabled'', ''true''), (''WorkerOpenTelemetrySchemaVersion'', ''1.37.0'')]"

definition otel_new ::
    "('t, 'e, 'l, 'g, 'p, 'f) otel_process \<Rightarrow> ('t, 'e, 'l, 'g, 'p, 'f) otel_option list \<Rightarrow>
     ('t, 'e, 'l, 'g, 'p, 'f) otel_middleware \<times> ('t, 'l) otel_globals" where
  "otel_new P opts =
     (let c = fold otel_apply opts empty_config;
          c = (if ot_propagator c = None then c\<lparr>ot_propagator := Some (op_default_propagator P)\<rparr> else c);
          passive = (\<lambda>c. \<lparr>om_config = c, om_enabled = False, om_capabilities = [], om_owned_tp = None, om_owned_lp = None\<rparr>);
          nothing = \<lparr>og_tracer = None, og_logger = None, og_observe = False\<rparr>
      in if is_disabled_by_env (op_env P) then (passive c, nothing)
         else
           (let (tp, from) = resolve_tracer P c; c = c\<lparr>ot_tp := Some tp\<rparr> in
            if from = From_Global \<and> \<not> op_recording P tp then (passive c, nothing)
            else
              (let logger = resolve_logger P c;
                   c = (case logger of None \<Rightarrow> c | Some (l, _) \<Rightarrow> c\<lparr>ot_lp := Some l\<rparr>);
                   c = (if ot_flusher_set c then c
                        else (case op_as_flusher P tp of None \<Rightarrow> c | Some f \<Rightarrow> c\<lparr>ot_flusher := Some f\<rparr>))
               in (\<lparr>om_config = c, om_enabled = True, om_capabilities = otel_capabilities,
                    om_owned_tp = (if from = Built then Some tp else None),
                    om_owned_lp = (case logger of Some (l, Built) \<Rightarrow> Some l | _ \<Rightarrow> None)\<rparr>,
                   \<lparr>og_tracer = (if from = Built then Some tp else None),
                    og_logger = (case logger of Some (l, From_Global) \<Rightarrow> None | Some (l, _) \<Rightarrow> Some l | None \<Rightarrow> None),
                    og_observe = (logger \<noteq> None)\<rparr>))))"

subsection \<open>The wrapped handler\<close>

definition trace_context_carrier :: "invocation_context \<Rightarrow> (string, string) go_map" where
  "trace_context_carrier ic =
     (let m = (if tc_parent (ic_trace ic) \<noteq> '''' then map_put ''traceparent'' (tc_parent (ic_trace ic)) [] else [])
      in if tc_state (ic_trace ic) \<noteq> '''' then map_put ''tracestate'' (tc_state (ic_trace ic)) m else m)"

definition classify_trigger :: "string \<Rightarrow> string" where
  "classify_trigger t =
     (if t = ''httpTrigger'' then ''http''
      else if t = ''timerTrigger'' then ''timer''
      else if t \<in> {''blobTrigger'', ''cosmosDBTrigger'', ''sqlTrigger''} then ''datasource''
      else if t \<in> {''eventHubTrigger'', ''serviceBusTrigger'', ''serviceBusQueueTrigger'', ''serviceBusTopicTrigger'',
          ''eventGridTrigger'', ''queueTrigger''} then ''pubsub''
      else ''other'')"

text \<open>\<open>strconv.Atoi\<close>.\<close>

fun digits_value :: "string \<Rightarrow> nat \<Rightarrow> nat option" where
  "digits_value [] n = Some n"
| "digits_value (c # s) n =
     (let d = of_char c :: nat in if 48 \<le> d \<and> d \<le> 57 then digits_value s (10 * n + (d - 48)) else None)"

definition go_atoi :: "string \<Rightarrow> int option" where
  "go_atoi s =
     (let (neg, digits) = (case s of c # t \<Rightarrow> if c = CHR ''-'' then (True, t) else if c = CHR ''+'' then (False, t) else (False, s)
            | [] \<Rightarrow> (False, []))
      in if digits = [] then None
         else (case digits_value digits 0 of
                 None \<Rightarrow> None
               | Some n \<Rightarrow>
                   (let i = (if neg then - int n else int n) in
                    if - (2 ^ 63) \<le> i \<and> i < 2 ^ 63 then Some i else None)))"

definition lookup_or_empty :: "(string, string) go_map \<Rightarrow> string \<Rightarrow> string" where
  "lookup_or_empty m k = (case map_of m k of Some v \<Rightarrow> v | None \<Rightarrow> '''')"

definition span_attributes :: "invocation_context \<Rightarrow> attributes \<Rightarrow> attributes" where
  "span_attributes ic extra =
     (let host = tc_attributes (ic_trace ic);
          pid = lookup_or_empty host ''ProcessId'';
          inst = lookup_or_empty host ''HostInstanceId'';
          live = lookup_or_empty host ''#AzFuncLiveLogsSessionId''
      in [(''faas.invocation_id'', AV_String (ic_invocation_id ic)), (''faas.name'', AV_String (ic_function_name ic)),
          (''faas.trigger'', AV_String (classify_trigger (ic_trigger_type ic)))] @
         (case go_atoi pid of Some n \<Rightarrow> if pid \<noteq> '''' then [(''process.pid'', AV_Int n)] else [] | None \<Rightarrow> []) @
         (if inst \<noteq> '''' then [(''faas.instance'', AV_String inst)] else []) @
         (if live \<noteq> '''' then [(''azure.functions.live_logs_session_id'', AV_String live)] else []) @ extra)"

text \<open>\<open>good k v\<close>: the baggage package accepts the member.\<close>

definition build_inbound_baggage :: "(string \<Rightarrow> string \<Rightarrow> bool) \<Rightarrow> (string, string) go_map \<Rightarrow> (string, string) go_map" where
  "build_inbound_baggage good m = fold (\<lambda>(k, v) bag. if good k v then map_put k v bag else bag) m []"

text \<open>
  The calls on OpenTelemetry in their order; a span is the number of those started before it.  A
  state of the handlers: the carrier, the calls, the rest of the program.
\<close>

datatype otel_call =
    Call_Start string attributes
  | Call_Record_Error nat go_error
  | Call_Set_Status nat go_error
  | Call_End nat
  | Call_Flush_Traces
  | Call_Flush_Logs
  | Call_Warn string go_error

record 'w otel_state =
  os_mc :: "ret_value middleware_context"
  os_calls :: "otel_call list"
  os_rest :: 'w

definition spans_started :: "otel_call list \<Rightarrow> nat" where
  "spans_started calls = length (filter (\<lambda>c. case c of Call_Start n a \<Rightarrow> True | _ \<Rightarrow> False) calls)"

definition otel_log :: "otel_call list \<Rightarrow> 'w otel_state \<Rightarrow> 'w otel_state" where
  "otel_log cs s = s\<lparr>os_calls := os_calls s @ cs\<rparr>"

text \<open>
  What the handler uses: the propagator, baggage and span put on a context, the configured span name and
  attributes, what a span that can be read holds (its attributes with their text), the two flushers
  (\<open>None\<close>: not configured) and whether an error is a cancellation.
\<close>

record ('c, 'w) otel_handler =
  oh_extract :: "(string, string) go_map \<Rightarrow> 'c \<Rightarrow> 'c"
  oh_member_ok :: "string \<Rightarrow> string \<Rightarrow> bool"
  oh_with_baggage :: "(string, string) go_map \<Rightarrow> 'c \<Rightarrow> 'c"
  oh_with_span :: "nat \<Rightarrow> 'c \<Rightarrow> 'c"
  oh_span_name :: "invocation_context option \<Rightarrow> string"
  oh_extra :: attributes
  oh_read_span :: "nat \<Rightarrow> 'w \<Rightarrow> (string \<times> string) list option"
  oh_flush_traces :: "('w \<Rightarrow> go_error option) option"
  oh_flush_logs :: "('w \<Rightarrow> go_error option) option"
  oh_cancelled :: "go_error \<Rightarrow> bool"

definition worker_set_keys :: "string list" where
  "worker_set_keys = [''faas.invocation_id'', ''faas.name'', ''faas.trigger'', ''process.pid'', ''faas.instance'',
     ''azure.functions.live_logs_session_id'']"

fun harvest_attributes :: "(string \<times> string) list \<Rightarrow> 'v middleware_context \<Rightarrow> 'v middleware_context" where
  "harvest_attributes [] mc = mc"
| "harvest_attributes ((k, v) # kvs) mc =
     harvest_attributes kvs
       (if k \<in> set worker_set_keys \<or> nil_lookup (outbound_attributes mc) k \<noteq> None then mc
        else set_outbound_attribute k v mc)"

definition harvest_span :: "('c, 'w) otel_handler \<Rightarrow> nat \<Rightarrow> 'w otel_state \<Rightarrow> 'w otel_state" where
  "harvest_span H n s =
     (case oh_read_span H n (os_rest s) of
        None \<Rightarrow> s | Some kvs \<Rightarrow> s\<lparr>os_mc := harvest_attributes kvs (os_mc s)\<rparr>)"

definition otel_flush ::
    "('w \<Rightarrow> go_error option) option \<Rightarrow> (go_error \<Rightarrow> bool) \<Rightarrow> otel_call \<Rightarrow> string \<Rightarrow> 'w otel_state \<Rightarrow> 'w otel_state" where
  "otel_flush flusher cancelled call what s =
     (case flusher of
        None \<Rightarrow> s
      | Some flush \<Rightarrow>
          (case flush (os_rest s) of
             Some e \<Rightarrow> otel_log ([call] @ (if cancelled e then [] else [Call_Warn what e])) s
           | None \<Rightarrow> otel_log [call] s))"

definition otel_wrap ::
    "bool \<Rightarrow> ('c, 'w) otel_handler \<Rightarrow> ('c, 'w otel_state) handler \<Rightarrow> ('c, 'w otel_state) handler" where
  "otel_wrap enabled H nxt =
     (if \<not> enabled then nxt
      else (\<lambda>ctx s.
        case mc_invocation (os_mc s) of
          None \<Rightarrow> (Panic ''runtime error: invalid memory address or nil pointer dereference'', s)
        | Some ic \<Rightarrow>
            (let ctx = oh_extract H (trace_context_carrier ic) ctx;
                 bag = build_inbound_baggage (oh_member_ok H) (tc_baggage (ic_trace ic));
                 ctx = (if bag \<noteq> [] then oh_with_baggage H bag ctx else ctx);
                 n = spans_started (os_calls s);
                 s = otel_log [Call_Start (oh_span_name H (Some ic)) (span_attributes ic (oh_extra H))] s
             in case nxt (oh_with_span H n ctx) s of
                  (Panic p, s) \<Rightarrow> (Panic p, s)
                | (Ret er, s) \<Rightarrow>
                    (let s = (case er of None \<Rightarrow> s | Some e \<Rightarrow> otel_log [Call_Record_Error n e, Call_Set_Status n e] s);
                         s = otel_log [Call_End n] (harvest_span H n s);
                         s = otel_flush (oh_flush_traces H) (oh_cancelled H) Call_Flush_Traces ''otelfunc: ForceFlush failed'' s;
                         s = otel_flush (oh_flush_logs H) (oh_cancelled H) Call_Flush_Logs
                               ''otelfunc: LoggerProvider ForceFlush failed'' s
                     in (Ret er, s)))))"

subsection \<open>Shutdown, the observer, the version\<close>

definition otel_shutdown ::
    "('t \<Rightarrow> go_error option) \<Rightarrow> ('l \<Rightarrow> go_error option) \<Rightarrow> ('t, 'e, 'l, 'g, 'p, 'f) otel_middleware \<Rightarrow>
     go_error option \<times> ('t + 'l) list" where
  "otel_shutdown stop_t stop_l m =
     (let (e1, c1) = (case om_owned_tp m of None \<Rightarrow> (None, []) | Some t \<Rightarrow> (stop_t t, [Inl t]));
          (e2, c2) = (case om_owned_lp m of None \<Rightarrow> (None, []) | Some l \<Rightarrow> (stop_l l, [Inr l]))
      in (if e1 \<noteq> None then e1 else e2, c1 @ c2))"

definition otel_copy_capabilities :: "('t, 'e, 'l, 'g, 'p, 'f) otel_middleware \<Rightarrow> (string, string) go_map" where
  "otel_copy_capabilities m = map_merge [] (om_capabilities m)"

text \<open>\<open>resolveSDKVersion\<close> on the build information; cached, like the registration of the observer.\<close>

fun dependency_version :: "build_module option list \<Rightarrow> string" where
  "dependency_version [] = ''(devel)''"
| "dependency_version (None # ds) = dependency_version ds"
| "dependency_version (Some d # ds) =
     (if bm_path d \<noteq> sdk_module_path then dependency_version ds
      else (case bm_replace d of
              Some r \<Rightarrow> if rp_version r \<noteq> '''' then rp_version r
                       else if bm_version d \<noteq> '''' then bm_version d else ''(devel)''
            | None \<Rightarrow> if bm_version d \<noteq> '''' then bm_version d else ''(devel)''))"

definition resolve_sdk_version :: "build_info option \<Rightarrow> string" where
  "resolve_sdk_version bi = (case bi of None \<Rightarrow> ''(devel)'' | Some b \<Rightarrow> dependency_version (bi_deps b))"

definition register_log_observer :: "(unit, nat) once \<Rightarrow> (unit, nat) once" where
  "register_log_observer c = snd (force_once (\<lambda>observers. ((), Suc observers)) c)"

subsection \<open>Lemmas\<close>

lemma otel_apply_caller:
  "(\<forall>x. With_Tracer_Provider (Some x) \<notin> set opts) \<Longrightarrow> ot_tp (fold otel_apply opts c) = ot_tp c"
proof (induction opts arbitrary: c)
  case (Cons opt opts)
  then have "ot_tp (otel_apply opt c) = ot_tp c" by (cases opt) (auto split: option.split)
  with Cons show ?case by simp
qed simp

lemma resolve_tracer_caller: "snd (resolve_tracer P c) = From_Caller \<longleftrightarrow> ot_tp c \<noteq> None"
  by (auto simp: resolve_tracer_def split: option.split sum.split)

lemma map_of_merge_last: "map_of (map_merge dst kvs) k = (case map_of (rev kvs) k of Some v \<Rightarrow> Some v | None \<Rightarrow> map_of dst k)"
  unfolding map_merge_def
proof (induction kvs arbitrary: dst)
  case (Cons kv kvs)
  obtain a b where "kv = (a, b)" by fastforce
  with Cons show ?case by (auto simp: map_add_def split: option.splits)
qed simp

lemma resource_of_wf: "wf_map (resource_of attrs)"
  by (auto simp: resource_of_def)

lemma harvest_lookup:
  "nil_lookup (outbound_attributes (harvest_attributes kvs mc)) k =
     (case nil_lookup (outbound_attributes mc) k of
        Some v \<Rightarrow> Some v
      | None \<Rightarrow> if k \<in> set worker_set_keys then None else map_of kvs k)"
proof (induction kvs arbitrary: mc)
  case Nil
  show ?case by (simp split: option.split)
next
  case (Cons kv kvs)
  obtain a b where kv: "kv = (a, b)" by fastforce
  have "nil_lookup (outbound_attributes (set_outbound_attribute a b mc)) x =
      (if x = a then Some b else nil_lookup (outbound_attributes mc) x)" for x
    by (simp add: outbound_attributes_def set_outbound_attribute_def)
  then show ?case by (auto simp: kv Cons.IH split: option.split)
qed

lemma harvest_frame:
  "mc_invocation (harvest_attributes kvs mc) = mc_invocation mc \<and> return_value (harvest_attributes kvs mc) = return_value mc"
proof (induction kvs arbitrary: mc)
  case (Cons kv kvs)
  obtain a b where "kv = (a, b)" by fastforce
  with Cons show ?case by (simp add: set_outbound_attribute_def return_value_def)
qed simp

definition flush_calls :: "('w \<Rightarrow> go_error option) option \<Rightarrow> (go_error \<Rightarrow> bool) \<Rightarrow> otel_call \<Rightarrow> string \<Rightarrow> 'w \<Rightarrow> otel_call list" where
  "flush_calls flusher cancelled call what w =
     (case flusher of None \<Rightarrow> []
      | Some flush \<Rightarrow> [call] @ (case flush w of None \<Rightarrow> [] | Some e \<Rightarrow> if cancelled e then [] else [Call_Warn what e]))"

lemma otel_flush_calls:
  "otel_flush flusher cancelled call what s = otel_log (flush_calls flusher cancelled call what (os_rest s)) s"
  by (auto simp: otel_flush_def flush_calls_def otel_log_def split: option.split)

lemma otel_log_simps [simp]:
  "os_mc (otel_log cs s) = os_mc s" "os_rest (otel_log cs s) = os_rest s" "os_calls (otel_log cs s) = os_calls s @ cs"
  by (simp_all add: otel_log_def)

lemma harvest_span_simps [simp]:
  "os_rest (harvest_span H n s) = os_rest s" "os_calls (harvest_span H n s) = os_calls s"
  by (simp_all add: harvest_span_def split: option.split)

definition error_calls :: "nat \<Rightarrow> go_error option \<Rightarrow> otel_call list" where
  "error_calls n er = (case er of None \<Rightarrow> [] | Some e \<Rightarrow> [Call_Record_Error n e, Call_Set_Status n e])"

text \<open>The calls after the inner handler, as one list.\<close>

definition closing_calls :: "('c, 'w) otel_handler \<Rightarrow> nat \<Rightarrow> go_error option \<Rightarrow> 'w \<Rightarrow> otel_call list" where
  "closing_calls H n er w =
     error_calls n er @ [Call_End n] @
     flush_calls (oh_flush_traces H) (oh_cancelled H) Call_Flush_Traces ''otelfunc: ForceFlush failed'' w @
     flush_calls (oh_flush_logs H) (oh_cancelled H) Call_Flush_Logs ''otelfunc: LoggerProvider ForceFlush failed'' w"

definition inner_context :: "('c, 'w) otel_handler \<Rightarrow> invocation_context \<Rightarrow> nat \<Rightarrow> 'c \<Rightarrow> 'c" where
  "inner_context H ic n ctx =
     (let ctx = oh_extract H (trace_context_carrier ic) ctx;
          bag = build_inbound_baggage (oh_member_ok H) (tc_baggage (ic_trace ic))
      in oh_with_span H n (if bag \<noteq> [] then oh_with_baggage H bag ctx else ctx))"

definition opening_call :: "('c, 'w) otel_handler \<Rightarrow> invocation_context \<Rightarrow> otel_call" where
  "opening_call H ic = Call_Start (oh_span_name H (Some ic)) (span_attributes ic (oh_extra H))"

lemma otel_wrap_unfold:
  assumes "mc_invocation (os_mc s) = Some ic"
  shows "otel_wrap True H nxt ctx s =
    (let n = spans_started (os_calls s) in
     case nxt (inner_context H ic n ctx) (otel_log [opening_call H ic] s) of
       (Panic p, s') \<Rightarrow> (Panic p, s')
     | (Ret er, s') \<Rightarrow> (Ret er, otel_log (closing_calls H n er (os_rest s')) (harvest_span H n s')))"
proof -
  have e: "(case er of None \<Rightarrow> s' | Some e \<Rightarrow> otel_log [Call_Record_Error n e, Call_Set_Status n e] s') = otel_log (error_calls n er) s'"
    for er n and s' :: "'w otel_state"
    by (simp add: error_calls_def otel_log_def split: option.split)
  have h: "harvest_span H n (otel_log cs s') = otel_log cs (harvest_span H n s')" for n cs s'
    by (simp add: harvest_span_def otel_log_def split: option.split)
  have l: "otel_log ds (otel_log cs s') = otel_log (cs @ ds) s'" for cs ds and s' :: "'w otel_state"
    by (simp add: otel_log_def)
  show ?thesis
    using assms
    by (simp add: otel_wrap_def inner_context_def opening_call_def Let_def e h l otel_flush_calls closing_calls_def
        split: outcome.split prod.split)
qed

lemma otel_apply_keeps_tp: "ot_tp c \<noteq> None \<Longrightarrow> ot_tp (fold otel_apply opts c) \<noteq> None"
proof (induction opts arbitrary: c)
  case (Cons opt opts)
  then have "ot_tp (otel_apply opt c) \<noteq> None" by (cases opt) (auto split: option.split)
  with Cons.IH show ?case by simp
qed simp

lemma otel_apply_keeps_lp: "ot_lp c \<noteq> None \<Longrightarrow> ot_lp (fold otel_apply opts c) \<noteq> None"
proof (induction opts arbitrary: c)
  case (Cons opt opts)
  then have "ot_lp (otel_apply opt c) \<noteq> None" by (cases opt) (auto split: option.split)
  with Cons.IH show ?case by simp
qed simp

lemma caller_tracer_kept: "With_Tracer_Provider (Some x) \<in> set opts \<Longrightarrow> ot_tp (fold otel_apply opts c) \<noteq> None"
proof (induction opts arbitrary: c)
  case (Cons opt opts)
  show ?case
  proof (cases "opt = With_Tracer_Provider (Some x)")
    case True
    then show ?thesis by (simp add: otel_apply_keeps_tp)
  next
    case False
    with Cons show ?thesis by simp
  qed
qed simp

lemma caller_logger_kept: "With_Logger_Provider (Some x) \<in> set opts \<Longrightarrow> ot_lp (fold otel_apply opts c) \<noteq> None"
proof (induction opts arbitrary: c)
  case (Cons opt opts)
  show ?case
  proof (cases "opt = With_Logger_Provider (Some x)")
    case True
    then show ?thesis by (simp add: otel_apply_keeps_lp)
  next
    case False
    with Cons show ?thesis by simp
  qed
qed simp

lemma resolve_tracer_built: "resolve_tracer P c = (t, Built) \<Longrightarrow> ot_tp c = None"
  by (auto simp: resolve_tracer_def split: option.splits)

lemma resolve_logger_built: "resolve_logger P c = Some (l, Built) \<Longrightarrow> ot_lp c = None"
  by (auto simp: resolve_logger_def split: option.splits)

subsection \<open>Properties\<close>

text \<open>
  C38. Tracing is transparent: a handler that returns gives the same error with the middleware as without,
  run in the extracted context of a fresh span; the span is ended after the handler and before the
  telemetry is flushed, which always happens; the rest of the state and the return value are the
  handler's; and attributes of the span are added to the outbound ones only where none was set.
\<close>

theorem otel_wrap_transparent:
  assumes "mc_invocation (os_mc s) = Some ic" and "n = spans_started (os_calls s)"
    and "nxt (inner_context H ic n ctx) (otel_log [opening_call H ic] s) = (Ret er, s')"
  shows "\<exists>s'' flushes. otel_wrap True H nxt ctx s = (Ret er, s'') \<and>
    os_rest s'' = os_rest s' \<and> return_value (os_mc s'') = return_value (os_mc s') \<and>
    os_calls s'' = os_calls s' @ error_calls n er @ [Call_End n] @ flushes \<and>
    (oh_flush_traces H \<noteq> None \<longrightarrow> Call_Flush_Traces \<in> set flushes) \<and> (oh_flush_logs H \<noteq> None \<longrightarrow> Call_Flush_Logs \<in> set flushes) \<and>
    nil_lookup (outbound_attributes (os_mc s'')) k =
      (case nil_lookup (outbound_attributes (os_mc s')) k of
         Some v \<Rightarrow> Some v
       | None \<Rightarrow> (case oh_read_span H n (os_rest s') of
            None \<Rightarrow> None | Some kvs \<Rightarrow> if k \<in> set worker_set_keys then None else map_of kvs k))"
proof -
  let ?f = "flush_calls (oh_flush_traces H) (oh_cancelled H) Call_Flush_Traces ''otelfunc: ForceFlush failed'' (os_rest s') @
    flush_calls (oh_flush_logs H) (oh_cancelled H) Call_Flush_Logs ''otelfunc: LoggerProvider ForceFlush failed'' (os_rest s')"
  let ?s = "otel_log (closing_calls H n er (os_rest s')) (harvest_span H n s')"
  have "otel_wrap True H nxt ctx s = (Ret er, ?s)"
    using assms by (simp add: otel_wrap_unfold Let_def)
  moreover have "os_calls ?s = os_calls s' @ error_calls n er @ [Call_End n] @ ?f"
    by (simp add: closing_calls_def)
  moreover have "oh_flush_traces H \<noteq> None \<longrightarrow> Call_Flush_Traces \<in> set ?f" "oh_flush_logs H \<noteq> None \<longrightarrow> Call_Flush_Logs \<in> set ?f"
    by (auto simp: flush_calls_def)
  moreover have "return_value (os_mc ?s) = return_value (os_mc s')" "os_rest ?s = os_rest s'"
    by (simp_all add: harvest_span_def harvest_frame split: option.split)
  moreover have "nil_lookup (outbound_attributes (os_mc ?s)) k =
      (case nil_lookup (outbound_attributes (os_mc s')) k of
         Some v \<Rightarrow> Some v
       | None \<Rightarrow> (case oh_read_span H n (os_rest s') of
            None \<Rightarrow> None | Some kvs \<Rightarrow> if k \<in> set worker_set_keys then None else map_of kvs k))"
    by (simp add: harvest_span_def harvest_lookup split: option.split)
  ultimately show ?thesis by blast
qed

definition sample_invocation :: invocation_context where
  "sample_invocation = \<lparr>ic_invocation_id = ''1'', ic_function_id = ''f'', ic_function_name = ''hello'',
     ic_trigger_type = ''httpTrigger'', ic_trace = \<lparr>tc_parent = ''00-1'', tc_state = '''', tc_attributes = [], tc_baggage = []\<rparr>,
     ic_retry = \<lparr>rc_count = 0, rc_max = 0\<rparr>, ic_metadata = None, ic_metadata_values = None\<rparr>"

definition sample_tracing :: "(nat list, (string \<times> string) list) otel_handler" where
  "sample_tracing = \<lparr>oh_extract = (\<lambda>m c. c), oh_member_ok = (\<lambda>k v. True), oh_with_baggage = (\<lambda>b c. c),
     oh_with_span = (\<lambda>n c. n # c), oh_span_name = default_span_name, oh_extra = [], oh_read_span = (\<lambda>n w. Some w),
     oh_flush_traces = Some (\<lambda>w. None), oh_flush_logs = None, oh_cancelled = (\<lambda>e. False)\<rparr>"

definition sample_state :: "(string \<times> string) list otel_state" where
  "sample_state = \<lparr>os_mc = new_middleware_context (Some sample_invocation), os_calls = [], os_rest = []\<rparr>"

text \<open>User code that tags its span and fails, and one that panics.\<close>

definition tagging :: "(nat list, (string \<times> string) list otel_state) handler" where
  "tagging ctx s = (Ret (Some ''boom''), s\<lparr>os_rest := [(''faas.name'', ''x''), (''tenant'', ''a'')]\<rparr>)"

definition panicking :: "(nat list, (string \<times> string) list otel_state) handler" where
  "panicking ctx s = (Panic ''boom'', s)"

lemma sample_invocation_of: "mc_invocation (os_mc sample_state) = Some sample_invocation"
  by (simp add: sample_state_def new_middleware_context_def)

theorem otel_wrap_transparent_witness:
  "\<exists>s. otel_wrap True sample_tracing tagging [] sample_state = (Ret (Some ''boom''), s) \<and>
     nil_lookup (outbound_attributes (os_mc s)) ''tenant'' = Some ''a'' \<and> Call_Flush_Traces \<in> set (os_calls s)"
proof -
  let ?o = "otel_log [opening_call sample_tracing sample_invocation] sample_state"
  let ?s = "?o\<lparr>os_rest := [(''faas.name'', ''x''), (''tenant'', ''a'')]\<rparr>"
  have t: "tagging (inner_context sample_tracing sample_invocation (spans_started (os_calls sample_state)) []) ?o =
      (Ret (Some ''boom''), ?s)"
    by (simp add: tagging_def)
  have "nil_lookup (outbound_attributes (os_mc ?s)) ''tenant'' = None"
    by (simp add: otel_log_def sample_state_def new_middleware_context_def outbound_attributes_def nil_lookup_def)
  moreover have "oh_flush_traces sample_tracing \<noteq> None" "oh_read_span sample_tracing n w = Some w" for n w
    by (simp_all add: sample_tracing_def)
  moreover have "''tenant'' \<notin> set worker_set_keys" by (simp add: worker_set_keys_def)
  ultimately show ?thesis
    using otel_wrap_transparent [where s = sample_state and nxt = tagging and H = sample_tracing and k = "''tenant''" and ctx = "[]",
      OF sample_invocation_of refl t] by auto
qed

text \<open>
  A panic of the next handler loses the span: it passes through with the state as the handler left it,
  so when the handler made no calls of its own the span was started and neither ended nor flushed.
\<close>

theorem otel_panic_leaves_span:
  assumes "mc_invocation (os_mc s) = Some ic"
    and "nxt (inner_context H ic (spans_started (os_calls s)) ctx) (otel_log [opening_call H ic] s) = (Panic p, s')"
  shows "otel_wrap True H nxt ctx s = (Panic p, s') \<and>
    (os_calls s' = os_calls s @ [opening_call H ic] \<longrightarrow>
      spans_started (os_calls s') = Suc (spans_started (os_calls s)) \<and>
      set (os_calls s') - set (os_calls s) \<subseteq> {opening_call H ic})"
  using assms by (auto simp: otel_wrap_unfold Let_def spans_started_def opening_call_def)

theorem otel_panic_leaves_span_witness:
  "\<exists>s. otel_wrap True sample_tracing panicking [] sample_state = (Panic ''boom'', s) \<and>
     os_calls s = [opening_call sample_tracing sample_invocation]"
proof -
  let ?o = "otel_log [opening_call sample_tracing sample_invocation] sample_state"
  have t: "panicking (inner_context sample_tracing sample_invocation (spans_started (os_calls sample_state)) []) ?o = (Panic ''boom'', ?o)"
    by (simp add: panicking_def)
  have "os_calls ?o = [opening_call sample_tracing sample_invocation]" by (simp add: sample_state_def otel_log_def)
  with otel_panic_leaves_span [where s = sample_state and nxt = panicking and H = sample_tracing and ctx = "[]",
      OF sample_invocation_of t] show ?thesis by blast
qed

text \<open>The two outcomes of \<open>New\<close>: it does not trace, or it traces with the tracer and logger it resolved.\<close>

definition otel_start_config ::
    "('t, 'e, 'l, 'g, 'p, 'f) otel_process \<Rightarrow> ('t, 'e, 'l, 'g, 'p, 'f) otel_option list \<Rightarrow> ('t, 'e, 'l, 'g, 'p, 'f) otel_config" where
  "otel_start_config P opts =
     (let c = fold otel_apply opts empty_config
      in if ot_propagator c = None then c\<lparr>ot_propagator := Some (op_default_propagator P)\<rparr> else c)"

lemma otel_start_providers [simp]:
  "ot_tp (otel_start_config P opts) = ot_tp (fold otel_apply opts empty_config)"
  "ot_lp (otel_start_config P opts) = ot_lp (fold otel_apply opts empty_config)"
  by (simp_all add: otel_start_config_def Let_def)

lemma otel_new_cases:
  assumes "otel_new P opts = (m, g)" and r: "resolve_tracer P (otel_start_config P opts) = (tp, src)"
  obtains (quiet) "is_disabled_by_env (op_env P) \<or> (src = From_Global \<and> \<not> op_recording P tp)"
      "\<not> om_enabled m" "om_capabilities m = []" "om_owned_tp m = None" "om_owned_lp m = None" "og_tracer g = None"
    | (tracing) lg where "\<not> is_disabled_by_env (op_env P)" "src = From_Global \<longrightarrow> op_recording P tp"
      "lg = resolve_logger P ((otel_start_config P opts)\<lparr>ot_tp := Some tp\<rparr>)"
      "om_enabled m" "om_capabilities m = otel_capabilities" "om_owned_tp m = (if src = Built then Some tp else None)"
      "og_tracer g = om_owned_tp m" "om_owned_lp m = (case lg of Some (l, Built) \<Rightarrow> Some l | _ \<Rightarrow> None)"
      "og_logger g = (case lg of Some (l, From_Global) \<Rightarrow> None | Some (l, _) \<Rightarrow> Some l | None \<Rightarrow> None)"
      "ot_tp (om_config m) = Some tp" "\<And>l. lg = Some (l, Built) \<Longrightarrow> ot_lp (om_config m) = Some l"
proof (cases "is_disabled_by_env (op_env P) \<or> (src = From_Global \<and> \<not> op_recording P tp)")
  case True
  show thesis
    by (rule quiet) (use True assms in \<open>auto simp: otel_new_def otel_start_config_def Let_def split: if_splits\<close>)
next
  case False
  note new = assms(1) [unfolded otel_new_def Let_def, folded otel_start_config_def [unfolded Let_def]]
  define lg where "lg = resolve_logger P ((otel_start_config P opts)\<lparr>ot_tp := Some tp\<rparr>)"
  from new False have "m = fst (m, g)" "g = snd (m, g)" and on: "om_enabled m" "om_capabilities m = otel_capabilities"
    "om_owned_tp m = (if src = Built then Some tp else None)" "og_tracer g = om_owned_tp m"
    "om_owned_lp m = (case lg of Some (l, Built) \<Rightarrow> Some l | _ \<Rightarrow> None)"
    "og_logger g = (case lg of Some (l, From_Global) \<Rightarrow> None | Some (l, _) \<Rightarrow> Some l | None \<Rightarrow> None)"
    by (auto simp: r lg_def [symmetric])
  have "ot_tp (om_config m) = Some tp" "lg = Some (l, Built) \<Longrightarrow> ot_lp (om_config m) = Some l" for l
    using new False by (auto simp: r lg_def [symmetric] split: option.split)
  with on False show thesis by (intro tracing [OF _ _ lg_def]) auto
qed


definition sample_process :: "(nat, nat, nat, nat, unit, nat) otel_process" where
  "sample_process = \<lparr>op_env = (\<lambda>k. ''''), op_base = [], op_mismatch = False, op_new_tracer = (\<lambda>es r. 10 + length es),
     op_new_logger = (\<lambda>gs r. 20 + length gs), op_auto_span = Inl ''none'', op_auto_log = Inl ''none'',
     op_global_tracer = 0, op_global_logger = 0, op_recording = (\<lambda>t. t \<noteq> 0), op_noop_logger = (\<lambda>l. l = 0),
     op_as_flusher = Some, op_default_propagator = ()\<rparr>"

lemma sample_env: "\<not> is_disabled_by_env (op_env sample_process)" "\<not> has_otlp_endpoint (op_env sample_process)"
  by (simp_all add: sample_process_def is_disabled_by_env_def has_otlp_endpoint_def trim_space_def to_lower_def)


text \<open>
  What the resource of a provider the middleware builds says: an attribute given by the option wins,
  then the ones read from the platform's variables, and only for the other keys the default resource,
  which holds \<open>OTEL_RESOURCE_ATTRIBUTES\<close>.  So that variable cannot change the environment's name, which
  is always set.
\<close>

theorem default_resource_precedence:
  "map_of (build_default_resource env base False extra) k =
     (case map_of (rev extra) k of
        Some v \<Rightarrow> Some v
      | None \<Rightarrow> (case map_of (rev (default_attributes env)) k of Some v \<Rightarrow> Some v | None \<Rightarrow> map_of base k)) \<and>
   (map_of (rev extra) ''deployment.environment.name'' = None \<longrightarrow>
     map_of (build_default_resource env base False extra) ''deployment.environment.name'' =
       Some (AV_String (if trim_space (env ''WEBSITE_SLOT_NAME'') = '''' then ''production'' else trim_space (env ''WEBSITE_SLOT_NAME''))))"
proof -
  have r: "map_of (build_default_resource env base False extra) k =
     (case map_of (rev extra) k of
        Some v \<Rightarrow> Some v
      | None \<Rightarrow> (case map_of (rev (default_attributes env)) k of Some v \<Rightarrow> Some v | None \<Rightarrow> map_of base k))" for k
    using resource_of_wf [of "default_attributes env @ extra"]
    by (auto simp: build_default_resource_def Let_def resource_of_def map_of_merge_last map_add_def split: option.split)
  moreover have "map_of (rev (default_attributes env)) ''deployment.environment.name'' =
      Some (AV_String (if trim_space (env ''WEBSITE_SLOT_NAME'') = '''' then ''production'' else trim_space (env ''WEBSITE_SLOT_NAME'')))"
    by (simp add: default_attributes_def Let_def)
  ultimately show ?thesis by simp
qed

theorem default_resource_precedence_witness:
  "map_of (build_default_resource (\<lambda>k. '''') [(''deployment.environment.name'', AV_String ''staging'')] False [])
     ''deployment.environment.name'' = Some (AV_String ''production'')"
  using default_resource_precedence [THEN conjunct2, of "[]" "\<lambda>k. ''''" "[(''deployment.environment.name'', AV_String ''staging'')]"]
  by (simp add: trim_space_def)

text \<open>An endpoint for logs alone makes a tracer provider be built as well.\<close>

lemma logs_endpoint_builds_tracer:
  "trim_space (op_env P ''OTEL_EXPORTER_OTLP_LOGS_ENDPOINT'') \<noteq> '''' \<Longrightarrow> op_auto_span P = Inr x \<Longrightarrow>
   \<exists>t. build_otlp_tracer P extra = Inr (Some t)"
  by (simp add: build_otlp_tracer_def has_otlp_endpoint_def)

text \<open>The observer is registered once, however many middlewares are constructed.\<close>

lemma observer_once: "((register_log_observer ^^ Suc n) \<lparr>once_value = None, once_world = 0\<rparr>) = \<lparr>once_value = Some (), once_world = 1\<rparr>"
  by (induction n) (simp_all add: register_log_observer_def force_once_def)

text \<open>The baggage the handlers see: the members the package accepts.\<close>

lemma inbound_baggage_lookup:
  "wf_map m \<Longrightarrow> map_of (build_inbound_baggage good m) k = (case map_of m k of Some v \<Rightarrow> if good k v then Some v else None | None \<Rightarrow> None)"
proof -
  have "wf_map m \<Longrightarrow> map_of (fold (\<lambda>(k, v) bag. if good k v then map_put k v bag else bag) m b) k =
      (case map_of m k of Some v \<Rightarrow> if good k v then Some v else map_of b k | None \<Rightarrow> map_of b k)" for b
  proof (induction m arbitrary: b)
    case (Cons kv m)
    obtain a c where "kv = (a, c)" by fastforce
    with Cons show ?case by (auto simp: wf_map_Cons split: option.splits)
  qed simp
  then show "wf_map m \<Longrightarrow> ?thesis" by (simp add: build_inbound_baggage_def split: option.split)
qed

end
