(* ===== verification/App_System.thy ===== *)
theory App_System
  imports Durable_Middleware Worker_System
begin

text \<open>
  From the application to the host: what user code registers, directly or through a middleware, is
  what the worker reports, loads and runs.  The set-up calls of \<open>sdk/app.go\<close> are the events of a
  transition system on the application, so what holds of it holds after any sequence of them.
\<close>

subsection \<open>Setting the application up\<close>

text \<open>A call of the registration API (each trigger's method ends in \<open>registerFunction\<close>) or of \<open>Use\<close>.\<close>

datatype ('c, 's, 'w, 'cf) app_call =
    Call_Register "'cf function_registration"
  | Call_Use "('c, 's, 'w, 'cf) middleware option"

text \<open>A call that panics keeps what it had done; user code may recover from it.\<close>

definition app_exec ::
    "tenv \<Rightarrow> (string \<Rightarrow> string) \<Rightarrow> ('c, 's, 'w, 'cf) app_call \<Rightarrow> ('c, 's, 'w, 'cf) app \<Rightarrow> ('c, 's, 'w, 'cf) app option" where
  "app_exec E sha call app =
     (case call of
        Call_Register fr \<Rightarrow> Some (snd (lift_register E sha fr app))
      | Call_Use mw \<Rightarrow> Some (fst (snd (use_middleware E sha mw app))))"

definition new_app :: "('c, 's, 'w, 'cf) app" where
  "new_app = \<lparr>app_registered = [], app_middlewares = [], app_capability_map = None, app_shutdowns = []\<rparr>"

subsection \<open>Lemmas\<close>

text \<open>What a registration does to the table of functions.\<close>

lemma lift_register_cases:
  assumes "lift_register E sha fr app = (r, app')"
  obtains (panic) p where "r = Panic p" "app' = app"
    | (stored) rf a where "r = Ret rf" "app' = app\<lparr>app_registered := map_put (rf_func_id rf) rf (app_registered app)\<rparr>"
      "map_of (app_registered app) (rf_func_id rf) = None"
      "register_function E sha \<lparr>app_registered = app_registered app\<rparr> (fr_name fr) (fr_func fr) (fr_trigger fr) (fr_options fr) =
         Ret (rf, a)"
proof (cases "register_function E sha \<lparr>app_registered = app_registered app\<rparr> (fr_name fr) (fr_func fr) (fr_trigger fr) (fr_options fr)")
  case (Ret x)
  obtain rf a where x: "x = (rf, a)" by (cases x)
  have "sm_load_or_store (rf_func_id rf) rf (app_registered app) = (None, app_registered a)"
    by (rule register_function_RetE [OF Ret [unfolded x]]) simp
  then have "map_of (app_registered app) (rf_func_id rf) = None" "app_registered a = map_put (rf_func_id rf) rf (app_registered app)"
    by (auto simp: sm_load_or_store_def split: option.splits)
  with assms Ret x show ?thesis by (intro stored) (auto simp: lift_register_def)
qed (use assms panic in \<open>auto simp: lift_register_def\<close>)

text \<open>Functions are filed under their own ids, and stay.\<close>

definition well_keyed :: "(string, 'cf registered_function) go_map \<Rightarrow> bool" where
  "well_keyed m \<longleftrightarrow> wf_map m \<and> (\<forall>k rf. map_of m k = Some rf \<longrightarrow> rf_func_id rf = k)"

lemma lift_register_well_keyed:
  assumes "lift_register E sha fr app = (r, app')" and "well_keyed (app_registered app)"
  shows "well_keyed (app_registered app') \<and> map_of (app_registered app) \<subseteq>\<^sub>m map_of (app_registered app')"
  using assms(1)
proof (cases rule: lift_register_cases)
  case (stored rf a)
  with assms(2) show ?thesis by (auto simp: well_keyed_def map_le_def dom_def split: if_splits)
qed (use assms(2) in simp)

lemma register_provided_well_keyed:
  "register_provided E sha frs app = (r, app', ev) \<Longrightarrow> well_keyed (app_registered app) \<Longrightarrow>
   well_keyed (app_registered app') \<and> map_of (app_registered app) \<subseteq>\<^sub>m map_of (app_registered app')"
proof (induction frs arbitrary: app r app' ev)
  case (Cons fr frs)
  obtain q app1 where l: "lift_register E sha fr app = (q, app1)" by fastforce
  note k = lift_register_well_keyed [OF l Cons.prems(2)]
  show ?case
  proof (cases q)
    case (Panic p)
    with Cons.prems l k show ?thesis by auto
  next
    case (Ret rf)
    obtain r2 app2 ev2 where r2: "register_provided E sha frs app1 = (r2, app2, ev2)"
      by (cases "register_provided E sha frs app1") auto
    with Cons.IH [OF r2] Cons.prems l k Ret show ?thesis by (auto intro: map_le_trans)
  qed
qed simp

text \<open>\<open>Use\<close> registers the middleware's functions on the table it found.\<close>

lemma use_middleware_registered:
  assumes "use_middleware E sha mw app = (r, app', ev)"
  shows "(app_registered app' = app_registered app \<and> (mw = None \<or> (\<exists>m. mw = Some m \<and> mw_functions m = None))) \<or>
    (\<exists>m frs app1 ev1. mw = Some m \<and> mw_functions m = Some frs \<and> app_registered app1 = app_registered app \<and>
       register_provided E sha frs app1 = (r, app', ev1))"
proof (cases mw)
  case (Some m)
  define app1 where "app1 = (let app = app\<lparr>app_middlewares := app_middlewares app @ [m]\<rparr>;
      app = (case mw_capabilities m of None \<Rightarrow> app
        | Some caps \<Rightarrow> app\<lparr>app_capability_map := merge_capabilities (app_capability_map app) caps\<rparr>)
      in case mw_shutdown m of None \<Rightarrow> app | Some f \<Rightarrow> app\<lparr>app_shutdowns := app_shutdowns app @ [f]\<rparr>)"
  have reg: "app_registered app1 = app_registered app" by (auto simp: app1_def Let_def split: option.split)
  show ?thesis
  proof (cases "mw_functions m")
    case None
    with assms Some reg show ?thesis by (auto simp: use_middleware_def app1_def Let_def)
  next
    case (Some frs)
    with assms \<open>mw = Some m\<close> have "\<exists>ev1. register_provided E sha frs app1 = (r, app', ev1)"
      by (auto simp: use_middleware_def app1_def Let_def split: prod.splits)
    with reg Some \<open>mw = Some m\<close> show ?thesis by blast
  qed
qed (use assms in \<open>simp add: use_middleware_def\<close>)

interpretation ap: invariant_runs "app_exec E sha" new_app "\<lambda>app. well_keyed (app_registered app)" for E sha
proof
  show "well_keyed (app_registered new_app)" by (simp add: new_app_def well_keyed_def)
next
  fix s t :: "('a, 'b, 'c, 'd) app" and e
  assume ok: "well_keyed (app_registered s)" and run: "app_exec E sha e s = Some t"
  show "well_keyed (app_registered t)"
  proof (cases e)
    case (Call_Register fr)
    obtain r u where "lift_register E sha fr s = (r, u)" by fastforce
    with run Call_Register lift_register_well_keyed [OF this ok] show ?thesis by (simp add: app_exec_def)
  next
    case (Call_Use mw)
    obtain r u ev where u: "use_middleware E sha mw s = (r, u, ev)" by (cases "use_middleware E sha mw s") auto
    with run Call_Use have "t = u" by (simp add: app_exec_def)
    with use_middleware_registered [OF u] ok register_provided_well_keyed show ?thesis by metis
  qed
qed

text \<open>Everything a middleware provides is in the application once \<open>Use\<close> returned.\<close>

lemma register_provided_all:
  "register_provided E sha frs app = (Ret (), app', ev) \<Longrightarrow> well_keyed (app_registered app) \<Longrightarrow> fr \<in> set frs \<Longrightarrow>
   \<exists>rf a b. map_of (app_registered app') (rf_func_id rf) = Some rf \<and>
     register_function E sha a (fr_name fr) (fr_func fr) (fr_trigger fr) (fr_options fr) = Ret (rf, b)"
proof (induction frs arbitrary: app ev)
  case (Cons fr0 frs)
  obtain q app1 where l: "lift_register E sha fr0 app = (q, app1)" by fastforce
  with Cons.prems(1) obtain rf0 ev1 where q: "q = Ret rf0" and r: "register_provided E sha frs app1 = (Ret (), app', ev1)"
    by (cases q) (auto split: prod.splits)
  note k = lift_register_well_keyed [OF l Cons.prems(2)]
  show ?case
  proof (cases "fr = fr0")
    case True
    from l [unfolded q] show ?thesis
    proof (cases rule: lift_register_cases)
      case (stored rf a)
      then have "map_of (app_registered app1) (rf_func_id rf) = Some rf" by simp
      with register_provided_well_keyed [OF r] k have "map_of (app_registered app') (rf_func_id rf) = Some rf"
        by (metis domI map_le_def)
      with stored True show ?thesis by blast
    qed simp
  next
    case False
    with Cons.prems(3) Cons.IH [OF r] k show ?thesis by simp
  qed
qed simp

text \<open>A function registered with a plain trigger and no options.\<close>

lemma registered_plain:
  assumes "register_function E sha a name f (T_Plain n ty) [] = Ret (rf, b)" and "ty \<noteq> http_trigger_type" and "name \<noteq> ''''"
  shows "rf_func rf = f \<and> rf_func_name rf = name \<and> rf_raw_bindings rf = [plain_binding n ty ''in'']"
proof (rule register_function_RetE [OF assms(1)])
  fix b0 ty0 rf0 rf1
  assume "to_binding (T_Plain n ty) = Ret b0" "get_binding_type (T_Plain n ty) = Ret ty0"
    "apply_options [] (initial_function name f b0 ty0) = Ret rf0" "bd_generic b0 = None \<longrightarrow> rf1 = rf0"
    "rf = rf1\<lparr>rf_func_id := hash_function_id sha rf1\<rparr>"
  with assms(2,3) show ?thesis by (auto simp: initial_function_def)
qed

lemma index_plain:
  assumes "rf_raw_bindings rf = [plain_binding n ty ''in'']"
  shows "\<exists>raw. index_function rf = Inr \<lparr>fm_function_id = rf_func_id rf, fm_name = rf_func_name rf,
    fm_bindings = [(n, \<lparr>bi_type = ty, bi_direction = Dir_in, bi_data_type = DT_undefined\<rparr>)], fm_raw_bindings = [raw],
    fm_language = ''go'', fm_script_file = rf_script_file rf, fm_entry_point = rf_func_name rf,
    fm_retry = map_option rpc_retry (rf_retry rf)\<rparr>"
  using assms
  by (simp add: index_function_def Let_def direction_of_def data_type_of_def binding_json_def binding_object_def map_put_def)

lemma index_function_names:
  "index_function rf = Inr fm \<Longrightarrow> fm_function_id fm = rf_func_id rf \<and> fm_name fm = rf_func_name rf"
  by (auto simp: index_function_def split: sum.splits)

subsection \<open>Properties\<close>

text \<open>
  C6. Every orchestrator and activity of the durable middleware is a function of the application once
  \<open>Use\<close> returned: filed under its own id, with the middleware's adapter as its code, reported to the
  host under its name with the single trigger binding the Durable extension expects, and loaded when
  the host asks for it.
\<close>

theorem durable_functions_loadable:
  assumes "use_middleware E sha (Some (durable_as_middleware hv wrap stop d)) app = (Ret (), app', ev)"
    and "well_keyed (app_registered app)" and "p \<in> set (du_provided d)" and "provided_name p \<noteq> ''''"
  shows "\<exists>rf fm. map_of (app_registered app') (rf_func_id rf) = Some rf \<and> rf_func rf = hv p \<and>
    index_function rf = Inr fm \<and> fm_function_id fm = rf_func_id rf \<and> fm_name fm = provided_name p \<and>
    fm_bindings fm = [(case p of Provided_Orchestrator n x \<Rightarrow> (''context'', \<lparr>bi_type = ''orchestrationTrigger'', bi_direction = Dir_in, bi_data_type = DT_undefined\<rparr>)
       | Provided_Activity n t \<Rightarrow> (''input'', \<lparr>bi_type = ''activityTrigger'', bi_direction = Dir_in, bi_data_type = DT_undefined\<rparr>))] \<and>
    handle_load E (app_registered app') (rf_func_id rf) rid loaded =
      (mk_msg rid (C_FunctionLoadResponse (rf_func_id rf) status_success_text), map_put (rf_func_id rf) (load_function E rf) loaded)"
proof -
  obtain app1 frs ev1 where app1: "app_registered app1 = app_registered app" "register_provided E sha frs app1 = (Ret (), app', ev1)"
    and frs: "frs = map (provided_registration hv) (du_provided d)"
    using use_middleware_registered [OF assms(1)] by (auto simp: durable_as_middleware_def provided_functions_def)
  have "provided_registration hv p \<in> set frs" using assms(3) by (simp add: frs)
  from register_provided_all [OF app1(2) _ this] app1(1) assms(2) obtain rf a b where
    rf: "map_of (app_registered app') (rf_func_id rf) = Some rf"
    "register_function E sha a (provided_name p) (hv p) (provided_trigger p) [] = Ret (rf, b)"
    by (auto simp: provided_registration_def)
  obtain n ty where t: "provided_trigger p = T_Plain n ty" "ty \<noteq> http_trigger_type"
    "(n, ty) = (case p of Provided_Orchestrator _ _ \<Rightarrow> (''context'', ''orchestrationTrigger'') | Provided_Activity _ _ \<Rightarrow> (''input'', ''activityTrigger''))"
    by (cases p) (auto simp: orchestration_trigger_def activity_trigger_def orchestration_trigger_type_def
        activity_trigger_type_def trigger_type_defs)
  have k: "rf_func rf = hv p" "rf_func_name rf = provided_name p" "rf_raw_bindings rf = [plain_binding n ty ''in'']"
    using registered_plain [OF rf(2) [unfolded t(1)] t(2) assms(4)] by simp_all
  obtain raw where "index_function rf = Inr \<lparr>fm_function_id = rf_func_id rf, fm_name = rf_func_name rf,
      fm_bindings = [(n, \<lparr>bi_type = ty, bi_direction = Dir_in, bi_data_type = DT_undefined\<rparr>)], fm_raw_bindings = [raw],
      fm_language = ''go'', fm_script_file = rf_script_file rf, fm_entry_point = rf_func_name rf,
      fm_retry = map_option rpc_retry (rf_retry rf)\<rparr>" using index_plain [OF k(3)] by blast
  with rf(1) k(1,2) t(3) show ?thesis
    by (intro exI [of _ rf]) (cases p; simp add: handle_load_def sm_load_def)
qed

definition sample_durable :: "(unit, string list) durable" where
  "sample_durable = fresh_durable\<lparr>du_provided := [Provided_Orchestrator ''hello'' (), Provided_Activity ''greet'' 0]\<rparr>"

definition sample_durable_middleware :: "(unit, unit, unit, unit client_factory) middleware" where
  "sample_durable_middleware = durable_as_middleware (\<lambda>p. sample_handler) (\<lambda>h. h) (\<lambda>w. (Ret None, w)) sample_durable"

lemma sample_durable_used:
  "\<exists>app ev. use_middleware handler_types (\<lambda>s. s) (Some sample_durable_middleware) new_app = (Ret (), app, ev)"
proof -
  have "case use_middleware handler_types (\<lambda>s. s) (Some sample_durable_middleware) new_app of (r, app, ev) \<Rightarrow> r = Ret ()"
    by code_simp
  then show ?thesis by (auto split: prod.splits)
qed

theorem durable_functions_loadable_witness:
  "\<exists>app ev rf fm. use_middleware handler_types (\<lambda>s. s) (Some sample_durable_middleware) new_app = (Ret (), app, ev) \<and>
     map_of (app_registered app) (rf_func_id rf) = Some rf \<and> index_function rf = Inr fm \<and> fm_name fm = ''greet'' \<and>
     map (bi_type \<circ> snd) (fm_bindings fm) = [''activityTrigger'']"
proof -
  obtain app ev where u: "use_middleware handler_types (\<lambda>s. s) (Some sample_durable_middleware) new_app = (Ret (), app, ev)"
    using sample_durable_used by blast
  have "well_keyed (app_registered (new_app :: (unit, unit, unit, unit client_factory) app))" by (rule ap.inv_init)
  moreover have "Provided_Activity ''greet'' 0 \<in> set (du_provided sample_durable)" by (simp add: sample_durable_def)
  ultimately obtain rf fm where "map_of (app_registered app) (rf_func_id rf) = Some rf" "index_function rf = Inr fm"
    "fm_name fm = ''greet''" "map (bi_type \<circ> snd) (fm_bindings fm) = [''activityTrigger'']"
    using durable_functions_loadable [OF u [unfolded sample_durable_middleware_def], of "Provided_Activity ''greet'' 0"]
    by fastforce
  with u show ?thesis by (intro exI conjI)
qed

text \<open>
  C4. However the application was set up (registrations, middlewares, calls that panicked), the host is
  told of each of its functions exactly once, and whatever id it was told it can load, getting the
  function it was told of.
\<close>

theorem reported_functions_load:
  assumes "exec_all (app_exec E sha) calls new_app = Some app"
    and "sm_content (handle_metadata (app_registered app) rid) = Some (C_FunctionMetadataResponse fms st)"
    and "sr_status st = Status_Success"
  shows "distinct (map fm_function_id fms) \<and> set (map fm_function_id fms) = dom (map_of (app_registered app)) \<and>
    (\<forall>fm \<in> set fms. \<exists>rf. map_of (app_registered app) (fm_function_id fm) = Some rf \<and> fm_name fm = rf_func_name rf \<and>
       handle_load E (app_registered app) (fm_function_id fm) rid' loaded =
         (mk_msg rid' (C_FunctionLoadResponse (fm_function_id fm) status_success_text),
          map_put (fm_function_id fm) (load_function E rf) loaded))"
proof -
  let ?m = "app_registered app"
  have keyed: "well_keyed ?m" by (rule ap.exec_all_inv [OF assms(1)])
  from assms(2,3) have "traverse (\<lambda>(k, rf). index_function rf) ?m = Inr fms"
    by (auto simp: handle_metadata_def status_failure_def split: sum.splits)
  then have all: "list_all2 (\<lambda>(k, rf) fm. index_function rf = Inr fm) ?m fms"
    by (simp add: traverse_Inr_iff case_prod_unfold)
  have each: "map_of ?m (fst (?m ! i)) = Some (snd (?m ! i)) \<and> fm_function_id (fms ! i) = fst (?m ! i) \<and>
      fm_name (fms ! i) = rf_func_name (snd (?m ! i))" if i: "i < length ?m" for i
  proof -
    have "map_of ?m (fst (?m ! i)) = Some (snd (?m ! i))"
      using nth_mem [OF i] keyed map_of_wf_mem [of ?m] unfolding well_keyed_def by (metis prod.collapse)
    moreover have "index_function (snd (?m ! i)) = Inr (fms ! i)"
      using list_all2_nthD [OF all i] by (simp add: case_prod_unfold)
    ultimately show ?thesis using keyed index_function_names by (auto simp: well_keyed_def)
  qed
  have len: "length fms = length ?m" using all by (simp add: list_all2_lengthD)
  with each have ids: "map fm_function_id fms = map fst ?m" by (simp add: list_eq_iff_nth_eq)
  show ?thesis
  proof (intro conjI ballI)
    show "distinct (map fm_function_id fms)" unfolding ids using keyed by (simp add: well_keyed_def wf_map_def)
    show "set (map fm_function_id fms) = dom (map_of ?m)" unfolding ids by (simp add: dom_map_of_conv_image_fst)
    fix fm assume "fm \<in> set fms"
    then obtain i where "i < length ?m" "fm = fms ! i" using len by (metis in_set_conv_nth)
    with each show "\<exists>rf. map_of ?m (fm_function_id fm) = Some rf \<and> fm_name fm = rf_func_name rf \<and>
        handle_load E ?m (fm_function_id fm) rid' loaded =
          (mk_msg rid' (C_FunctionLoadResponse (fm_function_id fm) status_success_text),
           map_put (fm_function_id fm) (load_function E rf) loaded)"
      by (auto simp: handle_load_def sm_load_def)
  qed
qed

theorem reported_functions_load_witness:
  "\<exists>app fms. exec_all (app_exec handler_types (\<lambda>s. s)) [Call_Use (Some sample_durable_middleware), Call_Use None] new_app = Some app \<and>
     sm_content (handle_metadata (app_registered app) ''r1'') = Some (C_FunctionMetadataResponse fms status_success_text) \<and>
     map fm_name fms = [''hello'', ''greet''] \<and>
     (\<forall>fm \<in> set fms. \<exists>rf. map_of (app_registered app) (fm_function_id fm) = Some rf)"
proof -
  have "case exec_all (app_exec handler_types (\<lambda>s. s)) [Call_Use (Some sample_durable_middleware), Call_Use None] new_app of
      None \<Rightarrow> False
    | Some app \<Rightarrow> (case sm_content (handle_metadata (app_registered app) ''r1'') of
        Some (C_FunctionMetadataResponse fms st) \<Rightarrow> map fm_name fms = [''hello'', ''greet''] \<and> st = status_success_text
      | _ \<Rightarrow> False)"
    by code_simp
  then obtain app fms where app: "exec_all (app_exec handler_types (\<lambda>s. s)) [Call_Use (Some sample_durable_middleware), Call_Use None] new_app = Some app"
    "sm_content (handle_metadata (app_registered app) ''r1'') = Some (C_FunctionMetadataResponse fms status_success_text)"
    "map fm_name fms = [''hello'', ''greet'']"
    by (auto split: option.splits content.splits)
  have "sr_status status_success_text = Status_Success" by (simp add: status_success_text_def)
  from reported_functions_load [OF app(1,2) this] have "\<forall>fm \<in> set fms. \<exists>rf. map_of (app_registered app) (fm_function_id fm) = Some rf"
    by blast
  with app show ?thesis by (intro exI conjI)
qed

end
