(* ===== verification/Proxy_System.thy ===== *)
theory Proxy_System
  imports Placeholder_Proxy Worker_System
begin

text \<open>
  The placeholder proxy with the application as its child: the worker's process behind the two
  bridged streams.  A stream delivers in order what was put on it, so each side's input is a prefix of
  the other side's output; nothing else connects the two processes.
\<close>

subsection \<open>The bridged streams\<close>

text \<open>What the proxy puts on the child's stream, and what it takes from it.\<close>

definition child_input :: "to_child list \<Rightarrow> streaming_message list" where
  "child_input cs = List.map_filter (\<lambda>c. case c of Replayed m \<Rightarrow> m | Forwarded m \<Rightarrow> Some m) cs"

definition child_output :: "proxy_event list \<Rightarrow> streaming_message list" where
  "child_output es = List.map_filter (\<lambda>e. case e of Child_Message m \<Rightarrow> Some m | _ \<Rightarrow> None) es"

text \<open>What the bridge passes on, and what of the host's stream is the child's.\<close>

definition relays :: "streaming_message \<Rightarrow> bool" where
  "relays m = (case sm_content m of Some (C_StartStream w) \<Rightarrow> False | Some (C_WorkerInitResponse r) \<Rightarrow> False | _ \<Rightarrow> True)"

definition relayed :: "to_host list \<Rightarrow> streaming_message list" where
  "relayed hs = List.map_filter (\<lambda>h. case h of Relayed m \<Rightarrow> Some m | Own m \<Rightarrow> None) hs"

text \<open>What a started worker puts on its stream: the handshake, then what its sender sends.\<close>

definition worker_output :: "string \<Rightarrow> ('cl, 'w) worker \<Rightarrow> streaming_message list" where
  "worker_output wid w = start_stream wid # sn_sent (wk_sender w)"

subsection \<open>Lemmas\<close>

lemma relayed_simps [simp]:
  "relayed [] = []" "relayed (hs @ [Own m]) = relayed hs" "relayed (hs @ [Relayed m]) = relayed hs @ [m]"
  by (simp_all add: relayed_def List.map_filter_def)

lemma child_input_simps [simp]:
  "child_input [] = []" "child_input (cs @ [Forwarded m]) = child_input cs @ [m]"
  "child_input (cs @ [Replayed x]) = child_input cs @ (case x of None \<Rightarrow> [] | Some m \<Rightarrow> [m])"
  by (simp_all add: child_input_def List.map_filter_def split: option.split)

lemma child_output_snoc: "child_output (es @ [e]) = child_output es @ (case e of Child_Message m \<Rightarrow> [m] | _ \<Rightarrow> [])"
  by (cases e) (simp_all add: child_output_def List.map_filter_def)

text \<open>Which of the two streams a step of the proxy writes to.\<close>

lemma placeholder_streams:
  "px_to_child (placeholder_message m s) = px_to_child s \<and> relayed (px_to_host (placeholder_message m s)) = relayed (px_to_host s)"
proof (cases "sm_content m")
  case (Some c)
  then show ?thesis by (cases c) (simp_all add: placeholder_message_def received_def send_to_host_def Let_def)
qed (simp add: placeholder_message_def received_def Let_def)

lemma child_message_relayed:
  "relayed (px_to_host (child_message m s)) = relayed (px_to_host s) @ (if relays m then [m] else []) \<and>
   px_to_child (child_message m s) = px_to_child s"
proof (cases "sm_content m")
  case (Some c)
  then show ?thesis by (cases c) (simp_all add: child_message_def relays_def send_to_host_def close_init_done_def)
qed (simp add: child_message_def relays_def send_to_host_def)

lemma put_spec_streams [simp]:
  "px_to_host (put_spec i pc s) = px_to_host s" "px_to_child (put_spec i pc s) = px_to_child s"
  "px_saved_init (put_spec i pc s) = px_saved_init s" "px_to_host (close_no_child s) = px_to_host s"
  "px_to_child (close_no_child s) = px_to_child s" "px_saved_init (close_no_child s) = px_saved_init s"
  by (simp_all add: put_spec_def close_no_child_def)

lemma relayed_step:
  assumes "proxy_exec P e s = Some t"
  shows "relayed (px_to_host t) = relayed (px_to_host s) @ (case e of Child_Message m \<Rightarrow> if relays m then [m] else [] | _ \<Rightarrow> [])"
  using assms
proof (cases rule: proxy_exec_cases)
  case (host m)
  with placeholder_streams [of m s] show ?thesis
    by (simp add: handle_host_message_def forward_message_def received_def send_to_child_def)
next
  case (ready m)
  then show ?thesis by (simp add: forward_message_def received_def send_to_child_def)
next
  case (no_child m)
  with placeholder_streams [of m s] show ?thesis by simp
next
  case (stat i stat req)
  then show ?thesis by (simp add: spec_start_def Let_def split: file_stat.split)
next
  case (launch i success path dir)
  then show ?thesis by (simp add: launch_child_def)
next
  case (runs i)
  then show ?thesis
    by (cases "px_specs s ! i") (auto simp: spec_runs_def send_to_host_def send_to_child_def split: if_splits)
next
  case (child m)
  with child_message_relayed [of m s] show ?thesis by simp
qed auto

lemma relayed_run:
  "exec_all (proxy_exec P) es (new_proxy env) = Some s \<Longrightarrow> relayed (px_to_host s) = filter relays (child_output es)"
proof (induction es arbitrary: s rule: rev_induct)
  case Nil
  then show ?case by (auto simp: new_proxy_def child_output_def List.map_filter_def)
next
  case (snoc e es)
  then obtain u where "exec_all (proxy_exec P) es (new_proxy env) = Some u" "proxy_exec P e u = Some s"
    by (auto simp: exec_all_append split: option.splits)
  with snoc.IH relayed_step show ?case by (fastforce simp: child_output_snoc split: proxy_event.split)
qed

text \<open>What is replayed to the child is an init request.\<close>

definition replay_ok :: "proxy \<Rightarrow> bool" where
  "replay_ok s \<longleftrightarrow> (\<forall>m. px_saved_init s = Some m \<or> Replayed (Some m) \<in> set (px_to_child s) \<longrightarrow>
     (\<exists>req. sm_content m = Some (C_WorkerInitRequest req)))"

lemma replay_ok_placeholder:
  assumes "replay_ok s"
  shows "replay_ok (placeholder_message m s)"
proof (cases "sm_content m")
  case (Some c)
  with assms show ?thesis
    by (cases c) (auto simp: replay_ok_def placeholder_message_def received_def send_to_host_def Let_def)
qed (use assms in \<open>auto simp: replay_ok_def placeholder_message_def received_def Let_def\<close>)

interpretation pr: invariant_runs "proxy_exec P" "new_proxy env" replay_ok for P env
proof
  show "replay_ok (new_proxy env)" by (simp add: replay_ok_def new_proxy_def)
next
  fix s t e assume ok: "replay_ok s" and run: "proxy_exec P e s = Some t"
  from run show "replay_ok t"
  proof (cases rule: proxy_exec_cases)
    case (host m)
    with ok replay_ok_placeholder [OF ok] show ?thesis
      by (auto simp: handle_host_message_def forward_message_def received_def send_to_child_def replay_ok_def)
  next
    case (ready m)
    with ok show ?thesis by (auto simp: forward_message_def received_def send_to_child_def replay_ok_def)
  next
    case (no_child m)
    with replay_ok_placeholder [OF ok] show ?thesis by simp
  next
    case (stat i stat req)
    with ok show ?thesis by (auto simp: spec_start_def Let_def replay_ok_def split: file_stat.split)
  next
    case (launch i success path dir)
    with ok show ?thesis by (auto simp: launch_child_def replay_ok_def)
  next
    case (runs i)
    with ok show ?thesis
      by (cases "px_specs s ! i") (auto simp: spec_runs_def send_to_host_def send_to_child_def replay_ok_def split: if_splits)
  next
    case (child m)
    with ok child_message_relayed [of m s] show ?thesis
      by (auto simp: replay_ok_def child_message_def send_to_host_def close_init_done_def split: option.splits content.splits)
  qed (use ok in \<open>auto simp: replay_ok_def\<close>)
qed

lemma child_input_mem:
  assumes "m \<in> set (child_input cs)"
  shows "Replayed (Some m) \<in> set cs \<or> m \<in> set (forwarded cs)"
  using assms
proof (induction cs rule: rev_induct)
  case (snoc c cs)
  then show ?case by (cases c) (auto split: option.splits)
qed simp

subsection \<open>Properties\<close>

text \<open>
  C5. Behind the proxy the application answers the host: every message the bridge relays, logs apart, is a
  response to a message the host sent to the child, under the request id the host gave the proxy, and
  each message the worker read is answered to the host at most once.
\<close>

theorem specialized_worker_answers:
  assumes "exec_all (proxy_exec P) es (new_proxy env) = Some s"
    and "exec_all (worker_exec X hc) ws (new_worker d) = Some w"
    and "d_request_id d = sc_request_id (ps_config P)"
    and "prefix (receive_loop (recv_results ws)) (child_input (px_to_child s))"
    and "prefix (child_output es) (worker_output wid w)"
  shows "mset (filter (\<lambda>m. \<not> is_log m) (relayed (px_to_host s))) \<subseteq># mset (List.map_filter (\<lambda>t. response_of (tk_pc t)) (wk_tasks w)) \<and>
    (\<forall>r \<in> set (relayed (px_to_host s)). is_log r \<or>
       (\<exists>m. (m, True) \<in> set (px_received s) \<and> answers (sc_request_id (ps_config P)) m r))"
proof
  have ok: "worker_ok X (d_registered d) (d_request_id d) w" by (rule wk.exec_all_inv [OF assms(2)])
  have rel: "relayed (px_to_host s) = filter relays (child_output es)" by (rule relayed_run [OF assms(1)])
  obtain rest where "worker_output wid w = child_output es @ rest" using assms(5) by (auto simp: prefix_def)
  moreover have "\<not> relays (start_stream wid)" by (simp add: relays_def start_stream_def)
  ultimately have "filter relays (sn_sent (wk_sender w)) = relayed (px_to_host s) @ filter relays rest"
    unfolding rel worker_output_def by (metis filter.simps(2) filter_append)
  then have "mset (relayed (px_to_host s)) \<subseteq># mset (filter relays (sn_sent (wk_sender w)))" by simp
  then have sub: "mset (relayed (px_to_host s)) \<subseteq># mset (sn_sent (wk_sender w))"
    by (metis mset_filter multiset_filter_subset subset_mset.order_trans)
  show 1: "mset (filter (\<lambda>m. \<not> is_log m) (relayed (px_to_host s))) \<subseteq># mset (List.map_filter (\<lambda>t. response_of (tk_pc t)) (wk_tasks w))"
    using sent_replies [OF ok] multiset_filter_mono [OF sub, of "\<lambda>m. \<not> is_log m"] by (auto intro: subset_mset.order_trans)
  show "\<forall>r \<in> set (relayed (px_to_host s)). is_log r \<or>
      (\<exists>m. (m, True) \<in> set (px_received s) \<and> answers (sc_request_id (ps_config P)) m r)"
  proof (intro ballI, rule ccontr)
    fix r assume r: "r \<in> set (relayed (px_to_host s))"
      and no: "\<not> (is_log r \<or> (\<exists>m. (m, True) \<in> set (px_received s) \<and> answers (sc_request_id (ps_config P)) m r))"
    then have "r \<in># mset (filter (\<lambda>m. \<not> is_log m) (relayed (px_to_host s)))" by simp
    from mset_subset_eqD [OF 1 this] obtain t where t: "t \<in> set (wk_tasks w)" "response_of (tk_pc t) = Some r"
      by (auto simp: List.map_filter_def)
    with ok assms(3) have a: "answers (sc_request_id (ps_config P)) (tk_message t) r"
      by (auto simp: worker_ok_def list_all_iff task_ok_def)
    have "map tk_message (wk_tasks w) = receive_loop (recv_results ws)"
      using worker_messages [OF assms(2)] by (simp add: new_worker_def)
    with t(1) assms(4) have "tk_message t \<in> set (child_input (px_to_child s))"
      by (metis image_eqI list.set_map set_mono_prefix subsetD)
    moreover have "Replayed (Some (tk_message t)) \<notin> set (px_to_child s)"
    proof
      assume "Replayed (Some (tk_message t)) \<in> set (px_to_child s)"
      with pr.exec_all_inv [OF assms(1)] have "\<exists>req. sm_content (tk_message t) = Some (C_WorkerInitRequest req)"
        unfolding replay_ok_def by blast
      with a have "\<not> relays r" by (auto simp: answers_def relays_def)
      with r rel show False by simp
    qed
    ultimately have "tk_message t \<in> set (forwarded (px_to_child s))" using child_input_mem by blast
    also have "forwarded (px_to_child s) = map fst (filter snd (px_received s))"
      using px.exec_all_inv [OF assms(1)] by (simp add: bridge_ok_def)
    finally show False using a no by force
  qed
qed

definition sample_child :: "(unit, unit) dispatcher" where
  "sample_child = sample_dispatcher\<lparr>d_request_id := ''r1''\<rparr>"

definition serving_run :: "proxy_event list" where
  "serving_run = [Host_Message init_message, Host_Message reload_message, Spec_Stat 0 FS_Executable, Spec_Launch 0 True,
     Child_Connects, Spec_Runs 0, Spec_Runs 0, Child_Message (start_stream ''w1''), Host_Message sample_load,
     Child_Message (load_reply ''r1'' ''f1'')]"

definition child_run :: "worker_event list" where
  "child_run = [Worker_Receives (Received init_message), Worker_Receives (Received sample_load), Worker_Task 1, Worker_Task 1,
     Worker_Sender (Send_Runs 0), Worker_Sender (Send_Runs 0), Worker_Sender (Send_Runs 0), Worker_Sender Sender_Takes,
     Worker_Sender (Sender_Sends True)]"

theorem specialized_worker_answers_witness:
  "\<exists>s. exec_all (proxy_exec sample_setup) serving_run (new_proxy []) = Some s \<and>
     load_reply ''r1'' ''f1'' \<in> set (relayed (px_to_host s)) \<and>
     (\<exists>m. (m, True) \<in> set (px_received s) \<and> answers ''r1'' m (load_reply ''r1'' ''f1''))"
proof -
  have "case exec_all (proxy_exec sample_setup) serving_run (new_proxy []) of
      None \<Rightarrow> False
    | Some s \<Rightarrow> child_input (px_to_child s) = [init_message, sample_load] \<and> relayed (px_to_host s) = [load_reply ''r1'' ''f1'']"
    by code_simp
  then obtain s where s: "exec_all (proxy_exec sample_setup) serving_run (new_proxy []) = Some s"
    "child_input (px_to_child s) = [init_message, sample_load]" "relayed (px_to_host s) = [load_reply ''r1'' ''f1'']"
    by (auto split: option.splits)
  have "case exec_all (worker_exec sample_env (\<lambda>r. None)) child_run (new_worker sample_child) of
      None \<Rightarrow> False | Some w \<Rightarrow> sn_sent (wk_sender w) = [load_reply ''r1'' ''f1'']"
    by code_simp
  then obtain w where w: "exec_all (worker_exec sample_env (\<lambda>r. None)) child_run (new_worker sample_child) = Some w"
    "sn_sent (wk_sender w) = [load_reply ''r1'' ''f1'']"
    by (auto split: option.splits)
  have "d_request_id sample_child = sc_request_id (ps_config sample_setup)" by (simp add: sample_child_def sample_setup_def)
  moreover have "prefix (receive_loop (recv_results child_run)) (child_input (px_to_child s))"
    by (simp add: s(2) child_run_def recv_results_def List.map_filter_def)
  moreover have "prefix (child_output serving_run) (worker_output ''w1'' w)"
    by (simp add: w(2) worker_output_def serving_run_def child_output_def List.map_filter_def)
  ultimately have "\<forall>r \<in> set (relayed (px_to_host s)). is_log r \<or>
      (\<exists>m. (m, True) \<in> set (px_received s) \<and> answers (sc_request_id (ps_config sample_setup)) m r)"
    using specialized_worker_answers [OF s(1) w(1)] by blast
  moreover have "\<not> is_log (load_reply ''r1'' ''f1'')" by (simp add: is_log_def load_reply_def)
  ultimately have "\<exists>m. (m, True) \<in> set (px_received s) \<and> answers ''r1'' m (load_reply ''r1'' ''f1'')"
    by (simp add: s(3) sample_setup_def)
  with s show ?thesis by (intro exI [of _ s]) simp
qed

end
