(* ===== verification/Payload_Types.thy ===== *)
theory Payload_Types
  imports Worker_Handlers
begin

text \<open>
  The SDK's own payload types (\<open>sdk/bindings\<close>) and the handler types of its typed trigger methods
  (\<open>sdk/handlers.go\<close>), as the worker's reflective decoder sees them: a type environment of the
  standard types they use, the structs with the names, types and tags of their fields, and the
  function types.  A program's environment is this one followed by the types of its own code.
  The lemmas decode every payload at its type; the properties compose them with loading and
  invoking a function of a typed handler.
\<close>

subsection \<open>The types\<close>

text \<open>Positions of the types in the environment.\<close>

abbreviation (input) ty_string :: gtype where "ty_string \<equiv> 0"
abbreviation (input) ty_bool :: gtype where "ty_bool \<equiv> 1"
abbreviation (input) ty_int :: gtype where "ty_int \<equiv> 2"
abbreviation (input) ty_int64 :: gtype where "ty_int64 \<equiv> 3"
abbreviation (input) ty_uint8 :: gtype where "ty_uint8 \<equiv> 4"
abbreviation (input) ty_bytes :: gtype where "ty_bytes \<equiv> 5"
abbreviation (input) ty_raw_message :: gtype where "ty_raw_message \<equiv> 6"
abbreviation (input) ty_any :: gtype where "ty_any \<equiv> 7"
abbreviation (input) ty_any_map :: gtype where "ty_any_map \<equiv> 8"
abbreviation (input) ty_context :: gtype where "ty_context \<equiv> 9"
abbreviation (input) ty_error :: gtype where "ty_error \<equiv> 10"
abbreviation (input) ty_timer_schedule :: gtype where "ty_timer_schedule \<equiv> 11"
abbreviation (input) ty_timer_status :: gtype where "ty_timer_status \<equiv> 12"
abbreviation (input) ty_timer_info :: gtype where "ty_timer_info \<equiv> 13"
abbreviation (input) ty_queue_message :: gtype where "ty_queue_message \<equiv> 14"
abbreviation (input) ty_eventhub_message :: gtype where "ty_eventhub_message \<equiv> 15"
abbreviation (input) ty_eventhub_batch :: gtype where "ty_eventhub_batch \<equiv> 16"
abbreviation (input) ty_servicebus_message :: gtype where "ty_servicebus_message \<equiv> 17"
abbreviation (input) ty_servicebus_batch :: gtype where "ty_servicebus_batch \<equiv> 18"
abbreviation (input) ty_cosmos_document :: gtype where "ty_cosmos_document \<equiv> 19"
abbreviation (input) ty_cosmos_documents :: gtype where "ty_cosmos_documents \<equiv> 20"
abbreviation (input) ty_eventgrid_event :: gtype where "ty_eventgrid_event \<equiv> 21"
abbreviation (input) ty_sql_operation :: gtype where "ty_sql_operation \<equiv> 22"
abbreviation (input) ty_sql_change :: gtype where "ty_sql_change \<equiv> 23"
abbreviation (input) ty_sql_changes :: gtype where "ty_sql_changes \<equiv> 24"

definition json_field :: "string \<Rightarrow> gtype \<Rightarrow> string \<Rightarrow> rfield" where
  "json_field n t tag = \<lparr>rf_field_name = n, rf_field_type = t, rf_json_tag = tag, rf_azfunc_tag = ''''\<rparr>"

text \<open>A field marked \<open>azfunc:"data"\<close>.\<close>

definition data_field :: "string \<Rightarrow> gtype \<Rightarrow> string \<Rightarrow> rfield" where
  "data_field n t tag = (json_field n t tag)\<lparr>rf_azfunc_tag := ''data''\<rparr>"

definition timer_schedule_fields :: "rfield list" where
  "timer_schedule_fields = [json_field ''AdjustForDST'' ty_bool ''adjustForDST'']"

definition timer_status_fields :: "rfield list" where
  "timer_status_fields =
    [json_field ''Last'' ty_string ''last'', json_field ''Next'' ty_string ''next'',
     json_field ''LastUpdated'' ty_string ''lastUpdated'']"

definition timer_info_fields :: "rfield list" where
  "timer_info_fields =
    [json_field ''Schedule'' ty_timer_schedule ''schedule'',
     json_field ''ScheduleStatus'' ty_timer_status ''scheduleStatus'',
     json_field ''IsPastDue'' ty_bool ''isPastDue'']"

definition queue_message_fields :: "rfield list" where
  "queue_message_fields =
    [data_field ''Body'' ty_raw_message ''body'', json_field ''Id'' ty_string ''id'',
     json_field ''PopReceipt'' ty_string ''popReceipt'', json_field ''DequeueCount'' ty_int64 ''dequeueCount'',
     json_field ''ExpirationTime'' ty_string ''expirationTime'',
     json_field ''InsertionTime'' ty_string ''insertionTime'',
     json_field ''NextVisibleTime'' ty_string ''nextVisibleTime'']"

definition eventhub_message_fields :: "rfield list" where
  "eventhub_message_fields =
    [data_field ''Body'' ty_raw_message ''body'', json_field ''EnqueuedTimeUtc'' ty_string ''enqueuedTimeUtc'',
     json_field ''SequenceNumber'' ty_int64 ''sequenceNumber'', json_field ''Offset'' ty_string ''offset'',
     json_field ''PartitionKey'' ty_string ''partitionKey'', json_field ''Properties'' ty_any_map ''properties'',
     json_field ''SystemProperties'' ty_any_map ''systemProperties'']"

definition servicebus_message_fields :: "rfield list" where
  "servicebus_message_fields =
    [data_field ''Body'' ty_raw_message ''body'', json_field ''ContentType'' ty_string ''contentType'',
     json_field ''CorrelationId'' ty_string ''correlationId'', json_field ''DeliveryCount'' ty_int ''deliveryCount'',
     json_field ''EnqueuedTimeUtc'' ty_string ''enqueuedTimeUtc'',
     json_field ''ExpiresAtUtc'' ty_string ''expiresAtUtc'', json_field ''Label'' ty_string ''label'',
     json_field ''LockToken'' ty_string ''lockToken'', json_field ''MessageId'' ty_string ''messageId'',
     json_field ''PartitionKey'' ty_string ''partitionKey'', json_field ''ReplyTo'' ty_string ''replyTo'',
     json_field ''ReplyToSessionId'' ty_string ''replyToSessionId'',
     json_field ''ScheduledEnqueueTimeUtc'' ty_string ''scheduledEnqueueTimeUtc'',
     json_field ''SequenceNumber'' ty_int64 ''sequenceNumber'', json_field ''SessionId'' ty_string ''sessionId'',
     json_field ''State'' ty_int ''state'', json_field ''Subject'' ty_string ''subject'',
     json_field ''TimeToLive'' ty_string ''timeToLive'', json_field ''To'' ty_string ''to'',
     json_field ''ApplicationProperties'' ty_any_map ''applicationProperties'',
     json_field ''UserProperties'' ty_any_map ''userProperties'']"

definition cosmos_document_fields :: "rfield list" where
  "cosmos_document_fields =
    [json_field ''ID'' ty_string ''id'', json_field ''Data'' ty_raw_message ''data'',
     json_field ''Rid'' ty_string ''_rid'', json_field ''Self'' ty_string ''_self'',
     json_field ''Etag'' ty_string ''_etag'', json_field ''Attachments'' ty_string ''_attachments'',
     json_field ''Timestamp'' ty_int64 ''_ts'', json_field ''Lsn'' ty_int ''_lsn'']"

definition eventgrid_event_fields :: "rfield list" where
  "eventgrid_event_fields =
    [json_field ''Id'' ty_string ''id'', json_field ''Topic'' ty_string ''topic'',
     json_field ''Subject'' ty_string ''subject'', json_field ''EventType'' ty_string ''eventType'',
     json_field ''EventTime'' ty_string ''eventTime'', json_field ''DataVersion'' ty_string ''dataVersion'',
     json_field ''MetadataVersion'' ty_string ''metadataVersion'', json_field ''Data'' ty_raw_message ''data'']"

definition sql_change_fields :: "rfield list" where
  "sql_change_fields =
    [json_field ''Operation'' ty_sql_operation ''Operation'', json_field ''Item'' ty_raw_message ''Item'']"

definition struct_type :: "string \<Rightarrow> rfield list \<Rightarrow> rtype" where
  "struct_type n fs = (plain_type (''bindings.'' @ n) K_Struct 0 [])\<lparr>rt_short_name := n, rt_fields := fs\<rparr>"

definition list_type :: "string \<Rightarrow> gtype \<Rightarrow> rtype" where
  "list_type n t = plain_type (''[]'' @ n) K_Slice t []"

definition payload_rtypes :: "rtype list" where
  "payload_rtypes =
    [plain_type ''string'' K_String 0 [], plain_type ''bool'' K_Bool 0 [], plain_type ''int'' K_Int 0 [],
     plain_type ''int64'' K_Int64 0 [], plain_type ''uint8'' K_Uint8 0 [], list_type ''uint8'' ty_uint8,
     (plain_type ''json.RawMessage'' K_Slice ty_uint8 [])\<lparr>rt_short_name := ''RawMessage'',
       rt_implements := [I_JsonMarshaler], rt_ptr_implements := [I_JsonMarshaler, I_JsonUnmarshaler]\<rparr>,
     plain_type ''interface {}'' K_Interface 0 [],
     (plain_type ''map[string]interface {}'' K_Map ty_any [])\<lparr>rt_key := ty_string\<rparr>,
     (plain_type ''context.Context'' K_Interface 0 [])\<lparr>rt_well_known := Type_Context,
       rt_implements := [I_Context], rt_num_method := 4\<rparr>,
     (plain_type ''error'' K_Interface 0 [])\<lparr>rt_well_known := Type_Error, rt_implements := [I_Error],
       rt_num_method := 1\<rparr>,
     struct_type ''TimerSchedule'' timer_schedule_fields,
     struct_type ''TimerScheduleStatus'' timer_status_fields,
     struct_type ''TimerInfo'' timer_info_fields,
     struct_type ''QueueMessage'' queue_message_fields,
     struct_type ''EventHubMessage'' eventhub_message_fields,
     list_type ''bindings.EventHubMessage'' ty_eventhub_message,
     struct_type ''ServiceBusMessage'' servicebus_message_fields,
     list_type ''bindings.ServiceBusMessage'' ty_servicebus_message,
     struct_type ''CosmosDocument'' cosmos_document_fields,
     list_type ''bindings.CosmosDocument'' ty_cosmos_document,
     struct_type ''EventGridEvent'' eventgrid_event_fields,
     (plain_type ''bindings.SQLOperation'' K_Int 0 [])\<lparr>rt_short_name := ''SQLOperation'', rt_num_method := 1\<rparr>,
     struct_type ''SQLChange'' sql_change_fields,
     list_type ''bindings.SQLChange'' ty_sql_change]"

text \<open>The payloads of the handler types of \<open>sdk/handlers.go\<close>, in its order.\<close>

definition typed_payloads :: "gtype list" where
  "typed_payloads =
    [ty_timer_info, ty_servicebus_message, ty_servicebus_batch, ty_eventhub_message, ty_eventhub_batch,
     ty_cosmos_documents, ty_sql_changes, ty_eventgrid_event, ty_queue_message, ty_bytes]"

definition handler_rtype :: "gtype \<Rightarrow> rtype" where
  "handler_rtype p =
     (plain_type (''func(context.Context, '' @ rt_name (payload_rtypes ! p) @ '') error'') K_Func 0 [])
       \<lparr>rt_in := [ty_context, p], rt_out := [ty_error]\<rparr>"

definition sdk_types :: tenv where
  "sdk_types = payload_rtypes @ map handler_rtype typed_payloads"

text \<open>The handler types with their payloads.\<close>

definition typed_handlers :: "(gtype \<times> gtype) list" where
  "typed_handlers = zip [length payload_rtypes..<length sdk_types] typed_payloads"

fun sql_operation_string :: "int \<Rightarrow> string" where
  "sql_operation_string op =
     (if op = 0 then ''Insert'' else if op = 1 then ''Update'' else if op = 2 then ''Delete''
      else ''SQLOperation('' @ string_of_int op @ '')'')"

subsection \<open>Decoding without a panic\<close>

text \<open>Whatever the decoder makes for the type without its JSON decoder can be stored in a variable of it.\<close>

definition settable :: "tenv \<Rightarrow> gtype \<Rightarrow> bool" where
  "settable E t \<longleftrightarrow>
     (kind_of E t = K_String \<longrightarrow> type_name E t = ''string'') \<and> (kind_of E t = K_Bool \<longrightarrow> type_name E t = ''bool'') \<and>
     (kind_of E t = K_Int \<longrightarrow> type_name E t = ''int'') \<and> (kind_of E t = K_Int64 \<longrightarrow> type_name E t = ''int64'') \<and>
     (kind_of E t = K_Float64 \<longrightarrow> type_name E t = ''float64'') \<and>
     (go_bytes_type E t \<longrightarrow> type_name E (elem_of E t) = ''uint8'') \<and> \<not> is_request_type E t"

text \<open>What \<open>json.Unmarshal\<close> documents: no panic at a type without decoders of its own, and a value of the type.\<close>

definition json_safe :: "tenv \<Rightarrow> codec \<Rightarrow> gtype \<Rightarrow> bool" where
  "json_safe E C t \<longleftrightarrow>
     (\<forall>s p. cd_unmarshal C t s \<noteq> Panic p) \<and> (\<forall>s v. cd_unmarshal C t s = ok v \<longrightarrow> assignable E t v)"

lemma assignable_zero [simp]: "assignable E t (GV_Zero u)"
  by (simp add: assignable_def)

lemma decode_natural_settable: "settable E t \<Longrightarrow> decode_natural E d t = Some v \<Longrightarrow> assignable E t v"
  by (auto simp: decode_natural_def settable_def assignable_def go_bytes_type_def split: if_splits option.splits)

lemma decode_plain_settable: "settable E t \<Longrightarrow> assignable E t (decode_plain E d t)"
  by (auto simp: decode_plain_def settable_def assignable_def go_bytes_type_def split: option.splits)

lemma decode_text_settable:
  "settable E t \<Longrightarrow> json_safe E C t \<Longrightarrow> decode_text E C d t = ok v \<Longrightarrow> assignable E t v"
  using decode_plain_settable [of E t d]
  by (auto simp: decode_text_def json_safe_def settable_def assignable_def go_bytes_type_def Let_def ok_def wrap_err_def
      split: if_splits outcome.splits sum.splits)

lemma decode_proto_settable:
  "settable E t \<Longrightarrow> json_safe E C t \<Longrightarrow> decode_proto E C d t = ok v \<Longrightarrow> assignable E t v"
  using decode_natural_settable [of E t d] decode_text_settable [of E t C d]
  by (auto simp: decode_proto_def json_safe_def settable_def split: if_splits option.splits)

lemma decode_text_no_panic: "json_safe E C t \<Longrightarrow> decode_text E C d t \<noteq> Panic p"
  by (auto simp: decode_text_def json_safe_def Let_def wrap_err_def split: outcome.splits sum.splits)

lemma decode_proto_no_panic: "json_safe E C t \<Longrightarrow> decode_proto E C d t \<noteq> Panic p"
  using decode_text_no_panic [of E C t d p]
  by (auto simp: decode_proto_def json_safe_def split: option.splits sum.splits)

lemma bind_step_panic_iff: "bind_step r f = Panic p \<longleftrightarrow> r = Panic p \<or> (\<exists>x. r = ok x \<and> f x = Panic p)"
  by (cases r rule: outcome.exhaust) (auto simp: bind_step_def ok_def split: sum.splits)

lemma wrap_err_panic_iff: "wrap_err w r = Panic p \<longleftrightarrow> r = Panic p"
  by (auto simp: wrap_err_def split: outcome.splits sum.splits)

lemma decode_fields_no_panic:
  "\<forall>f \<in> set fs. settable E (rf_field_type f) \<and> json_safe E C (rf_field_type f) \<Longrightarrow>
     decode_fields E C d md fs \<noteq> Panic p"
  by (induction fs)
     (auto simp: Let_def bind_step_panic_iff wrap_err_panic_iff wrap_err_ok_iff decode_proto_no_panic
       dest: decode_proto_settable split: prod.splits if_splits)

definition payload_safe :: "tenv \<Rightarrow> codec \<Rightarrow> gtype \<Rightarrow> bool" where
  "payload_safe E C t \<longleftrightarrow> kind_of E t \<noteq> K_Ptr \<and> json_safe E C t \<and>
     (\<forall>f \<in> set (rt_fields (tinfo E t)). settable E (rf_field_type f) \<and> json_safe E C (rf_field_type f))"

lemma convert_single_no_panic: "payload_safe E C t \<Longrightarrow> convert_single E C t d md \<noteq> Panic p"
  unfolding payload_safe_def
  by (auto simp: convert_single_def convert_fields_def convert_default_def Let_def bind_step_panic_iff
      decode_proto_no_panic decode_fields_no_panic json_safe_def split: if_splits outcome.splits sum.splits prod.splits)

lemma traverse_step_no_panic: "(\<And>i x. f i x \<noteq> Panic p) \<Longrightarrow> traverse_step f i xs \<noteq> Panic p"
  by (induction f i xs rule: traverse_step.induct) (auto simp: bind_step_panic_iff)

lemma convert_to_type_no_panic:
  assumes "payload_safe E C t"
    and "kind_of E t = K_Slice \<Longrightarrow> kind_of E (elem_of E t) = K_Struct \<Longrightarrow> payload_safe E C (elem_of E t)"
  shows "convert_to_type E C t d md \<noteq> Panic p"
proof (cases "if kind_of E t = K_Slice \<and> kind_of E (elem_of E t) = K_Struct then collection_values d else None")
  case None
  with assms(1) convert_single_no_panic [OF assms(1)] show ?thesis
    by (simp add: convert_to_type_def payload_safe_def)
next
  case (Some vs)
  then have "payload_safe E C (elem_of E t)" using assms(2) by (auto split: if_splits)
  then have "traverse_step (\<lambda>i v. wrap_err (e i) (convert_single E C (elem_of E t) (Some v) (metadata_at C md i))) 0 vs
      \<noteq> Panic p" for e
    by (intro traverse_step_no_panic) (simp add: wrap_err_panic_iff convert_single_no_panic)
  with Some assms(1) show ?thesis
    by (simp add: convert_to_type_def payload_safe_def bind_step_panic_iff)
qed

lemma bind_inputs_no_panic:
  assumes "\<And>n f d. map_of ffs n = Some f \<Longrightarrow> is_input_field f \<Longrightarrow> convert_to_type E C (ff_type f) d md \<noteq> Panic p"
  shows "bind_inputs E C md ffs bs seen args \<noteq> Panic p"
  by (induction bs arbitrary: seen args)
     (auto simp: Let_def bind_step_panic_iff wrap_err_panic_iff assms split: option.splits sum.splits)

lemma from_proto_no_panic:
  assumes "\<And>n f d. map_of ffs n = Some f \<Longrightarrow> is_input_field f \<Longrightarrow>
    convert_to_type E C (ff_type f) d (ireq_trigger_metadata req) \<noteq> Panic p"
  shows "from_proto E C req ffs args \<noteq> Panic p"
  using bind_inputs_no_panic [OF assms]
  by (auto simp: from_proto_def bind_step_panic_iff split: option.splits)

subsection \<open>The SDK's types in a program\<close>

lemma tinfo_prefix: "t < length T \<Longrightarrow> tinfo (T @ us) t = tinfo T t"
  by (simp add: tinfo_def nth_append)

lemma settable_prefix:
  "t < length T \<Longrightarrow> elem_of T t < length T \<Longrightarrow> settable (T @ us) t = settable T t"
  by (simp add: settable_def go_bytes_type_def is_request_type_def tinfo_prefix)

lemma sdk_lengths: "length payload_rtypes = 25" "length sdk_types = 35"
  by code_simp+

text \<open>What is checked of every type: its name, that it names types in range, that it is no pointer.\<close>

definition sdk_type_ok :: "gtype \<Rightarrow> rtype \<Rightarrow> bool" where
  "sdk_type_ok t r \<longleftrightarrow>
     (rt_kind r = K_String \<longrightarrow> rt_name r = ''string'') \<and> (rt_kind r = K_Bool \<longrightarrow> rt_name r = ''bool'') \<and>
     (rt_kind r = K_Int \<longrightarrow> t \<noteq> ty_sql_operation \<longrightarrow> rt_name r = ''int'') \<and>
     (rt_kind r = K_Int64 \<longrightarrow> rt_name r = ''int64'') \<and> rt_kind r \<noteq> K_Float64 \<and> rt_kind r \<noteq> K_Ptr \<and>
     rt_well_known r \<noteq> Type_Request \<and> (rt_kind r = K_Uint8 \<longrightarrow> rt_name r = ''uint8'') \<and>
     rt_elem r < length payload_rtypes \<and> (rt_elem r = ty_sql_change \<longrightarrow> t = ty_sql_changes) \<and>
     (I_Context \<in> set (rt_implements r) \<longleftrightarrow> t = ty_context) \<and> rt_well_known r \<noteq> Type_Response_Writer \<and>
     list_all (\<lambda>f. rf_field_type f < length payload_rtypes \<and>
       (t \<noteq> ty_sql_change \<longrightarrow> rf_field_type f \<noteq> ty_sql_operation)) (rt_fields r)"

lemma sdk_types_ok: "list_all (\<lambda>(t, r). sdk_type_ok t r) (enumerate 0 sdk_types)"
  by code_simp

lemma sdk_type: "t < length sdk_types \<Longrightarrow> sdk_type_ok t (tinfo sdk_types t)"
  using sdk_types_ok by (auto simp: list_all_iff in_set_enumerate_eq tinfo_def)

lemma sdk_settable: "t < length payload_rtypes \<Longrightarrow> t \<noteq> ty_sql_operation \<Longrightarrow> settable sdk_types t"
  using sdk_type [of t] sdk_type [of "elem_of sdk_types t"]
  by (auto simp: settable_def sdk_type_ok_def go_bytes_type_def is_request_type_def sdk_lengths)

definition sdk_codec :: "tenv \<Rightarrow> codec \<Rightarrow> bool" where
  "sdk_codec E C \<longleftrightarrow> (\<forall>t < length payload_rtypes. json_safe E C t)"

lemma sdk_payload_safe:
  assumes "sdk_codec (sdk_types @ us) C" and "t < length payload_rtypes" and "t \<noteq> ty_sql_change"
  shows "payload_safe (sdk_types @ us) C t"
proof -
  have t: "t < length sdk_types" using assms(2) by (simp add: sdk_lengths)
  have "settable (sdk_types @ us) (rf_field_type f) \<and> json_safe (sdk_types @ us) C (rf_field_type f)"
    if f: "f \<in> set (rt_fields (tinfo sdk_types t))" for f
  proof -
    have r: "rf_field_type f < length payload_rtypes" "rf_field_type f \<noteq> ty_sql_operation"
      using sdk_type [OF t] assms(3) f by (auto simp: sdk_type_ok_def list_all_iff)
    then have r': "rf_field_type f < length sdk_types" by (simp add: sdk_lengths)
    have "elem_of sdk_types (rf_field_type f) < length sdk_types"
      using sdk_type [OF r'] by (simp add: sdk_type_ok_def sdk_lengths)
    with settable_prefix [OF r'] sdk_settable [OF r] assms(1) r(1) show ?thesis by (simp add: sdk_codec_def)
  qed
  with sdk_type [OF t] assms(1,2) show ?thesis
    by (simp add: payload_safe_def tinfo_prefix [OF t] sdk_codec_def sdk_type_ok_def)
qed

lemma sdk_payload_no_panic:
  assumes "sdk_codec (sdk_types @ us) C" and "p \<in> set typed_payloads" and "p \<noteq> ty_sql_changes"
  shows "convert_to_type (sdk_types @ us) C p d md \<noteq> Panic q"
proof (rule convert_to_type_no_panic)
  have p: "p < length payload_rtypes" "p \<noteq> ty_sql_change"
    using assms(2) by (auto simp: typed_payloads_def sdk_lengths)
  then have "elem_of sdk_types p \<noteq> ty_sql_change"
    using sdk_type [of p] assms(3) by (auto simp: sdk_type_ok_def sdk_lengths)
  note p = p this
  from p show "payload_safe (sdk_types @ us) C p" by (intro sdk_payload_safe assms(1))
  have "p < length sdk_types" using p(1) by (simp add: sdk_lengths)
  then have "elem_of (sdk_types @ us) p = elem_of sdk_types p" "elem_of sdk_types p < length payload_rtypes"
    using sdk_type [of p] by (simp_all add: tinfo_prefix sdk_type_ok_def)
  with p(3) show "payload_safe (sdk_types @ us) C (elem_of (sdk_types @ us) p)"
    by (simp add: sdk_payload_safe assms(1))
qed

subsection \<open>Typed handlers, loaded\<close>

lemma typed_handlers_nth:
  assumes "(h, p) \<in> set typed_handlers"
  shows "h < length sdk_types" "p \<in> set typed_payloads" "p < length payload_rtypes" "p \<noteq> ty_context"
    "tinfo sdk_types h = handler_rtype p"
proof -
  have n: "length sdk_types = length payload_rtypes + length typed_payloads" by (simp add: sdk_types_def)
  from assms obtain i where i: "i < length typed_payloads" "h = length payload_rtypes + i" "p = typed_payloads ! i"
    unfolding typed_handlers_def n by (auto simp: in_set_zip)
  with n show "h < length sdk_types" "p \<in> set typed_payloads" by simp_all
  then show "p < length payload_rtypes" "p \<noteq> ty_context" by (auto simp: typed_payloads_def sdk_lengths)
  show "tinfo sdk_types h = handler_rtype p"
    using i n by (simp add: tinfo_def) (simp add: sdk_types_def nth_append)
qed

lemma typed_handler_params:
  assumes "(h, p) \<in> set typed_handlers" and "hv_type hv = Some h"
  shows "handler_params (sdk_types @ us) hv = [ty_context, p]"
    "is_context_type (sdk_types @ us) ty_context" "\<not> is_context_type (sdk_types @ us) p"
    "\<not> is_writer_type (sdk_types @ us) ty_context" "\<not> is_writer_type (sdk_types @ us) p"
proof -
  note h = typed_handlers_nth [OF assms(1)]
  have "p < length sdk_types" "ty_context < length sdk_types" using h(3) by (simp_all add: sdk_lengths)
  with sdk_type [of p] sdk_type [of ty_context] h assms(2)
  show "handler_params (sdk_types @ us) hv = [ty_context, p]"
    "is_context_type (sdk_types @ us) ty_context" "\<not> is_context_type (sdk_types @ us) p"
    "\<not> is_writer_type (sdk_types @ us) ty_context" "\<not> is_writer_type (sdk_types @ us) p"
    by (simp_all add: handler_params_def is_context_type_def implements_def is_writer_type_def
        tinfo_prefix sdk_type_ok_def handler_rtype_def)
qed

lemma map_bindings_full: "length ps \<le> i \<Longrightarrow> map_bindings E ps bs i m = m"
proof (induction bs)
  case (Cons b bs)
  then have "next_argument E ps i = i" by (subst next_argument.simps) simp
  with Cons show ?case by (simp add: Let_def)
qed simp

definition payload_field :: "gtype \<Rightarrow> binding \<Rightarrow> func_field" where
  "payload_field p b = \<lparr>ff_name = bd_name b, ff_type = p, ff_position = 1, ff_direction = bd_direction b,
     ff_is_argument = True, ff_is_writer = False, ff_generic = (bd_generic b \<noteq> None)\<rparr>"

text \<open>A typed handler's payload comes from the first inbound binding.\<close>

lemma typed_fields:
  assumes "(h, p) \<in> set typed_handlers" and "hv_type (rf_func rf) = Some h"
  shows "lf_fields (load_function (sdk_types @ us) rf) =
    (case find (\<lambda>b. bd_direction b = ''in'') (rf_raw_bindings rf) of
       None \<Rightarrow> [] | Some b \<Rightarrow> [(bd_name b, payload_field p b)])"
proof -
  let ?E = "sdk_types @ us"
  note t = typed_handler_params [OF assms]
  have next_arg: "next_argument ?E [ty_context, p] 0 = 1"
    using t(3-5) by (subst next_argument.simps, subst next_argument.simps) (simp add: t)
  have "map_bindings ?E [ty_context, p] bs 0 [] =
      (case find (\<lambda>b. bd_direction b = ''in'') bs of None \<Rightarrow> [] | Some b \<Rightarrow> [(bd_name b, payload_field p b)])" for bs
  proof (induction bs)
    case (Cons b bs)
    then show ?case
      using next_arg by (simp add: map_bindings_full Let_def payload_field_def map_put_def)
  qed simp
  moreover have "writer_fields ?E [ty_context, p] = []"
    using t by (simp add: writer_fields_def)
  ultimately show ?thesis by (simp add: load_function_def t(1))
qed

subsection \<open>Decoding a message\<close>

text \<open>What the metadata says of a field: the entry of its json name, or else of that name in another case.\<close>

definition metadata_of :: "metadata \<Rightarrow> rfield \<Rightarrow> typed_data option" where
  "metadata_of md f = fst (field_data f None md)"

lemma decode_fields_all:
  "decode_fields E C d md fs = ok (vs, n) \<Longrightarrow> length vs = length fs \<and>
     (\<forall>i < length fs. decode_proto E C (fst (field_data (fs ! i) d md)) (rf_field_type (fs ! i)) = ok (vs ! i))"
proof (induction fs arbitrary: vs n)
  case (Cons f fs)
  obtain td hit where fd: "field_data f d md = (td, hit)" by fastforce
  from Cons.prems fd obtain v vs' n' where
    r: "decode_fields E C d md fs = ok (vs', n')" "vs = v # vs'"
       "decode_proto E C td (rf_field_type f) = ok v"
    by (cases td) (auto simp: Let_def bind_step_ok_iff wrap_err_ok_iff decode_proto_def split: if_splits)
  from Cons.IH [OF r(1)] r fd show ?case by (auto simp: nth_Cons split: nat.split)
qed simp

text \<open>A message struct: its first field is marked for the body, the others are not.\<close>

definition message_struct :: "tenv \<Rightarrow> gtype \<Rightarrow> bool" where
  "message_struct E t \<longleftrightarrow> kind_of E t = K_Struct \<and>
     (case rt_fields (tinfo E t) of
        [] \<Rightarrow> False
      | f # fs \<Rightarrow> is_data_field f \<and> go_bytes_type E (rf_field_type f) \<and> list_all (\<lambda>f. \<not> is_data_field f) fs)"

lemma decode_body:
  assumes "go_bytes_type E t" and "d \<in> {TD_String s, TD_Json s, TD_Bytes s}" and "s \<noteq> ''''"
  shows "decode_proto E C (Some d) t = ok (GV_Bytes s)"
  using assms by (auto simp: decode_proto_def decode_natural_def decode_text_def decode_plain_def
      go_bytes_type_def is_request_type_def)

lemma convert_message:
  assumes "message_struct E t" and "d \<in> {TD_String s, TD_Json s, TD_Bytes s}" and "s \<noteq> ''''"
    and "convert_to_type E C t (Some d) md = ok v"
  shows "\<exists>vs. v = GV_Struct t (GV_Bytes s # vs) \<and>
    list_all2 (\<lambda>f v. decode_proto E C (metadata_of md f) (rf_field_type f) = ok v) (tl (rt_fields (tinfo E t))) vs"
proof -
  from assms(1) obtain f fs where fs: "rt_fields (tinfo E t) = f # fs" "is_data_field f" "go_bytes_type E (rf_field_type f)"
    "\<forall>g \<in> set fs. \<not> is_data_field g" "kind_of E t = K_Struct"
    by (auto simp: message_struct_def list_all_iff split: list.splits)
  then have "convert_fields E C t (Some d) md = ok v"
    using assms(4) by (simp add: convert_to_type_def convert_single_def Let_def has_data_field_def)
  then obtain vs n where dec: "decode_fields E C (Some d) md (f # fs) = ok (vs, n)"
    and v: "(if 0 < n then ok (wrap_ptr E t (GV_Struct t vs)) else convert_default E C t (Some d)) = ok v"
    using fs(1,5) by (auto simp: convert_fields_def Let_def bind_step_ok_iff simp del: decode_fields.simps)
  note all = decode_fields_all [OF dec]
  have n: "0 < n" using dec fs(2) by (auto simp: Let_def bind_step_ok_iff field_data_def split: if_splits)
  from all obtain u us where us: "vs = u # us" "length us = length fs" by (cases vs) auto
  have "u = GV_Bytes s" using all fs(2) us decode_body [OF fs(3) assms(2,3), of C] by (auto simp: field_data_def)
  moreover have "list_all2 (\<lambda>f v. decode_proto E C (metadata_of md f) (rf_field_type f) = ok v) fs us"
    unfolding list_all2_conv_all_nth
  proof (intro conjI allI impI)
    fix i assume i: "i < length fs"
    with fs(4) have "fst (field_data (fs ! i) (Some d) md) = metadata_of md (fs ! i)"
      by (simp add: metadata_of_def field_data_def)
    with all i us show "decode_proto E C (metadata_of md (fs ! i)) (rf_field_type (fs ! i)) = ok (us ! i)"
      by (auto dest!: spec [where x = "Suc i"])
  qed (use us in simp)
  ultimately show ?thesis using v n us(1) fs(1,5) by (intro exI [of _ us]) (simp add: wrap_ptr_def)
qed

definition message_payloads :: "gtype list" where
  "message_payloads = [ty_queue_message, ty_eventhub_message, ty_servicebus_message]"

lemma sdk_message_struct: "t \<in> set message_payloads \<Longrightarrow> message_struct (sdk_types @ us) t"
proof -
  assume t: "t \<in> set message_payloads"
  have "list_all (\<lambda>t. t < length payload_rtypes \<and> message_struct sdk_types t) message_payloads"
    by code_simp
  with t have m: "t < length payload_rtypes" "message_struct sdk_types t" by (auto simp: list_all_iff)
  then have r: "t < length sdk_types" by (simp add: sdk_lengths)
  obtain f fs where f: "rt_fields (tinfo sdk_types t) = f # fs" "is_data_field f" "go_bytes_type sdk_types (rf_field_type f)"
      "list_all (\<lambda>f. \<not> is_data_field f) fs" "kind_of sdk_types t = K_Struct"
    using m(2) by (auto simp: message_struct_def split: list.splits)
  have "rf_field_type f < length sdk_types" "elem_of sdk_types (rf_field_type f) < length sdk_types"
    using sdk_type [OF r] sdk_type [of "rf_field_type f"] f(1) by (auto simp: sdk_type_ok_def sdk_lengths)
  with f r show ?thesis by (simp add: message_struct_def tinfo_prefix go_bytes_type_def)
qed

lemma bind_inputs_single:
  assumes "map_of ffs = [n \<mapsto> f]" and "is_input_field f" and "ff_position f < length args" and "\<not> ff_generic f"
    and "filter (\<lambda>b. pb_name b = n) bs = [i]"
  shows "bind_inputs E C md ffs bs seen args =
    bind_step (wrap_err (binding_prefix n) (convert_to_type E C (ff_type f) (pb_data i) md))
      (\<lambda>v. ok (args[ff_position f := Some v], seen))"
  using assms(3,5)
proof (induction bs)
  case (Cons b bs)
  have none: "filter (\<lambda>b. pb_name b = n) bs = [] \<Longrightarrow> bind_inputs E C md ffs bs seen args' = ok (args', seen)" for args'
    by (induction bs) (auto simp: assms(1) Let_def split: if_splits)
  show ?case
  proof (cases "pb_name b = n")
    case True
    with Cons.prems none assms(1,2,4) show ?thesis by (simp add: Let_def)
  next
    case False
    with Cons assms(1) show ?thesis by (simp add: Let_def)
  qed
qed simp

text \<open>Binding the arguments of a typed handler.\<close>

lemma typed_from_proto:
  assumes "(h, p) \<in> set typed_handlers" and "hv_type (rf_func rf) = Some h"
    and "find (\<lambda>b. bd_direction b = ''in'') (rf_raw_bindings rf) = Some b" and "bd_generic b = None"
    and "filter (\<lambda>i. pb_name i = bd_name b) (ireq_input_data req) = [i]"
  shows "from_proto (sdk_types @ us) C req (lf_fields (load_function (sdk_types @ us) rf)) [None, None] =
    bind_step (wrap_err (binding_prefix (bd_name b))
        (convert_to_type (sdk_types @ us) C p (pb_data i) (ireq_trigger_metadata req)))
      (\<lambda>v. ok [None, Some v])"
proof -
  have b: "bd_direction b = ''in''" using assms(3) by (auto simp: find_Some_iff)
  let ?f = "payload_field p b"
  have f: "is_input_field ?f" "ff_position ?f < length [None, None :: go_value option]" "\<not> ff_generic ?f"
    "ff_type ?f = p" "ff_position ?f = 1"
    using b assms(4) by (simp_all add: payload_field_def is_input_field_def)
  have ffs: "lf_fields (load_function (sdk_types @ us) rf) = [(bd_name b, ?f)]"
    using typed_fields [OF assms(1,2)] assms(3) by simp
  have m: "map_of [(bd_name b, ?f)] = [bd_name b \<mapsto> ?f]" by simp
  show ?thesis
    unfolding from_proto_def ffs bind_inputs_single [OF m f(1-3) assms(5)]
    using f by (cases "convert_to_type (sdk_types @ us) C p (pb_data i) (ireq_trigger_metadata req)" rule: outcome.exhaust)
       (auto simp: bind_step_def wrap_err_def ok_def split: sum.splits)
qed

lemma typed_invocation_returns:
  assumes "ie_types X = sdk_types @ us" and "sdk_codec (ie_types X) (ie_codec X)"
    and "map_of loaded (ireq_function_id req) = Some (load_function (ie_types X) rf)"
    and "(h, p) \<in> set typed_handlers" and "p \<noteq> ty_sql_changes" and "hv_type (rf_func rf) = Some h"
    and "rf_client_factory rf = None"
  shows "\<exists>m w'. handle_invocation X loaded req rid w = (ok m, w')"
proof -
  let ?lf = "load_function (ie_types X) rf"
  have lf: "lf_function ?lf = rf" by (simp add: load_function_def Let_def)
  have "from_proto (ie_types X) (ie_codec X) req (lf_fields ?lf) args \<noteq> Panic q" for args q
  proof (rule from_proto_no_panic)
    fix n f d assume "map_of (lf_fields ?lf) n = Some f"
    then have "ff_type f = p"
      using typed_fields [OF assms(4,6)] by (auto simp: assms(1) payload_field_def split: option.splits if_splits)
    then show "convert_to_type (ie_types X) (ie_codec X) (ff_type f) d (ireq_trigger_metadata req) \<noteq> Panic q"
      using sdk_payload_no_panic typed_handlers_nth(2) [OF assms(4)] assms(1,2,5) by metis
  qed
  then show ?thesis
    using assms(7) by (auto simp: handle_invocation_def sm_load_def assms(3) lf Let_def ok_def client_args_def
        split: option.splits outcome.splits sum.splits prod.splits)
qed

subsection \<open>Properties\<close>

text \<open>
  C11. Decoding the SDK's payloads never panics: an invocation of a function whose handler has one of
  the SDK's typed shapes, SQL changes apart, is always answered by a response to it, whatever the
  host sends as input and metadata.
\<close>

theorem typed_invocation_answered:
  assumes "ie_types X = sdk_types @ us" and "sdk_codec (ie_types X) (ie_codec X)"
    and "map_of loaded (ireq_function_id req) = Some (load_function (ie_types X) rf)"
    and "(h, p) \<in> set typed_handlers" and "p \<noteq> ty_sql_changes" and "hv_type (rf_func rf) = Some h"
    and "rf_client_factory rf = None"
  shows "\<exists>m w'. handle_invocation X loaded req rid w = (ok m, w') \<and>
    is_response_for rid (ireq_invocation_id req) m"
proof -
  obtain m w' where r: "handle_invocation X loaded req rid w = (ok m, w')"
    using typed_invocation_returns [OF assms, where rid = rid and w = w] by blast
  from r handle_invocation_ok [OF r] show ?thesis by (intro exI conjI)
qed


text \<open>A program with a queue-triggered function that records its message in the world.\<close>

definition queue_handler :: handler_value where
  "queue_handler = \<lparr>hv_type = Some 33, hv_nil = False, hv_full_name = ''main.work'', hv_file = ''main.go''\<rparr>"

definition queue_function :: "unit rfunction" where
  "queue_function = initial_function ''work'' queue_handler (queue_to_binding ''message'' ''orders'' '''') ''queueTrigger''"

definition queue_env :: "(unit, unit, go_value list, unit, unit) inv_env" where
  "queue_env = echo_env\<lparr>ie_types := sdk_types\<rparr>"

definition queue_request :: invocation_request where
  "queue_request = sample_request\<lparr>
     ireq_input_data := [\<lparr>pb_name = ''message'', pb_data = Some (TD_Json ''[1]'')\<rparr>],
     ireq_trigger_metadata := [(''Id'', Some (TD_String ''q1''))]\<rparr>"

lemma queue_run:
  "case handle_invocation queue_env [(''f1'', load_function sdk_types queue_function)] queue_request ''r1'' [] of
      (Ret (Inr m), w) \<Rightarrow> w \<noteq> [] | _ \<Rightarrow> False"
  by code_simp

lemma queue_hypotheses:
  "ie_types queue_env = sdk_types @ []" "sdk_codec (ie_types queue_env) (ie_codec queue_env)"
  "map_of [(''f1'', load_function sdk_types queue_function)] (ireq_function_id queue_request) =
     Some (load_function (ie_types queue_env) queue_function)"
  "(33, 14) \<in> set typed_handlers" "hv_type (rf_func queue_function) = Some 33"
  "rf_client_factory queue_function = None" "ie_proxy queue_env = None"
proof -
  have "list_ex ((=) (33, 14)) typed_handlers" by code_simp
  then show "(33, 14) \<in> set typed_handlers" by (auto simp: list_ex_iff)
qed (simp_all add: queue_env_def echo_env_def sdk_codec_def json_safe_def sample_codec_def queue_request_def
    sample_request_def queue_function_def initial_function_def queue_handler_def)

theorem typed_invocation_answered_witness:
  "\<exists>m w'. handle_invocation queue_env [(''f1'', load_function sdk_types queue_function)] queue_request ''r1'' [] = (ok m, w') \<and>
     is_response_for ''r1'' ''i1'' m"
proof -
  note h = queue_hypotheses
  from typed_invocation_answered [OF h(1-4) _ h(5,6), where rid = "''r1''" and w = "[]"]
  show ?thesis by (simp add: queue_request_def sample_request_def)
qed


subsection \<open>SQL changes\<close>

text \<open>
  The exception: an SQL change whose payload does not decode, with metadata naming an operation.  The
  field's type is named, the decoder makes an \<open>int\<close>, and storing it panics outside the recovery that
  protects user code, so that the invocation has no answer.
\<close>

lemma sdk_sql_types:
  "tinfo (sdk_types @ us) ty_sql_changes = list_type ''bindings.SQLChange'' ty_sql_change"
  "tinfo (sdk_types @ us) ty_sql_change = struct_type ''SQLChange'' sql_change_fields"
  "kind_of (sdk_types @ us) ty_sql_operation = K_Int" "type_name (sdk_types @ us) ty_sql_operation = ''bindings.SQLOperation''"
  by (simp_all add: tinfo_prefix sdk_lengths)
     (simp_all add: sdk_types_def payload_rtypes_def tinfo_def plain_type_def)

lemma sql_change_panics:
  assumes "cd_unmarshal C ty_sql_change s = err e" and "s \<noteq> ''''" and "n \<noteq> 0"
  shows "convert_to_type (sdk_types @ us) C ty_sql_changes (Some (TD_CollectionString [s]))
    [(''Operation'', Some (TD_Int n))] = Panic set_panic"
proof -
  have tags: "\<not> array_name ''Operation''" "strip_tag ''Operation'' = ''Operation''"
    "\<not> is_data_field (json_field ''Operation'' ty_sql_operation ''Operation'')"
    "\<not> is_data_field (json_field ''Item'' ty_raw_message ''Item'')"
    by code_simp+
  have md: "metadata_at C [(''Operation'', Some (TD_Int n))] 0 = [(''Operation'', Some (TD_Int n))]"
    by (simp add: metadata_at_def tags Let_def map_put_def)
  have field: "field_data (json_field ''Operation'' ty_sql_operation ''Operation'') d
      [(''Operation'', Some (TD_Int n))] = (Some (TD_Int n), True)" for d
    using tags by (simp add: field_data_def json_field_def Let_def)
  have dec: "decode_proto (sdk_types @ us) C (Some (TD_Int n)) ty_sql_operation = ok (GV_Int n)"
    using assms(3) sdk_sql_types(3) by (simp add: decode_proto_def decode_natural_def go_bytes_type_def)
  have "\<not> assignable (sdk_types @ us) ty_sql_operation (GV_Int n)"
    using sdk_sql_types(4) by (simp add: assignable_def)
  with field dec have fields: "decode_fields (sdk_types @ us) C d [(''Operation'', Some (TD_Int n))] sql_change_fields =
      Panic set_panic" for d
    by (simp add: sql_change_fields_def Let_def) (simp add: json_field_def)
  have "convert_single (sdk_types @ us) C ty_sql_change (Some (TD_String s)) [(''Operation'', Some (TD_Int n))] = Panic set_panic"
    using assms(1,2) tags(3,4) fields sdk_sql_types(2)
    by (simp add: convert_single_def convert_fields_def struct_type_def plain_type_def has_data_field_def
        json_text_def sql_change_fields_def err_def Let_def del: decode_fields.simps)
  with md sdk_sql_types(1,2) show ?thesis
    by (simp add: convert_to_type_def list_type_def struct_type_def plain_type_def Let_def)
qed

end
