(* ===== verification/Worker_Start.thy ===== *)
theory Worker_Start
  imports Log_Pipeline Worker_Stream Worker_Metadata
begin

text \<open>
  Logging over the life of the process: \<open>slog\<close>'s default, which the SDK installs itself in
  (\<open>sdk/init.go\<close>), the base handler the worker swaps in when the stream is open (\<open>sdk/log.go\<close>), and
  \<open>Start\<close> with everything it logs on the way (\<open>worker/worker.go\<close>).  The lemmas say where a record of
  the program ends up, and that what is logged changes nothing else of \<open>Start\<close>.
\<close>

subsection \<open>The process-wide handlers\<close>

text \<open>
  What \<open>slog.Default().Handler()\<close> can be: the SDK's handler, or one of other code with the name of its
  type, the \<open>With\<close> and \<open>WithGroup\<close> calls made on it and what it does with a record.  (\<open>slog.New\<close>
  panics on a nil handler, so there always is one.)
\<close>

datatype 'w default_handler =
    DH_Sdk sdk_log_handler
  | DH_Other string "log_op list" "log_op list \<Rightarrow> invocation_context option \<Rightarrow> log_record \<Rightarrow> 'w \<Rightarrow> 'w"

text \<open>\<open>slog\<close>'s default, \<open>baseHolder\<close>, the worker's writer and \<open>observers\<close>.\<close>

record 'w log_process =
  lp_default :: "'w default_handler"
  lp_base :: "log_handler option"
  lp_writer :: log_writer
  lp_observers :: "'w observer list option"

fun handler_type :: "'w default_handler \<Rightarrow> string" where
  "handler_type (DH_Sdk h) = ''*sdk.invocationLogHandler''"
| "handler_type (DH_Other n ops f) = n"

definition default_untouched :: "'w log_process \<Rightarrow> bool" where
  "default_untouched p \<longleftrightarrow> handler_type (lp_default p) = ''*slog.defaultHandler''"

definition new_logger :: "'w default_handler" where
  "new_logger = DH_Sdk (new_log_handler None)"

text \<open>\<open>init\<close> of the package.\<close>

definition sdk_init :: "'w log_process \<Rightarrow> 'w log_process" where
  "sdk_init p = (if \<not> default_untouched p then p else p\<lparr>lp_default := new_logger\<rparr>)"

definition set_default_base_handler :: "log_handler option \<Rightarrow> 'w log_process \<Rightarrow> 'w log_process" where
  "set_default_base_handler h p = (case h of None \<Rightarrow> p\<lparr>lp_base := None\<rparr> | Some b \<Rightarrow> p\<lparr>lp_base := Some b\<rparr>)"

text \<open>\<open>With\<close> and \<open>WithGroup\<close> of a logger, which skip empty arguments, and a record logged by it.\<close>

fun logger_with :: "log_op list \<Rightarrow> 'w default_handler \<Rightarrow> 'w default_handler" where
  "logger_with ops (DH_Sdk h) =
     DH_Sdk (fold (\<lambda>op. case op of Op_Group g \<Rightarrow> sdk_with_group g | Op_Attrs as \<Rightarrow> sdk_with_attrs as) ops h)"
| "logger_with ops (DH_Other n os f) = DH_Other n (os @ filter (\<lambda>op. \<not> trivial_op op) ops) f"

definition log_through ::
    "'w log_env \<Rightarrow> (log_op list \<Rightarrow> log_record \<Rightarrow> 'w \<Rightarrow> 'w) \<Rightarrow> 'w log_process \<Rightarrow> 'w default_handler \<Rightarrow>
     invocation_context option \<Rightarrow> log_record \<Rightarrow> 'w \<Rightarrow> 'w" where
  "log_through E std p h ctx r w =
     (case h of
        DH_Sdk s \<Rightarrow> sdk_handle E (lp_writer p) (lp_observers p) std (lp_base p) ctx r s w
      | DH_Other n ops f \<Rightarrow> f ops ctx r w)"

text \<open>The calls that change the handlers: \<open>slog.SetDefault\<close>, the SDK's and \<open>log.RegisterObserver\<close>.\<close>

datatype 'w log_call =
    LC_Set_Default "'w default_handler"
  | LC_Set_Base "log_handler option"
  | LC_Observe "'w observer option"

fun do_log_call :: "'w log_call \<Rightarrow> 'w log_process \<Rightarrow> 'w log_process" where
  "do_log_call (LC_Set_Default h) p = p\<lparr>lp_default := h\<rparr>"
| "do_log_call (LC_Set_Base b) p = set_default_base_handler b p"
| "do_log_call (LC_Observe f) p = p\<lparr>lp_observers := register_observer f (lp_observers p)\<rparr>"

subsection \<open>Start and what it logs\<close>

definition log_entry :: "'w log_env \<Rightarrow> int \<Rightarrow> string \<Rightarrow> log_attr list \<Rightarrow> log_record" where
  "log_entry E level m as =
     add_attrs as \<lparr>lr_level = level, lr_message = m, lr_time = Some (le_now E), lr_attrs = []\<rparr>"

definition err_attr :: "go_error \<Rightarrow> log_attr" where
  "err_attr e = mk_attr ''err'' (SV_Other e)"

definition str_attr :: "string \<Rightarrow> string \<Rightarrow> log_attr" where
  "str_attr k s = mk_attr k (SV_String s)"

definition bootstrap_log :: "'w log_env \<Rightarrow> int \<Rightarrow> string \<Rightarrow> log_attr list \<Rightarrow> 'w \<Rightarrow> 'w" where
  "bootstrap_log E level m as w = le_stderr E (bootstrap_line E (log_entry E level m as)) w"

definition system_log :: "'w log_env \<Rightarrow> log_writer \<Rightarrow> int \<Rightarrow> string \<Rightarrow> log_attr list \<Rightarrow> 'w \<Rightarrow> 'w" where
  "system_log E wr level m as w = system_handle E wr None (log_entry E level m as) new_composer w"

definition custom_property :: "worker_metadata \<Rightarrow> string \<Rightarrow> string" where
  "custom_property md k = (case map_of (wm_custom md) k of Some v \<Rightarrow> v | None \<Rightarrow> '''')"

definition started_attrs :: "worker_metadata \<Rightarrow> bool \<Rightarrow> log_attr list" where
  "started_attrs md http_proxy =
     [str_attr ''sdk_version'' (wm_worker_version md),
      str_attr ''sdk_replaced'' (custom_property md ''sdk_replaced''),
      str_attr ''sdk_replace_path'' (custom_property md ''sdk_replace_path''),
      str_attr ''vcs_revision'' (custom_property md ''app_vcs_revision''),
      str_attr ''build_dirty'' (custom_property md ''app_built_dirty''),
      str_attr ''go_version'' (wm_runtime_version md),
      str_attr ''worker_bitness'' (wm_worker_bitness md),
      mk_attr ''http_proxy_enabled'' (SV_Bool http_proxy)]"

text \<open>A hook whose failed shutdown is logged.\<close>

definition warned_hook :: "(go_error \<Rightarrow> 'w \<Rightarrow> 'w) \<Rightarrow> 'w lifecycle_hook \<Rightarrow> 'w lifecycle_hook" where
  "warned_hook warn h =
     h\<lparr>lh_shutdown := (\<lambda>w. case lh_shutdown h w of (Some e, w') \<Rightarrow> (Some e, warn e w') | (None, w') \<Rightarrow> (None, w'))\<rparr>"

definition hook_warning :: "'w log_env \<Rightarrow> log_writer \<Rightarrow> go_error \<Rightarrow> 'w \<Rightarrow> 'w" where
  "hook_warning E wr e w = system_log E wr 4 ''Lifecycle hook shutdown returned error'' [err_attr e] w"

text \<open>The handlers once the stream is open.\<close>

definition stream_opened :: "'w log_process \<Rightarrow> 'w log_process" where
  "stream_opened p = set_default_base_handler (Some (LH_User new_composer)) (p\<lparr>lp_writer := new_writer True\<rparr>)"

text \<open>
  The parts of \<open>Start\<close> that are code of their own are arguments: the start-up configuration, the
  connection, the receive loop, which may change the handlers, the sender's end and the middlewares'
  shutdowns with their error.
\<close>

record ('st, 'w) start_parts =
  sp_connect :: "startup_config \<Rightarrow> 'st result"
  sp_http_proxy :: bool
  sp_metadata :: worker_metadata
  sp_serve :: "'st \<Rightarrow> 'w log_process \<Rightarrow> 'w \<Rightarrow> 'w log_process \<times> 'w"
  sp_stop_sender :: "'w \<Rightarrow> 'w"
  sp_shutdowns :: "'w \<Rightarrow> go_error option \<times> 'w"

definition start_process ::
    "'w log_env \<Rightarrow> (log_op list \<Rightarrow> log_record \<Rightarrow> 'w \<Rightarrow> 'w) \<Rightarrow> ('st, 'w) start_parts \<Rightarrow> startup_config result \<Rightarrow>
     ('w lifecycle_hook start_config \<Rightarrow> 'w lifecycle_hook start_config) list \<Rightarrow> 'w log_process \<Rightarrow> 'w \<Rightarrow>
     start_end \<times> 'w log_process \<times> 'w" where
  "start_process E std S config opts p w =
     (case config of
        Inl e \<Rightarrow> (Exit_Config e, p, bootstrap_log E 8 ''Failed to parse worker configuration'' [err_attr e] w)
      | Inr c \<Rightarrow>
          (let w = bootstrap_log E 0 ''Starting Worker'' [str_attr ''worker_id'' (sc_worker_id c)] w in
           case sp_connect S c of
             Inl e \<Rightarrow>
               (Exit_Connect e, p,
                bootstrap_log E 8 ''Error establishing connection to host's gRPC server'' [err_attr e] w)
           | Inr st \<Rightarrow>
               (let p = stream_opened p;
                    hooks = map (warned_hook (hook_warning E (lp_writer p))) (sc_hooks (configured opts)) in
                case start_hooks hooks w of
                  (Some e, w) \<Rightarrow>
                    (Exit_Hooks e, p,
                     system_log E (lp_writer p) 8 ''Lifecycle hook failed to start; terminating'' [err_attr e] w)
                | (None, w) \<Rightarrow>
                    (let w = log_through E std p (lp_default p) None
                               (log_entry E 0 ''Go worker started'' (started_attrs (sp_metadata S) (sp_http_proxy S))) w;
                         (p, w) = sp_serve S st p w;
                         w = sp_stop_sender S w;
                         (e, w) = sp_shutdowns S w;
                         w = (case e of
                                Some e \<Rightarrow> system_log E (lp_writer p) 4 ''Middleware shutdown returned error'' [err_attr e] w
                              | None \<Rightarrow> w);
                         hooks = map (warned_hook (hook_warning E (lp_writer p))) (sc_hooks (configured opts))
                     in (Finished, p, shutdown_hooks hooks w)))))"

text \<open>
  \<open>sdk.Recover\<close>, deferred in a goroutine of user code: what the goroutine did, and \<open>debug.Stack\<close>.  The
  record goes through \<open>slog\<close>'s default with the goroutine's context.
\<close>

definition log_recovered_panic ::
    "'w log_env \<Rightarrow> (log_op list \<Rightarrow> log_record \<Rightarrow> 'w \<Rightarrow> 'w) \<Rightarrow> 'w log_process \<Rightarrow> invocation_context option \<Rightarrow> string \<Rightarrow>
     string \<Rightarrow> 'w \<Rightarrow> 'w" where
  "log_recovered_panic E std p ctx v stack w =
     log_through E std p (lp_default p) ctx
       (log_entry E 8 ''recovered panic in goroutine'' [mk_attr ''panic'' (SV_Other v), str_attr ''stack'' stack]) w"

definition recover_panic ::
    "'w log_env \<Rightarrow> (log_op list \<Rightarrow> log_record \<Rightarrow> 'w \<Rightarrow> 'w) \<Rightarrow> 'w log_process \<Rightarrow> invocation_context option \<Rightarrow> string \<Rightarrow>
     (string, 'r) outcome \<Rightarrow> 'w \<Rightarrow> 'w" where
  "recover_panic E std p ctx stack done w =
     (case done of Panic v \<Rightarrow> log_recovered_panic E std p ctx v stack w | Ret r \<Rightarrow> w)"

text \<open>What the goroutine of a message logs, and the receive loop when it ends.\<close>

definition dispatch_entry :: "'w log_env \<Rightarrow> string \<Rightarrow> string \<Rightarrow> dispatched \<Rightarrow> log_record option" where
  "dispatch_entry E content_type stack d =
     (case d of
        Logged_Error e \<Rightarrow>
          Some (log_entry E 8 ''Error processing request'' [str_attr ''content_type'' content_type, err_attr e])
      | Logged_Panic v \<Rightarrow>
          Some (log_entry E 8 ''panic in message dispatch goroutine''
            [str_attr ''content_type'' content_type, mk_attr ''panic'' (SV_Other v), str_attr ''stack'' stack])
      | _ \<Rightarrow> None)"

definition receive_entry :: "'w log_env \<Rightarrow> recv_result \<Rightarrow> log_record option" where
  "receive_entry E r =
     (case r of
        Recv_EOF \<Rightarrow> Some (log_entry E 0 ''Stream closed by server'' [])
      | Recv_Error e \<Rightarrow> Some (log_entry E 8 ''Error receiving from stream'' [err_attr e])
      | Received m \<Rightarrow> None)"

subsection \<open>Lemmas on the handlers\<close>

text \<open>The install is done once and gives way to a default of the user's, before it or after.\<close>

lemma sdk_init_idem: "sdk_init (sdk_init p) = sdk_init p"
  by (simp add: sdk_init_def default_untouched_def new_logger_def)

lemma sdk_init_other [simp]:
  "lp_base (sdk_init p) = lp_base p" "lp_writer (sdk_init p) = lp_writer p" "lp_observers (sdk_init p) = lp_observers p"
  by (simp_all add: sdk_init_def)

lemma log_calls_default:
  "\<forall>h. LC_Set_Default h \<notin> set cs \<Longrightarrow> lp_default (fold do_log_call cs p) = lp_default p"
proof (induction cs arbitrary: p)
  case (Cons c cs)
  have "lp_default (do_log_call c p) = lp_default p"
    using Cons.prems by (cases c) (auto simp: set_default_base_handler_def split: option.splits)
  with Cons show ?case by auto
qed simp

lemma log_calls_base:
  "\<forall>b. LC_Set_Base b \<notin> set cs \<Longrightarrow> lp_base (fold do_log_call cs p) = lp_base p"
proof (induction cs arbitrary: p)
  case (Cons c cs)
  have "lp_base (do_log_call c p) = lp_base p"
    using Cons.prems by (cases c) auto
  with Cons show ?case by auto
qed simp

lemma log_calls_writer [simp]: "lp_writer (fold do_log_call cs p) = lp_writer p"
proof (induction cs arbitrary: p)
  case (Cons c cs)
  have "lp_writer (do_log_call c p) = lp_writer p"
    by (cases c) (auto simp: set_default_base_handler_def split: option.splits)
  with Cons show ?case by simp
qed simp

lemma stream_opened_simps [simp]:
  "lp_default (stream_opened p) = lp_default p" "lp_base (stream_opened p) = Some (LH_User new_composer)"
  "lp_writer (stream_opened p) = new_writer True" "lp_observers (stream_opened p) = lp_observers p"
  by (simp_all add: stream_opened_def set_default_base_handler_def)

text \<open>The observers registered by the calls, in order.\<close>

definition registered_observers :: "'w log_call list \<Rightarrow> 'w observer list" where
  "registered_observers cs = List.map_filter (\<lambda>c. case c of LC_Observe f \<Rightarrow> f | _ \<Rightarrow> None) cs"

definition observer_list :: "'w log_process \<Rightarrow> 'w observer list" where
  "observer_list p = (case lp_observers p of None \<Rightarrow> [] | Some fs \<Rightarrow> fs)"

lemma observer_list_frame [simp]:
  "observer_list (stream_opened p) = observer_list p" "observer_list (sdk_init p) = observer_list p"
  by (simp_all add: observer_list_def)

lemma log_calls_observers:
  "observer_list (fold do_log_call cs p) = observer_list p @ registered_observers cs"
proof (induction cs arbitrary: p)
  case (Cons c cs)
  have "observer_list (do_log_call c p) = observer_list p @ registered_observers [c]"
    by (cases c)
       (auto simp: observer_list_def registered_observers_def map_filter_simps register_observer_def
         set_default_base_handler_def split: option.splits)
  with Cons show ?case by (simp add: registered_observers_def map_filter_simps split: option.splits)
qed (simp add: registered_observers_def map_filter_simps)

text \<open>A record through the worker's user handler: first to the host, then to each observer.\<close>

lemma user_handle_list:
  "lp_observers p = obs \<Longrightarrow> user_handle E wr obs ctx r c w =
     fold (\<lambda>f. f ctx (observed_record c r)) (observer_list p) (log_write E wr (build_rpc_log (le_float E) ctx r LogCat_User c) w)"
  by (auto simp: user_handle_def observer_list_def Let_def split: option.splits)

lemma logger_with_new: "logger_with ops new_logger = DH_Sdk (logger ops)"
  by (simp add: new_logger_def logger_def)

text \<open>Before the stream is open a record of the program goes to the standard library's handler on stderr.\<close>

lemma log_before_start:
  "lp_base p = None \<Longrightarrow>
     log_through E std p new_logger None r w = std [] r w"
  by (simp add: log_through_def new_logger_def sdk_handle_def effective_def resolve_base_def default_base_def
      new_log_handler_def log_handle_def)

subsection \<open>Lemmas on Start\<close>

text \<open>What a value of the world is apart from its logs: logging leaves it alone.\<close>

definition log_blind :: "('w \<Rightarrow> 'v) \<Rightarrow> 'w log_env \<Rightarrow> bool" where
  "log_blind \<pi> E \<longleftrightarrow> (\<forall>m w. \<pi> (snd (le_send E m w)) = \<pi> w) \<and> (\<forall>s w. \<pi> (le_stderr E s w) = \<pi> w)"

lemma bootstrap_log_blind: "log_blind \<pi> E \<Longrightarrow> \<pi> (bootstrap_log E l m as w) = \<pi> w"
  by (simp add: bootstrap_log_def log_blind_def)

lemma log_write_blind: "log_blind \<pi> E \<Longrightarrow> \<pi> (log_write E wr rl w) = \<pi> w"
proof -
  assume \<pi>: "log_blind \<pi> E"
  obtain e v where "le_send E (mk_msg '''' (C_RpcLog rl)) w = (e, v)" by fastforce
  moreover from this \<pi> have "\<pi> v = \<pi> w" by (metis log_blind_def snd_conv)
  ultimately show ?thesis
    using \<pi> by (auto simp: log_write_def log_fallback_def log_blind_def split: option.splits)
qed

lemma system_log_blind: "log_blind \<pi> E \<Longrightarrow> \<pi> (system_log E wr l m as w) = \<pi> w"
  by (simp add: system_log_def system_handle_def Let_def log_write_blind)

text \<open>A hook that acts as another does on what is not log.\<close>

definition hook_acts :: "('w \<Rightarrow> 'v) \<Rightarrow> 'w lifecycle_hook \<Rightarrow> 'v lifecycle_hook \<Rightarrow> bool" where
  "hook_acts \<pi> h g \<longleftrightarrow>
     (\<forall>w. lh_start g (\<pi> w) = map_prod id \<pi> (lh_start h w) \<and> lh_shutdown g (\<pi> w) = map_prod id \<pi> (lh_shutdown h w))"

lemma warned_hook_acts:
  assumes "hook_acts \<pi> h g" and "\<And>e w. \<pi> (warn e w) = \<pi> w"
  shows "hook_acts \<pi> (warned_hook warn h) g"
proof -
  have "map_prod id \<pi> (lh_shutdown (warned_hook warn h) w) = map_prod id \<pi> (lh_shutdown h w)" for w
    using assms(2) by (auto simp: warned_hook_def split: prod.splits option.splits)
  with assms(1) show ?thesis by (simp add: hook_acts_def) (simp add: warned_hook_def)
qed

lemma shutdown_hooks_acts:
  assumes "list_all2 (hook_acts \<pi>) hs gs"
  shows "\<pi> (shutdown_hooks hs w) = shutdown_hooks gs (\<pi> w)"
proof -
  have "list_all2 (hook_acts \<pi>) xs ys \<Longrightarrow>
      \<pi> (fold (\<lambda>h w. snd (lh_shutdown h w)) xs w) = fold (\<lambda>h w. snd (lh_shutdown h w)) ys (\<pi> w)" for xs ys w
    by (induction xs ys arbitrary: w rule: list_all2_induct) (auto simp: hook_acts_def)
  then show ?thesis using assms by (simp add: shutdown_hooks_def)
qed

lemma start_hooks_acts:
  assumes "list_all2 (hook_acts \<pi>) hs gs"
  shows "map_prod id \<pi> (start_hooks hs w) = start_hooks gs (\<pi> w)"
proof -
  have "list_all2 (hook_acts \<pi>) hs gs \<Longrightarrow> list_all2 (hook_acts \<pi>) sh sg \<Longrightarrow>
      map_prod id \<pi> (start_hooks_from sh hs w) = start_hooks_from sg gs (\<pi> w)" for sh sg
  proof (induction hs gs arbitrary: sh sg w rule: list_all2_induct)
    case (Cons h hs g gs)
    obtain e v where s: "lh_start h w = (e, v)" by fastforce
    with Cons.hyps(1) have g: "lh_start g (\<pi> w) = (e, \<pi> v)" by (simp add: hook_acts_def)
    show ?case
    proof (cases e)
      case None
      have "list_all2 (hook_acts \<pi>) (sh @ [h]) (sg @ [g])"
        using Cons.prems Cons.hyps(1) by (simp add: list_all2_appendI)
      from Cons.IH [OF this] None s g show ?thesis by simp
    qed (use s g shutdown_hooks_acts [OF Cons.prems] in simp)
  qed simp
  from this [OF assms, of "[]" "[]"] show ?thesis by (simp add: start_hooks_def)
qed

lemma warned_hooks_act:
  "log_blind \<pi> E \<Longrightarrow> list_all2 (hook_acts \<pi>) hs gs \<Longrightarrow>
     list_all2 (hook_acts \<pi>) (map (warned_hook (hook_warning E wr)) hs) gs"
  by (auto simp: list_all2_conv_all_nth intro!: warned_hook_acts simp: hook_warning_def system_log_blind)

text \<open>The program's handlers leave everything but the logs alone, too.\<close>

definition handlers_blind ::
    "('w \<Rightarrow> 'v) \<Rightarrow> (log_op list \<Rightarrow> log_record \<Rightarrow> 'w \<Rightarrow> 'w) \<Rightarrow> 'w log_process \<Rightarrow> bool" where
  "handlers_blind \<pi> std p \<longleftrightarrow>
     (\<forall>ops r w. \<pi> (std ops r w) = \<pi> w) \<and>
     (\<forall>f \<in> set (observer_list p). \<forall>ctx r w. \<pi> (f ctx r w) = \<pi> w) \<and>
     (\<forall>n ops f. lp_default p = DH_Other n ops f \<longrightarrow> (\<forall>ctx r w. \<pi> (f ops ctx r w) = \<pi> w))"

lemma fold_blind: "\<forall>f \<in> set fs. \<forall>w. \<pi> (g f w) = \<pi> w \<Longrightarrow> \<pi> (fold g fs w) = \<pi> w"
  by (induction fs arbitrary: w) auto

lemma user_handle_blind:
  assumes "log_blind \<pi> E" and "\<forall>f \<in> set (observer_list p). \<forall>ctx r w. \<pi> (f ctx r w) = \<pi> w"
  shows "\<pi> (user_handle E wr (lp_observers p) ctx r c w) = \<pi> w"
proof -
  have "\<pi> (fold (\<lambda>f. f ctx (observed_record c r)) (observer_list p) v) = \<pi> v" for v
    using assms(2) by (intro fold_blind) simp
  with log_write_blind [OF assms(1)] show ?thesis by (simp add: user_handle_list [OF refl])
qed

lemma log_through_blind:
  assumes "log_blind \<pi> E" and "handlers_blind \<pi> std p" and "h = lp_default p"
  shows "\<pi> (log_through E std p h ctx r w) = \<pi> w"
proof -
  have "\<pi> (log_handle E wr (lp_observers p) std ctx r b w) = \<pi> w" for wr b
    using assms(1,2) user_handle_blind [OF assms(1), of p]
    by (cases b) (auto simp: log_handle_def system_handle_def Let_def log_write_blind handlers_blind_def log_blind_def)
  with assms show ?thesis
    by (cases "lp_default p") (auto simp: log_through_def sdk_handle_def handlers_blind_def)
qed

lemma recover_panic_blind:
  "log_blind \<pi> E \<Longrightarrow> handlers_blind \<pi> std p \<Longrightarrow> \<pi> (recover_panic E std p ctx stack r w) = \<pi> w"
  by (simp add: recover_panic_def log_recovered_panic_def log_through_blind split: outcome.split)

lemma handlers_blind_opened: "handlers_blind \<pi> std p \<Longrightarrow> handlers_blind \<pi> std (stream_opened p)"
  by (simp add: handlers_blind_def)

text \<open>
  C25. Logging changes nothing else of \<open>Start\<close>: on what the world is apart from its logs, \<open>Start\<close> with
  everything it logs, its handlers and observers does what its steps do alone: it ends the same way,
  and the hooks, the receive loop, the sender's end and the shutdowns act in the same order on the
  same states.
\<close>

theorem start_process_refines:
  assumes "log_blind \<pi> E" and "handlers_blind \<pi> std p"
    and "list_all2 (hook_acts \<pi>) (sc_hooks (configured opts)) (sc_hooks (configured opts'))"
    and "\<forall>st q w. \<pi> (snd (sp_serve S st q w)) = serve st (\<pi> w)"
    and "\<forall>w. \<pi> (sp_stop_sender S w) = stop (\<pi> w)"
    and "\<forall>w. \<pi> (snd (sp_shutdowns S w)) = shutdowns (\<pi> w)"
  shows "(case start_process E std S config opts p w of (r, q, w') \<Rightarrow> (r, \<pi> w')) =
    start_worker config (sp_connect S) opts' serve stop shutdowns (\<pi> w)"
proof -
  let ?hooks = "\<lambda>wr. map (warned_hook (hook_warning E wr)) (sc_hooks (configured opts))"
  note acts = warned_hooks_act [OF assms(1,3)]
  note blind = bootstrap_log_blind [OF assms(1)] system_log_blind [OF assms(1)]
    log_through_blind [OF assms(1) handlers_blind_opened [OF assms(2)] refl]
  show ?thesis
  proof (cases config)
    case (Inr c)
    let ?w = "bootstrap_log E 0 ''Starting Worker'' [str_attr ''worker_id'' (sc_worker_id c)] w"
    obtain e v where s: "start_hooks (?hooks (new_writer True)) ?w = (e, v)" by fastforce
    have g: "start_hooks (sc_hooks (configured opts')) (\<pi> w) = (e, \<pi> v)"
      using start_hooks_acts [OF acts, of "new_writer True" ?w] s by (simp add: blind)
    show ?thesis
    proof (cases "sp_connect S c")
      case conn: (Inr st)
      let ?v = "log_through E std (stream_opened p) (lp_default p) None
        (log_entry E 0 ''Go worker started'' (started_attrs (sp_metadata S) (sp_http_proxy S))) v"
      obtain q w1 where served: "sp_serve S st (stream_opened p) ?v = (q, w1)" by fastforce
      obtain e2 w2 where ended: "sp_shutdowns S (sp_stop_sender S w1) = (e2, w2)" by fastforce
      have "\<pi> w1 = serve st (\<pi> v)"
        using assms(4) served blind(3) by (metis snd_conv stream_opened_simps(1))
      then have "\<pi> w2 = shutdowns (stop (serve st (\<pi> v)))"
        using assms(5,6) ended by (metis snd_conv)
      then show ?thesis
        using Inr conn s g served ended
        by (cases e; cases e2) (simp_all add: start_process_def start_worker_def blind shutdown_hooks_acts [OF acts])
    qed (simp add: Inr start_process_def start_worker_def blind Let_def)
  qed (simp add: start_process_def start_worker_def blind)
qed


text \<open>A default the program installed itself is what its records go to, before the SDK's package or after.\<close>

lemma user_default_kept:
  assumes "\<forall>h. LC_Set_Default h \<notin> set later" and "\<forall>h. LC_Set_Default h \<notin> set after"
  shows "lp_default (fold do_log_call after (stream_opened (fold do_log_call (before @ LC_Set_Default h # later) (sdk_init p)))) = h"
    and "\<not> default_untouched p \<Longrightarrow>
      lp_default (fold do_log_call after (stream_opened (fold do_log_call later (sdk_init p)))) = lp_default p"
  using assms by (simp_all add: log_calls_default sdk_init_def)

subsection \<open>Witnesses\<close>

text \<open>A world with a list of numbers and what was logged.\<close>

type_synonym noted = "nat list \<times> string list"

definition noting_env :: "noted log_env" where
  "noting_env = \<lparr>le_float = (\<lambda>f. ''0''), le_print = (\<lambda>v. ''v''), le_now = ''now'',
     le_send = (\<lambda>m (a, l). (None, a, l @ [''sent''])), le_stderr = (\<lambda>s (a, l). (a, l @ [s]))\<rparr>"

definition noting_std :: "log_op list \<Rightarrow> log_record \<Rightarrow> noted \<Rightarrow> noted" where
  "noting_std ops r w = (fst w, snd w @ [lr_message r])"

definition noting_hook :: "nat \<Rightarrow> go_error option \<Rightarrow> noted lifecycle_hook" where
  "noting_hook n e = \<lparr>lh_start = (\<lambda>(a, l). (None, a @ [n], l)), lh_shutdown = (\<lambda>(a, l). (e, a @ [n + 100], l))\<rparr>"

definition plain_hook :: "nat \<Rightarrow> go_error option \<Rightarrow> nat list lifecycle_hook" where
  "plain_hook n e = \<lparr>lh_start = (\<lambda>a. (None, a @ [n])), lh_shutdown = (\<lambda>a. (e, a @ [n + 100]))\<rparr>"

definition fresh_process :: "noted log_process" where
  "fresh_process = \<lparr>lp_default = DH_Other ''*slog.defaultHandler'' [] (\<lambda>ops ctx r w. noting_std ops r w), lp_base = None,
     lp_writer = new_writer True, lp_observers = None\<rparr>"

definition noting_parts :: "(unit, noted) start_parts" where
  "noting_parts = \<lparr>sp_connect = (\<lambda>c. Inr ()), sp_http_proxy = False,
     sp_metadata = \<lparr>wm_runtime_name = ''go'', wm_runtime_version = '''', wm_worker_version = '''', wm_worker_bitness = '''',
       wm_custom = []\<rparr>,
     sp_serve = (\<lambda>st p (a, l). (p, a @ [50], l)), sp_stop_sender = (\<lambda>(a, l). (a @ [60], l)),
     sp_shutdowns = (\<lambda>(a, l). (Some ''late'', a @ [70], l))\<rparr>"

definition noting_config :: startup_config where
  "noting_config = \<lparr>sc_uri = ''h'', sc_worker_id = ''w'', sc_request_id = ''r'', sc_max_message = 1\<rparr>"

lemma with_hooks: "sc_hooks (configured [with_lifecycle_hook (Some h), with_lifecycle_hook (Some g)]) = [h, g]"
  by (simp add: configured_def with_lifecycle_hook_def)

theorem start_process_refines_witness:
  "(case start_process noting_env noting_std noting_parts (Inr noting_config)
        [with_lifecycle_hook (Some (noting_hook 1 None)), with_lifecycle_hook (Some (noting_hook 2 (Some ''bad'')))]
        fresh_process ([], []) of (r, q, w) \<Rightarrow> (r, fst w)) =
      start_worker (Inr noting_config) (\<lambda>c. Inr ())
        [with_lifecycle_hook (Some (plain_hook 1 None)), with_lifecycle_hook (Some (plain_hook 2 (Some ''bad'')))]
        (\<lambda>st a. a @ [50]) (\<lambda>a. a @ [60]) (\<lambda>a. a @ [70]) [] \<and>
    start_worker (Inr noting_config) (\<lambda>c. Inr ())
        [with_lifecycle_hook (Some (plain_hook 1 None)), with_lifecycle_hook (Some (plain_hook 2 (Some ''bad'')))]
        (\<lambda>st a. a @ [50]) (\<lambda>a. a @ [60]) (\<lambda>a. a @ [70]) [] = (Finished, [1, 2, 50, 60, 70, 102, 101])"
proof -
  have env: "log_blind fst noting_env" by (simp add: log_blind_def noting_env_def)
  have handlers: "handlers_blind fst noting_std fresh_process"
    by (simp add: handlers_blind_def noting_std_def fresh_process_def observer_list_def)
  have hooks: "list_all2 (hook_acts fst)
      (sc_hooks (configured [with_lifecycle_hook (Some (noting_hook 1 None)), with_lifecycle_hook (Some (noting_hook 2 (Some ''bad'')))]))
      (sc_hooks (configured [with_lifecycle_hook (Some (plain_hook 1 None)), with_lifecycle_hook (Some (plain_hook 2 (Some ''bad'')))]))"
    unfolding with_hooks by (simp add: hook_acts_def noting_hook_def plain_hook_def)
  from start_process_refines [OF env handlers hooks, of noting_parts "\<lambda>st a. a @ [50]" "\<lambda>a. a @ [60]" "\<lambda>a. a @ [70]"
      "Inr noting_config" "([], [])"]
  show ?thesis
    by (simp add: noting_parts_def split_beta)
       (simp add: start_worker_def with_hooks start_hooks_def shutdown_hooks_def plain_hook_def)
qed


end
