(* ===== verification/Process_Start.thy ===== *)
theory Process_Start
  imports Placeholder_Proxy Worker_Start
begin

text \<open>
  The two programs from their command lines: the flags of \<open>worker/config.go\<close>, the worker's process from
  its arguments to its end, and \<open>main\<close> of the placeholder proxy (\<open>proxy/main.go\<close>).  The flag library is
  a parameter.  The lemmas show that a child the proxy starts reads back the configuration it was
  given, with the proxy's own address.
\<close>

subsection \<open>The command line\<close>

text \<open>
  What \<open>pflag\<close> makes of the arguments after the program's name: \<open>None\<close> when it ends the process, else
  the text of each flag that was given; and what it makes of the text of an integer flag.
\<close>

record flag_library =
  fl_parse :: "string list \<Rightarrow> (string \<Rightarrow> string option) option"
  fl_int :: "string \<Rightarrow> int option"

definition default_max_message :: int where
  "default_max_message = 134217728"

definition string_flag :: "(string \<Rightarrow> string option) \<Rightarrow> string \<Rightarrow> string" where
  "string_flag m name = (case m name of Some v \<Rightarrow> v | None \<Rightarrow> '''')"

definition parse_args :: "flag_library \<Rightarrow> string list \<Rightarrow> startup_config option" where
  "parse_args F args =
     (case fl_parse F args of
        None \<Rightarrow> None
      | Some m \<Rightarrow>
          (case (case m ''functions-grpc-max-message-length'' of
                   None \<Rightarrow> Some default_max_message | Some v \<Rightarrow> fl_int F v) of
             None \<Rightarrow> None
           | Some n \<Rightarrow>
               Some \<lparr>sc_uri = string_flag m ''functions-uri'', sc_worker_id = string_flag m ''functions-worker-id'',
                 sc_request_id = string_flag m ''functions-request-id'', sc_max_message = n\<rparr>))"

text \<open>\<open>None\<close> when the flag library has ended the process.\<close>

definition get_worker_startup_config :: "parse_url \<Rightarrow> flag_library \<Rightarrow> string list \<Rightarrow> startup_config result option" where
  "get_worker_startup_config parse F args = map_option (validate_args parse) (parse_args F args)"

subsection \<open>The worker's process\<close>

text \<open>\<open>Start\<close> from the command line; the flag library's own exit is \<open>None\<close>.\<close>

definition worker_process ::
    "parse_url \<Rightarrow> flag_library \<Rightarrow> string list \<Rightarrow> 'w log_env \<Rightarrow> (log_op list \<Rightarrow> log_record \<Rightarrow> 'w \<Rightarrow> 'w) \<Rightarrow>
     ('st, 'w) start_parts \<Rightarrow> ('w lifecycle_hook start_config \<Rightarrow> 'w lifecycle_hook start_config) list \<Rightarrow>
     'w log_process \<Rightarrow> 'w \<Rightarrow> (start_end \<times> 'w log_process \<times> 'w) option" where
  "worker_process parse F args E std S opts p w =
     map_option (\<lambda>config. start_process E std S config opts p w) (get_worker_startup_config parse F args)"

subsection \<open>The proxy's process\<close>

definition proxy_connect ::
    "(string \<Rightarrow> int \<Rightarrow> 'st result) \<Rightarrow> ('st \<Rightarrow> streaming_message \<Rightarrow> go_error option) \<Rightarrow> startup_config \<Rightarrow> 'st result" where
  "proxy_connect open_stream send cfg =
     (case open_stream (sc_uri cfg) (sc_max_message cfg) of
        Inl e \<Rightarrow> Inl e
      | Inr st \<Rightarrow> (case send st (start_stream_message cfg) of Some e \<Rightarrow> Inl e | None \<Rightarrow> Inr st))"

datatype 'st proxy_process =
    PR_Exec string "string list"
  | PR_Fatal string
  | PR_Usage
  | PR_Serving startup_config 'st string proxy

text \<open>
  The whole of \<open>main\<close> up to its loop: the results of \<open>exec\<close>, which returns only an error, of the
  connection and of the local listener, whose port it keeps, are the system's.
\<close>

definition proxy_process ::
    "parse_url \<Rightarrow> flag_library \<Rightarrow> (string \<Rightarrow> string \<Rightarrow> string) \<Rightarrow> (string, string) go_map \<Rightarrow> (string \<Rightarrow> file_stat) \<Rightarrow>
     go_error option \<Rightarrow> (string \<Rightarrow> int \<Rightarrow> 'st result) \<Rightarrow> ('st \<Rightarrow> streaming_message \<Rightarrow> go_error option) \<Rightarrow> string result \<Rightarrow>
     string list \<Rightarrow> 'st proxy_process" where
  "proxy_process parse F join env stat exec_error open_stream send listen args =
     (case proxy_main join env stat of
        Start_Fatal e \<Rightarrow> PR_Fatal e
      | Start_Exec path \<Rightarrow>
          (case exec_error of Some e \<Rightarrow> PR_Fatal (''exec failed: '' @ e) | None \<Rightarrow> PR_Exec path (path # args))
      | Start_Proxy \<Rightarrow>
          (case get_worker_startup_config parse F args of
             None \<Rightarrow> PR_Usage
           | Some (Inl e) \<Rightarrow> PR_Fatal (''Failed to parse config: '' @ e)
           | Some (Inr cfg) \<Rightarrow>
               (case proxy_connect open_stream send cfg of
                  Inl e \<Rightarrow> PR_Fatal (''Failed to connect to host: '' @ e)
                | Inr st \<Rightarrow>
                    (case listen of
                       Inl e \<Rightarrow> PR_Fatal (''Failed to start local server: '' @ e)
                     | Inr port \<Rightarrow> PR_Serving cfg st port (new_proxy env)))))"

subsection \<open>Lemmas\<close>

text \<open>
  What the flag library documents: pairs of a flag and its value set each flag to its last value.
  Flags that are not declared are skipped with a value that does not look like a flag.
\<close>

definition startup_flags :: "string set" where
  "startup_flags =
     {''functions-uri'', ''functions-worker-id'', ''functions-request-id'', ''functions-grpc-max-message-length''}"

definition flag_args :: "(string \<times> string) list \<Rightarrow> string list" where
  "flag_args ps = concat (map (\<lambda>(n, v). [''--'' @ n, v]) ps)"

definition reads_flags :: "flag_library \<Rightarrow> bool" where
  "reads_flags F \<longleftrightarrow>
     (\<forall>ps. (\<forall>(n, v) \<in> set ps. n \<in> startup_flags) \<longrightarrow> fl_parse F (flag_args ps) = Some (map_of (rev ps)))"

text \<open>When the configuration is accepted: every identifier was given and the address parses.\<close>

lemma validate_args_iff:
  "validate_args parse c = Inr c' \<longleftrightarrow>
     sc_uri c \<noteq> '''' \<and> sc_worker_id c \<noteq> '''' \<and> sc_request_id c \<noteq> '''' \<and> (\<exists>u. parse (sc_uri c) = Inr u) \<and>
     c' = c\<lparr>sc_uri := clean_address parse (sc_uri c)\<rparr>"
  by (auto simp: validate_args_def Let_def split: sum.splits)

lemma child_args_flags:
  "child_args cfg port = flag_args [(''functions-uri'', ''http://127.0.0.1:'' @ port),
     (''functions-worker-id'', sc_worker_id cfg), (''functions-request-id'', sc_request_id cfg),
     (''functions-grpc-max-message-length'', string_of_int (sc_max_message cfg))]"
  by (simp add: child_args_def flag_args_def)

lemma child_args_parsed:
  assumes "reads_flags F" and "fl_int F (string_of_int (sc_max_message cfg)) = Some (sc_max_message cfg)"
  shows "parse_args F (child_args cfg port) = Some (cfg\<lparr>sc_uri := ''http://127.0.0.1:'' @ port\<rparr>)"
proof -
  have "fl_parse F (child_args cfg port) = Some (map_of (rev [(''functions-uri'', ''http://127.0.0.1:'' @ port),
     (''functions-worker-id'', sc_worker_id cfg), (''functions-request-id'', sc_request_id cfg),
     (''functions-grpc-max-message-length'', string_of_int (sc_max_message cfg))]))"
    unfolding child_args_flags by (intro assms(1) [unfolded reads_flags_def, rule_format]) (auto simp: startup_flags_def)
  then show ?thesis using assms(2) by (simp add: parse_args_def string_flag_def)
qed

text \<open>Every process the proxy starts has the arguments made of its own configuration.\<close>

definition children_ok :: "proxy_setup \<Rightarrow> proxy \<Rightarrow> bool" where
  "children_ok P s \<longleftrightarrow> (\<forall>c \<in> set (px_processes s). cp_args c = child_args (ps_config P) (ps_port P))"

lemma put_spec_processes [simp]: "px_processes (put_spec i pc s) = px_processes s"
  by (simp add: put_spec_def)

lemma placeholder_processes [simp]: "px_processes (placeholder_message m s) = px_processes s"
  by (auto simp: placeholder_message_def received_def send_to_host_def Let_def split: option.splits content.splits)

lemma host_processes [simp]: "px_processes (handle_host_message m s) = px_processes s"
  by (auto simp: handle_host_message_def forward_message_def received_def send_to_child_def)

lemma child_processes [simp]: "px_processes (child_message m s) = px_processes s"
  by (auto simp: child_message_def close_init_done_def send_to_host_def split: option.splits content.splits)

lemma spec_processes:
  "px_processes (spec_start join i req stat s) = px_processes s"
  "spec_runs i s = Some t \<Longrightarrow> px_processes t = px_processes s"
  by (auto simp: spec_start_def spec_runs_def close_no_child_def send_to_host_def send_to_child_def Let_def
      split: file_stat.splits spec_pc.splits if_splits)

lemma children_ok_step:
  assumes "children_ok P s" and "proxy_exec P e s = Some t"
  shows "children_ok P t"
proof -
  have "px_processes t = px_processes s \<or> (\<exists>c. px_processes t = px_processes s @ [c] \<and>
      cp_args c = child_args (ps_config P) (ps_port P))"
    using assms(2) unfolding proxy_exec_def
    by (cases e)
       (auto simp: forward_message_def received_def send_to_child_def launch_child_def spec_processes
         split: if_splits main_pc.splits spec_pc.splits)
  with assms(1) show ?thesis by (auto simp: children_ok_def)
qed

lemma new_proxy_children: "children_ok P (new_proxy env)"
  by (simp add: children_ok_def new_proxy_def)

interpretation px_children: invariant_runs "proxy_exec P" "new_proxy env" "children_ok P" for P env
  by unfold_locales (auto simp: new_proxy_children intro: children_ok_step)

subsection \<open>Properties\<close>

lemma proxy_process_serving:
  "proxy_process parse F join env stat exec_error open_stream send listen args = PR_Serving cfg st port s \<Longrightarrow>
     get_worker_startup_config parse F args = Some (Inr cfg) \<and> listen = Inr port \<and> s = new_proxy env \<and>
     proxy_connect open_stream send cfg = Inr st \<and>
     stat (app_binary_path join env default_app_dir) = FS_Missing"
  by (auto simp: proxy_process_def proxy_main_def Let_def split: proxy_start.splits option.splits sum.splits file_stat.splits)

text \<open>
  C22. A child reads back what the proxy was started with: when \<open>main\<close> of the proxy has got to its loop,
  and whatever the proxy goes through then, every process it starts parses its command line to the
  proxy's own worker id, request id and message size, and to the address of the proxy's local server,
  without the scheme.
\<close>

theorem child_configuration:
  assumes "proxy_process parse F join env stat exec_error open_stream send listen args = PR_Serving cfg st port s0"
    and "reads_flags F" and "fl_int F (string_of_int (sc_max_message cfg)) = Some (sc_max_message cfg)"
    and "parse (''http://127.0.0.1:'' @ port) = Inr (''http'', ''127.0.0.1:'' @ port)"
    and "exec_all (proxy_exec \<lparr>ps_join = join, ps_config = cfg, ps_port = port, ps_cwd = cwd\<rparr>) es s0 = Some s"
    and "c \<in> set (px_processes s)"
  shows "get_worker_startup_config parse F (cp_args c) = Some (Inr (cfg\<lparr>sc_uri := ''127.0.0.1:'' @ port\<rparr>))"
proof -
  note main = proxy_process_serving [OF assms(1)]
  then have "cp_args c = child_args cfg port"
    using px_children.exec_all_inv assms(5,6) by (fastforce simp: children_ok_def)
  moreover have "sc_worker_id cfg \<noteq> ''''" "sc_request_id cfg \<noteq> ''''"
    using main by (auto simp: get_worker_startup_config_def validate_args_iff)
  ultimately show ?thesis
    using child_args_parsed [OF assms(2,3)] assms(4)
    by (simp add: get_worker_startup_config_def validate_args_iff clean_address_def)
qed

text \<open>A flag library that reads pairs only, and a parser of \<open>http\<close> addresses.\<close>

fun read_pairs :: "(string \<Rightarrow> string option) \<Rightarrow> string list \<Rightarrow> string \<Rightarrow> string option" where
  "read_pairs m (n # v # rest) = read_pairs (m(drop 2 n \<mapsto> v)) rest"
| "read_pairs m _ = m"

definition pair_flags :: flag_library where
  "pair_flags = \<lparr>fl_parse = (\<lambda>args. Some (read_pairs Map.empty args)), fl_int = (\<lambda>s. Some (int (of_char (hd s)) - 48))\<rparr>"

definition http_parse :: parse_url where
  "http_parse a = (if take 7 a = ''http://'' then Inr (''http'', drop 7 a) else Inr ('''', ''''))"

lemma read_pairs_flags: "read_pairs m (flag_args ps) = m ++ map_of (rev ps)"
  by (induction ps arbitrary: m) (auto simp: flag_args_def map_add_def split: option.splits)

lemma pair_flags_reads: "reads_flags pair_flags"
  by (auto simp: reads_flags_def pair_flags_def read_pairs_flags)

theorem child_configuration_witness:
  "\<exists>cfg (s :: proxy) c. proxy_process http_parse pair_flags (\<lambda>d f. d @ ''/'' @ f) [] (\<lambda>p. FS_Missing) None (\<lambda>a n. Inr ()) (\<lambda>st m. None)
      (Inr ''4000'') (flag_args [(''functions-uri'', ''http://h:1''), (''functions-worker-id'', ''w1''),
        (''functions-request-id'', ''r1''), (''functions-grpc-max-message-length'', ''7'')]) =
      PR_Serving cfg () ''4000'' (new_proxy []) \<and>
    px_processes s = [c] \<and> get_worker_startup_config http_parse pair_flags (cp_args c) =
      Some (Inr \<lparr>sc_uri = ''127.0.0.1:4000'', sc_worker_id = ''w1'', sc_request_id = ''r1'', sc_max_message = 7\<rparr>)"
proof -
  let ?cfg = "\<lparr>sc_uri = ''h:1'', sc_worker_id = ''w1'', sc_request_id = ''r1'', sc_max_message = 7\<rparr>"
  let ?P = "\<lparr>ps_join = \<lambda>d f. d @ ''/'' @ f, ps_config = ?cfg, ps_port = ''4000'', ps_cwd = ''/''\<rparr>"
  let ?es = "[Host_Message reload_message, Spec_Stat 0 FS_Executable, Spec_Launch 0 True]"
  have main: "proxy_process http_parse pair_flags (\<lambda>d f. d @ ''/'' @ f) [] (\<lambda>p. FS_Missing) None (\<lambda>a n. Inr ()) (\<lambda>st m. None)
      (Inr ''4000'') (flag_args [(''functions-uri'', ''http://h:1''), (''functions-worker-id'', ''w1''),
        (''functions-request-id'', ''r1''), (''functions-grpc-max-message-length'', ''7'')]) =
      PR_Serving ?cfg () ''4000'' (new_proxy [])"
    by code_simp
  have "case exec_all (proxy_exec ?P) ?es (new_proxy []) of Some s \<Rightarrow> length (px_processes s) = 1 | None \<Rightarrow> False"
    by code_simp
  then obtain s c where s: "exec_all (proxy_exec ?P) ?es (new_proxy []) = Some s" "px_processes s = [c]"
    by (auto simp: length_Suc_conv split: option.splits)
  have int: "fl_int pair_flags (string_of_int (sc_max_message ?cfg)) = Some (sc_max_message ?cfg)"
    by code_simp
  have parse: "http_parse (''http://127.0.0.1:'' @ ''4000'') = Inr (''http'', ''127.0.0.1:'' @ ''4000'')"
    by (simp add: http_parse_def)
  from child_configuration [OF main pair_flags_reads int parse s(1)] s(2)
  have "get_worker_startup_config http_parse pair_flags (cp_args c) =
      Some (Inr (?cfg\<lparr>sc_uri := ''127.0.0.1:'' @ ''4000''\<rparr>))" by simp
  with main s(2) show ?thesis
    by (intro exI [of _ ?cfg] exI [of _ s] exI [of _ c] conjI) simp_all
qed

end
