(* ===== verification/Worker_Signals.thy ===== *)
theory Worker_Signals
  imports Worker_Start Go_Runs
begin

text \<open>
  Termination by signal (\<open>signalContext\<close> and the goroutine of \<open>Start\<close> that closes the stream, both in
  \<open>worker/worker.go\<close>) as a transition system: the operating system delivers signals, the two goroutines
  run, and \<open>Start\<close> calls the deferred \<open>stop\<close> on its way out.
\<close>

subsection \<open>The state\<close>

text \<open>
  Where the goroutine of \<open>signalContext\<close> is: in its \<open>select\<close>, logging the signal it took, about to cancel.
\<close>

datatype waiter_pc = SW_Select | SW_Log string | SW_Cancel | SW_Exited

text \<open>The channel has one slot; \<open>stop\<close> first ends the notification and then cancels.\<close>

datatype stop_fn_pc = SF_Deferred | SF_Cancel | SF_Returned

record signal_state =
  sg_channel :: "string list"
  sg_notified :: bool
  sg_cancelled :: bool
  sg_waiter :: waiter_pc
  sg_closer :: bool
  sg_stop :: stop_fn_pc
  sg_delivered :: "string list"
  sg_logged :: "string list"
  sg_close_sends :: nat

text \<open>
  \<open>sg_closer\<close>: the goroutine that closes the stream still waits.  The last three fields are history: the
  signals delivered while the process was notified, those logged, and the calls of \<open>CloseSend\<close>.
\<close>

definition signal_context :: signal_state where
  "signal_context = \<lparr>sg_channel = [], sg_notified = True, sg_cancelled = False, sg_waiter = SW_Select, sg_closer = True,
     sg_stop = SF_Deferred, sg_delivered = [], sg_logged = [], sg_close_sends = 0\<rparr>"

datatype signal_event =
    Signal_Delivered string
  | Waiter_Receives
  | Waiter_Sees_Done
  | Waiter_Runs
  | Closer_Runs
  | Stop_Runs

text \<open>The runtime drops a signal for which the channel has no room.\<close>

definition signal_delivered :: "string \<Rightarrow> signal_state \<Rightarrow> signal_state" where
  "signal_delivered sig s =
     (let s = s\<lparr>sg_delivered := sg_delivered s @ [sig]\<rparr> in
      if sg_channel s = [] then s\<lparr>sg_channel := [sig]\<rparr> else s)"

definition waiter_runs :: "signal_state \<Rightarrow> signal_state option" where
  "waiter_runs s =
     (case sg_waiter s of
        SW_Log sig \<Rightarrow> Some (s\<lparr>sg_logged := sg_logged s @ [sig], sg_waiter := SW_Cancel\<rparr>)
      | SW_Cancel \<Rightarrow> Some (s\<lparr>sg_cancelled := True, sg_waiter := SW_Exited\<rparr>)
      | _ \<Rightarrow> None)"

definition stop_runs :: "signal_state \<Rightarrow> signal_state option" where
  "stop_runs s =
     (case sg_stop s of
        SF_Deferred \<Rightarrow> Some (s\<lparr>sg_notified := False, sg_stop := SF_Cancel\<rparr>)
      | SF_Cancel \<Rightarrow> Some (s\<lparr>sg_cancelled := True, sg_stop := SF_Returned\<rparr>)
      | SF_Returned \<Rightarrow> None)"

definition closer_runs :: "signal_state \<Rightarrow> signal_state option" where
  "closer_runs s =
     (if sg_closer s \<and> sg_cancelled s then Some (s\<lparr>sg_close_sends := sg_close_sends s + 1, sg_closer := False\<rparr>) else None)"

definition signal_exec :: "signal_event \<Rightarrow> signal_state \<Rightarrow> signal_state option" where
  "signal_exec ev s =
     (case ev of
        Signal_Delivered sig \<Rightarrow> if sg_notified s then Some (signal_delivered sig s) else None
      | Waiter_Receives \<Rightarrow>
          (case (sg_waiter s, sg_channel s) of
             (SW_Select, sig # rest) \<Rightarrow> Some (s\<lparr>sg_channel := rest, sg_waiter := SW_Log sig\<rparr>)
           | _ \<Rightarrow> None)
      | Waiter_Sees_Done \<Rightarrow>
          if sg_waiter s = SW_Select \<and> sg_cancelled s then Some (s\<lparr>sg_waiter := SW_Exited\<rparr>) else None
      | Waiter_Runs \<Rightarrow> waiter_runs s
      | Closer_Runs \<Rightarrow> closer_runs s
      | Stop_Runs \<Rightarrow> stop_runs s)"

text \<open>The record of a signal.\<close>

definition signal_entry :: "'w log_env \<Rightarrow> string \<Rightarrow> log_record" where
  "signal_entry E sig = log_entry E 0 ''Received termination signal; initiating shutdown'' [str_attr ''signal'' sig]"

subsection \<open>Lemmas\<close>

text \<open>
  The invariant: the stream is closed at most once, and only after a signal was logged or \<open>stop\<close> was
  called; only the first signal is ever logged; the first is waiting, or taken, while none is logged.
\<close>

definition taken :: "signal_state \<Rightarrow> string list" where
  "taken s = (case sg_waiter s of SW_Log sig \<Rightarrow> sg_logged s @ [sig] | _ \<Rightarrow> sg_logged s)"

definition signal_ok :: "signal_state \<Rightarrow> bool" where
  "signal_ok s \<longleftrightarrow>
     sg_close_sends s = (if sg_closer s then 0 else 1) \<and>
     (\<not> sg_closer s \<longrightarrow> sg_cancelled s) \<and>
     (sg_cancelled s \<longrightarrow> sg_waiter s = SW_Exited \<and> sg_logged s \<noteq> [] \<or> sg_stop s = SF_Returned) \<and>
     (sg_waiter s = SW_Exited \<longrightarrow> sg_cancelled s) \<and>
     (sg_waiter s = SW_Select \<longrightarrow> sg_logged s = [] \<and> sg_channel s = take 1 (sg_delivered s)) \<and>
     (sg_waiter s = SW_Cancel \<longrightarrow> sg_logged s \<noteq> []) \<and>
     taken s \<in> {[], take 1 (sg_delivered s)} \<and> (sg_delivered s = [] \<longrightarrow> taken s = []) \<and>
     sg_notified s = (sg_stop s = SF_Deferred)"

lemma signal_ok_delivered: "signal_ok s \<Longrightarrow> signal_ok (signal_delivered sig s)"
  by (cases "sg_delivered s"; cases "sg_waiter s")
     (auto simp: signal_delivered_def signal_ok_def taken_def Let_def)

lemma signal_ok_waiter: "signal_ok s \<Longrightarrow> waiter_runs s = Some t \<Longrightarrow> signal_ok t"
  by (cases "sg_waiter s"; clarsimp simp: waiter_runs_def signal_ok_def taken_def)

lemma signal_ok_received:
  "signal_ok s \<Longrightarrow> sg_waiter s = SW_Select \<Longrightarrow> sg_channel s = sig # rest \<Longrightarrow>
     signal_ok (s\<lparr>sg_channel := rest, sg_waiter := SW_Log sig\<rparr>)"
  by (cases "sg_delivered s") (auto simp: signal_ok_def taken_def)

lemma signal_ok_done: "signal_ok s \<Longrightarrow> sg_waiter s = SW_Select \<Longrightarrow> sg_cancelled s \<Longrightarrow> signal_ok (s\<lparr>sg_waiter := SW_Exited\<rparr>)"
  by (cases "sg_delivered s") (simp_all add: signal_ok_def taken_def)

lemma signal_ok_closer: "signal_ok s \<Longrightarrow> closer_runs s = Some t \<Longrightarrow> signal_ok t"
  by (cases "sg_waiter s"; clarsimp simp: closer_runs_def signal_ok_def taken_def split: if_splits)

lemma signal_ok_stop: "signal_ok s \<Longrightarrow> stop_runs s = Some t \<Longrightarrow> signal_ok t"
  by (cases "sg_stop s"; cases "sg_waiter s"; clarsimp simp: stop_runs_def signal_ok_def taken_def)

lemma signal_ok_step:
  assumes "signal_ok s" and "signal_exec e s = Some t"
  shows "signal_ok t"
proof (cases e)
  case (Signal_Delivered sig)
  with assms signal_ok_delivered show ?thesis by (auto simp: signal_exec_def split: if_splits)
next
  case Waiter_Receives
  with assms(2) obtain sig rest where "sg_waiter s = SW_Select" "sg_channel s = sig # rest"
      "t = s\<lparr>sg_channel := rest, sg_waiter := SW_Log sig\<rparr>"
    by (auto simp: signal_exec_def split: waiter_pc.splits list.splits)
  with signal_ok_received [OF assms(1)] show ?thesis by simp
next
  case Waiter_Sees_Done
  with assms(2) signal_ok_done [OF assms(1)] show ?thesis by (auto simp: signal_exec_def split: if_splits)
next
  case Waiter_Runs
  with assms(2) signal_ok_waiter [OF assms(1)] show ?thesis by (simp add: signal_exec_def)
next
  case Closer_Runs
  with assms(2) signal_ok_closer [OF assms(1)] show ?thesis by (simp add: signal_exec_def)
next
  case Stop_Runs
  with assms(2) signal_ok_stop [OF assms(1)] show ?thesis by (simp add: signal_exec_def)
qed

lemma signal_ok_context: "signal_ok signal_context"
  by (simp add: signal_ok_def signal_context_def taken_def)

interpretation sg: invariant_runs signal_exec signal_context signal_ok
  by unfold_locales (simp_all add: signal_ok_step signal_ok_context)

text \<open>What the two goroutines have left to do; the signals and \<open>stop\<close> are not theirs.\<close>

definition goroutine_event :: "signal_event \<Rightarrow> bool" where
  "goroutine_event e \<longleftrightarrow> e \<in> {Waiter_Receives, Waiter_Sees_Done, Waiter_Runs, Closer_Runs}"

definition signal_rank :: "signal_state \<Rightarrow> nat" where
  "signal_rank s =
     (case sg_waiter s of SW_Select \<Rightarrow> 3 | SW_Log sig \<Rightarrow> 2 | SW_Cancel \<Rightarrow> 1 | SW_Exited \<Rightarrow> 0) + (if sg_closer s then 1 else 0)"

interpretation sgt: ranked_runs signal_exec signal_rank goroutine_event
  by unfold_locales
     (auto simp: signal_exec_def signal_rank_def goroutine_event_def waiter_runs_def closer_runs_def
       split: waiter_pc.splits list.splits if_splits)

text \<open>
  A signal delivered while \<open>Start\<close> serves closes the stream once: however the goroutines are scheduled
  they can go on until \<open>CloseSend\<close> has been called, in at most four steps, and it is never called again.
\<close>

lemma signal_progress:
  assumes "signal_ok s" and "sg_delivered s \<noteq> [] \<or> sg_cancelled s" and "sg_closer s"
  shows "\<exists>e t. goroutine_event e \<and> signal_exec e s = Some t"
proof (cases "sg_cancelled s")
  case True
  with assms(3) show ?thesis
    by (intro exI [of _ Closer_Runs]) (simp add: signal_exec_def closer_runs_def goroutine_event_def)
next
  case False
  then have live: "sg_waiter s \<noteq> SW_Exited" using assms(1) by (auto simp: signal_ok_def)
  show ?thesis
  proof (cases "sg_waiter s")
    case SW_Select
    with assms False obtain sig where "sg_channel s = [sig]"
      by (cases "sg_delivered s") (auto simp: signal_ok_def)
    with SW_Select show ?thesis
      by (intro exI [of _ Waiter_Receives]) (simp add: signal_exec_def goroutine_event_def)
  qed (use live in \<open>auto intro!: exI [of _ Waiter_Runs] simp: signal_exec_def waiter_runs_def goroutine_event_def\<close>)
qed

lemma goroutines_keep_delivered:
  "signal_exec e s = Some t \<Longrightarrow> goroutine_event e \<Longrightarrow>
     sg_delivered t = sg_delivered s \<and> (sg_cancelled s \<longrightarrow> sg_cancelled t)"
  by (auto simp: signal_exec_def goroutine_event_def waiter_runs_def closer_runs_def
      split: waiter_pc.splits list.splits if_splits)

theorem signal_closes_stream:
  assumes "exec_all signal_exec es signal_context = Some s" and "sg_delivered s \<noteq> []"
  shows "\<exists>es' t. list_all goroutine_event es' \<and> length es' \<le> 4 \<and> exec_all signal_exec es' s = Some t \<and>
    sg_close_sends t = 1 \<and> sg_logged t \<in> {[], take 1 (sg_delivered s)}"
proof -
  let ?I = "\<lambda>u. signal_ok u \<and> sg_delivered u = sg_delivered s"
  have step: "?I v" if "?I u" "signal_exec e u = Some v" "goroutine_event e" for u v e
    using that signal_ok_step goroutines_keep_delivered by metis
  have live: "\<exists>e v. goroutine_event e \<and> signal_exec e u = Some v" if "?I u" "\<not> \<not> sg_closer u" for u
    using that signal_progress [of u] assms(2) by auto
  have "?I s" using sg.exec_all_inv [OF assms(1)] by simp
  have "\<exists>es' t. list_all goroutine_event es' \<and> exec_all signal_exec es' s = Some t \<and> \<not> sg_closer t \<and> ?I t"
    by (rule sgt.run_completes [of ?I "\<lambda>u. \<not> sg_closer u"]) (fact step, fact live, fact \<open>?I s\<close>)
  then obtain es' t where
    t: "list_all goroutine_event es'" "exec_all signal_exec es' s = Some t" "\<not> sg_closer t" "?I t"
    by blast
  have "length es' \<le> 4"
    using sgt.run_bound [OF t(2,1)] by (simp add: signal_rank_def split: waiter_pc.splits if_splits)
  moreover have "sg_close_sends t = 1" using t(3,4) by (simp add: signal_ok_def)
  moreover have "taken t \<in> {[], take 1 (sg_delivered t)}" using t(4) unfolding signal_ok_def by blast
  then have "taken t \<in> {[], take 1 (sg_delivered s)}" using t(4) by simp
  then have "sg_logged t \<in> {[], take 1 (sg_delivered s)}"
    by (cases "sg_delivered s"; cases "sg_waiter t") (simp_all add: taken_def)
  ultimately show ?thesis using t(1,2) by (intro exI [of _ es'] exI [of _ t]) simp
qed

text \<open>Without a signal the stream is closed only by the \<open>stop\<close> of a \<open>Start\<close> that is returning.\<close>

lemma close_needs_cause:
  assumes "exec_all signal_exec es signal_context = Some s" and "0 < sg_close_sends s"
  shows "sg_logged s \<noteq> [] \<or> sg_stop s = SF_Returned"
  using sg.exec_all_inv [OF assms(1)] assms(2) by (auto simp: signal_ok_def split: if_splits)

theorem signal_closes_stream_witness:
  "\<exists>es t. exec_all signal_exec ([Signal_Delivered ''interrupt'', Signal_Delivered ''terminated''] @ es) signal_context = Some t \<and>
     sg_close_sends t = 1"
proof -
  let ?s = "signal_context\<lparr>sg_channel := [''interrupt''], sg_delivered := [''interrupt'', ''terminated'']\<rparr>"
  have run: "exec_all signal_exec [Signal_Delivered ''interrupt'', Signal_Delivered ''terminated''] signal_context = Some ?s"
    by (simp add: signal_exec_def signal_delivered_def signal_context_def)
  from signal_closes_stream [OF run]
  obtain es t where "exec_all signal_exec es ?s = Some t" "sg_close_sends t = 1" by auto
  with run show ?thesis by (intro exI [of _ es] exI [of _ t]) (simp add: exec_all_append del: exec_all.simps append.simps)
qed

end
