(* ===== verification/Spec2Isabelle.thy ===== *)
theory Spec2Isabelle
  imports Go_Prelude Go_Utf8 Rpc_Proto Json_Value Sdk_Bindings Binding_Types Sdk_App Sdk_Middleware
    Worker_Convert Worker_Metadata Worker_Handlers Go_Runs Host_Config Http_Rendezvous Worker_Stream
    Worker_System Log_Pipeline Placeholder_Proxy Durable_Runner Durable_Client Durable_Middleware
    Blob_Trigger Otel_Collector Otel_Func App_System Proxy_System Payload_Types
    Worker_Start Process_Start Worker_Signals
begin

text \<open>
  A verification development for the Azure Functions Go worker.

  \<^bold>\<open>The program.\<close>  User code builds an application with the SDK (\<open>sdk\<close>): it registers functions with
  triggers and passes middlewares to \<open>Use\<close>.  \<open>worker.Start\<close> (\<open>worker\<close>) connects to the Functions host
  over one gRPC stream, tells it which functions there are, loads those the host asks for and runs
  invocations: inputs are converted to the handler's arguments, the middleware chain runs around
  the handler, the return value is encoded.  Each message has a goroutine of its own; all of them, and
  the logs, share one outbound sender.  HTTP invocations can be served by a loopback proxy in the
  worker, where the host's forwarded request and the gRPC invocation meet.  In a placeholder
  container the process is \<open>proxy\<close>: it answers the host until an application is assigned, starts it as a
  child and bridges the streams.  Middlewares of the repository are \<open>middleware/durabletask\<close>
  (orchestrations, activities, management client) and \<open>middleware/otelfunc\<close> (tracing); \<open>otelcollector\<close>
  embeds an OpenTelemetry collector as a lifecycle hook; \<open>triggers/blob\<close> makes blob clients.

  \<^bold>\<open>The theories\<close>, by what they model.

  \<^item> \<open>Go_Prelude\<close>, \<open>Go_Utf8\<close>, \<open>Json_Value\<close>: the language and standard library as far as the sources use
    them.  A \<open>string\<close> or \<open>[]byte\<close> is a HOL \<open>string\<close>, a map an association list (its order stands for
    one order of \<open>range\<close>), a nil map or slice \<open>None\<close>, an error its message, a call that may panic an
    \<open>outcome\<close>.
  \<^item> \<open>Go_Runs\<close>: transition systems for the concurrent parts and the contracts they prove, as locales: an
    invariant, a simulation of a specification, a rank that every internal event lowers.
  \<^item> \<open>Rpc_Proto\<close>: the messages and their nil-safe getters (\<open>worker/proto/FunctionRpc.pb.go\<close>).
  \<^item> \<open>Sdk_Bindings\<close> (\<open>sdk/bindings\<close>), \<open>Binding_Types\<close> (\<open>internal/bindingtype/type.go\<close>), \<open>Sdk_App\<close>
    (\<open>sdk/app.go\<close>, \<open>options.go\<close>, \<open>generic.go\<close>, \<open>factories.go\<close>, \<open>retry.go\<close>), \<open>Sdk_Middleware\<close>
    (\<open>sdk/middleware.go\<close>, \<open>middleware_context.go\<close>, \<open>context.go\<close>, \<open>lifecycle.go\<close>, \<open>safego.go\<close>).
  \<^item> \<open>Worker_Convert\<close> (\<open>worker/converter.go\<close>, \<open>generic.go\<close>, \<open>http_converters.go\<close>, \<open>http_helpers.go\<close>),
    \<open>Worker_Metadata\<close> (\<open>metadata.go\<close>, \<open>dependencies.go\<close>, \<open>binarysize.go\<close>), \<open>Worker_Handlers\<close>
    (\<open>handlers.go\<close>, \<open>dispatcher.go\<close>, \<open>invocation.go\<close>), \<open>Host_Config\<close> (\<open>host_configuration.go\<close>,
    \<open>host_configuration_json.go\<close>), \<open>Http_Rendezvous\<close> (\<open>http_proxy.go\<close>), \<open>Worker_Stream\<close>
    (\<open>config.go\<close>, \<open>grpc.go\<close>, \<open>worker.go\<close>, \<open>internal/hostclient\<close>), \<open>Log_Pipeline\<close> (\<open>worker/log\<close>,
    \<open>sdk/log.go\<close>).
  \<^item> \<open>Worker_Start\<close> (\<open>sdk/init.go\<close>, the logging of \<open>worker/worker.go\<close>), \<open>Worker_Signals\<close> (its
    \<open>signalContext\<close>) and \<open>Process_Start\<close> (the flags of \<open>worker/config.go\<close>, \<open>main\<close> of \<open>proxy/main.go\<close>): the
    processes from their arguments to their end, and where a record of the program goes at each time.
  \<^item> \<open>Placeholder_Proxy\<close> (\<open>proxy/main.go\<close>), \<open>Durable_Runner\<close>, \<open>Durable_Client\<close>, \<open>Durable_Middleware\<close>
    (\<open>middleware/durabletask\<close>), \<open>Blob_Trigger\<close> (\<open>triggers/blob/blob.go\<close>), \<open>Otel_Func\<close>
    (\<open>middleware/otelfunc\<close>), \<open>Otel_Collector\<close> (\<open>otelcollector/otelcollector.go\<close>).
  \<^item> \<open>Payload_Types\<close>: the payload structs of \<open>sdk/bindings\<close> and the handler types of \<open>sdk/handlers.go\<close> as
    the start of a type environment, on which the converters and handlers above run.
  \<^item> The parts together: \<open>Worker_System\<close> is the worker's process (receive loop, a goroutine per message
    on the dispatcher, logs, sender); \<open>App_System\<close> joins the set-up calls of the SDK, the durable
    middleware among them, to what the worker reports and loads; \<open>Proxy_System\<close> puts the worker's process
    behind the placeholder proxy.

  \<^bold>\<open>State and operations.\<close>  A component's state is a record with the fields of the Go struct; an
  operation is a function with the branches of the Go function, errors and panics included.  Where
  goroutines share state, the state also has each goroutine's place in its code, and
  \<open>exec event state\<close> is one operation on shared memory: one critical section, one channel operation, one
  branch of a \<open>select\<close>.  A run is a list of events, in any order the guards allow, so a theorem on runs
  holds for every scheduling.  The transition systems are \<open>sender_exec\<close>, \<open>dispatcher_exec\<close>, \<open>worker_exec\<close>,
  \<open>rv_exec\<close> (HTTP rendezvous), \<open>proxy_exec\<close>, \<open>cache_exec\<close> (blob clients), \<open>collector_exec\<close>, \<open>signal_exec\<close> and
  \<open>app_exec\<close>.

  \<^bold>\<open>Parameters.\<close>  Code that is not under \<open>src\<close> is an argument: \<open>codec\<close> (\<open>encoding/json\<close>, \<open>net/http\<close>),
  \<open>wire\<close> (\<open>protowire\<close>), \<open>engine\<close> (the Durable Task engine), \<open>otel_process\<close> (OpenTelemetry's SDK), \<open>storage\<close>
  (the Azure SDK), \<open>net_env\<close> (gRPC dialling), \<open>flag_library\<close> (\<open>pflag\<close>), SHA-256, \<open>url.Parse\<close>, the file system, the collector and its factories; so are user handlers,
  client factories and the process environment.  Reflection works on a list of types (\<open>tenv\<close>).

  \<^bold>\<open>What the lemmas show.\<close>
  \<^item> Worker: whatever the interleaving, each message is answered at most once with a response of its own,
    logs apart nothing else is sent, no goroutine is ever stuck, and a load that was answered is seen by
    every later invocation (\<open>Worker_System\<close>); the same through the placeholder proxy (\<open>Proxy_System\<close>).
    The sender refines a bounded pipe that delivers in order until it breaks (\<open>Worker_Stream\<close>).
  \<^item> Invocations: arguments are bound to the inputs of their names, the chain runs in registration
    order, and the result is what the user's code did, panics and errors included.  At the SDK's own
    payload types decoding never panics, SQL changes apart, and a message's body and metadata reach
    the handler (\<open>Payload_Types\<close>).
  \<^item> Set-up: what a registration stores, the checks of generic registrations, and that the host can load
    exactly what it is told of.  The type walks end on recursive types.
  \<^item> HTTP rendezvous: a goroutine gets its own invocation's result only, and all of them can end.
  \<^item> Proxy: forwarding in order, one answer per reload request, and when a channel can be closed twice; a
    child reads the proxy's configuration back from its command line.
  \<^item> Logs: what the host and the observers get of a record, the category filter, and that logging changes
    nothing else of \<open>Start\<close>.
  \<^item> Formats read back: host configurations in six Unicode forms, logfmt attributes, orchestrator
    requests, management URLs, return values.
  \<^item> Ownership: connections and providers are closed exactly when they were made here.

  \<^bold>\<open>Bounds and fuel.\<close>  Recursion is structural or has a measure.  The loop that decodes an orchestrator
  request takes the length of its input as fuel, which is enough because every field consumes a byte;
  walks along pointers and types carry the visited set of the source.  The outbound queue holds 256
  messages as in the source.  The liveness theorems give, for every reachable state, a run of internal
  events to the end and a bound (\<open>sender_rank\<close>, \<open>worker_rank\<close>, and their likes) on the length of any.

  \<^bold>\<open>Not modelled.\<close>  The generated gRPC, identity and nullable-types code and protobuf's encoding; the
  listener and server loop of \<open>net/http\<close>; the proxy's gRPC server; OpenTelemetry's
  log bridge; memory exhaustion and data races inside user code, which runs within one step.
  Diagnostics the dispatcher logs on its way do not change its responses and
  are left out of it; the worker's logs appear as sends of their own.  Samples, integration tests and
  build tooling are not part of the program.
\<close>

end
